(* ===== verification/Prelude.thy ===== *)
theory Prelude
  imports Main "HOL-Library.Word"
begin

text \<open>
  The shared vocabulary of the development.

  \<^item> Bytes and buffers. A C \<open>char\<close> array is a list of \<open>8 word\<close>. \<open>rd\<close> and \<open>wr\<close> are the
    reads and writes that \<open>memcpy\<close>, \<open>memmove\<close> and pointer dereferences perform on such an
    array; the collection \<open>buf_simps\<close> holds their laws.
  \<^item> 32-bit integers in memory. \<open>le32\<close> and \<open>of_le32\<close> are the little-endian two's complement
    representation of a C \<open>int\<close>, and \<open>wrap32\<close> is the wrap-around of atomic 32-bit arithmetic.
  \<^item> Programs. Stateful C++ code that may throw is a function
    \<open>'s \<Rightarrow> (fault + 'a) \<times> 's\<close>: the state reached when the exception leaves the function is
    part of the result, because the C++ objects keep the changes made before the throw.
    \<open>ret\<close>, \<open>throw\<close>, \<open>bind\<close> and \<open>guard\<close> compose such programs; the collection
    \<open>prog_simps\<close> unfolds them.
\<close>

named_theorems buf_simps "laws of buffer reads and writes"
named_theorems prog_simps "unfolding of the program combinators"

section \<open>Bytes and buffers\<close>

type_synonym byte = "8 word"
type_synonym bytes = "byte list"

definition rd :: "nat \<Rightarrow> nat \<Rightarrow> 'a list \<Rightarrow> 'a list" where
  "rd off n xs = take n (drop off xs)"

definition wr :: "nat \<Rightarrow> 'a list \<Rightarrow> 'a list \<Rightarrow> 'a list" where
  "wr off ys xs = take off xs @ ys @ drop (off + length ys) xs"

lemma length_rd [buf_simps]: "off + n \<le> length xs \<Longrightarrow> length (rd off n xs) = n"
  by (simp add: rd_def)

lemma length_rd_le: "length (rd off n xs) \<le> n"
  by (simp add: rd_def)

lemma length_wr [buf_simps]: "off + length ys \<le> length xs \<Longrightarrow> length (wr off ys xs) = length xs"
  by (simp add: wr_def)

lemma nth_rd [buf_simps]: "off + n \<le> length xs \<Longrightarrow> i < n \<Longrightarrow> rd off n xs ! i = xs ! (off + i)"
  by (simp add: rd_def)

lemma nth_wr:
  assumes "off + length ys \<le> length xs" "i < length xs"
  shows "wr off ys xs ! i =
    (if off \<le> i \<and> i < off + length ys then ys ! (i - off) else xs ! i)"
  using assms by (auto simp: wr_def nth_append min_def)

lemma rd_wr_same [buf_simps]: "off \<le> length xs \<Longrightarrow> n = length ys \<Longrightarrow> rd off n (wr off ys xs) = ys"
  by (simp add: rd_def wr_def)

lemma rd_wr_disjoint:
  assumes "off + length ys \<le> length xs" "off' + n \<le> length xs"
    and "off' + n \<le> off \<or> off + length ys \<le> off'"
  shows "rd off' n (wr off ys xs) = rd off' n xs"
proof (rule nth_equalityI)
  show "length (rd off' n (wr off ys xs)) = length (rd off' n xs)"
    using assms by (simp add: buf_simps)
  fix i assume "i < length (rd off' n (wr off ys xs))"
  then have "i < n" using assms by (simp add: buf_simps)
  then show "rd off' n (wr off ys xs) ! i = rd off' n xs ! i"
    using assms by (auto simp: buf_simps nth_wr)
qed

lemma rd_0_all [simp]: "n = length xs \<Longrightarrow> rd 0 n xs = xs"
  by (simp add: rd_def)

lemma rd_rd: "i + k \<le> n \<Longrightarrow> rd i k (rd off n xs) = rd (off + i) k xs"
  by (simp add: rd_def drop_take add.commute min_def)

lemma wr_rd_id: "off + n \<le> length xs \<Longrightarrow> wr off (rd off n xs) xs = xs"
  by (simp add: wr_def rd_def) (metis append_take_drop_id drop_drop add.commute)

lemma wr_wr_same: "off \<le> length xs \<Longrightarrow> length ys = length zs \<Longrightarrow> wr off ys (wr off zs xs) = wr off ys xs"
  by (simp add: wr_def)

lemma rd_wr_inside:
  assumes "off + length ys \<le> length xs" "off \<le> i" "i + k \<le> off + length ys"
  shows "rd i k (wr off ys xs) = rd (i - off) k ys"
proof -
  have "rd i k (wr off ys xs) = rd (i - off) k (rd off (length ys) (wr off ys xs))"
    using assms by (simp add: rd_rd)
  then show ?thesis
    using assms by (simp add: buf_simps)
qed

section \<open>Integers in memory\<close>

definition wrap32 :: "int \<Rightarrow> int" where
  "wrap32 i = (let u = i mod 2 ^ 32 in if u \<ge> 2 ^ 31 then u - 2 ^ 32 else u)"

definition in32 :: "int \<Rightarrow> bool" where
  "in32 i \<longleftrightarrow> - (2 ^ 31) \<le> i \<and> i < 2 ^ 31"

lemma wrap32_id [simp]: "in32 i \<Longrightarrow> wrap32 i = i"
proof -
  assume i: "in32 i"
  show ?thesis
  proof (cases "0 \<le> i")
    case True
    with i have "i mod 2 ^ 32 = i" by (simp add: in32_def)
    with True i show ?thesis by (simp add: wrap32_def in32_def)
  next
    case False
    with i have "i mod 2 ^ 32 = i + 2 ^ 32"
      by (intro mod_pos_pos_trivial [of "i + 2 ^ 32" "2 ^ 32", simplified mod_add_self2])
        (simp_all add: in32_def)
    with False i show ?thesis by (simp add: wrap32_def in32_def)
  qed
qed

lemma in32_wrap32: "in32 (wrap32 i)"
proof -
  have "0 \<le> i mod 4294967296" "i mod 4294967296 < 4294967296" by simp_all
  then show ?thesis by (auto simp: wrap32_def in32_def Let_def)
qed

definition le32 :: "int \<Rightarrow> bytes" where
  "le32 i = [word_of_int i, word_of_int (i div 256), word_of_int (i div 65536),
             word_of_int (i div 16777216)]"

definition of_le32 :: "bytes \<Rightarrow> int" where
  "of_le32 bs = wrap32 (uint (bs ! 0) + 256 * uint (bs ! 1) + 65536 * uint (bs ! 2)
                        + 16777216 * uint (bs ! 3))"

lemma length_le32 [simp]: "length (le32 i) = 4"
  by (simp add: le32_def)

lemma mod_2_32_digits:
  fixes i :: int
  shows "i mod 256 + 256 * (i div 256 mod 256) + 65536 * (i div 65536 mod 256)
     + 16777216 * (i div 16777216 mod 256) = i mod 4294967296"
proof -
  have 1: "i mod 4294967296 = 256 * (i div 256 mod 16777216) + i mod 256"
    using zmod_zmult2_eq [of 16777216 i 256] by simp
  have 2: "i div 256 mod 16777216 = 256 * (i div 65536 mod 65536) + i div 256 mod 256"
    using zmod_zmult2_eq [of 65536 "i div 256" 256] by (simp add: zdiv_zmult2_eq [symmetric])
  have 3: "i div 65536 mod 65536 = 256 * (i div 16777216 mod 256) + i div 65536 mod 256"
    using zmod_zmult2_eq [of 256 "i div 65536" 256] by (simp add: zdiv_zmult2_eq [symmetric])
  show ?thesis by (simp add: 1 2 3)
qed

lemma uint_byte: "uint (word_of_int x :: byte) = x mod 256"
  by (simp add: uint_word_of_int)

lemma of_le32_le32: "of_le32 (le32 i) = wrap32 i"
proof -
  have "of_le32 (le32 i) = wrap32 (i mod 4294967296)"
    by (simp add: of_le32_def le32_def uint_byte mod_2_32_digits)
  then show ?thesis by (simp add: wrap32_def)
qed

lemma of_le32_le32_id [simp]: "in32 i \<Longrightarrow> of_le32 (le32 i) = i"
  by (simp add: of_le32_le32)

lemma in32_of_le32: "in32 (of_le32 bs)"
  by (simp add: of_le32_def in32_wrap32)

section \<open>Programs\<close>

definition ret :: "'a \<Rightarrow> 's \<Rightarrow> ('e + 'a) \<times> 's" where
  "ret a s = (Inr a, s)"

definition throw :: "'e \<Rightarrow> 's \<Rightarrow> ('e + 'a) \<times> 's" where
  "throw e s = (Inl e, s)"

definition bind :: "('s \<Rightarrow> ('e + 'a) \<times> 's) \<Rightarrow> ('a \<Rightarrow> 's \<Rightarrow> ('e + 'b) \<times> 's) \<Rightarrow> 's \<Rightarrow> ('e + 'b) \<times> 's" where
  "bind m f s = (case m s of (Inl e, s') \<Rightarrow> (Inl e, s') | (Inr a, s') \<Rightarrow> f a s')"

definition guard :: "bool \<Rightarrow> 'e \<Rightarrow> 's \<Rightarrow> ('e + unit) \<times> 's" where
  "guard b e s = (if b then (Inr (), s) else (Inl e, s))"

definition update :: "('s \<Rightarrow> 's) \<Rightarrow> 's \<Rightarrow> ('e + unit) \<times> 's" where
  "update g s = (Inr (), g s)"

definition query :: "('s \<Rightarrow> 'a) \<Rightarrow> 's \<Rightarrow> ('e + 'a) \<times> 's" where
  "query g s = (Inr (g s), s)"

lemmas prog_defs = ret_def throw_def bind_def guard_def update_def query_def
declare prog_defs [prog_simps]

lemma bind_Inr [simp]: "m s = (Inr a, s') \<Longrightarrow> bind m f s = f a s'"
  by (simp add: bind_def)

lemma bind_bool [simp]:
  "m s = (Inr True, s') \<Longrightarrow> bind m f s = f True s'" "m s = (Inr False, s') \<Longrightarrow> bind m f s = f False s'"
  by (simp_all add: bind_def)

lemma bind_Inl [simp]: "m s = (Inl e, s') \<Longrightarrow> bind m f s = (Inl e, s')"
  by (simp add: bind_def)

lemma bind_ret [simp]: "bind (ret a) f = f a"
  by (simp add: fun_eq_iff bind_def ret_def)

lemma bind_assoc: "bind (bind m f) g = bind m (\<lambda>a. bind (f a) g)"
  by (simp add: fun_eq_iff bind_def split: prod.splits sum.splits)

lemma bind_eq_Inr:
  "bind m f s = (Inr b, s'') \<longleftrightarrow> (\<exists>a s'. m s = (Inr a, s') \<and> f a s' = (Inr b, s''))"
  by (auto simp: bind_def split: prod.splits sum.splits)

end
