(* ===== verification/Defs.thy ===== *)
theory Defs
  imports Prelude
begin

text \<open>
  The constants of \<open>common/config.h\<close>, the basic types of \<open>defs.h\<close> and the exception
  classes of \<open>errors.h\<close>.

  A run of the code ends in a value, in an exception of the class hierarchy below
  \<open>RedBaseError\<close> or of the standard library (by its name), in a failed \<open>assert\<close>, or in undefined behaviour (a null page pointer that
  is dereferenced, an access outside a page buffer). The last two are outcomes of the model
  of their own, so that a theorem that excludes them says that the code never reaches them.
  \<open>OutOfFuel\<close> is the outcome of the loops and recursions of the code that need not end, when the
  bound on their number of turns is reached.
\<close>

section \<open>Constants\<close>

definition INVALID_FRAME_ID :: int where "INVALID_FRAME_ID = -1"
definition INVALID_PAGE_ID :: int where "INVALID_PAGE_ID = -1"
definition INVALID_TXN_ID :: int where "INVALID_TXN_ID = -1"
definition INVALID_LSN :: int where "INVALID_LSN = -1"
definition PAGE_SIZE :: nat where "PAGE_SIZE = 4096"

lemma PAGE_SIZE_pos [simp]: "0 < PAGE_SIZE"
  by (simp add: PAGE_SIZE_def)

type_synonym frame_id_t = int
type_synonym page_id_t = int
type_synonym txn_id_t = int
type_synonym lsn_t = int

section \<open>Record identifiers and column types\<close>

record Rid =
  rid_page_no :: int
  rid_slot_no :: int

definition Rid_eq :: "Rid \<Rightarrow> Rid \<Rightarrow> bool" where
  "Rid_eq x y \<longleftrightarrow> rid_page_no x = rid_page_no y \<and> rid_slot_no x = rid_slot_no y"

lemma Rid_eq_iff: "Rid_eq x y \<longleftrightarrow> x = y"
  by (auto simp: Rid_eq_def intro: Rid.equality)

datatype ColType = TYPE_INT | TYPE_FLOAT | TYPE_STRING

fun coltype2str :: "ColType \<Rightarrow> string" where
  "coltype2str TYPE_INT = ''INT''"
| "coltype2str TYPE_FLOAT = ''FLOAT''"
| "coltype2str TYPE_STRING = ''STRING''"

section \<open>Decimal numerals\<close>

text \<open>\<open>std::to_string\<close> on integers: the decimal digits, with a minus sign where needed.\<close>

fun digit :: "nat \<Rightarrow> char" where
  "digit n = char_of (48 + n)"

fun nat_to_string :: "nat \<Rightarrow> string" where
  "nat_to_string n = (if n < 10 then [digit n] else nat_to_string (n div 10) @ [digit (n mod 10)])"

declare nat_to_string.simps [simp del]

definition to_string :: "int \<Rightarrow> string" where
  "to_string i = (if i < 0 then CHR ''-'' # nat_to_string (nat (- i)) else nat_to_string (nat i))"

lemma digit_inj: "a < 10 \<Longrightarrow> b < 10 \<Longrightarrow> digit a = digit b \<Longrightarrow> a = b"
proof -
  assume a: "a < 10" "b < 10" and eq: "digit a = digit b"
  then have "(of_char (char_of (48 + a) :: char) :: nat) = of_char (char_of (48 + b) :: char)"
    by simp
  then have "(48 + a) mod 256 = (48 + b) mod 256"
    by (simp only: of_char_of)
  with a show "a = b" by simp
qed

lemma nat_to_string_neq_Nil [simp]: "nat_to_string n \<noteq> []" "[] \<noteq> nat_to_string n"
  by (subst nat_to_string.simps, simp)+

lemma nat_to_string_inj: "nat_to_string m = nat_to_string n \<Longrightarrow> m = n"
proof (induction m arbitrary: n rule: nat_to_string.induct)
  case (1 m)
  note m = nat_to_string.simps [of m] and n = nat_to_string.simps [of n]
  show ?case
  proof (cases "m < 10"; cases "n < 10")
    assume "m < 10" "n < 10"
    with 1 m n digit_inj show ?thesis by (metis list.inject)
  next
    assume "m < 10" "\<not> n < 10"
    with 1 m n show ?thesis by (simp del: digit.simps)
  next
    assume "\<not> m < 10" "n < 10"
    with 1 m n show ?thesis by (simp del: digit.simps)
  next
    assume ge: "\<not> m < 10" "\<not> n < 10"
    with 1(2) m n have "nat_to_string (m div 10) = nat_to_string (n div 10)"
      and d: "digit (m mod 10) = digit (n mod 10)" by (simp_all del: digit.simps)
    with 1(1) ge have "m div 10 = n div 10" by blast
    moreover from d have "m mod 10 = n mod 10" by (rule digit_inj [rotated 2]) simp_all
    ultimately show ?thesis by (metis div_mult_mod_eq)
  qed
qed

text \<open>And back.\<close>

definition is_digit :: "char \<Rightarrow> bool" where
  "is_digit c \<longleftrightarrow> (48 :: nat) \<le> of_char c \<and> of_char c \<le> (57 :: nat)"

definition digits_value :: "string \<Rightarrow> nat" where
  "digits_value ds = foldl (\<lambda>v c. 10 * v + (of_char c - 48)) 0 ds"

lemma digit_code: "n < 10 \<Longrightarrow> (of_char (digit n) :: nat) = 48 + n"
  by simp

lemma digits_nat_to_string: "list_all is_digit (nat_to_string n) \<and> digits_value (nat_to_string n) = n"
proof (induction n rule: nat_to_string.induct)
  case (1 n)
  have d: "is_digit (digit (n mod 10))" "of_char (digit (n mod 10)) - 48 = n mod 10"
    using digit_code [of "n mod 10"] by (simp_all add: is_digit_def del: digit.simps)
  show ?case
  proof (cases "n < 10")
    case True
    then show ?thesis using d by (simp add: nat_to_string.simps [of n] digits_value_def del: digit.simps)
  next
    case False
    then show ?thesis using 1 d by (simp add: nat_to_string.simps [of n] digits_value_def del: digit.simps)
  qed
qed

section \<open>Exceptions\<close>

datatype RedBaseError =
    InternalError string
  | UnixError
  | FileNotOpenError int
  | FileNotClosedError string
  | FileExistsError string
  | FileNotFoundError string
  | RecordNotFoundError int int
  | InvalidRecordSizeError int
  | InvalidColLengthError int
  | IndexEntryNotFoundError
  | DatabaseNotFoundError string
  | DatabaseExistsError string
  | TableNotFoundError string
  | TableExistsError string
  | ColumnNotFoundError string
  | IndexNotFoundError string string
  | IndexExistsError string string
  | InvalidValueCountError
  | StringOverflowError
  | IncompatibleTypeError string string
  | AmbiguousColumnError string
  | PageNotExistError string int

text \<open>
  The message each constructor passes to \<open>RedBaseError\<close>, which puts \<open>Error: \<close> before it.
  \<open>UnixError\<close> reports \<open>strerror(errno)\<close>, which is the first argument.
\<close>

fun error_msg :: "string \<Rightarrow> RedBaseError \<Rightarrow> string" where
  "error_msg _ (InternalError msg) = msg"
| "error_msg strerr UnixError = strerr"
| "error_msg _ (FileNotOpenError fd) = ''Invalid file descriptor: '' @ to_string fd"
| "error_msg _ (FileNotClosedError f) = ''File is opened: '' @ f"
| "error_msg _ (FileExistsError f) = ''File already exists: '' @ f"
| "error_msg _ (FileNotFoundError f) = ''File not found: '' @ f"
| "error_msg _ (RecordNotFoundError p s) =
     ''Record not found: ('' @ to_string p @ '','' @ to_string s @ '')''"
| "error_msg _ (InvalidRecordSizeError n) = ''Invalid record size: '' @ to_string n"
| "error_msg _ (InvalidColLengthError n) = ''Invalid column length: '' @ to_string n"
| "error_msg _ IndexEntryNotFoundError = ''Index entry not found''"
| "error_msg _ (DatabaseNotFoundError d) = ''Database not found: '' @ d"
| "error_msg _ (DatabaseExistsError d) = ''Database already exists: '' @ d"
| "error_msg _ (TableNotFoundError t) = ''Table not found: '' @ t"
| "error_msg _ (TableExistsError t) = ''Table already exists: '' @ t"
| "error_msg _ (ColumnNotFoundError c) = ''Column not found: '' @ c"
| "error_msg _ (IndexNotFoundError t c) = ''Index not found: '' @ t @ ''.'' @ c"
| "error_msg _ (IndexExistsError t c) = ''Index already exists: '' @ t @ ''.'' @ c"
| "error_msg _ InvalidValueCountError = ''Invalid value count''"
| "error_msg _ StringOverflowError = ''String is too long''"
| "error_msg _ (IncompatibleTypeError l r) =
     ''Incompatible type error: lhs '' @ l @ '', rhs '' @ r"
| "error_msg _ (AmbiguousColumnError c) = ''Ambiguous column: '' @ c"
| "error_msg _ (PageNotExistError t p) =
     ''Page '' @ to_string p @ '' in table '' @ t @ ''not exits''"

definition what :: "string \<Rightarrow> RedBaseError \<Rightarrow> string" where
  "what strerr e = ''Error: '' @ error_msg strerr e"

datatype fault = Exc RedBaseError | StdExc string | AssertFail | UndefinedBehaviour | OutOfFuel

type_synonym 'a res = "fault + 'a"
type_synonym ('s, 'a) prog = "'s \<Rightarrow> (fault + 'a) \<times> 's"

end
