(* ===== verification/Posix.thy ===== *)
theory Posix
  imports Defs
begin

text \<open>
  The file system calls of the C library that \<open>storage/disk_manager.cpp\<close> makes: \<open>open\<close>,
  \<open>close\<close>, \<open>lseek\<close>, \<open>read\<close>, \<open>write\<close>, \<open>unlink\<close> and \<open>stat\<close>, over a state that holds the
  regular files (path to contents), the directories with the sizes that \<open>stat\<close> reports for them, and the process's descriptor table
  (\<open>os_fds\<close> for regular files, \<open>os_reserved\<close> for the descriptors of streams and sockets).
  \<open>open\<close> returns the lowest free descriptor below the process limit, \<open>write\<close> past the end of
  a file fills the gap with zeros, \<open>read\<close> at the end of a file is short, and every call on a
  descriptor that is not open fails with -1. Failures of the medium (a full disk, an I/O
  error) and signals are outside the model.
\<close>

record fdesc =
  fd_path :: string
  fd_pos :: nat

record os =
  os_files :: "string \<rightharpoonup> bytes"
  os_dirs :: "string set"
  os_dir_size :: "string \<Rightarrow> int"
  os_fds :: "int \<rightharpoonup> fdesc"
  os_reserved :: "int set"
  os_fd_limit :: int

function next_fd :: "int \<Rightarrow> int set \<Rightarrow> (int \<rightharpoonup> fdesc) \<Rightarrow> int \<Rightarrow> int option" where
  "next_fd lim rs t n =
     (if lim \<le> n then None else if n \<notin> rs \<and> t n = None then Some n else next_fd lim rs t (n + 1))"
  by pat_completeness auto
termination by (relation "measure (\<lambda>(lim, rs, t, n). nat (lim - n))") auto

declare next_fd.simps [simp del]

lemma next_fd_free:
  "next_fd lim rs t n = Some fd \<Longrightarrow> t fd = None \<and> fd \<notin> rs \<and> n \<le> fd \<and> fd < lim"
proof (induction lim rs t n rule: next_fd.induct)
  case (1 lim rs t n)
  then show ?case
    by (subst (asm) (2) next_fd.simps) (force split: if_splits)
qed

definition os_new_fd :: "os \<Rightarrow> int option" where
  "os_new_fd s = next_fd (os_fd_limit s) (os_reserved s) (os_fds s) 0"

definition os_is_file :: "string \<Rightarrow> os \<Rightarrow> bool" where
  "os_is_file path s \<longleftrightarrow> os_files s path \<noteq> None"

definition os_is_dir :: "string \<Rightarrow> os \<Rightarrow> bool" where
  "os_is_dir path s \<longleftrightarrow> path \<in> os_dirs s"

definition os_size :: "string \<Rightarrow> os \<Rightarrow> int" where
  "os_size path s = (case os_files s path of
       None \<Rightarrow> if path \<in> os_dirs s then os_dir_size s path else -1
     | Some bs \<Rightarrow> int (length bs))"

text \<open>\<open>open(path, O_RDWR)\<close>; -1 stands for failure.\<close>

definition os_open :: "string \<Rightarrow> os \<Rightarrow> int \<times> os" where
  "os_open path s =
     (if os_files s path = None then (-1, s)
      else case os_new_fd s of
        None \<Rightarrow> (-1, s)
      | Some fd \<Rightarrow> (fd, s\<lparr>os_fds := (os_fds s)(fd \<mapsto> \<lparr>fd_path = path, fd_pos = 0\<rparr>)\<rparr>))"

text \<open>\<open>open(path, O_CREAT | O_RDWR, 0666)\<close>.\<close>

definition os_creat :: "string \<Rightarrow> os \<Rightarrow> int \<times> os" where
  "os_creat path s =
     (if path \<in> os_dirs s then (-1, s)
      else case os_new_fd s of
        None \<Rightarrow> (-1, s)
      | Some fd \<Rightarrow>
          (fd, s\<lparr>os_files := (if os_files s path = None then (os_files s)(path \<mapsto> []) else os_files s),
                os_fds := (os_fds s)(fd \<mapsto> \<lparr>fd_path = path, fd_pos = 0\<rparr>)\<rparr>))"

definition os_close :: "int \<Rightarrow> os \<Rightarrow> int \<times> os" where
  "os_close fd s =
     (if os_fds s fd = None then (-1, s) else (0, s\<lparr>os_fds := (os_fds s)(fd := None)\<rparr>))"

definition os_unlink :: "string \<Rightarrow> os \<Rightarrow> int \<times> os" where
  "os_unlink path s =
     (if os_files s path = None then (-1, s) else (0, s\<lparr>os_files := (os_files s)(path := None)\<rparr>))"

text \<open>\<open>lseek(fd, pos, SEEK_SET)\<close> and \<open>lseek(fd, 0, SEEK_END)\<close>.\<close>

definition os_lseek :: "int \<Rightarrow> int \<Rightarrow> os \<Rightarrow> int \<times> os" where
  "os_lseek fd pos s =
     (case os_fds s fd of
        None \<Rightarrow> (-1, s)
      | Some h \<Rightarrow>
          if pos < 0 then (-1, s)
          else (pos, s\<lparr>os_fds := (os_fds s)(fd \<mapsto> h\<lparr>fd_pos := nat pos\<rparr>)\<rparr>))"

definition os_contents :: "int \<Rightarrow> os \<Rightarrow> bytes option" where
  "os_contents fd s =
     (case os_fds s fd of None \<Rightarrow> None | Some h \<Rightarrow> os_files s (fd_path h))"

definition os_fd_path :: "os \<Rightarrow> int \<Rightarrow> string option" where
  "os_fd_path s fd = map_option fd_path (os_fds s fd)"

definition os_lseek_end :: "int \<Rightarrow> os \<Rightarrow> int \<times> os" where
  "os_lseek_end fd s =
     (case os_contents fd s of
        None \<Rightarrow> (-1, s)
      | Some bs \<Rightarrow> os_lseek fd (int (length bs)) s)"

text \<open>\<open>read(fd, buf, n)\<close> returns the bytes between the position and the end of the file, at
  most \<open>n\<close>; \<open>None\<close> stands for -1.\<close>

definition os_read :: "int \<Rightarrow> nat \<Rightarrow> os \<Rightarrow> bytes option \<times> os" where
  "os_read fd n s =
     (case os_fds s fd of
        None \<Rightarrow> (None, s)
      | Some h \<Rightarrow>
          (case os_files s (fd_path h) of
             None \<Rightarrow> (None, s)
           | Some bs \<Rightarrow>
               let got = rd (fd_pos h) n bs
               in (Some got, s\<lparr>os_fds := (os_fds s)(fd \<mapsto> h\<lparr>fd_pos := fd_pos h + length got\<rparr>)\<rparr>)))"

text \<open>Writing at a position: the gap between the old end and the position reads as zeros.\<close>

definition overwrite :: "nat \<Rightarrow> bytes \<Rightarrow> bytes \<Rightarrow> bytes" where
  "overwrite pos new bs = wr pos new (bs @ replicate (pos + length new - length bs) 0)"

definition os_write :: "int \<Rightarrow> bytes \<Rightarrow> os \<Rightarrow> int \<times> os" where
  "os_write fd new s =
     (case os_fds s fd of
        None \<Rightarrow> (-1, s)
      | Some h \<Rightarrow>
          (case os_files s (fd_path h) of
             None \<Rightarrow> (-1, s)
           | Some bs \<Rightarrow>
               (int (length new),
                s\<lparr>os_files := (os_files s)(fd_path h \<mapsto> overwrite (fd_pos h) new bs),
                  os_fds := (os_fds s)(fd \<mapsto> h\<lparr>fd_pos := fd_pos h + length new\<rparr>)\<rparr>)))"

section \<open>Laws of writing\<close>

lemma length_overwrite: "length (overwrite pos new bs) = max (length bs) (pos + length new)"
  by (simp add: overwrite_def length_wr)

lemma rd_overwrite_same: "n = length new \<Longrightarrow> rd pos n (overwrite pos new bs) = new"
  unfolding overwrite_def by (rule rd_wr_same) simp_all

lemma rd_append1: "off + n \<le> length xs \<Longrightarrow> rd off n (xs @ ys) = rd off n xs"
  by (simp add: rd_def)

lemma rd_overwrite_disjoint:
  assumes "off + n \<le> length bs" "off + n \<le> pos \<or> pos + length new \<le> off"
  shows "rd off n (overwrite pos new bs) = rd off n bs"
proof -
  have "rd off n (overwrite pos new bs) = rd off n (bs @ replicate (pos + length new - length bs) 0)"
    unfolding overwrite_def using assms by (intro rd_wr_disjoint) auto
  then show ?thesis using assms by (simp add: rd_append1)
qed

end
