(* ===== verification/Disk_Manager.thy ===== *)
theory Disk_Manager
  imports Posix
begin

text \<open>
  \<open>storage/disk_manager.h\<close> and \<open>storage/disk_manager.cpp\<close>: page reads and writes at page
  granularity, page number allocation, the table of open files and the log file.

  The state is the object's members (\<open>path2fd\<close>, \<open>fd2path\<close>, \<open>log_fd\<close>, the array \<open>fd2pageno\<close>)
  together with the operating system state of \<open>Posix\<close>. The invariant \<open>disk_inv\<close> says that
  the two hash tables are inverse to each other and agree with the descriptor table. The
  locale \<open>page_device\<close> is what the buffer pool relies on: a page written can be read back,
  and a write changes no other page.
\<close>

section \<open>State and operations\<close>

record DiskManager =
  dm_os :: os
  path2fd :: "string \<rightharpoonup> int"
  fd2path :: "int \<rightharpoonup> string"
  log_fd :: int
  fd2pageno :: "int \<Rightarrow> page_id_t"

definition MAX_FD :: int where "MAX_FD = 8192"

definition LOG_FILE_NAME :: string where "LOG_FILE_NAME = ''db.log''"

definition DiskManager_init :: "os \<Rightarrow> DiskManager" where
  "DiskManager_init s = \<lparr>dm_os = s, path2fd = Map.empty, fd2path = Map.empty, log_fd = -1,
                         fd2pageno = (\<lambda>_. 0)\<rparr>"

text \<open>The buffer argument of \<open>write_page\<close> is the list of its \<open>num_bytes\<close> bytes.\<close>

definition write_page :: "int \<Rightarrow> page_id_t \<Rightarrow> bytes \<Rightarrow> (DiskManager, unit) prog" where
  "write_page fd page_no buf d =
     (let (r, os1) = os_lseek fd (page_no * int PAGE_SIZE) (dm_os d);
          d1 = d\<lparr>dm_os := os1\<rparr>
      in if r = -1 then (Inl (Exc UnixError), d1)
         else let (n, os2) = os_write fd buf os1;
                  d2 = d1\<lparr>dm_os := os2\<rparr>
              in if n \<noteq> int (length buf) then (Inl (Exc UnixError), d2) else (Inr (), d2))"

text \<open>
  \<open>read_page\<close> fills the caller's buffer, also when the read is short and it throws; the new
  contents of the buffer are the second component of the result.
\<close>

definition read_page :: "int \<Rightarrow> page_id_t \<Rightarrow> nat \<Rightarrow> bytes \<Rightarrow> DiskManager \<Rightarrow> unit res \<times> bytes \<times> DiskManager" where
  "read_page fd page_no num_bytes buf d =
     (let (r, os1) = os_lseek fd (page_no * int PAGE_SIZE) (dm_os d);
          d1 = d\<lparr>dm_os := os1\<rparr>
      in if r = -1 then (Inl (Exc UnixError), buf, d1)
         else case os_read fd num_bytes os1 of
             (None, os2) \<Rightarrow> (Inl (Exc UnixError), buf, d1\<lparr>dm_os := os2\<rparr>)
           | (Some got, os2) \<Rightarrow>
               (if length got \<noteq> num_bytes then Inl (Exc UnixError) else Inr (),
                wr 0 got buf, d1\<lparr>dm_os := os2\<rparr>))"

text \<open>The array \<open>fd2pageno_\<close> has \<open>MAX_FD\<close> elements; \<open>fetch_add\<close> on an atomic integer wraps.\<close>

definition AllocatePage :: "int \<Rightarrow> (DiskManager, page_id_t) prog" where
  "AllocatePage fd d =
     (if 0 \<le> fd \<and> fd < MAX_FD
      then (Inr (fd2pageno d fd), d\<lparr>fd2pageno := (fd2pageno d)(fd := wrap32 (fd2pageno d fd + 1))\<rparr>)
      else (Inl UndefinedBehaviour, d))"

definition DeallocatePage :: "page_id_t \<Rightarrow> DiskManager \<Rightarrow> DiskManager" where
  "DeallocatePage page_id d = d"

definition set_fd2pageno :: "int \<Rightarrow> int \<Rightarrow> (DiskManager, unit) prog" where
  "set_fd2pageno fd start_page_no d =
     (if 0 \<le> fd \<and> fd < MAX_FD then (Inr (), d\<lparr>fd2pageno := (fd2pageno d)(fd := start_page_no)\<rparr>)
      else (Inl UndefinedBehaviour, d))"

definition get_fd2pageno :: "int \<Rightarrow> (DiskManager, page_id_t) prog" where
  "get_fd2pageno fd d =
     (if 0 \<le> fd \<and> fd < MAX_FD then (Inr (fd2pageno d fd), d) else (Inl UndefinedBehaviour, d))"

definition is_dir :: "string \<Rightarrow> DiskManager \<Rightarrow> bool" where
  "is_dir path d = os_is_dir path (dm_os d)"

text \<open>\<open>create_dir\<close> and \<open>destroy_dir\<close> run a command; \<open>sys\<close> is the function \<open>system\<close> of the environment.\<close>

definition run_command :: "(string \<Rightarrow> os \<Rightarrow> int \<times> os) \<Rightarrow> string \<Rightarrow> (DiskManager, unit) prog" where
  "run_command sys cmd d =
     (let (r, os1) = sys cmd (dm_os d) in (if r < 0 then Inl (Exc UnixError) else Inr (), d\<lparr>dm_os := os1\<rparr>))"

definition create_dir :: "(string \<Rightarrow> os \<Rightarrow> int \<times> os) \<Rightarrow> string \<Rightarrow> (DiskManager, unit) prog" where
  "create_dir sys path = run_command sys (''mkdir '' @ path)"

definition destroy_dir :: "(string \<Rightarrow> os \<Rightarrow> int \<times> os) \<Rightarrow> string \<Rightarrow> (DiskManager, unit) prog" where
  "destroy_dir sys path = run_command sys (''rm -r '' @ path)"

definition is_file :: "string \<Rightarrow> DiskManager \<Rightarrow> bool" where
  "is_file path d = os_is_file path (dm_os d)"

definition create_file :: "string \<Rightarrow> (DiskManager, unit) prog" where
  "create_file path d =
     (if is_file path d then (Inl (Exc (FileExistsError path)), d)
      else let (fd, os1) = os_creat path (dm_os d)
           in if fd = -1 then (Inl (Exc UnixError), d\<lparr>dm_os := os1\<rparr>)
              else (Inr (), d\<lparr>dm_os := snd (os_close fd os1)\<rparr>))"

definition destroy_file :: "string \<Rightarrow> (DiskManager, unit) prog" where
  "destroy_file path d =
     (if \<not> is_file path d then (Inl (Exc (FileNotFoundError path)), d)
      else if path2fd d path \<noteq> None then (Inl (Exc (FileNotClosedError path)), d)
      else let (r, os1) = os_unlink path (dm_os d)
           in (if r = -1 then Inl (Exc UnixError) else Inr (), d\<lparr>dm_os := os1\<rparr>))"

definition open_file :: "string \<Rightarrow> (DiskManager, int) prog" where
  "open_file path d =
     (if \<not> is_file path d then (Inl (Exc (FileNotFoundError path)), d)
      else if path2fd d path \<noteq> None then (Inl (Exc (FileExistsError path)), d)
      else let (fd, os1) = os_open path (dm_os d)
           in if fd = -1 then (Inl (Exc UnixError), d\<lparr>dm_os := os1\<rparr>)
              else (Inr fd, d\<lparr>dm_os := os1, path2fd := (path2fd d)(path \<mapsto> fd),
                             fd2path := (fd2path d)(fd \<mapsto> path)\<rparr>))"

definition close_file :: "int \<Rightarrow> (DiskManager, unit) prog" where
  "close_file fd d =
     (case fd2path d fd of
        None \<Rightarrow> (Inl (Exc (FileNotOpenError fd)), d)
      | Some path \<Rightarrow>
          let (r, os1) = os_close fd (dm_os d)
          in if r = -1 then (Inl (Exc UnixError), d\<lparr>dm_os := os1\<rparr>)
             else (Inr (), d\<lparr>dm_os := os1, path2fd := (path2fd d)(path := None),
                            fd2path := (fd2path d)(fd := None)\<rparr>))"

text \<open>The size of a file is an \<open>off_t\<close>; the result keeps its lower 32 bits.\<close>

definition GetFileSize :: "string \<Rightarrow> DiskManager \<Rightarrow> int" where
  "GetFileSize file_name d = wrap32 (os_size file_name (dm_os d))"

definition GetFileName :: "int \<Rightarrow> (DiskManager, string) prog" where
  "GetFileName fd d =
     (case fd2path d fd of None \<Rightarrow> (Inl (Exc (FileNotOpenError fd)), d) | Some path \<Rightarrow> (Inr path, d))"

definition GetFileFd :: "string \<Rightarrow> (DiskManager, int) prog" where
  "GetFileFd file_name d =
     (case path2fd d file_name of None \<Rightarrow> open_file file_name d | Some fd \<Rightarrow> (Inr fd, d))"

definition SetLogFd :: "int \<Rightarrow> DiskManager \<Rightarrow> DiskManager" where
  "SetLogFd fd d = d\<lparr>log_fd := fd\<rparr>"

definition GetLogFd :: "DiskManager \<Rightarrow> int" where
  "GetLogFd d = log_fd d"

definition open_log :: "(DiskManager, unit) prog" where
  "open_log d =
     (if log_fd d = -1 then bind (open_file LOG_FILE_NAME) (\<lambda>fd. update (SetLogFd fd)) d
      else (Inr (), d))"

text \<open>
  \<open>ReadLog\<close> returns \<open>None\<close> where the code returns \<open>false\<close> and the bytes it read where the code
  returns \<open>true\<close>. The result of \<open>lseek\<close> is ignored, as in the source. A sum or difference outside the range of \<open>int\<close>, and
  a negative size, which \<open>read\<close> takes for a huge one, are undefined behaviour.
\<close>

definition ReadLog :: "int \<Rightarrow> int \<Rightarrow> int \<Rightarrow> (DiskManager, bytes option) prog" where
  "ReadLog sz offset prev_log_end =
     bind open_log (\<lambda>_ d.
       let offset' = offset + prev_log_end;
           file_size = GetFileSize LOG_FILE_NAME d
       in if \<not> in32 offset' then (Inl UndefinedBehaviour, d)
          else if offset' \<ge> file_size then (Inr None, d)
          else if \<not> in32 (file_size - offset') \<or> min sz (file_size - offset') < 0 then (Inl UndefinedBehaviour, d)
          else let size' = min sz (file_size - offset');
                   os1 = snd (os_lseek (log_fd d) offset' (dm_os d))
               in case os_read (log_fd d) (nat size') os1 of
                    (None, os2) \<Rightarrow> (Inl (Exc UnixError), d\<lparr>dm_os := os2\<rparr>)
                  | (Some got, os2) \<Rightarrow>
                      (if int (length got) \<noteq> size' then Inl (Exc UnixError) else Inr (Some got),
                       d\<lparr>dm_os := os2\<rparr>))"

definition WriteLog :: "bytes \<Rightarrow> (DiskManager, unit) prog" where
  "WriteLog log_data =
     bind open_log (\<lambda>_ d.
       let os1 = snd (os_lseek_end (log_fd d) (dm_os d));
           (n, os2) = os_write (log_fd d) log_data os1
       in (if n \<noteq> int (length log_data) then Inl (Exc UnixError) else Inr (), d\<lparr>dm_os := os2\<rparr>))"

section \<open>Invariant\<close>

definition disk_inv :: "DiskManager \<Rightarrow> bool" where
  "disk_inv d \<longleftrightarrow>
     (\<forall>fd p. fd2path d fd = Some p \<longleftrightarrow> path2fd d p = Some fd) \<and>
     os_fd_path (dm_os d) = fd2path d \<and>
     dom (path2fd d) \<subseteq> dom (os_files (dm_os d))"

text \<open>What a page of an open file holds on disk; \<open>None\<close> when the file does not reach that far.\<close>

definition page_content :: "DiskManager \<Rightarrow> int \<Rightarrow> page_id_t \<Rightarrow> bytes option" where
  "page_content d fd page_no =
     (case os_contents fd (dm_os d) of
        None \<Rightarrow> None
      | Some bs \<Rightarrow>
          if 0 \<le> page_no \<and> nat page_no * PAGE_SIZE + PAGE_SIZE \<le> length bs
          then Some (rd (nat page_no * PAGE_SIZE) PAGE_SIZE bs) else None)"

definition dm_open :: "DiskManager \<Rightarrow> int \<Rightarrow> bool" where
  "dm_open d fd \<longleftrightarrow> fd2path d fd \<noteq> None"

lemma nat_page_pos: "0 \<le> page_no \<Longrightarrow> nat (page_no * int PAGE_SIZE) = nat page_no * PAGE_SIZE"
  by (simp add: nat_mult_distrib)

lemma page_pos_neg: "page_no * int PAGE_SIZE < 0 \<longleftrightarrow> page_no < 0"
  by (simp add: mult_less_0_iff)

lemma page_pos_neq_m1 [simp]: "0 \<le> page_no \<Longrightarrow> page_no * int PAGE_SIZE \<noteq> -1"
  by (metis of_nat_0_le_iff mult_nonneg_nonneg not_le neg_less_0_iff_less zero_less_one)

lemma disk_invI:
  assumes "\<And>fd p. fd2path d fd = Some p \<longleftrightarrow> path2fd d p = Some fd"
    and "\<And>fd. os_fd_path (dm_os d) fd = fd2path d fd"
    and "\<And>p. path2fd d p \<noteq> None \<Longrightarrow> os_files (dm_os d) p \<noteq> None"
  shows "disk_inv d"
  using assms unfolding disk_inv_def by (auto simp: fun_eq_iff)

lemma disk_invD:
  assumes "disk_inv d"
  shows "fd2path d fd = Some p \<longleftrightarrow> path2fd d p = Some fd"
    and "os_fd_path (dm_os d) fd = fd2path d fd"
    and "path2fd d p = Some fd \<Longrightarrow> os_files (dm_os d) p \<noteq> None"
  using assms unfolding disk_inv_def by (auto simp: fun_eq_iff)

lemma disk_inv_cong:
  assumes "disk_inv d" "fd2path d' = fd2path d" "path2fd d' = path2fd d"
    and "os_fd_path (dm_os d') = os_fd_path (dm_os d)" "dom (os_files (dm_os d')) = dom (os_files (dm_os d))"
  shows "disk_inv d'"
  using assms unfolding disk_inv_def by simp

lemma dm_open_iff:
  assumes "disk_inv d"
  shows "dm_open d fd \<longleftrightarrow>
    (\<exists>h. os_fds (dm_os d) fd = Some h \<and> os_files (dm_os d) (fd_path h) \<noteq> None)"
proof (cases "os_fds (dm_os d) fd")
  case None
  then have "fd2path d fd = None" using disk_invD(2) [OF assms] by (metis os_fd_path_def option.map(1))
  with None show ?thesis by (simp add: dm_open_def)
next
  case (Some h)
  then have "fd2path d fd = Some (fd_path h)"
    using disk_invD(2) [OF assms] by (metis os_fd_path_def option.map(2))
  with Some disk_invD(1,3) [OF assms] show ?thesis by (auto simp: dm_open_def)
qed

lemma dm_openD:
  assumes "disk_inv d" "dm_open d fd"
  obtains h bs where "os_fds (dm_os d) fd = Some h" "os_files (dm_os d) (fd_path h) = Some bs"
  using assms by (auto simp: dm_open_iff)

lemma disk_inv_path_inj:
  assumes "disk_inv d" "os_fds (dm_os d) fd = Some h" "os_fds (dm_os d) fd' = Some h'"
    and "fd_path h = fd_path h'"
  shows "fd = fd'"
proof -
  have "fd2path d fd = Some (fd_path h)" "fd2path d fd' = Some (fd_path h)"
    using assms disk_invD(2) [OF assms(1)] unfolding os_fd_path_def by (metis option.simps(9))+
  then show ?thesis using disk_invD(1) [OF assms(1)] by (metis option.inject)
qed

lemma page_ranges_disjoint:
  assumes "0 \<le> a" "0 \<le> b" "a \<noteq> b"
  shows "nat a * PAGE_SIZE + PAGE_SIZE \<le> nat b * PAGE_SIZE \<or>
         nat b * PAGE_SIZE + PAGE_SIZE \<le> nat a * PAGE_SIZE"
proof -
  from assms have "nat a < nat b \<or> nat b < nat a" by auto
  then have "(nat a + 1) * PAGE_SIZE \<le> nat b * PAGE_SIZE \<or> (nat b + 1) * PAGE_SIZE \<le> nat a * PAGE_SIZE"
    by (metis Suc_eq_plus1 Suc_leI mult_le_mono1)
  then show ?thesis by (simp add: add.commute)
qed

section \<open>The page device interface\<close>

text \<open>
  What the layers above rely on: a store of pages, addressed by file descriptor and page
  number, in which a successful write is visible to reads and touches nothing else.
\<close>

locale page_device =
  fixes wrp :: "int \<Rightarrow> page_id_t \<Rightarrow> bytes \<Rightarrow> ('d, unit) prog"
    and rdp :: "int \<Rightarrow> page_id_t \<Rightarrow> nat \<Rightarrow> bytes \<Rightarrow> 'd \<Rightarrow> unit res \<times> bytes \<times> 'd"
    and content :: "'d \<Rightarrow> int \<Rightarrow> page_id_t \<Rightarrow> bytes option"
    and opened :: "'d \<Rightarrow> int \<Rightarrow> bool"
    and inv :: "'d \<Rightarrow> bool"
  assumes content_opened: "inv d \<Longrightarrow> content d fd no = Some b \<Longrightarrow> opened d fd \<and> 0 \<le> no \<and> length b = PAGE_SIZE"
    and write_ok: "inv d \<Longrightarrow> opened d fd \<Longrightarrow> 0 \<le> no \<Longrightarrow> \<exists>d'. wrp fd no buf d = (Inr (), d')"
    and write_bad: "inv d \<Longrightarrow> \<not> (opened d fd \<and> 0 \<le> no) \<Longrightarrow>
          \<exists>d'. wrp fd no buf d = (Inl (Exc UnixError), d') \<and> content d' = content d"
    and write_inv: "inv d \<Longrightarrow> wrp fd no buf d = (r, d') \<Longrightarrow> inv d' \<and> opened d' = opened d"
    and write_same: "inv d \<Longrightarrow> length buf = PAGE_SIZE \<Longrightarrow> wrp fd no buf d = (Inr (), d') \<Longrightarrow>
          content d' fd no = Some buf"
    and write_other: "inv d \<Longrightarrow> length buf = PAGE_SIZE \<Longrightarrow> wrp fd no buf d = (r, d') \<Longrightarrow>
          (fd', no') \<noteq> (fd, no) \<Longrightarrow> content d fd' no' = Some b \<Longrightarrow> content d' fd' no' = Some b"
    and read_ok: "inv d \<Longrightarrow> length buf = PAGE_SIZE \<Longrightarrow> content d fd no = Some b \<Longrightarrow>
          \<exists>d'. rdp fd no PAGE_SIZE buf d = (Inr (), b, d')"
    and read_bad: "inv d \<Longrightarrow> content d fd no = None \<Longrightarrow>
          \<exists>b d'. rdp fd no PAGE_SIZE buf d = (Inl (Exc UnixError), b, d')"
    and read_state: "inv d \<Longrightarrow> rdp fd no n buf d = (r, b, d') \<Longrightarrow>
          inv d' \<and> content d' = content d \<and> opened d' = opened d"
    and read_length: "inv d \<Longrightarrow> length buf = PAGE_SIZE \<Longrightarrow> rdp fd no PAGE_SIZE buf d = (r, b, d') \<Longrightarrow>
          length b = PAGE_SIZE"
begin

lemma write_cases:
  assumes "inv d" "wrp fd no buf d = (r, d')"
  shows "(r = Inr () \<and> opened d fd \<and> 0 \<le> no) \<or>
         (r = Inl (Exc UnixError) \<and> \<not> (opened d fd \<and> 0 \<le> no) \<and> content d' = content d)"
proof (cases "opened d fd \<and> 0 \<le> no")
  case True
  with assms write_ok [of d fd no buf] show ?thesis by auto
next
  case False
  with assms write_bad [of d fd no buf] show ?thesis by auto
qed

lemma read_after_write:
  assumes "inv d" "length buf = PAGE_SIZE" "wrp fd no buf d = (Inr (), d')" "length buf' = PAGE_SIZE"
  shows "\<exists>d''. rdp fd no PAGE_SIZE buf' d' = (Inr (), buf, d'')"
  using assms write_same write_inv read_ok by metis

lemma read_other_after_write:
  assumes "inv d" "length buf = PAGE_SIZE" "wrp fd no buf d = (r, d')"
    and "(fd', no') \<noteq> (fd, no)" "content d fd' no' = Some b" "length buf' = PAGE_SIZE"
  shows "\<exists>d''. rdp fd' no' PAGE_SIZE buf' d' = (Inr (), b, d'')"
  using assms write_other write_inv read_ok by metis

lemma read_exact:
  assumes "inv d" "length buf = PAGE_SIZE" "rdp fd no PAGE_SIZE buf d = (Inr (), b, d')"
  shows "content d fd no = Some b"
proof (cases "content d fd no")
  case None
  with assms read_bad [of d fd no buf] show ?thesis by auto
next
  case (Some c)
  with assms read_ok [of d buf fd no c] show ?thesis by auto
qed

end

section \<open>The disk manager provides it\<close>

lemma write_page_open:
  assumes "os_fds (dm_os d) fd = Some h" "os_files (dm_os d) (fd_path h) = Some bs" "0 \<le> no"
  shows "write_page fd no buf d =
    (Inr (), d\<lparr>dm_os := (dm_os d)
        \<lparr>os_fds := (os_fds (dm_os d))(fd \<mapsto> h\<lparr>fd_pos := nat no * PAGE_SIZE + length buf\<rparr>),
         os_files := (os_files (dm_os d))(fd_path h \<mapsto> overwrite (nat no * PAGE_SIZE) buf bs)\<rparr>\<rparr>)"
  using assms
  by (simp add: write_page_def os_lseek_def os_write_def Let_def nat_page_pos page_pos_neg
      mult_less_0_iff)

lemma write_page_closed:
  assumes "os_fds (dm_os d) fd = None \<or> no < 0"
  shows "write_page fd no buf d = (Inl (Exc UnixError), d)"
  using assms by (auto simp: write_page_def os_lseek_def mult_less_0_iff split: option.splits)

lemma write_page_no_file:
  assumes "os_fds (dm_os d) fd = Some h" "os_files (dm_os d) (fd_path h) = None" "0 \<le> no"
  shows "write_page fd no buf d =
    (Inl (Exc UnixError),
     d\<lparr>dm_os := (dm_os d)\<lparr>os_fds := (os_fds (dm_os d))(fd \<mapsto> h\<lparr>fd_pos := nat no * PAGE_SIZE\<rparr>)\<rparr>\<rparr>)"
  using assms
  by (simp add: write_page_def os_lseek_def os_write_def Let_def nat_page_pos mult_less_0_iff)

lemma os_contents_upd_pos:
  "os_fds s fd = Some h \<Longrightarrow>
   os_contents fd' (s\<lparr>os_fds := (os_fds s)(fd \<mapsto> h\<lparr>fd_pos := p\<rparr>)\<rparr>) = os_contents fd' s"
  by (simp add: os_contents_def split: option.splits)

lemma os_fd_path_upd_pos:
  "os_fds s fd = Some h \<Longrightarrow> map_option fd_path \<circ> (os_fds s)(fd \<mapsto> h\<lparr>fd_pos := p\<rparr>) = os_fd_path s"
  by (auto simp: os_fd_path_def fun_eq_iff)

lemma page_content_upd_pos:
  "os_fds (dm_os d) fd = Some h \<Longrightarrow>
   page_content (d\<lparr>dm_os := (dm_os d)\<lparr>os_fds := (os_fds (dm_os d))(fd \<mapsto> h\<lparr>fd_pos := p\<rparr>)\<rparr>\<rparr>)
     = page_content d"
  by (simp add: page_content_def os_contents_upd_pos fun_eq_iff)

lemma disk_inv_upd_pos:
  assumes "os_fds (dm_os d) fd = Some h" "disk_inv d"
  shows "disk_inv (d\<lparr>dm_os := (dm_os d)\<lparr>os_fds := (os_fds (dm_os d))(fd \<mapsto> h\<lparr>fd_pos := p\<rparr>)\<rparr>\<rparr>)"
  by (rule disk_inv_cong [OF assms(2)]) (simp_all add: os_fd_path_def fun_eq_iff assms(1))

lemma disk_inv_upd_file:
  assumes "os_fds (dm_os d) fd = Some h" "os_files (dm_os d) (fd_path h) = Some bs" "disk_inv d"
  shows "disk_inv (d\<lparr>dm_os := (dm_os d)
        \<lparr>os_fds := (os_fds (dm_os d))(fd \<mapsto> h\<lparr>fd_pos := p\<rparr>),
         os_files := (os_files (dm_os d))(fd_path h \<mapsto> bs')\<rparr>\<rparr>)"
  by (rule disk_inv_cong [OF assms(3)])
    (simp_all add: os_fd_path_def fun_eq_iff assms(1,2) insert_absorb domI)

lemma page_content_overwrite_other:
  assumes inv: "disk_inv d" and h: "os_fds (dm_os d) fd = Some h"
    and f: "os_files (dm_os d) (fd_path h) = Some bs" and no: "0 \<le> no"
    and len: "length buf = PAGE_SIZE" and ne: "(fd', no') \<noteq> (fd, no)"
    and c: "page_content d fd' no' = Some b"
  shows "page_content (d\<lparr>dm_os := (dm_os d)
        \<lparr>os_fds := (os_fds (dm_os d))(fd \<mapsto> h\<lparr>fd_pos := p\<rparr>),
         os_files := (os_files (dm_os d))(fd_path h \<mapsto> overwrite (nat no * PAGE_SIZE) buf bs)\<rparr>\<rparr>) fd' no'
     = Some b"
proof (cases "fd' = fd")
  case True
  with ne have "no' \<noteq> no" by simp
  from c True h f have r: "0 \<le> no'" "nat no' * PAGE_SIZE + PAGE_SIZE \<le> length bs"
    and b: "b = rd (nat no' * PAGE_SIZE) PAGE_SIZE bs"
    by (auto simp: page_content_def os_contents_def split: if_splits)
  have "rd (nat no' * PAGE_SIZE) PAGE_SIZE (overwrite (nat no * PAGE_SIZE) buf bs) = b"
    unfolding b using r len page_ranges_disjoint [OF r(1) no \<open>no' \<noteq> no\<close>]
    by (intro rd_overwrite_disjoint) auto
  with True h f r len show ?thesis
    by (simp add: page_content_def os_contents_def length_overwrite)
next
  case False
  from c obtain h' bs' where h': "os_fds (dm_os d) fd' = Some h'"
    and f': "os_files (dm_os d) (fd_path h') = Some bs'"
    by (auto simp: page_content_def os_contents_def split: option.splits)
  with disk_inv_path_inj [OF inv h' h] False have "fd_path h' \<noteq> fd_path h" by auto
  with c False h' f' show ?thesis by (simp add: page_content_def os_contents_def)
qed

lemma read_page_open:
  assumes "os_fds (dm_os d) fd = Some h" "os_files (dm_os d) (fd_path h) = Some bs" "0 \<le> no"
  shows "read_page fd no n buf d =
    (let got = rd (nat no * PAGE_SIZE) n bs
     in (if length got \<noteq> n then Inl (Exc UnixError) else Inr (), wr 0 got buf,
         d\<lparr>dm_os := (dm_os d)\<lparr>os_fds := (os_fds (dm_os d))
             (fd \<mapsto> h\<lparr>fd_pos := nat no * PAGE_SIZE + length got\<rparr>)\<rparr>\<rparr>))"
  using assms by (simp add: read_page_def os_lseek_def os_read_def Let_def nat_page_pos mult_less_0_iff)

lemma read_page_closed:
  assumes "os_fds (dm_os d) fd = None \<or> no < 0"
  shows "read_page fd no n buf d = (Inl (Exc UnixError), buf, d)"
  using assms by (auto simp: read_page_def os_lseek_def mult_less_0_iff split: option.splits)

lemma read_page_no_file:
  assumes "os_fds (dm_os d) fd = Some h" "os_files (dm_os d) (fd_path h) = None" "0 \<le> no"
  shows "read_page fd no n buf d =
    (Inl (Exc UnixError), buf,
     d\<lparr>dm_os := (dm_os d)\<lparr>os_fds := (os_fds (dm_os d))(fd \<mapsto> h\<lparr>fd_pos := nat no * PAGE_SIZE\<rparr>)\<rparr>\<rparr>)"
  using assms by (simp add: read_page_def os_lseek_def os_read_def Let_def nat_page_pos mult_less_0_iff)

lemma fd_cases:
  fixes no :: int
  obtains (closed) "os_fds (dm_os d) fd = None \<or> no < 0"
    | (nofile) h where "os_fds (dm_os d) fd = Some h" "os_files (dm_os d) (fd_path h) = None" "0 \<le> no"
    | (found) h bs where "os_fds (dm_os d) fd = Some h" "os_files (dm_os d) (fd_path h) = Some bs" "0 \<le> no"
proof (cases "os_fds (dm_os d) fd = None \<or> no < 0")
  case False
  then obtain h where "os_fds (dm_os d) fd = Some h" "0 \<le> no" by (auto simp: not_less)
  then show thesis using nofile found by (cases "os_files (dm_os d) (fd_path h)") blast+
qed (rule closed)

interpretation dm: page_device write_page read_page page_content dm_open disk_inv
proof (unfold_locales, goal_cases)
  case (1 d fd no b)
  then show ?case
    by (auto simp: page_content_def os_contents_def dm_open_iff length_rd split: option.splits if_splits)
next
  case (2 d fd no buf)
  then show ?case by (meson dm_openD write_page_open)
next
  case (3 d fd no buf)
  then show ?case
  proof (cases rule: fd_cases [of d fd no])
    case closed
    then show ?thesis by (simp add: write_page_closed)
  next
    case (nofile h)
    then show ?thesis by (simp add: write_page_no_file page_content_upd_pos)
  qed (auto simp: dm_open_iff)
next
  case (4 d fd no buf r d')
  then show ?case
  proof (cases rule: fd_cases [of d fd no])
    case closed
    with 4 show ?thesis by (simp add: write_page_closed)
  next
    case (nofile h)
    with 4 show ?thesis
      by (auto simp: write_page_no_file disk_inv_upd_pos dm_open_def fun_eq_iff)
  next
    case (found h bs)
    with 4 show ?thesis
      by (auto simp: write_page_open disk_inv_upd_file dm_open_def fun_eq_iff)
  qed
next
  case (5 d buf fd no d')
  then show ?case
  proof (cases rule: fd_cases [of d fd no])
    case (found h bs)
    with 5 show ?thesis
      by (auto simp: write_page_open page_content_def os_contents_def length_overwrite rd_overwrite_same)
  qed (simp_all add: write_page_closed write_page_no_file)
next
  case (6 d buf fd no r d' fd' no' b)
  then show ?case
  proof (cases rule: fd_cases [of d fd no])
    case closed
    with 6 show ?thesis by (simp add: write_page_closed)
  next
    case (nofile h)
    with 6 show ?thesis by (auto simp: write_page_no_file page_content_upd_pos)
  next
    case (found h bs)
    with 6 page_content_overwrite_other [OF 6(1) found 6(2,4,5)] show ?thesis
      by (auto simp: write_page_open)
  qed
next
  case (7 d buf fd no b)
  then obtain h bs where "os_fds (dm_os d) fd = Some h" "os_files (dm_os d) (fd_path h) = Some bs"
    and "0 \<le> no" "nat no * PAGE_SIZE + PAGE_SIZE \<le> length bs"
    and "b = rd (nat no * PAGE_SIZE) PAGE_SIZE bs"
    by (auto simp: page_content_def os_contents_def split: option.splits if_splits)
  with 7 show ?case by (simp add: read_page_open Let_def length_rd wr_def)
next
  case (8 d fd no buf)
  then show ?case
  proof (cases rule: fd_cases [of d fd no])
    case (found h bs)
    with 8 have "\<not> nat no * PAGE_SIZE + PAGE_SIZE \<le> length bs"
      by (auto simp: page_content_def os_contents_def)
    then have "length (rd (nat no * PAGE_SIZE) PAGE_SIZE bs) \<noteq> PAGE_SIZE"
      using PAGE_SIZE_pos by (simp add: rd_def min_def del: PAGE_SIZE_pos)
    with found show ?thesis by (simp add: read_page_open Let_def)
  qed (simp_all add: read_page_closed read_page_no_file)
next
  case (9 d fd no n buf r b d')
  then show ?case
  proof (cases rule: fd_cases [of d fd no])
    case closed
    with 9 show ?thesis by (simp add: read_page_closed)
  next
    case (nofile h)
    with 9 show ?thesis
      by (auto simp: read_page_no_file disk_inv_upd_pos page_content_upd_pos dm_open_def fun_eq_iff)
  next
    case (found h bs)
    with 9 show ?thesis
      by (auto simp: read_page_open Let_def disk_inv_upd_pos page_content_upd_pos dm_open_def fun_eq_iff)
  qed
next
  case (10 d buf fd no r b d')
  then show ?case
  proof (cases rule: fd_cases [of d fd no])
    case (found h bs)
    have "length (rd (nat no * PAGE_SIZE) PAGE_SIZE bs) \<le> PAGE_SIZE" by (rule length_rd_le)
    with 10 found show ?thesis by (auto simp: read_page_open Let_def length_wr)
  qed (simp_all add: read_page_closed read_page_no_file)
qed

section \<open>Opening, closing, creating and destroying files\<close>

lemma os_fds_None_iff: "disk_inv d \<Longrightarrow> os_fds (dm_os d) fd = None \<longleftrightarrow> fd2path d fd = None"
  using disk_invD(2) [of d fd] by (auto simp: os_fd_path_def)

lemma os_new_fd_None: "os_new_fd s = Some fd \<Longrightarrow> os_fds s fd = None \<and> 0 \<le> fd"
  unfolding os_new_fd_def using next_fd_free by blast

lemma open_file_cases:
  assumes "open_file path d = (r, d')"
  obtains (err) e where "r = Inl e" "d' = d"
    | (opened) fd where "r = Inr fd" "os_new_fd (dm_os d) = Some fd" "path2fd d path = None"
        "os_files (dm_os d) path \<noteq> None"
        "d' = d\<lparr>dm_os := (dm_os d)\<lparr>os_fds := (os_fds (dm_os d))(fd \<mapsto> \<lparr>fd_path = path, fd_pos = 0\<rparr>)\<rparr>,
                path2fd := (path2fd d)(path \<mapsto> fd), fd2path := (fd2path d)(fd \<mapsto> path)\<rparr>"
  using assms
  by (auto simp: open_file_def is_file_def os_is_file_def os_open_def
      dest: os_new_fd_None split: if_splits option.splits)

lemma open_file_inv:
  assumes inv: "disk_inv d" and "open_file path d = (r, d')"
  shows "disk_inv d'"
  using assms(2)
proof (cases rule: open_file_cases)
  case err
  with inv show ?thesis by simp
next
  case (opened fd)
  then have free: "fd2path d fd = None"
    using os_new_fd_None os_fds_None_iff [OF inv] by blast
  show ?thesis
  proof (rule disk_invI)
    fix fd' p
    show "fd2path d' fd' = Some p \<longleftrightarrow> path2fd d' p = Some fd'"
      using opened free disk_invD(1) [OF inv, of fd' p] by auto
    show "os_fd_path (dm_os d') fd' = fd2path d' fd'"
      using opened disk_invD(2) [OF inv, of fd'] by (simp add: os_fd_path_def)
    show "path2fd d' p \<noteq> None \<Longrightarrow> os_files (dm_os d') p \<noteq> None"
      using opened disk_invD(3) [OF inv, of p] by (auto split: if_splits)
  qed
qed

lemma close_file_cases:
  assumes "disk_inv d" "close_file fd d = (r, d')"
  obtains (err) "r = Inl (Exc (FileNotOpenError fd))" "d' = d" "fd2path d fd = None"
    | (closed) path where "r = Inr ()" "fd2path d fd = Some path"
        "d' = d\<lparr>dm_os := (dm_os d)\<lparr>os_fds := (os_fds (dm_os d))(fd := None)\<rparr>,
                path2fd := (path2fd d)(path := None), fd2path := (fd2path d)(fd := None)\<rparr>"
  using assms os_fds_None_iff [OF assms(1), of fd]
  by (auto simp: close_file_def os_close_def split: if_splits option.splits)

lemma close_file_inv:
  assumes inv: "disk_inv d" and "close_file fd d = (r, d')"
  shows "disk_inv d'"
  using assms
proof (cases rule: close_file_cases)
  case err
  with inv show ?thesis by simp
next
  case (closed path)
  show ?thesis
  proof (rule disk_invI)
    fix fd' p
    show "fd2path d' fd' = Some p \<longleftrightarrow> path2fd d' p = Some fd'"
      using closed disk_invD(1) [OF inv, of fd p] disk_invD(1) [OF inv, of fd' p]
        disk_invD(1) [OF inv, of fd' path] disk_invD(1) [OF inv, of fd path] by auto
    show "os_fd_path (dm_os d') fd' = fd2path d' fd'"
      using closed disk_invD(2) [OF inv, of fd'] by (simp add: os_fd_path_def)
    show "path2fd d' p \<noteq> None \<Longrightarrow> os_files (dm_os d') p \<noteq> None"
      using closed disk_invD(3) [OF inv, of p] by (auto split: if_splits)
  qed
qed

lemma create_file_cases:
  assumes "create_file path d = (r, d')"
  obtains (err) e where "r = Inl e" "d' = d"
    | (created) "r = Inr ()" "os_files (dm_os d) path = None"
        "d' = d\<lparr>dm_os := (dm_os d)\<lparr>os_files := (os_files (dm_os d))(path \<mapsto> [])\<rparr>\<rparr>"
proof -
  have self: "s\<lparr>os_files := f, os_fds := (os_fds s)(fd := None)\<rparr> = s\<lparr>os_files := f\<rparr>"
    if "os_new_fd s = Some fd" for s :: os and f fd
    using os_new_fd_None [OF that] by (simp add: fun_upd_idem)
  show thesis
    using assms err created
    by (auto simp: create_file_def is_file_def os_is_file_def os_creat_def os_close_def self
        dest: os_new_fd_None split: if_splits option.splits)
qed

lemma create_file_inv:
  assumes inv: "disk_inv d" and "create_file path d = (r, d')"
  shows "disk_inv d'"
  using assms(2)
proof (cases rule: create_file_cases)
  case err
  with inv show ?thesis by simp
next
  case created
  with inv show ?thesis
    by (intro disk_invI)
      (auto simp: disk_invD(1) os_fd_path_def [abs_def] dest: disk_invD(2) disk_invD(3))
qed

lemma destroy_file_inv:
  assumes "disk_inv d" "destroy_file path d = (r, d')"
  shows "disk_inv d'"
proof -
  have "disk_inv (d\<lparr>dm_os := (dm_os d)\<lparr>os_files := (os_files (dm_os d))(path := None)\<rparr>\<rparr>)"
    if "path2fd d path = None"
    using assms(1) that
    by (intro disk_invI) (auto simp: disk_invD(1) os_fd_path_def [abs_def] dest: disk_invD(2) disk_invD(3))
  with assms show ?thesis
    by (auto simp: destroy_file_def os_unlink_def split: if_splits)
qed

section \<open>The log file\<close>

lemma os_lseek_inv: "disk_inv d \<Longrightarrow> disk_inv (d\<lparr>dm_os := snd (os_lseek fd pos (dm_os d))\<rparr>)"
  by (auto simp: os_lseek_def disk_inv_upd_pos split: option.splits)

lemma os_lseek_end_inv: "disk_inv d \<Longrightarrow> disk_inv (d\<lparr>dm_os := snd (os_lseek_end fd (dm_os d))\<rparr>)"
  by (auto simp: os_lseek_end_def os_lseek_inv split: option.splits)

lemma os_read_inv: "disk_inv d \<Longrightarrow> disk_inv (d\<lparr>dm_os := snd (os_read fd n (dm_os d))\<rparr>)"
  by (auto simp: os_read_def Let_def disk_inv_upd_pos split: option.splits)

lemma os_write_inv: "disk_inv d \<Longrightarrow> disk_inv (d\<lparr>dm_os := snd (os_write fd new (dm_os d))\<rparr>)"
proof (cases rule: fd_cases [of d fd 0])
  case (found h bs)
  assume inv: "disk_inv d"
  show ?thesis
    by (rule disk_inv_cong [OF inv])
      (simp_all add: os_write_def found os_fd_path_def fun_eq_iff insert_absorb domI)
qed (auto simp: os_write_def)

lemma disk_inv_log_fd [simp]: "disk_inv (d\<lparr>log_fd := x\<rparr>) = disk_inv d"
  by (simp add: disk_inv_def)

lemma open_log_inv:
  assumes "disk_inv d" "open_log d = (r, d')"
  shows "disk_inv d'"
proof -
  obtain r1 d1 where o: "open_file LOG_FILE_NAME d = (r1, d1)" by fastforce
  with assms(1) have "disk_inv d1" by (rule open_file_inv)
  with o assms show ?thesis
    by (cases r1) (auto simp: open_log_def update_def SetLogFd_def split: if_splits)
qed

lemma ReadLog_inv:
  assumes "disk_inv d" "ReadLog sz off prev d = (r, d')"
  shows "disk_inv d'"
proof -
  obtain r1 d1 where o: "open_log d = (r1, d1)" by fastforce
  have inv1: "disk_inv d1" using assms(1) o by (rule open_log_inv)
  have inv2: "disk_inv (d1\<lparr>dm_os := snd (os_read (log_fd d1) n (snd (os_lseek (log_fd d1) p (dm_os d1))))\<rparr>)" for n p
    using os_read_inv [OF os_lseek_inv [OF inv1]] by simp
  then have inv3: "disk_inv (d1\<lparr>dm_os := os2\<rparr>)"
    if "os_read (log_fd d1) n (snd (os_lseek (log_fd d1) p (dm_os d1))) = (g, os2)" for n p g os2
    using that by (metis snd_conv)
  show ?thesis
  proof (cases r1)
    case (Inl e)
    with o assms(2) inv1 show ?thesis by (simp add: ReadLog_def)
  next
    case (Inr u)
    with o assms(2) inv1 inv3 show ?thesis
      by (auto simp: ReadLog_def Let_def split: if_splits prod.splits option.splits)
  qed
qed

lemma WriteLog_inv:
  assumes "disk_inv d" "WriteLog bs d = (r, d')"
  shows "disk_inv d'"
proof -
  obtain r1 d1 where o: "open_log d = (r1, d1)" by fastforce
  have inv1: "disk_inv d1" using assms(1) o by (rule open_log_inv)
  have inv2: "disk_inv (d1\<lparr>dm_os := snd (os_write (log_fd d1) bs (snd (os_lseek_end (log_fd d1) (dm_os d1))))\<rparr>)"
    using os_write_inv [OF os_lseek_end_inv [OF inv1]] by simp
  show ?thesis
  proof (cases r1)
    case (Inl e)
    with o assms(2) inv1 show ?thesis by (simp add: WriteLog_def)
  next
    case (Inr u)
    with o assms(2) inv2 show ?thesis by (auto simp: WriteLog_def Let_def split: prod.splits)
  qed
qed

text \<open>
  The states of a disk manager: any sequence of calls on a fresh object. Of the commands that \<open>create_dir\<close> and \<open>destroy_dir\<close> run, only
  those that leave the descriptors of the process alone and remove no file that is open; \<open>rm -r\<close> of a directory
  with an open file in it does the latter, and nothing in the code prevents it.
\<close>

definition spares_open :: "DiskManager \<Rightarrow> DiskManager \<Rightarrow> bool" where
  "spares_open d d' \<longleftrightarrow> os_fd_path (dm_os d') = os_fd_path (dm_os d) \<and> dom (path2fd d) \<subseteq> dom (os_files (dm_os d'))"

inductive disk_call :: "DiskManager \<Rightarrow> DiskManager \<Rightarrow> bool" where
  write_page: "write_page fd no buf d = (ru, d') \<Longrightarrow> disk_call d d'"
| read_page: "read_page fd no n buf d = (ru, b, d') \<Longrightarrow> disk_call d d'"
| AllocatePage: "AllocatePage fd d = (ri, d') \<Longrightarrow> disk_call d d'"
| DeallocatePage: "disk_call d (DeallocatePage no d)"
| set_fd2pageno: "set_fd2pageno fd no d = (ru, d') \<Longrightarrow> disk_call d d'"
| create_dir: "create_dir sys path d = (ru, d') \<Longrightarrow> spares_open d d' \<Longrightarrow> disk_call d d'"
| destroy_dir: "destroy_dir sys path d = (ru, d') \<Longrightarrow> spares_open d d' \<Longrightarrow> disk_call d d'"
| create_file: "create_file path d = (ru, d') \<Longrightarrow> disk_call d d'"
| destroy_file: "destroy_file path d = (ru, d') \<Longrightarrow> disk_call d d'"
| open_file: "open_file path d = (ri, d') \<Longrightarrow> disk_call d d'"
| close_file: "close_file fd d = (ru, d') \<Longrightarrow> disk_call d d'"
| GetFileFd: "GetFileFd path d = (ri, d') \<Longrightarrow> disk_call d d'"
| SetLogFd: "disk_call d (SetLogFd fd d)"
| ReadLog: "ReadLog sz off prev d = (ro, d') \<Longrightarrow> disk_call d d'"
| WriteLog: "WriteLog bs d = (ru, d') \<Longrightarrow> disk_call d d'"

inductive dm_reach :: "DiskManager \<Rightarrow> bool" where
  start: "os_fds s = Map.empty \<Longrightarrow> dm_reach (DiskManager_init s)"
| call: "dm_reach d \<Longrightarrow> disk_call d d' \<Longrightarrow> dm_reach d'"

lemma disk_inv_fd2pageno [simp]: "disk_inv (d\<lparr>fd2pageno := f\<rparr>) = disk_inv d"
  by (simp add: disk_inv_def)

lemma disk_inv_init: "os_fds s = Map.empty \<Longrightarrow> disk_inv (DiskManager_init s)"
  by (simp add: disk_inv_def DiskManager_init_def os_fd_path_def fun_eq_iff)

lemma disk_inv_spared:
  assumes "disk_inv d" "spares_open d d'" "fd2path d' = fd2path d" "path2fd d' = path2fd d"
  shows "disk_inv d'"
  using assms by (simp add: disk_inv_def spares_open_def)

lemma run_command_inv: "disk_inv d \<Longrightarrow> run_command sys cmd d = (r, d') \<Longrightarrow> spares_open d d' \<Longrightarrow> disk_inv d'"
  by (elim disk_inv_spared) (auto simp: run_command_def split: prod.splits)

lemma disk_call_inv: "disk_call d d' \<Longrightarrow> disk_inv d \<Longrightarrow> disk_inv d'"
proof (induction rule: disk_call.induct)
  case (AllocatePage fd d ri d')
  then show ?case by (auto simp: AllocatePage_def split: if_splits)
next
  case (set_fd2pageno fd no d ru d')
  then show ?case by (auto simp: set_fd2pageno_def split: if_splits)
next
  case (create_dir sys path d ru d')
  then show ?case using run_command_inv [of d sys "''mkdir '' @ path" ru d'] by (simp add: create_dir_def)
next
  case (destroy_dir sys path d ru d')
  then show ?case using run_command_inv [of d sys "''rm -r '' @ path" ru d'] by (simp add: destroy_dir_def)
next
  case (GetFileFd path d ri d')
  then show ?case by (auto simp: GetFileFd_def open_file_inv split: option.splits)
qed (auto simp: DeallocatePage_def SetLogFd_def disk_inv_init
      dest: dm.write_inv dm.read_state create_file_inv destroy_file_inv open_file_inv
        close_file_inv ReadLog_inv WriteLog_inv)

lemma dm_reach_inv: "dm_reach d \<Longrightarrow> disk_inv d"
  by (induction rule: dm_reach.induct) (auto simp: disk_inv_init intro: disk_call_inv)

section \<open>Properties\<close>

text \<open>A disk manager with one open file of one page of zeros, for the concrete instances.\<close>

definition demo_os :: os where
  "demo_os = \<lparr>os_files = [''t'' \<mapsto> replicate PAGE_SIZE 0, LOG_FILE_NAME \<mapsto> []], os_dirs = {}, os_dir_size = (\<lambda>_. 4096),
              os_fds = Map.empty, os_reserved = {0, 1, 2}, os_fd_limit = 1024\<rparr>"

definition demo_disk :: DiskManager where
  "demo_disk = \<lparr>dm_os = demo_os\<lparr>os_fds := [3 \<mapsto> \<lparr>fd_path = ''t'', fd_pos = 0\<rparr>]\<rparr>,
                path2fd = [''t'' \<mapsto> 3], fd2path = [3 \<mapsto> ''t''], log_fd = -1, fd2pageno = (\<lambda>_. 0)\<rparr>"

lemma demo_open: "open_file ''t'' (DiskManager_init demo_os) = (Inr 3, demo_disk)"
proof -
  have fd: "os_new_fd demo_os = Some 3"
    by (simp add: os_new_fd_def demo_os_def next_fd.simps)
  show ?thesis
    using fd by (simp add: open_file_def is_file_def os_is_file_def os_open_def DiskManager_init_def demo_disk_def)
      (simp add: demo_os_def)
qed

lemma demo_reach: "dm_reach demo_disk"
  by (rule dm_reach.call [OF dm_reach.start disk_call.open_file [OF demo_open]]) (simp add: demo_os_def)

lemma demo_dm_open: "dm_open demo_disk 3"
  by (simp add: dm_open_def demo_disk_def)

text \<open>
  C16. In every state that calls on a disk manager can reach, also through calls that threw, the
  tables of open files are inverse to each other, they agree with the descriptor table of the
  process, and every file they list exists. Calls of \<open>create_dir\<close> and \<open>destroy_dir\<close> count as long as the command
  they run removes no file that is open at the time.
\<close>

theorem disk_tables_consistent:
  assumes "dm_reach d"
  shows "(fd2path d fd = Some p \<longleftrightarrow> path2fd d p = Some fd) \<and>
         os_fd_path (dm_os d) fd = fd2path d fd \<and>
         (path2fd d p = Some fd \<longrightarrow> is_file p d)"
  using disk_invD [OF dm_reach_inv [OF assms]] by (simp add: is_file_def os_is_file_def)

theorem disk_tables_consistent_witness:
  "dm_reach demo_disk \<and> path2fd demo_disk ''t'' = Some 3 \<and> fd2path demo_disk 3 = Some ''t'' \<and>
   is_file ''t'' demo_disk"
proof -
  have p: "path2fd demo_disk ''t'' = Some 3" by (simp add: demo_disk_def)
  with disk_tables_consistent [OF demo_reach, of 3 "''t''"] demo_reach show ?thesis by blast
qed

text \<open>
  C28. Writing a page of an open file and reading it back gives the bytes written, and the write
  leaves every other page that is on disk as it was.
\<close>

theorem write_read_page:
  assumes "dm_reach d" "dm_open d fd" "0 \<le> no" "length buf = PAGE_SIZE" "length buf' = PAGE_SIZE"
  shows "\<exists>d' d''. write_page fd no buf d = (Inr (), d') \<and>
           read_page fd no PAGE_SIZE buf' d' = (Inr (), buf, d'') \<and>
           (\<forall>fd' no' b. (fd', no') \<noteq> (fd, no) \<longrightarrow> page_content d fd' no' = Some b \<longrightarrow>
              page_content d' fd' no' = Some b)"
proof -
  have inv: "disk_inv d" using assms(1) by (rule dm_reach_inv)
  obtain d' where w: "write_page fd no buf d = (Inr (), d')"
    using dm.write_ok [OF inv assms(2,3)] by blast
  then show ?thesis
    using dm.read_after_write [OF inv assms(4) w assms(5)] dm.write_other [OF inv assms(4) w] by blast
qed

theorem write_read_page_witness:
  "\<exists>d' d''. write_page 3 1 (replicate PAGE_SIZE 7) demo_disk = (Inr (), d') \<and>
           read_page 3 1 PAGE_SIZE (replicate PAGE_SIZE 0) d' = (Inr (), replicate PAGE_SIZE 7, d'') \<and>
           page_content d' 3 0 = Some (replicate PAGE_SIZE 0)"
proof -
  have c: "page_content demo_disk 3 0 = Some (replicate PAGE_SIZE 0)"
    by (simp add: page_content_def demo_disk_def demo_os_def os_contents_def LOG_FILE_NAME_def)
  have ne: "(3::int, 0::int) \<noteq> (3, 1)" by simp
  have "\<exists>d' d''. write_page 3 1 (replicate PAGE_SIZE 7) demo_disk = (Inr (), d') \<and>
           read_page 3 1 PAGE_SIZE (replicate PAGE_SIZE 0) d' = (Inr (), replicate PAGE_SIZE 7, d'') \<and>
           (\<forall>fd' no' b. (fd', no') \<noteq> (3::int, 1::int) \<longrightarrow> page_content demo_disk fd' no' = Some b \<longrightarrow>
              page_content d' fd' no' = Some b)"
    by (rule write_read_page [OF demo_reach demo_dm_open]) simp_all
  then show ?thesis using c ne by blast
qed

text \<open>Repeated allocation in one file, for the next property.\<close>

fun allocate_many :: "nat \<Rightarrow> int \<Rightarrow> (DiskManager, page_id_t list) prog" where
  "allocate_many 0 fd d = (Inr [], d)"
| "allocate_many (Suc n) fd d =
     bind (AllocatePage fd) (\<lambda>no. bind (allocate_many n fd) (\<lambda>nos. ret (no # nos))) d"

lemma wrap32_add: "wrap32 (wrap32 a + b) = wrap32 (a + b)"
proof -
  have "wrap32 a mod 2 ^ 32 = a mod 2 ^ 32"
    by (auto simp: wrap32_def Let_def mod_diff_left_eq)
  then have "(wrap32 a + b) mod 2 ^ 32 = (a + b) mod 2 ^ 32" by (metis mod_add_left_eq)
  then show ?thesis by (simp only: wrap32_def)
qed

lemma wrap32_inj: "wrap32 a = wrap32 b \<Longrightarrow> a mod 2 ^ 32 = b mod 2 ^ 32"
proof -
  assume eq: "wrap32 a = wrap32 b"
  have "0 \<le> x mod 4294967296 \<and> x mod 4294967296 < 4294967296" for x :: int by simp
  from this [of a] this [of b] eq show ?thesis
    by (auto simp: wrap32_def Let_def split: if_splits)
qed

lemma allocate_many_wrap:
  assumes "0 \<le> fd" "fd < MAX_FD" "in32 (fd2pageno d fd)"
  shows "fst (allocate_many n fd d) = Inr (map (\<lambda>i. wrap32 (fd2pageno d fd + int i)) [0..<n])"
  using assms
proof (induction n arbitrary: d)
  case (Suc n)
  let ?d = "d\<lparr>fd2pageno := (fd2pageno d)(fd := wrap32 (fd2pageno d fd + 1))\<rparr>"
  have IH: "fst (allocate_many n fd ?d) = Inr (map (\<lambda>i. wrap32 (fd2pageno d fd + 1 + int i)) [0..<n])"
    using Suc by (subst Suc.IH) (simp_all add: in32_wrap32 wrap32_add)
  have "map (\<lambda>i. wrap32 (fd2pageno d fd + int i)) [0..<Suc n] =
        fd2pageno d fd # map (\<lambda>i. wrap32 (fd2pageno d fd + 1 + int i)) [0..<n]"
    using Suc.prems by (simp only: upt_conv_Cons map_Suc_upt [symmetric] list.map map_map)
      (simp add: o_def algebra_simps)
  with Suc.prems IH show ?case
    by (cases "allocate_many n fd ?d") (simp add: AllocatePage_def bind_def ret_def)
qed simp

text \<open>
  Page numbers handed out by \<open>AllocatePage\<close> for one file run upwards from the counter,
  wrap around at the 32-bit boundary into the negative numbers, and repeat only after all
  4294967296 values have been used.
\<close>

theorem allocate_pages_distinct:
  assumes "0 \<le> fd" "fd < MAX_FD" "in32 (fd2pageno d fd)"
  shows "\<exists>nos. fst (allocate_many n fd d) = Inr nos \<and>
           nos = map (\<lambda>i. wrap32 (fd2pageno d fd + int i)) [0..<n] \<and>
           (n \<le> 2 ^ 32 \<longrightarrow> distinct nos)"
proof -
  have inj: "i = j" if "i < 2 ^ 32" "j < 2 ^ 32"
    and eq: "wrap32 (fd2pageno d fd + int i) = wrap32 (fd2pageno d fd + int j)" for i j :: nat
  proof -
    have "(fd2pageno d fd + int i) mod 2 ^ 32 = (fd2pageno d fd + int j) mod 2 ^ 32"
      using eq by (rule wrap32_inj)
    then have "int i mod 2 ^ 32 = int j mod 2 ^ 32"
      by (metis add_diff_cancel_left' mod_diff_left_eq)
    with that(1,2) show "i = j" by simp
  qed
  then have "n \<le> 2 ^ 32 \<longrightarrow> distinct (map (\<lambda>i. wrap32 (fd2pageno d fd + int i)) [0..<n])"
    by (auto simp: distinct_map inj_on_def)
  with allocate_many_wrap [OF assms] show ?thesis by blast
qed

theorem allocate_pages_distinct_witness:
  "fst (allocate_many 2 3 (demo_disk\<lparr>fd2pageno := (\<lambda>_. 2147483647)\<rparr>)) = Inr [2147483647, -2147483648]"
proof -
  have "\<exists>nos. fst (allocate_many 2 3 (demo_disk\<lparr>fd2pageno := (\<lambda>_. 2147483647)\<rparr>)) = Inr nos \<and>
           nos = map (\<lambda>i. wrap32 (fd2pageno (demo_disk\<lparr>fd2pageno := (\<lambda>_. 2147483647)\<rparr>) 3 + int i)) [0..<2] \<and>
           (2 \<le> (2::nat) ^ 32 \<longrightarrow> distinct nos)"
    by (rule allocate_pages_distinct) (simp_all add: MAX_FD_def in32_def)
  then show ?thesis by (simp add: numeral_2_eq_2 wrap32_def)
qed

text \<open>
  \<open>open_file\<close> refuses a path that is no file and a path that is already open, \<open>destroy_file\<close>
  refuses a missing and an open file, and each refusal leaves the state unchanged; where
  none applies and a descriptor is free, \<open>open_file\<close> returns it and the file is closed again
  by \<open>close_file\<close> with both tables as they were before.
\<close>

theorem open_close_file:
  assumes "dm_reach d"
  shows "(\<not> is_file p d \<longrightarrow> open_file p d = (Inl (Exc (FileNotFoundError p)), d) \<and>
            destroy_file p d = (Inl (Exc (FileNotFoundError p)), d)) \<and>
         (path2fd d p \<noteq> None \<longrightarrow> open_file p d = (Inl (Exc (FileExistsError p)), d) \<and>
            destroy_file p d = (Inl (Exc (FileNotClosedError p)), d)) \<and>
         (is_file p d \<longrightarrow> path2fd d p = None \<longrightarrow> os_new_fd (dm_os d) = Some fd \<longrightarrow>
            (\<exists>d1 d2. open_file p d = (Inr fd, d1) \<and> close_file fd d1 = (Inr (), d2) \<and>
              path2fd d1 p = Some fd \<and> path2fd d2 = path2fd d \<and> fd2path d2 = fd2path d))"
proof (intro conjI impI)
  have inv: "disk_inv d" using assms by (rule dm_reach_inv)
  show "path2fd d p \<noteq> None \<Longrightarrow> open_file p d = (Inl (Exc (FileExistsError p)), d)"
    and "path2fd d p \<noteq> None \<Longrightarrow> destroy_file p d = (Inl (Exc (FileNotClosedError p)), d)"
    using disk_invD(3) [OF inv, of p] by (auto simp: open_file_def destroy_file_def is_file_def os_is_file_def)
  assume f: "is_file p d" "path2fd d p = None" "os_new_fd (dm_os d) = Some fd"
  then have free: "fd2path d fd = None" "fd \<noteq> -1"
    using os_new_fd_None os_fds_None_iff [OF inv] by fastforce+
  with f show "\<exists>d1 d2. open_file p d = (Inr fd, d1) \<and> close_file fd d1 = (Inr (), d2) \<and>
      path2fd d1 p = Some fd \<and> path2fd d2 = path2fd d \<and> fd2path d2 = fd2path d"
    by (auto simp: open_file_def close_file_def is_file_def os_is_file_def os_open_def os_close_def fun_eq_iff)
qed (simp_all add: open_file_def destroy_file_def)

theorem open_close_file_witness:
  "open_file ''x'' demo_disk = (Inl (Exc (FileNotFoundError ''x'')), demo_disk) \<and>
   destroy_file ''t'' demo_disk = (Inl (Exc (FileNotClosedError ''t'')), demo_disk) \<and>
   (\<exists>d1 d2. open_file LOG_FILE_NAME demo_disk = (Inr 4, d1) \<and> close_file 4 d1 = (Inr (), d2))"
proof -
  have "\<not> is_file ''x'' demo_disk" "is_file LOG_FILE_NAME demo_disk"
    "path2fd demo_disk LOG_FILE_NAME = None" "path2fd demo_disk ''t'' \<noteq> None"
    by (simp_all add: is_file_def os_is_file_def demo_disk_def demo_os_def LOG_FILE_NAME_def)
  moreover have "os_new_fd (dm_os demo_disk) = Some 4"
    by (simp add: os_new_fd_def demo_disk_def demo_os_def next_fd.simps)
  ultimately show ?thesis
    using open_close_file [OF demo_reach, of "''x''" 4] open_close_file [OF demo_reach, of "''t''" 4]
      open_close_file [OF demo_reach, of LOG_FILE_NAME 4]
    by blast
qed

lemma WriteLog_opened:
  assumes "disk_inv d" "fd2path d (log_fd d) = Some LOG_FILE_NAME" "log_fd d \<noteq> -1"
  obtains h old where "os_fds (dm_os d) (log_fd d) = Some h" "fd_path h = LOG_FILE_NAME"
    "os_files (dm_os d) LOG_FILE_NAME = Some old"
    "WriteLog bs d = (Inr (), d\<lparr>dm_os := (dm_os d)
       \<lparr>os_fds := (os_fds (dm_os d))(log_fd d \<mapsto> h\<lparr>fd_pos := length old + length bs\<rparr>),
        os_files := (os_files (dm_os d))(LOG_FILE_NAME \<mapsto> old @ bs)\<rparr>\<rparr>)"
proof -
  have "dm_open d (log_fd d)" using assms(2) by (simp add: dm_open_def)
  with assms(1) obtain h old where h: "os_fds (dm_os d) (log_fd d) = Some h"
    and old: "os_files (dm_os d) (fd_path h) = Some old"
    by (elim dm_openD)
  have p: "fd_path h = LOG_FILE_NAME"
    using disk_invD(2) [OF assms(1), of "log_fd d"] h assms(2) by (simp add: os_fd_path_def)
  have "overwrite (length old) bs old = old @ bs"
    by (simp add: overwrite_def wr_def)
  then have "WriteLog bs d = (Inr (), d\<lparr>dm_os := (dm_os d)
       \<lparr>os_fds := (os_fds (dm_os d))(log_fd d \<mapsto> h\<lparr>fd_pos := length old + length bs\<rparr>),
        os_files := (os_files (dm_os d))(LOG_FILE_NAME \<mapsto> old @ bs)\<rparr>\<rparr>)"
    using assms(3) h old p
    by (simp add: WriteLog_def open_log_def bind_def os_lseek_end_def os_contents_def os_lseek_def os_write_def)
  with that h p old show thesis by simp
qed

text \<open>
  \<open>WriteLog\<close> appends to the log file, and \<open>ReadLog\<close> at the old end of the file returns
  exactly what was appended.
\<close>

theorem write_read_log:
  assumes "dm_reach d" "fd2path d (log_fd d) = Some LOG_FILE_NAME" "log_fd d \<noteq> -1" "bs \<noteq> []"
    and "old = GetFileSize LOG_FILE_NAME d" "os_size LOG_FILE_NAME (dm_os d) + int (length bs) < 2 ^ 31"
  shows "\<exists>d' d''. WriteLog bs d = (Inr (), d') \<and>
           GetFileSize LOG_FILE_NAME d' = old + int (length bs) \<and>
           ReadLog (int (length bs)) 0 old d' = (Inr (Some bs), d'')"
proof -
  have inv: "disk_inv d" using assms(1) by (rule dm_reach_inv)
  obtain h c where h: "os_fds (dm_os d) (log_fd d) = Some h" "fd_path h = LOG_FILE_NAME"
    "os_files (dm_os d) LOG_FILE_NAME = Some c"
    and w: "WriteLog bs d = (Inr (), d\<lparr>dm_os := (dm_os d)
       \<lparr>os_fds := (os_fds (dm_os d))(log_fd d \<mapsto> h\<lparr>fd_pos := length c + length bs\<rparr>),
        os_files := (os_files (dm_os d))(LOG_FILE_NAME \<mapsto> c @ bs)\<rparr>\<rparr>)"
    using WriteLog_opened [OF inv assms(2,3)] by blast
  have sz: "int (length c) + int (length bs) < 2 ^ 31" using assms(6) h(3) by (simp add: os_size_def)
  then have r: "in32 (int (length c))" "in32 (int (length c) + int (length bs))" "in32 (int (length bs))"
    by (simp_all add: in32_def)
  then have old: "old = int (length c)" using assms(5) h(3) by (simp add: GetFileSize_def os_size_def)
  have "rd (length c) (length bs) (c @ bs) = bs" by (simp add: rd_def)
  then show ?thesis
    unfolding w old using assms(3,4) h r
    by (simp add: GetFileSize_def os_size_def ReadLog_def open_log_def bind_def os_lseek_def os_read_def Let_def)
qed

definition demo_log_disk :: DiskManager where
  "demo_log_disk = SetLogFd 4 (snd (open_file LOG_FILE_NAME demo_disk))"

theorem write_read_log_witness:
  "\<exists>d' d''. WriteLog [1, 2, 3] demo_log_disk = (Inr (), d') \<and> ReadLog 3 0 0 d' = (Inr (Some [1, 2, 3]), d'')"
proof -
  have fd: "os_new_fd (dm_os demo_disk) = Some 4"
    by (simp add: os_new_fd_def demo_disk_def demo_os_def next_fd.simps)
  have reach: "dm_reach demo_log_disk"
    unfolding demo_log_disk_def
    by (rule dm_reach.call [OF dm_reach.call [OF demo_reach disk_call.open_file [OF prod.collapse [symmetric]]] disk_call.SetLogFd])
  have "fd2path demo_log_disk (log_fd demo_log_disk) = Some LOG_FILE_NAME"
    "log_fd demo_log_disk \<noteq> -1" "GetFileSize LOG_FILE_NAME demo_log_disk = 0"
    using fd by (simp_all add: demo_log_disk_def SetLogFd_def open_file_def is_file_def os_is_file_def
        os_open_def GetFileSize_def os_size_def in32_def demo_disk_def demo_os_def LOG_FILE_NAME_def)
  moreover have "os_size LOG_FILE_NAME (dm_os demo_log_disk) = 0"
    using fd by (simp add: demo_log_disk_def SetLogFd_def open_file_def is_file_def os_is_file_def os_open_def os_size_def demo_disk_def demo_os_def LOG_FILE_NAME_def)
  ultimately show ?thesis
    using write_read_log [OF reach, of "[1, 2, 3]" 0] by auto
qed

end
