(* ===== verification/Replacer.thy ===== *)
theory Replacer
  imports Defs
begin

text \<open>
  \<open>replacer/replacer.h\<close>, \<open>replacer/lru_replacer.*\<close> and \<open>replacer/clock_replacer.*\<close>.

  The abstract class \<open>Replacer\<close> is the locale \<open>replacer\<close>: the frames that may be evicted form
  a set, \<open>Pin\<close> takes a frame out, \<open>Unpin\<close> puts one in while there is room, \<open>Victim\<close> takes out
  and returns some member. \<open>LRUReplacer\<close> keeps a \<open>std::list\<close> and a hash table from frames to
  list iterators; the model gives every list node an identity, so that an iterator is a node
  identity and \<open>erase\<close> removes the node it names. The interpretation \<open>lru\<close> shows that the
  pair implements the interface. \<open>ClockReplacer\<close> is not implemented in the source: its
  operations do nothing, and the model says so.
\<close>

section \<open>The LRU replacer\<close>

record LRUReplacer =
  LRUlist :: "(nat \<times> frame_id_t) list"
  LRUhash :: "frame_id_t \<rightharpoonup> nat"
  lru_next_node :: nat
  max_size :: nat

definition LRUReplacer_init :: "nat \<Rightarrow> LRUReplacer" where
  "LRUReplacer_init num_pages =
     \<lparr>LRUlist = [], LRUhash = Map.empty, lru_next_node = 0, max_size = num_pages\<rparr>"

definition Victim :: "LRUReplacer \<Rightarrow> (bool \<times> frame_id_t) \<times> LRUReplacer" where
  "Victim r =
     (if LRUlist r = [] then ((False, INVALID_FRAME_ID), r)
      else let f = snd (last (LRUlist r))
           in ((True, f), r\<lparr>LRUhash := (LRUhash r)(f := None), LRUlist := butlast (LRUlist r)\<rparr>))"

definition Pin :: "frame_id_t \<Rightarrow> LRUReplacer \<Rightarrow> LRUReplacer" where
  "Pin f r =
     (case LRUhash r f of
        None \<Rightarrow> r
      | Some it \<Rightarrow> r\<lparr>LRUlist := filter (\<lambda>n. fst n \<noteq> it) (LRUlist r), LRUhash := (LRUhash r)(f := None)\<rparr>)"

definition Unpin :: "frame_id_t \<Rightarrow> LRUReplacer \<Rightarrow> LRUReplacer" where
  "Unpin f r =
     (if LRUhash r f \<noteq> None then r
      else if length (LRUlist r) \<ge> max_size r then r
      else r\<lparr>LRUlist := (lru_next_node r, f) # LRUlist r,
             LRUhash := (LRUhash r)(f \<mapsto> lru_next_node r),
             lru_next_node := Suc (lru_next_node r)\<rparr>)"

definition Size :: "LRUReplacer \<Rightarrow> nat" where
  "Size r = length (LRUlist r)"

section \<open>Invariant and abstraction\<close>

text \<open>The frames in the order of the list: the first was unpinned last.\<close>

definition frames :: "LRUReplacer \<Rightarrow> frame_id_t list" where
  "frames r = map snd (LRUlist r)"

definition lru_inv :: "LRUReplacer \<Rightarrow> bool" where
  "lru_inv r \<longleftrightarrow>
     distinct (map fst (LRUlist r)) \<and> distinct (frames r) \<and>
     (\<forall>f i. LRUhash r f = Some i \<longleftrightarrow> (i, f) \<in> set (LRUlist r)) \<and>
     (\<forall>n \<in> set (LRUlist r). fst n < lru_next_node r) \<and>
     length (LRUlist r) \<le> max_size r"

lemma lru_inv_init: "lru_inv (LRUReplacer_init n)"
  by (simp add: lru_inv_def LRUReplacer_init_def frames_def)

lemma frames_init [simp]: "frames (LRUReplacer_init n) = []"
  by (simp add: frames_def LRUReplacer_init_def)

lemma lru_hash_iff: "lru_inv r \<Longrightarrow> LRUhash r f \<noteq> None \<longleftrightarrow> f \<in> set (frames r)"
  by (force simp: lru_inv_def frames_def)

lemma Size_frames: "Size r = length (frames r)"
  by (simp add: Size_def frames_def)

lemma distinct_butlast_last:
  "xs \<noteq> [] \<Longrightarrow> distinct xs \<Longrightarrow> set (butlast xs) = set xs - {last xs}"
  by (induction xs rule: rev_induct) auto

lemma frames_Victim:
  "LRUlist r \<noteq> [] \<Longrightarrow> Victim r = ((True, last (frames r)), snd (Victim r)) \<and>
     frames (snd (Victim r)) = butlast (frames r)"
  by (simp add: Victim_def frames_def Let_def last_map map_butlast)

lemma Victim_inv:
  assumes "lru_inv r"
  shows "lru_inv (snd (Victim r))"
proof (cases "LRUlist r = []")
  case False
  obtain xs i f where l: "LRUlist r = xs @ [(i, f)]"
    using False by (metis rev_exhaust surj_pair)
  then have r': "snd (Victim r) = r\<lparr>LRUhash := (LRUhash r)(f := None), LRUlist := xs\<rparr>"
    by (simp add: Victim_def)
  have "\<forall>g j. LRUhash r g = Some j \<longleftrightarrow> (j, g) \<in> set (xs @ [(i, f)])"
    and f: "f \<notin> snd ` set xs"
    using assms l by (simp_all add: lru_inv_def frames_def)
  then have "\<forall>g j. ((LRUhash r)(f := None)) g = Some j \<longleftrightarrow> (j, g) \<in> set xs"
    by (auto simp: image_iff)
  with assms l show ?thesis unfolding r' by (simp add: lru_inv_def frames_def)
qed (simp_all add: Victim_def assms)

lemma frames_Pin:
  assumes "lru_inv r"
  shows "frames (Pin f r) = filter (\<lambda>g. g \<noteq> f) (frames r)"
proof (cases "LRUhash r f")
  case None
  with lru_hash_iff [OF assms, of f] have "f \<notin> set (frames r)" by simp
  with None show ?thesis by (simp add: Pin_def) (metis (mono_tags, lifting) filter_True)
next
  case (Some it)
  with assms have "(it, f) \<in> set (LRUlist r)" "distinct (map fst (LRUlist r))" "distinct (map snd (LRUlist r))"
    by (simp_all add: lru_inv_def frames_def)
  then have "fst n \<noteq> it \<longleftrightarrow> snd n \<noteq> f" if "n \<in> set (LRUlist r)" for n
    using that by (metis eq_key_imp_eq_value inj_onD distinct_map prod.collapse fst_conv snd_conv)
  then have "filter (\<lambda>n. fst n \<noteq> it) (LRUlist r) = filter (\<lambda>n. snd n \<noteq> f) (LRUlist r)"
    by (rule filter_cong [OF refl])
  with Some show ?thesis by (simp add: Pin_def frames_def filter_map o_def)
qed

lemma Pin_inv:
  assumes "lru_inv r"
  shows "lru_inv (Pin f r)"
proof (cases "LRUhash r f")
  case None
  with assms show ?thesis by (simp add: Pin_def)
next
  case (Some it)
  have d: "distinct (frames (Pin f r))"
    using assms by (simp add: frames_Pin) (simp add: lru_inv_def)
  have h: "LRUhash r g = Some j \<longleftrightarrow> (j, g) \<in> set (LRUlist r)" for g j
    using assms by (simp add: lru_inv_def)
  have inj: "j = it \<longleftrightarrow> g = f" if "(j, g) \<in> set (LRUlist r)" for j g
    using that Some h [of f it] assms h
    by (metis eq_key_imp_eq_value lru_inv_def option.inject)
  have "length (filter (\<lambda>n. fst n \<noteq> it) (LRUlist r)) \<le> max_size r"
    using assms length_filter_le le_trans unfolding lru_inv_def by blast
  moreover have "((LRUhash r)(f := None)) g = Some j \<longleftrightarrow> (j, g) \<in> set (filter (\<lambda>n. fst n \<noteq> it) (LRUlist r))" for g j
    using h [of g j] inj [of j g] by auto
  moreover have "Pin f r = r\<lparr>LRUlist := filter (\<lambda>n. fst n \<noteq> it) (LRUlist r), LRUhash := (LRUhash r)(f := None)\<rparr>"
    using Some by (simp add: Pin_def)
  ultimately show ?thesis
    using assms d by (simp add: lru_inv_def distinct_map_filter)
qed

lemma frames_Unpin:
  assumes "lru_inv r"
  shows "frames (Unpin f r) =
    (if f \<in> set (frames r) \<or> length (frames r) \<ge> max_size r then frames r else f # frames r)"
  using lru_hash_iff [OF assms, of f] by (auto simp: Unpin_def frames_def)

lemma Unpin_inv:
  assumes "lru_inv r"
  shows "lru_inv (Unpin f r)"
proof (cases "LRUhash r f \<noteq> None \<or> length (LRUlist r) \<ge> max_size r")
  case False
  then have "f \<notin> set (frames r)" using lru_hash_iff [OF assms, of f] by simp
  have "(lru_next_node r, g) \<notin> set (LRUlist r)" for g
    using assms by (auto simp: lru_inv_def)
  with assms \<open>f \<notin> set (frames r)\<close>
  have "((LRUhash r)(f \<mapsto> lru_next_node r)) g = Some i \<longleftrightarrow> (i, g) \<in> set ((lru_next_node r, f) # LRUlist r)" for g i
    by (auto simp: lru_inv_def frames_def image_iff)
  with assms False \<open>f \<notin> set (frames r)\<close> \<open>\<And>g. (lru_next_node r, g) \<notin> set (LRUlist r)\<close> show ?thesis
    by (auto simp: lru_inv_def Unpin_def frames_def)
qed (use assms in \<open>auto simp: Unpin_def\<close>)

lemma max_size_simps [simp]:
  "max_size (snd (Victim r)) = max_size r" "max_size (Pin f r) = max_size r"
  "max_size (Unpin f r) = max_size r" "max_size (LRUReplacer_init n) = n"
  by (simp_all add: Victim_def Pin_def Unpin_def LRUReplacer_init_def Let_def split: option.splits)

section \<open>The replacer interface\<close>

locale replacer =
  fixes victim :: "'r \<Rightarrow> (bool \<times> frame_id_t) \<times> 'r"
    and pin :: "frame_id_t \<Rightarrow> 'r \<Rightarrow> 'r"
    and unpin :: "frame_id_t \<Rightarrow> 'r \<Rightarrow> 'r"
    and evictable :: "'r \<Rightarrow> frame_id_t set"
    and capacity :: "'r \<Rightarrow> nat"
    and inv :: "'r \<Rightarrow> bool"
  assumes victim_none: "inv r \<Longrightarrow> evictable r = {} \<Longrightarrow> victim r = ((False, INVALID_FRAME_ID), r)"
    and victim_some: "inv r \<Longrightarrow> evictable r \<noteq> {} \<Longrightarrow>
          \<exists>f r'. victim r = ((True, f), r') \<and> f \<in> evictable r \<and> evictable r' = evictable r - {f} \<and>
            capacity r' = capacity r \<and> inv r'"
    and evictable_pin: "inv r \<Longrightarrow> evictable (pin f r) = evictable r - {f}"
    and evictable_unpin: "inv r \<Longrightarrow> evictable (unpin f r) =
          (if card (evictable r) < capacity r then insert f (evictable r) else evictable r)"
    and finite_evictable: "inv r \<Longrightarrow> finite (evictable r) \<and> card (evictable r) \<le> capacity r"
    and inv_pin: "inv r \<Longrightarrow> inv (pin f r) \<and> capacity (pin f r) = capacity r"
    and inv_unpin: "inv r \<Longrightarrow> inv (unpin f r) \<and> capacity (unpin f r) = capacity r"
begin

lemma victim_cases:
  assumes "inv r" "victim r = ((b, f), r')"
  shows "(b \<and> f \<in> evictable r \<and> evictable r' = evictable r - {f} \<and> inv r' \<and> capacity r' = capacity r) \<or>
         (\<not> b \<and> evictable r = {} \<and> r' = r)"
proof (cases "evictable r = {}")
  case True
  with victim_none [OF assms(1)] assms(2) show ?thesis by simp
next
  case False
  with victim_some [OF assms(1)] assms(2) show ?thesis by auto
qed

text \<open>A frame outside a set of at most \<open>capacity\<close> frames always finds room.\<close>

lemma unpin_has_room:
  assumes "inv r" "evictable r \<subseteq> F" "finite F" "card F \<le> capacity r" "f \<in> F"
  shows "evictable (unpin f r) = insert f (evictable r)"
proof (cases "f \<in> evictable r")
  case False
  with assms have "evictable r \<subset> F" by blast
  with assms have "card (evictable r) < capacity r"
    using psubset_card_mono [of F "evictable r"] by simp
  with assms show ?thesis by (simp add: evictable_unpin)
qed (use assms in \<open>auto simp: evictable_unpin\<close>)

end

interpretation lru: replacer Victim Pin Unpin "\<lambda>r. set (frames r)" max_size lru_inv
proof (unfold_locales, goal_cases)
  case (1 r)
  then show ?case by (simp add: Victim_def frames_def)
next
  case (2 r)
  then have ne: "LRUlist r \<noteq> []" "frames r \<noteq> []" "distinct (frames r)"
    by (auto simp: frames_def lru_inv_def)
  with frames_Victim [of r] 2 show ?case
    by (intro exI [of _ "last (frames r)"] exI [of _ "snd (Victim r)"])
      (simp add: distinct_butlast_last Victim_inv)
next
  case (3 r f)
  then show ?case by (auto simp: frames_Pin)
next
  case (4 r f)
  then have "card (set (frames r)) = length (frames r)" "length (frames r) \<le> max_size r"
    by (simp_all add: lru_inv_def distinct_card) (simp add: frames_def)
  with 4 show ?case by (auto simp: frames_Unpin)
next
  case (5 r)
  then show ?case by (simp add: lru_inv_def distinct_card) (simp add: frames_def)
next
  case (6 r f)
  then show ?case by (simp add: Pin_inv)
next
  case (7 r f)
  then show ?case by (simp add: Unpin_inv)
qed

section \<open>Runs of the LRU replacer\<close>

datatype rep_op = OpPin frame_id_t | OpUnpin frame_id_t | OpVictim

text \<open>A run returns the victims it chose, in order.\<close>

fun lru_run :: "rep_op list \<Rightarrow> LRUReplacer \<Rightarrow> frame_id_t list \<times> LRUReplacer" where
  "lru_run [] r = ([], r)"
| "lru_run (OpPin f # ops) r = lru_run ops (Pin f r)"
| "lru_run (OpUnpin f # ops) r = lru_run ops (Unpin f r)"
| "lru_run (OpVictim # ops) r =
     (let ((found, f), r') = Victim r;
          (vs, r'') = lru_run ops r'
      in (if found then f # vs else vs, r''))"

definition lru_reach :: "nat \<Rightarrow> LRUReplacer \<Rightarrow> bool" where
  "lru_reach n r \<longleftrightarrow> (\<exists>ops. r = snd (lru_run ops (LRUReplacer_init n)))"

lemma lru_run_Victim:
  "Victim r = ((b, f), r') \<Longrightarrow>
   fst (lru_run (OpVictim # ops) r) = (if b then f # fst (lru_run ops r') else fst (lru_run ops r')) \<and>
   snd (lru_run (OpVictim # ops) r) = snd (lru_run ops r')"
  by (simp add: split_beta)

lemma lru_run_inv:
  "lru_inv r \<Longrightarrow> lru_inv (snd (lru_run ops r)) \<and> max_size (snd (lru_run ops r)) = max_size r"
proof (induction ops arbitrary: r)
  case (Cons x ops)
  show ?case
  proof (cases x)
    case OpVictim
    obtain b f r' where v: "Victim r = ((b, f), r')" by (metis surj_pair)
    with Victim_inv [OF Cons.prems] max_size_simps(1) [of r] Cons.IH [of r']
    show ?thesis unfolding OpVictim by (simp add: lru_run_Victim del: lru_run.simps)
  qed (use Cons in \<open>auto simp: Pin_inv Unpin_inv\<close>)
qed simp

lemma lru_reach_inv: "lru_reach n r \<Longrightarrow> lru_inv r \<and> max_size r = n"
  using lru_run_inv [OF lru_inv_init] by (auto simp: lru_reach_def)

lemma lru_run_append:
  "lru_run (xs @ ys) r =
     (let (v1, r1) = lru_run xs r; (v2, r2) = lru_run ys r1 in (v1 @ v2, r2))"
proof (induction xs arbitrary: r)
  case (Cons x xs)
  then show ?case by (cases x) (auto simp: split_beta Let_def)
qed simp

lemma victims_not_pinned:
  "lru_inv r \<Longrightarrow> f \<notin> set (frames r) \<Longrightarrow> OpUnpin f \<notin> set ops \<Longrightarrow> f \<notin> set (fst (lru_run ops r))"
proof (induction ops arbitrary: r)
  case (Cons x ops)
  show ?case
  proof (cases x)
    case (OpPin g)
    with Cons show ?thesis by (simp add: Pin_inv lru.evictable_pin)
  next
    case (OpUnpin g)
    with Cons show ?thesis by (auto simp: Unpin_inv lru.evictable_unpin)
  next
    case OpVictim
    obtain b g r' where v: "Victim r = ((b, g), r')" by (metis surj_pair)
    with lru.victim_cases [OF Cons.prems(1) v] Cons show ?thesis
      unfolding OpVictim by (auto simp: lru_run_Victim simp del: lru_run.simps)
  qed
qed simp

lemma unpin_all:
  "lru_inv r \<Longrightarrow> distinct fs \<Longrightarrow> set fs \<inter> set (frames r) = {} \<Longrightarrow> length fs + length (frames r) \<le> max_size r \<Longrightarrow>
   fst (lru_run (map OpUnpin fs) r) = [] \<and> frames (snd (lru_run (map OpUnpin fs) r)) = rev fs @ frames r \<and>
   lru_inv (snd (lru_run (map OpUnpin fs) r))"
proof (induction fs arbitrary: r)
  case (Cons f fs)
  from Cons.prems have fr: "frames (Unpin f r) = f # frames r" by (auto simp: frames_Unpin)
  with Cons.prems have "fst (lru_run (map OpUnpin fs) (Unpin f r)) = [] \<and>
      frames (snd (lru_run (map OpUnpin fs) (Unpin f r))) = rev fs @ frames (Unpin f r) \<and>
      lru_inv (snd (lru_run (map OpUnpin fs) (Unpin f r)))"
    by (intro Cons.IH) (auto simp: Unpin_inv)
  with fr show ?case by simp
qed simp

lemma victim_all:
  "lru_inv r \<Longrightarrow> fst (lru_run (replicate (length (frames r)) OpVictim) r) = rev (frames r)"
proof (induction "length (frames r)" arbitrary: r)
  case (Suc n)
  then have ne: "LRUlist r \<noteq> []" "frames r \<noteq> []" by (auto simp: frames_def)
  from frames_Victim [OF ne(1)] obtain r' where v: "Victim r = ((True, last (frames r)), r')"
    and fr: "frames r' = butlast (frames r)" by (metis snd_conv)
  from Victim_inv [OF Suc.prems] v have "lru_inv r'" by simp
  with Suc fr have "fst (lru_run (replicate n OpVictim) r') = rev (butlast (frames r))"
    by (metis diff_Suc_1 length_butlast)
  moreover have "rev (frames r) = last (frames r) # rev (butlast (frames r))"
    using ne(2) by (metis append_butlast_last_id rev.simps(2) rev_rev_ident rev_append rev_singleton_conv append_Cons append_Nil)
  ultimately show ?case
    using v Suc.hyps(2) [symmetric]
    by (simp only: replicate_Suc lru_run_Victim if_True)
qed simp

section \<open>The clock replacer\<close>

datatype Status = UNTOUCHED | ACCESSED | EMPTY_OR_PINNED

record ClockReplacer =
  circular :: "Status list"
  hand :: frame_id_t
  clock_capacity :: nat

definition ClockReplacer_init :: "nat \<Rightarrow> ClockReplacer" where
  "ClockReplacer_init num_pages =
     \<lparr>circular = replicate num_pages EMPTY_OR_PINNED, hand = 0, clock_capacity = num_pages\<rparr>"

text \<open>The first argument is the value \<open>*frame_id\<close> has at the call; the code does not assign it.\<close>

definition Clock_Victim :: "frame_id_t \<Rightarrow> ClockReplacer \<Rightarrow> (bool \<times> frame_id_t) \<times> ClockReplacer" where
  "Clock_Victim frame_id c = ((False, frame_id), c)"

definition Clock_Pin :: "frame_id_t \<Rightarrow> ClockReplacer \<Rightarrow> ClockReplacer" where
  "Clock_Pin frame_id c = c"

definition Clock_Unpin :: "frame_id_t \<Rightarrow> ClockReplacer \<Rightarrow> ClockReplacer" where
  "Clock_Unpin frame_id c = c"

text \<open>\<open>size_t Size() { return -1; }\<close>\<close>

definition Clock_Size :: "ClockReplacer \<Rightarrow> 64 word" where
  "Clock_Size c = word_of_int (-1)"

section \<open>Properties\<close>

text \<open>
  C12. The list and hash table of \<open>LRUReplacer\<close> implement a queue without repetitions: in every
  reachable state \<open>Victim\<close> takes the frame that has been evictable longest and fails exactly
  when the queue is empty, \<open>Pin\<close> removes a frame, \<open>Unpin\<close> adds one at the other end unless
  it is there or the capacity is reached, and \<open>Size\<close> is the length of the queue.
\<close>

theorem lru_refines_queue:
  assumes "lru_reach n r"
  shows "distinct (frames r) \<and> length (frames r) \<le> n \<and> Size r = length (frames r) \<and>
         (frames r = [] \<longrightarrow> Victim r = ((False, INVALID_FRAME_ID), r)) \<and>
         (frames r \<noteq> [] \<longrightarrow> (\<exists>r'. Victim r = ((True, last (frames r)), r') \<and> frames r' = butlast (frames r))) \<and>
         frames (Pin f r) = filter (\<lambda>g. g \<noteq> f) (frames r) \<and>
         frames (Unpin f r) = (if f \<in> set (frames r) \<or> n \<le> length (frames r) then frames r else f # frames r)"
proof -
  have inv: "lru_inv r" "max_size r = n" using lru_reach_inv [OF assms] by auto
  then have "distinct (frames r)" "length (frames r) \<le> n" by (auto simp: lru_inv_def frames_def)
  moreover have "frames r = [] \<longleftrightarrow> LRUlist r = []" by (simp add: frames_def)
  ultimately show ?thesis
    using frames_Victim [of r] frames_Pin [OF inv(1), of f] frames_Unpin [OF inv(1), of f] inv(2)
    by (auto simp: Size_frames Victim_def)
qed

lemma lru_reach_demo: "lru_reach 2 (Unpin 5 (Unpin 4 (LRUReplacer_init 2)))"
  unfolding lru_reach_def by (rule exI [of _ "[OpUnpin 4, OpUnpin 5]"]) simp

theorem lru_refines_queue_witness:
  "\<exists>r'. Victim (Unpin 5 (Unpin 4 (LRUReplacer_init 2))) = ((True, 4), r') \<and> frames r' = [5]"
proof -
  have fr: "frames (Unpin 5 (Unpin 4 (LRUReplacer_init 2))) = [5, 4]"
    by (simp add: frames_Unpin Unpin_inv lru_inv_init)
  then show ?thesis using lru_refines_queue [OF lru_reach_demo, of 0] by simp
qed

text \<open>
  C27. A pinned frame is never chosen as a victim until it is unpinned, whatever calls are made
  in between.
\<close>

theorem pinned_never_victim:
  assumes "lru_reach n r" "OpUnpin f \<notin> set ops"
  shows "f \<notin> set (fst (lru_run ops (Pin f r)))"
proof (rule victims_not_pinned)
  show "lru_inv (Pin f r)" "f \<notin> set (frames (Pin f r))"
    using lru_reach_inv [OF assms(1)] by (simp_all add: Pin_inv lru.evictable_pin)
qed (rule assms(2))

theorem pinned_never_victim_witness:
  "4 \<notin> set (fst (lru_run [OpVictim, OpVictim] (Pin 4 (Unpin 5 (Unpin 4 (LRUReplacer_init 2))))))"
  by (rule pinned_never_victim [OF lru_reach_demo]) simp

text \<open>
  Frames that are unpinned one after the other on a fresh replacer with enough room come
  back from \<open>Victim\<close> in the same order.
\<close>

lemma lru_order:
  assumes "distinct fs" "length fs \<le> n"
  shows "fst (lru_run (map OpUnpin fs @ replicate (length fs) OpVictim) (LRUReplacer_init n)) = fs"
proof -
  let ?r = "snd (lru_run (map OpUnpin fs) (LRUReplacer_init n))"
  have "fst (lru_run (map OpUnpin fs) (LRUReplacer_init n)) = [] \<and> frames ?r = rev fs \<and> lru_inv ?r"
    using unpin_all [OF lru_inv_init, of fs n] assms by simp
  with victim_all [of ?r] show ?thesis
    by (auto simp: lru_run_append Let_def split: prod.splits)
qed

text \<open>
  The clock replacer is a stub: no sequence of calls ever makes a frame evictable, and
  \<open>Size\<close> reports 18446744073709551615.
\<close>

lemma clock_never_evicts:
  "Clock_Victim g (Clock_Unpin f c) = ((False, g), c) \<and> Clock_Pin f c = c \<and>
   unat (Clock_Size c) = 18446744073709551615"
  by (simp add: Clock_Victim_def Clock_Unpin_def Clock_Pin_def Clock_Size_def unsigned_minus_1_eq_mask mask_eq_exp_minus_1)

end
