(* ===== verification/Buffer_Pool.thy ===== *)
theory Buffer_Pool
  imports Disk_Manager Replacer
begin

text \<open>
  \<open>storage/page.h\<close> and \<open>storage/buffer_pool_manager.*\<close>: the frames, the page table, the free
  list and the operations on them.

  The array \<open>pages_\<close> is a function from frame numbers; a \<open>Page *\<close> is the number of its frame,
  and \<open>nullptr\<close> is \<open>None\<close>. The latch makes every operation atomic, so each is one step.
  An operation that throws (a disk error) returns the state it has reached; the invariant
  \<open>bp_inv\<close> holds there too. \<open>logical\<close> is the page store that clients see through the pool:
  the frame of a resident page, the disk for the others. \<open>bp_coherent\<close> says that an evictable
  clean frame agrees with the disk, which is what makes eviction invisible.
\<close>

section \<open>Pages\<close>

record PageId =
  pid_fd :: int
  pid_page_no :: page_id_t

definition PageId_eq :: "PageId \<Rightarrow> PageId \<Rightarrow> bool" where
  "PageId_eq x y \<longleftrightarrow> pid_fd x = pid_fd y \<and> pid_page_no x = pid_page_no y"

lemma PageId_eq_iff: "PageId_eq x y \<longleftrightarrow> x = y"
  by (auto simp: PageId_eq_def intro: PageId.equality)

record Page =
  pg_id :: PageId
  pg_data :: bytes
  pg_is_dirty :: bool
  pg_pin_count :: int

definition zero_page :: bytes where
  "zero_page = replicate PAGE_SIZE 0"

lemma length_zero_page [simp]: "length zero_page = PAGE_SIZE"
  by (simp add: zero_page_def)

text \<open>The constructor clears the data and leaves \<open>id_.fd\<close> uninitialised (the argument).\<close>

definition Page_init :: "int \<Rightarrow> Page" where
  "Page_init junk_fd =
     \<lparr>pg_id = \<lparr>pid_fd = junk_fd, pid_page_no = INVALID_PAGE_ID\<rparr>, pg_data = zero_page,
      pg_is_dirty = False, pg_pin_count = 0\<rparr>"

definition GetPageLsn :: "Page \<Rightarrow> lsn_t" where
  "GetPageLsn p = of_le32 (rd 0 4 (pg_data p))"

definition SetPageLsn :: "lsn_t \<Rightarrow> Page \<Rightarrow> Page" where
  "SetPageLsn page_lsn p = p\<lparr>pg_data := wr 0 (le32 page_lsn) (pg_data p)\<rparr>"

section \<open>State and operations\<close>

record BufferPoolManager =
  pool_size :: nat
  pages :: "frame_id_t \<Rightarrow> Page"
  page_table :: "PageId \<rightharpoonup> frame_id_t"
  free_list :: "frame_id_t list"
  disk_manager :: DiskManager
  bp_replacer :: LRUReplacer

definition BufferPoolManager_init :: "nat \<Rightarrow> (frame_id_t \<Rightarrow> int) \<Rightarrow> DiskManager \<Rightarrow> BufferPoolManager" where
  "BufferPoolManager_init n junk d =
     \<lparr>pool_size = n, pages = (\<lambda>f. Page_init (junk f)), page_table = Map.empty,
      free_list = map int [0..<n], disk_manager = d, bp_replacer = LRUReplacer_init n\<rparr>"

definition upd_page :: "frame_id_t \<Rightarrow> (Page \<Rightarrow> Page) \<Rightarrow> BufferPoolManager \<Rightarrow> BufferPoolManager" where
  "upd_page f g s = s\<lparr>pages := (pages s)(f := g (pages s f))\<rparr>"

definition on_disk :: "(DiskManager, 'a) prog \<Rightarrow> (BufferPoolManager, 'a) prog" where
  "on_disk m s = (let (r, d) = m (disk_manager s) in (r, s\<lparr>disk_manager := d\<rparr>))"

definition write_frame :: "frame_id_t \<Rightarrow> (BufferPoolManager, unit) prog" where
  "write_frame f s =
     on_disk (write_page (pid_fd (pg_id (pages s f))) (pid_page_no (pg_id (pages s f))) (pg_data (pages s f))) s"

definition FindVictimPage :: "BufferPoolManager \<Rightarrow> (bool \<times> frame_id_t) \<times> BufferPoolManager" where
  "FindVictimPage s =
     (case free_list s of
        f # fs \<Rightarrow> ((True, f), s\<lparr>free_list := fs\<rparr>)
      | [] \<Rightarrow> (let (v, r) = Victim (bp_replacer s) in (v, s\<lparr>bp_replacer := r\<rparr>)))"

definition UpdatePage :: "frame_id_t \<Rightarrow> PageId \<Rightarrow> frame_id_t \<Rightarrow> (BufferPoolManager, unit) prog" where
  "UpdatePage page new_page_id new_frame_id s =
     bind
       (\<lambda>s. if pid_page_no (pg_id (pages s page)) \<noteq> INVALID_PAGE_ID \<and> pg_is_dirty (pages s page)
            then write_frame page s else ret () s)
       (\<lambda>_ s.
         let old = pg_id (pages s page);
             tab = (if pid_page_no old \<noteq> INVALID_PAGE_ID then (page_table s)(old := None) else page_table s)
         in (Inr (), upd_page page
               (\<lambda>p. p\<lparr>pg_data := zero_page, pg_id := new_page_id, pg_is_dirty := False, pg_pin_count := 0\<rparr>)
               (s\<lparr>page_table := tab(new_page_id \<mapsto> new_frame_id)\<rparr>)))
       s"

text \<open>\<open>disk_manager_->read_page(page_id.fd, page_id.page_no, page->GetData(), PAGE_SIZE)\<close>\<close>

definition read_frame :: "PageId \<Rightarrow> frame_id_t \<Rightarrow> (BufferPoolManager, unit) prog" where
  "read_frame pid f s =
     (let (r, buf, d) = read_page (pid_fd pid) (pid_page_no pid) PAGE_SIZE (pg_data (pages s f)) (disk_manager s)
      in (r, upd_page f (\<lambda>p. p\<lparr>pg_data := buf\<rparr>) (s\<lparr>disk_manager := d\<rparr>)))"

definition FetchPage :: "PageId \<Rightarrow> (BufferPoolManager, frame_id_t option) prog" where
  "FetchPage page_id s =
     (case page_table s page_id of
        Some f \<Rightarrow>
          (Inr (Some f),
           (upd_page f (\<lambda>p. p\<lparr>pg_pin_count := pg_pin_count p + 1\<rparr>) s)\<lparr>bp_replacer := Pin f (bp_replacer s)\<rparr>)
      | None \<Rightarrow>
          let ((found, f), s1) = FindVictimPage s
          in if \<not> found then (Inr None, s1)
             else bind (UpdatePage f page_id f) (\<lambda>_.
                  bind (read_frame page_id f) (\<lambda>_ s.
                    (Inr (Some f),
                     (upd_page f (\<lambda>p. p\<lparr>pg_pin_count := 1\<rparr>) s)\<lparr>bp_replacer := Pin f (bp_replacer s)\<rparr>))) s1)"

definition UnpinPage :: "PageId \<Rightarrow> bool \<Rightarrow> BufferPoolManager \<Rightarrow> bool \<times> BufferPoolManager" where
  "UnpinPage page_id is_dirty s =
     (case page_table s page_id of
        None \<Rightarrow> (False, s)
      | Some f \<Rightarrow>
          if pg_pin_count (pages s f) \<le> 0 then (False, s)
          else let s1 = upd_page f (\<lambda>p. p\<lparr>pg_pin_count := pg_pin_count p - 1,
                                         pg_is_dirty := is_dirty \<or> pg_is_dirty p\<rparr>) s
               in (True, if pg_pin_count (pages s1 f) = 0
                         then s1\<lparr>bp_replacer := Unpin f (bp_replacer s1)\<rparr> else s1))"

definition FlushPage :: "PageId \<Rightarrow> (BufferPoolManager, bool) prog" where
  "FlushPage page_id s =
     (case page_table s page_id of
        None \<Rightarrow> (Inr False, s)
      | Some f \<Rightarrow>
          bind (write_frame f) (\<lambda>_ s. (Inr True, upd_page f (\<lambda>p. p\<lparr>pg_is_dirty := False\<rparr>) s)) s)"

text \<open>The argument is \<open>page_id->fd\<close>; the result is the frame and the new value of \<open>*page_id\<close>.\<close>

definition NewPage :: "int \<Rightarrow> (BufferPoolManager, (frame_id_t \<times> PageId) option) prog" where
  "NewPage file s =
     (let ((found, f), s1) = FindVictimPage s
      in if \<not> found then (Inr None, s1)
         else bind (on_disk (AllocatePage file)) (\<lambda>no.
              let new_page_id = \<lparr>pid_fd = file, pid_page_no = no\<rparr>
              in bind (UpdatePage f new_page_id f) (\<lambda>_ s.
                   (Inr (Some (f, new_page_id)),
                    (upd_page f (\<lambda>p. p\<lparr>pg_pin_count := 1\<rparr>) s)\<lparr>bp_replacer := Pin f (bp_replacer s)\<rparr>))) s1)"

definition DeletePage :: "PageId \<Rightarrow> (BufferPoolManager, bool) prog" where
  "DeletePage page_id s =
     (case page_table s page_id of
        None \<Rightarrow> (Inr True, s\<lparr>disk_manager := DeallocatePage (pid_page_no page_id) (disk_manager s)\<rparr>)
      | Some f \<Rightarrow>
          if pg_pin_count (pages s f) > 0 then (Inr False, s)
          else bind
            (\<lambda>s. if pg_is_dirty (pages s f) then write_frame f s else ret () s)
            (\<lambda>_ s.
              let s1 = upd_page f (\<lambda>p. p\<lparr>pg_data := zero_page,
                          pg_id := \<lparr>pid_fd = pid_fd (pg_id p), pid_page_no = INVALID_PAGE_ID\<rparr>,
                          pg_is_dirty := False, pg_pin_count := 0\<rparr>) s
              in (Inr True, s1\<lparr>free_list := free_list s1 @ [f], bp_replacer := Pin f (bp_replacer s1),
                    disk_manager := DeallocatePage (pid_page_no page_id) (disk_manager s1)\<rparr>))
            (s\<lparr>page_table := (page_table s)(page_id := None)\<rparr>))"

fun flush_frames :: "int \<Rightarrow> frame_id_t list \<Rightarrow> (BufferPoolManager, unit) prog" where
  "flush_frames file [] s = (Inr (), s)"
| "flush_frames file (f # fs) s =
     (if pid_fd (pg_id (pages s f)) = file \<and> pid_page_no (pg_id (pages s f)) \<noteq> INVALID_PAGE_ID
      then bind (write_frame f) (\<lambda>_ s. flush_frames file fs (upd_page f (\<lambda>p. p\<lparr>pg_is_dirty := False\<rparr>) s)) s
      else flush_frames file fs s)"

definition FlushAllPages :: "int \<Rightarrow> (BufferPoolManager, unit) prog" where
  "FlushAllPages file s = flush_frames file (map int [0..<pool_size s]) s"

section \<open>Invariant\<close>

definition is_frame :: "BufferPoolManager \<Rightarrow> frame_id_t \<Rightarrow> bool" where
  "is_frame s f \<longleftrightarrow> 0 \<le> f \<and> f < int (pool_size s)"

text \<open>The frames that \<open>FindVictimPage\<close> can hand out.\<close>

definition avail :: "BufferPoolManager \<Rightarrow> frame_id_t set" where
  "avail s = set (free_list s) \<union> set (frames (bp_replacer s))"

text \<open>
  The page table is exactly the index of the frames that hold a page; free frames hold none;
  evictable frames hold an unpinned one.
\<close>

definition bp_inv :: "BufferPoolManager \<Rightarrow> bool" where
  "bp_inv s \<longleftrightarrow>
     disk_inv (disk_manager s) \<and> lru_inv (bp_replacer s) \<and> max_size (bp_replacer s) = pool_size s \<and>
     (\<forall>pid f. page_table s pid = Some f \<longleftrightarrow>
        is_frame s f \<and> pg_id (pages s f) = pid \<and> pid_page_no pid \<noteq> INVALID_PAGE_ID) \<and>
     distinct (free_list s) \<and>
     (\<forall>f\<in>set (free_list s). is_frame s f \<and> pid_page_no (pg_id (pages s f)) = INVALID_PAGE_ID \<and>
        pg_pin_count (pages s f) = 0) \<and>
     (\<forall>f\<in>set (frames (bp_replacer s)). is_frame s f \<and> pid_page_no (pg_id (pages s f)) \<noteq> INVALID_PAGE_ID \<and>
        pg_pin_count (pages s f) = 0) \<and>
     (\<forall>f. is_frame s f \<longrightarrow> length (pg_data (pages s f)) = PAGE_SIZE \<and> 0 \<le> pg_pin_count (pages s f))"

lemma bp_invD:
  assumes "bp_inv s"
  shows "disk_inv (disk_manager s)" "lru_inv (bp_replacer s)" "max_size (bp_replacer s) = pool_size s"
    "page_table s pid = Some f \<longleftrightarrow>
       is_frame s f \<and> pg_id (pages s f) = pid \<and> pid_page_no pid \<noteq> INVALID_PAGE_ID"
    "distinct (free_list s)"
    "f \<in> set (free_list s) \<Longrightarrow> is_frame s f \<and> pid_page_no (pg_id (pages s f)) = INVALID_PAGE_ID \<and>
        pg_pin_count (pages s f) = 0"
    "f \<in> set (frames (bp_replacer s)) \<Longrightarrow> is_frame s f \<and>
        pid_page_no (pg_id (pages s f)) \<noteq> INVALID_PAGE_ID \<and> pg_pin_count (pages s f) = 0"
    "is_frame s f \<Longrightarrow> length (pg_data (pages s f)) = PAGE_SIZE \<and> 0 \<le> pg_pin_count (pages s f)"
  using assms unfolding bp_inv_def by blast+

lemma bp_invI:
  assumes "disk_inv (disk_manager s)" "lru_inv (bp_replacer s)" "max_size (bp_replacer s) = pool_size s"
    "\<And>pid f. page_table s pid = Some f \<longleftrightarrow>
       is_frame s f \<and> pg_id (pages s f) = pid \<and> pid_page_no pid \<noteq> INVALID_PAGE_ID"
    "distinct (free_list s)"
    "\<And>f. f \<in> set (free_list s) \<Longrightarrow> is_frame s f \<and> pid_page_no (pg_id (pages s f)) = INVALID_PAGE_ID \<and>
        pg_pin_count (pages s f) = 0"
    "\<And>f. f \<in> set (frames (bp_replacer s)) \<Longrightarrow> is_frame s f \<and>
        pid_page_no (pg_id (pages s f)) \<noteq> INVALID_PAGE_ID \<and> pg_pin_count (pages s f) = 0"
    "\<And>f. is_frame s f \<Longrightarrow> length (pg_data (pages s f)) = PAGE_SIZE \<and> 0 \<le> pg_pin_count (pages s f)"
  shows "bp_inv s"
  using assms unfolding bp_inv_def by blast

lemma is_frame_simps [simp]:
  "is_frame (s\<lparr>disk_manager := d\<rparr>) = is_frame s"
  "is_frame (s\<lparr>bp_replacer := r\<rparr>) = is_frame s"
  "is_frame (s\<lparr>free_list := fl\<rparr>) = is_frame s"
  "is_frame (s\<lparr>page_table := pt\<rparr>) = is_frame s"
  "is_frame (s\<lparr>pages := ps\<rparr>) = is_frame s"
  "is_frame (upd_page f g s) = is_frame s"
  by (auto simp: is_frame_def upd_page_def fun_eq_iff)

lemma upd_page_simps [simp]:
  "pages (upd_page f g s) = (pages s)(f := g (pages s f))"
  "page_table (upd_page f g s) = page_table s"
  "free_list (upd_page f g s) = free_list s"
  "disk_manager (upd_page f g s) = disk_manager s"
  "bp_replacer (upd_page f g s) = bp_replacer s"
  "pool_size (upd_page f g s) = pool_size s"
  by (simp_all add: upd_page_def)

lemma avail_simps [simp]:
  "avail (s\<lparr>disk_manager := d\<rparr>) = avail s"
  "avail (s\<lparr>page_table := pt\<rparr>) = avail s"
  "avail (s\<lparr>pages := ps\<rparr>) = avail s"
  "avail (upd_page f g s) = avail s"
  by (simp_all add: avail_def)

lemma bp_inv_disk: "bp_inv s \<Longrightarrow> disk_inv d \<Longrightarrow> bp_inv (s\<lparr>disk_manager := d\<rparr>)"
  by (simp add: bp_inv_def)

lemma avail_frame: "bp_inv s \<Longrightarrow> f \<in> avail s \<Longrightarrow> is_frame s f \<and> pg_pin_count (pages s f) = 0"
  by (auto simp: avail_def dest: bp_invD(6,7))

text \<open>A change of one frame that keeps its identity and its status.\<close>

lemma bp_inv_upd_page:
  assumes "bp_inv s" "\<And>p. pg_id (g p) = pg_id p"
    and "length (pg_data (pages s f)) = PAGE_SIZE \<Longrightarrow> length (pg_data (g (pages s f))) = PAGE_SIZE"
    and "0 \<le> pg_pin_count (pages s f) \<Longrightarrow> 0 \<le> pg_pin_count (g (pages s f))"
    and "f \<in> avail s \<Longrightarrow> pg_pin_count (pages s f) = 0 \<Longrightarrow> pg_pin_count (g (pages s f)) = 0"
  shows "bp_inv (upd_page f g s)"
  using assms(1,3-) by (intro bp_invI) (auto simp: assms(2) avail_def bp_invD [OF assms(1)])

lemma bp_inv_Pin:
  assumes "bp_inv s" shows "bp_inv (s\<lparr>bp_replacer := Pin f (bp_replacer s)\<rparr>)"
  using assms by (intro bp_invI) (auto simp: Pin_inv lru.evictable_pin bp_invD [OF assms])

lemma BufferPoolManager_init_inv: "disk_inv d \<Longrightarrow> bp_inv (BufferPoolManager_init n junk d)"
  by (intro bp_invI)
    (auto simp: BufferPoolManager_init_def lru_inv_init Page_init_def distinct_map is_frame_def
      frames_def LRUReplacer_init_def lru_inv_init [unfolded LRUReplacer_init_def])

section \<open>Frames and the disk\<close>

lemma FindVictimPage_cases:
  assumes "bp_inv s" "FindVictimPage s = ((b, f), s')"
  shows "(\<not> b \<and> avail s = {} \<and> s' = s) \<or>
         (b \<and> f \<in> avail s \<and> avail s' = avail s - {f} \<and> bp_inv s' \<and>
          (\<exists>fl r. s' = s\<lparr>free_list := fl, bp_replacer := r\<rparr>))"
proof (cases "free_list s")
  case Nil
  then obtain r where v: "Victim (bp_replacer s) = ((b, f), r)" and s': "s' = s\<lparr>bp_replacer := r\<rparr>"
    using assms(2) by (cases "Victim (bp_replacer s)") (simp add: FindVictimPage_def)
  have "bp_inv s'" if "lru_inv r" "max_size r = pool_size s" "set (frames r) \<subseteq> set (frames (bp_replacer s))"
    unfolding s' using that assms(1) by (simp add: bp_inv_def subset_iff)
  moreover have "s' = s\<lparr>free_list := free_list s, bp_replacer := r\<rparr>" by (simp add: s')
  moreover have "avail s = set (frames (bp_replacer s))" "avail s' = set (frames r)"
    by (simp_all add: avail_def s' Nil)
  moreover have "\<not> b \<Longrightarrow> r = bp_replacer s \<Longrightarrow> s' = s" by (simp add: s')
  ultimately show ?thesis
    using lru.victim_cases [OF bp_invD(2) [OF assms(1)] v] bp_invD(3) [OF assms(1)]
    by (metis Diff_subset)
next
  case (Cons g fs)
  then have eq: "b" "f = g" "s' = s\<lparr>free_list := fs\<rparr>" using assms(2) by (auto simp: FindVictimPage_def)
  have "bp_inv s'"
    unfolding eq using assms(1) Cons by (simp add: bp_inv_def)
  moreover have "g \<notin> set fs" "g \<notin> set (frames (bp_replacer s))"
    using bp_invD(5) [OF assms(1)] bp_invD(6,7) [OF assms(1), of g] Cons by auto
  then have "avail s' = avail s - {f}" "f \<in> avail s" using eq Cons by (auto simp: avail_def)
  moreover have "s' = s\<lparr>free_list := fs, bp_replacer := bp_replacer s\<rparr>" by (simp add: eq)
  ultimately show ?thesis using eq(1) by metis
qed

text \<open>\<open>d'\<close> is \<open>d\<close> after a write of page \<open>(fd, no)\<close>: no other page is lost.\<close>

definition wrote :: "DiskManager \<Rightarrow> int \<Rightarrow> page_id_t \<Rightarrow> DiskManager \<Rightarrow> bool" where
  "wrote d fd no d' \<longleftrightarrow> disk_inv d' \<and> dm_open d' = dm_open d \<and>
     (\<forall>fd' no' b. (fd', no') \<noteq> (fd, no) \<longrightarrow> page_content d fd' no' = Some b \<longrightarrow> page_content d' fd' no' = Some b)"

lemma wrote_refl: "disk_inv d \<Longrightarrow> wrote d fd no d"
  by (simp add: wrote_def)

lemma write_frame_cases:
  assumes "bp_inv s" "is_frame s f" "write_frame f s = (r, s')"
  defines "pid \<equiv> pg_id (pages s f)" and "d \<equiv> disk_manager s"
  shows "\<exists>d'. s' = s\<lparr>disk_manager := d'\<rparr> \<and> wrote d (pid_fd pid) (pid_page_no pid) d' \<and>
    (r = Inr () \<and> dm_open d (pid_fd pid) \<and> 0 \<le> pid_page_no pid \<and>
       page_content d' (pid_fd pid) (pid_page_no pid) = Some (pg_data (pages s f)) \<or>
     r = Inl (Exc UnixError) \<and> \<not> (dm_open d (pid_fd pid) \<and> 0 \<le> pid_page_no pid) \<and>
       page_content d' = page_content d)"
proof -
  note inv = bp_invD(1) [OF assms(1)] and len = bp_invD(8) [OF assms(1,2)]
  obtain d' where w: "write_page (pid_fd pid) (pid_page_no pid) (pg_data (pages s f)) d = (r, d')"
    and s': "s' = s\<lparr>disk_manager := d'\<rparr>"
    using assms(3) by (auto simp: write_frame_def on_disk_def pid_def d_def split: prod.splits)
  have inv: "disk_inv d" using inv by (simp add: d_def)
  from len have l: "length (pg_data (pages s f)) = PAGE_SIZE" by simp
  have "wrote d (pid_fd pid) (pid_page_no pid) d'"
    using dm.write_inv [OF inv w] dm.write_other [OF inv l w] by (auto simp: wrote_def)
  with dm.write_cases [OF inv w] dm.write_same [OF inv l, of "pid_fd pid" "pid_page_no pid" d'] w s'
  show ?thesis by auto
qed

text \<open>What \<open>UpdatePage\<close> does to the pool once the old page is safe: the frame is blank and holds \<open>pid\<close>.\<close>

definition install :: "frame_id_t \<Rightarrow> PageId \<Rightarrow> BufferPoolManager \<Rightarrow> BufferPoolManager" where
  "install f pid s = upd_page f
     (\<lambda>p. p\<lparr>pg_data := zero_page, pg_id := pid, pg_is_dirty := False, pg_pin_count := 0\<rparr>)
     (s\<lparr>page_table := (page_table s)(pg_id (pages s f) := None, pid \<mapsto> f)\<rparr>)"

lemma UpdatePage_cases:
  assumes "bp_inv s" "is_frame s f" "UpdatePage f pid f s = (r, s')"
  defines "old \<equiv> pg_id (pages s f)" and "d \<equiv> disk_manager s"
  shows "\<exists>d'. wrote d (pid_fd old) (pid_page_no old) d' \<and>
    (r = Inr () \<and> s' = install f pid (s\<lparr>disk_manager := d'\<rparr>) \<and>
       (if pid_page_no old \<noteq> INVALID_PAGE_ID \<and> pg_is_dirty (pages s f)
        then page_content d' (pid_fd old) (pid_page_no old) = Some (pg_data (pages s f)) else d' = d) \<or>
     r = Inl (Exc UnixError) \<and> s' = s\<lparr>disk_manager := d'\<rparr> \<and> page_content d' = page_content d \<and>
       pid_page_no old \<noteq> INVALID_PAGE_ID \<and> pg_is_dirty (pages s f) \<and>
       \<not> (dm_open d (pid_fd old) \<and> 0 \<le> pid_page_no old))"
proof (cases "pid_page_no old \<noteq> INVALID_PAGE_ID \<and> pg_is_dirty (pages s f)")
  case True
  obtain r1 s1 where w: "write_frame f s = (r1, s1)" by (metis surj_pair)
  from write_frame_cases [OF assms(1,2) w] True w assms(3) show ?thesis
    by (auto simp: UpdatePage_def old_def d_def install_def bind_def Let_def)
next
  case False
  have "page_table s old = None" if "pid_page_no old = INVALID_PAGE_ID"
    using bp_invD(4) [OF assms(1), of old] that by (cases "page_table s old") auto
  then have "(if pid_page_no old \<noteq> INVALID_PAGE_ID then (page_table s)(old := None) else page_table s) =
      (page_table s)(old := None)" by (auto simp: fun_eq_iff)
  with False assms(3) bp_invD(1) [OF assms(1)] show ?thesis
    by (auto simp: UpdatePage_def old_def d_def install_def bind_def ret_def Let_def wrote_refl)
qed

lemma install_inv:
  assumes "bp_inv s" "is_frame s f" "f \<notin> avail s" "page_table s pid = None" "pid_page_no pid \<noteq> INVALID_PAGE_ID"
  shows "bp_inv (install f pid s)" and "avail (install f pid s) = avail s"
proof -
  show "avail (install f pid s) = avail s" by (simp add: install_def)
  have "((page_table s)(pg_id (pages s f) := None, pid \<mapsto> f)) p = Some g \<longleftrightarrow>
      is_frame s g \<and> (if g = f then pid else pg_id (pages s g)) = p \<and> pid_page_no p \<noteq> INVALID_PAGE_ID" for p g
    using assms bp_invD(4) [OF assms(1), of p g] bp_invD(4) [OF assms(1), of p f]
      bp_invD(4) [OF assms(1), of pid g] by auto
  with assms show "bp_inv (install f pid s)"
    unfolding install_def by (intro bp_invI) (auto simp: avail_def bp_invD [OF assms(1)])
qed

text \<open>The frame after a page has been placed in it: data \<open>b\<close> and pin count \<open>k\<close>.\<close>

definition load :: "frame_id_t \<Rightarrow> PageId \<Rightarrow> bytes \<Rightarrow> int \<Rightarrow> BufferPoolManager \<Rightarrow> BufferPoolManager" where
  "load f pid b k s = upd_page f (\<lambda>p. p\<lparr>pg_data := b, pg_pin_count := k\<rparr>) (install f pid s)"

lemma load_simps [simp]:
  "pages (load f pid b k s) = (pages s)(f := \<lparr>pg_id = pid, pg_data = b, pg_is_dirty = False, pg_pin_count = k, \<dots> = Page.more (pages s f)\<rparr>)"
  "page_table (load f pid b k s) = (page_table s)(pg_id (pages s f) := None, pid \<mapsto> f)"
  "free_list (load f pid b k s) = free_list s"
  "disk_manager (load f pid b k s) = disk_manager s"
  "bp_replacer (load f pid b k s) = bp_replacer s"
  "pool_size (load f pid b k s) = pool_size s"
  "is_frame (load f pid b k s) = is_frame s"
  "avail (load f pid b k s) = avail s"
  by (auto simp: load_def install_def)

lemma load_inv:
  assumes "bp_inv s" "is_frame s f" "f \<notin> avail s" "page_table s pid = None" "pid_page_no pid \<noteq> INVALID_PAGE_ID"
    and "length b = PAGE_SIZE" "0 \<le> k"
  shows "bp_inv (load f pid b k s)"
  unfolding load_def using assms install_inv [OF assms(1-5)] by (intro bp_inv_upd_page) auto

text \<open>
  A frame taken out of \<open>avail\<close> by \<open>FindVictimPage\<close>: \<open>s0\<close> is \<open>s\<close> without it.
\<close>

definition took :: "BufferPoolManager \<Rightarrow> frame_id_t \<Rightarrow> BufferPoolManager \<Rightarrow> bool" where
  "took s f s0 \<longleftrightarrow> bp_inv s \<and> bp_inv s0 \<and> f \<in> avail s \<and> avail s0 = avail s - {f} \<and>
     (\<exists>fl r. s0 = s\<lparr>free_list := fl, bp_replacer := r\<rparr>)"

lemma tookD:
  assumes "took s f s0"
  shows "bp_inv s0" "f \<in> avail s" "avail s0 = avail s - {f}"
    "pages s0 = pages s" "page_table s0 = page_table s" "disk_manager s0 = disk_manager s"
    "pool_size s0 = pool_size s" "is_frame s0 = is_frame s"
    "is_frame s f" "bp_inv s"
proof -
  obtain fl r where e: "s0 = s\<lparr>free_list := fl, bp_replacer := r\<rparr>" using assms by (auto simp: took_def)
  then show "pages s0 = pages s" "page_table s0 = page_table s" "disk_manager s0 = disk_manager s"
    "pool_size s0 = pool_size s" "is_frame s0 = is_frame s" by simp_all
  show "bp_inv s0" "bp_inv s" "f \<in> avail s" "avail s0 = avail s - {f}"
    using assms by (simp_all add: took_def)
  then show "is_frame s f" by (simp add: avail_frame)
qed

lemma FindVictimPage_took:
  assumes "bp_inv s" "FindVictimPage s = ((b, f), s')"
  shows "if b then took s f s' else avail s = {} \<and> s' = s"
  using FindVictimPage_cases [OF assms] assms(1) unfolding took_def by presburger

lemma Pin_not_avail:
  assumes "bp_inv s" "f \<notin> avail s"
  shows "set (frames (Pin f (bp_replacer s))) = set (frames (bp_replacer s))"
    and "avail (s\<lparr>bp_replacer := Pin f (bp_replacer s)\<rparr>) = avail s"
  using assms(2) lru.evictable_pin [OF bp_invD(2) [OF assms(1)], of f] by (auto simp: avail_def)

definition pin_frame :: "frame_id_t \<Rightarrow> BufferPoolManager \<Rightarrow> BufferPoolManager" where
  "pin_frame f s = s\<lparr>bp_replacer := Pin f (bp_replacer s)\<rparr>"

lemma pin_frame_simps [simp]:
  "pages (pin_frame f s) = pages s" "page_table (pin_frame f s) = page_table s"
  "free_list (pin_frame f s) = free_list s" "disk_manager (pin_frame f s) = disk_manager s"
  "pool_size (pin_frame f s) = pool_size s" "is_frame (pin_frame f s) = is_frame s"
  "bp_replacer (pin_frame f s) = Pin f (bp_replacer s)"
  by (simp_all add: pin_frame_def)

lemma pin_frame_inv: "bp_inv s \<Longrightarrow> bp_inv (pin_frame f s)"
  unfolding pin_frame_def by (rule bp_inv_Pin)

lemma avail_pin_frame:
  "bp_inv s \<Longrightarrow> f \<notin> set (free_list s) \<Longrightarrow> avail (pin_frame f s) = avail s - {f}"
  by (auto simp: avail_def lru.evictable_pin dest: bp_invD(2))

text \<open>
  The two ways a page enters the pool. In both the old page of the frame has been written to
  disk first if it was dirty.
\<close>

definition evicted :: "BufferPoolManager \<Rightarrow> frame_id_t \<Rightarrow> DiskManager \<Rightarrow> bool" where
  "evicted s f d' \<longleftrightarrow>
     (let old = pg_id (pages s f); d = disk_manager s in
      wrote d (pid_fd old) (pid_page_no old) d' \<and>
      (if pid_page_no old \<noteq> INVALID_PAGE_ID \<and> pg_is_dirty (pages s f)
       then page_content d' (pid_fd old) (pid_page_no old) = Some (pg_data (pages s f))
       else page_content d' = page_content d))"

definition evict_fails :: "BufferPoolManager \<Rightarrow> frame_id_t \<Rightarrow> bool" where
  "evict_fails s f \<longleftrightarrow>
     (let old = pg_id (pages s f) in
      pid_page_no old \<noteq> INVALID_PAGE_ID \<and> pg_is_dirty (pages s f) \<and>
      \<not> (dm_open (disk_manager s) (pid_fd old) \<and> 0 \<le> pid_page_no old))"

lemma UpdatePage_took:
  assumes "took s f s0" "UpdatePage f pid f s0 = (r, s')"
  shows "\<exists>d'. (r = Inr () \<and> s' = load f pid zero_page 0 (s0\<lparr>disk_manager := d'\<rparr>) \<and> evicted s f d' \<or>
     r = Inl (Exc UnixError) \<and> s' = s0\<lparr>disk_manager := d'\<rparr> \<and> disk_inv d' \<and>
       page_content d' = page_content (disk_manager s) \<and> evict_fails s f)"
proof -
  note t = tookD [OF assms(1)]
  have f: "is_frame s0 f" using t by simp
  have "load f pid zero_page 0 x = install f pid x" for x
    by (cases "pages x f") (simp add: load_def install_def upd_page_def)
  with UpdatePage_cases [OF t(1) f assms(2)] show ?thesis
    unfolding t evicted_def evict_fails_def Let_def
    by (elim exE, intro exI) (auto simp: wrote_def split: if_splits)
qed

lemma read_frame_load:
  assumes "disk_inv d" "read_frame pid f (load f pid zero_page 0 (s0\<lparr>disk_manager := d\<rparr>)) = (r, s')"
  shows "\<exists>b d'. s' = load f pid b 0 (s0\<lparr>disk_manager := d'\<rparr>) \<and> length b = PAGE_SIZE \<and> disk_inv d' \<and>
     dm_open d' = dm_open d \<and> page_content d' = page_content d \<and>
     (r = Inr () \<and> page_content d (pid_fd pid) (pid_page_no pid) = Some b \<or>
      r = Inl (Exc UnixError) \<and> page_content d (pid_fd pid) (pid_page_no pid) = None)"
proof -
  let ?l = "load f pid zero_page 0 (s0\<lparr>disk_manager := d\<rparr>)"
  obtain b d' where rp: "read_page (pid_fd pid) (pid_page_no pid) PAGE_SIZE zero_page d = (r, b, d')"
    and s': "s' = upd_page f (\<lambda>p. p\<lparr>pg_data := b\<rparr>) (?l\<lparr>disk_manager := d'\<rparr>)"
    using assms(2) by (auto simp: read_frame_def split: prod.splits)
  have "s' = load f pid b 0 (s0\<lparr>disk_manager := d'\<rparr>)"
    unfolding s' by (cases "pages s0 f") (simp add: load_def install_def upd_page_def)
  moreover have "length b = PAGE_SIZE" using dm.read_length [OF assms(1) _ rp] by simp
  moreover note dm.read_state [OF assms(1) rp]
  moreover have "r = Inr () \<and> page_content d (pid_fd pid) (pid_page_no pid) = Some b \<or>
      r = Inl (Exc UnixError) \<and> page_content d (pid_fd pid) (pid_page_no pid) = None"
  proof (cases "page_content d (pid_fd pid) (pid_page_no pid)")
    case None
    with dm.read_bad [OF assms(1) None, of zero_page] rp show ?thesis by simp
  next
    case (Some c)
    with dm.read_ok [OF assms(1) length_zero_page Some] rp show ?thesis by simp
  qed
  ultimately show ?thesis by blast
qed

lemma load_pin:
  "(upd_page f (\<lambda>p. p\<lparr>pg_pin_count := k\<rparr>) (load f pid b 0 s))\<lparr>bp_replacer := Pin f (bp_replacer s)\<rparr> =
   pin_frame f (load f pid b k s)"
  by (cases s) (simp add: load_def install_def upd_page_def pin_frame_def)

text \<open>All outcomes of a fetch of a page that is not in the pool.\<close>

lemma FetchPage_miss:
  assumes "bp_inv s" "page_table s pid = None" "FetchPage pid s = (r, s')"
  obtains (null) "r = Inr None" "s' = s" "avail s = {}"
  | (evict) f s0 d' where "took s f s0" "r = Inl (Exc UnixError)" "s' = s0\<lparr>disk_manager := d'\<rparr>" "disk_inv d'"
      "page_content d' = page_content (disk_manager s)" "evict_fails s f"
  | (absent) f s0 b d' d'' where "took s f s0" "r = Inl (Exc UnixError)" "evicted s f d'"
      "s' = load f pid b 0 (s0\<lparr>disk_manager := d''\<rparr>)" "length b = PAGE_SIZE" "disk_inv d''"
      "page_content d' (pid_fd pid) (pid_page_no pid) = None" "page_content d'' = page_content d'"
  | (ok) f s0 b d' d'' where "took s f s0" "r = Inr (Some f)" "evicted s f d'"
      "s' = pin_frame f (load f pid b 1 (s0\<lparr>disk_manager := d''\<rparr>))" "length b = PAGE_SIZE" "disk_inv d''"
      "page_content d' (pid_fd pid) (pid_page_no pid) = Some b" "page_content d'' = page_content d'"
      "dm_open d'' = dm_open (disk_manager s)"
proof -
  obtain found f s0 where v: "FindVictimPage s = ((found, f), s0)" by (metis surj_pair)
  show thesis
  proof (cases found)
    case False
    with v assms FindVictimPage_took [OF assms(1) v] null show thesis by (simp add: FetchPage_def)
  next
    case True
    then have t: "took s f s0" using FindVictimPage_took [OF assms(1) v] by simp
    obtain r1 s1 where u: "UpdatePage f pid f s0 = (r1, s1)" by (metis surj_pair)
    from UpdatePage_took [OF t u] show thesis
    proof (elim exE disjE conjE)
      fix d' assume "r1 = Inl (Exc UnixError)" "s1 = s0\<lparr>disk_manager := d'\<rparr>" "disk_inv d'"
        "page_content d' = page_content (disk_manager s)" "evict_fails s f"
      moreover from this have "r = Inl (Exc UnixError)" "s' = s0\<lparr>disk_manager := d'\<rparr>"
        using u v True assms(2,3) by (simp_all add: FetchPage_def)
      ultimately show thesis using evict [OF t] by blast
    next
      fix d' assume r1: "r1 = Inr ()" and s1: "s1 = load f pid zero_page 0 (s0\<lparr>disk_manager := d'\<rparr>)"
        and ev: "evicted s f d'"
      then have d': "disk_inv d'" "dm_open d' = dm_open (disk_manager s)"
        by (auto simp: evicted_def wrote_def Let_def)
      obtain r2 s2 where rd: "read_frame pid f s1 = (r2, s2)" by (metis surj_pair)
      from read_frame_load [OF d'(1) rd [unfolded s1]] obtain b d'' where
        s2: "s2 = load f pid b 0 (s0\<lparr>disk_manager := d''\<rparr>)" "length b = PAGE_SIZE" "disk_inv d''"
          "dm_open d'' = dm_open d'" "page_content d'' = page_content d'"
        and cs: "r2 = Inr () \<and> page_content d' (pid_fd pid) (pid_page_no pid) = Some b \<or>
          r2 = Inl (Exc UnixError) \<and> page_content d' (pid_fd pid) (pid_page_no pid) = None" by blast
      from cs show thesis
      proof (elim disjE conjE)
        assume "r2 = Inr ()" "page_content d' (pid_fd pid) (pid_page_no pid) = Some b"
        moreover from this have "r = Inr (Some f)" "s' = pin_frame f (load f pid b 1 (s0\<lparr>disk_manager := d''\<rparr>))"
          using u v rd s2(1) True assms(2,3) r1 load_pin [of f "s0\<lparr>disk_manager := d''\<rparr>" 1 pid b]
          by (simp_all add: FetchPage_def)
        ultimately show thesis using ok [OF t _ ev _ s2(2,3)] s2 d' by simp
      next
        assume "r2 = Inl (Exc UnixError)" "page_content d' (pid_fd pid) (pid_page_no pid) = None"
        moreover from this have "r = Inl (Exc UnixError)" "s' = s2"
          using u v rd True assms(2,3) r1 by (simp_all add: FetchPage_def)
        ultimately show thesis using absent [OF t _ ev _ s2(2,3)] s2 by simp
      qed
    qed
  qed
qed

lemma FetchPage_hit:
  "page_table s pid = Some f \<Longrightarrow>
   FetchPage pid s = (Inr (Some f), pin_frame f (upd_page f (\<lambda>p. p\<lparr>pg_pin_count := pg_pin_count p + 1\<rparr>) s))"
  by (simp add: FetchPage_def pin_frame_def)

lemma took_disk:
  assumes "took s f s0" "disk_inv d"
  shows "took (s\<lparr>disk_manager := d\<rparr>) f (s0\<lparr>disk_manager := d\<rparr>)"
proof -
  obtain fl r where "s0 = s\<lparr>free_list := fl, bp_replacer := r\<rparr>" using assms(1) by (auto simp: took_def)
  then have "s0\<lparr>disk_manager := d\<rparr> = s\<lparr>disk_manager := d, free_list := fl, bp_replacer := r\<rparr>"
    by (cases s) simp
  with tookD [OF assms(1)] assms(2) show ?thesis
    unfolding took_def by (metis avail_simps(1) bp_inv_disk)
qed

lemma page_content_fd2pageno [simp]: "page_content (d\<lparr>fd2pageno := x\<rparr>) = page_content d"
  by (simp add: fun_eq_iff page_content_def)

lemma dm_open_fd2pageno [simp]: "dm_open (d\<lparr>fd2pageno := x\<rparr>) = dm_open d"
  by (simp add: fun_eq_iff dm_open_def)

lemma AllocatePage_cases:
  assumes "AllocatePage fd d = (r, d')"
  obtains (ok) "0 \<le> fd" "fd < MAX_FD" "r = Inr (fd2pageno d fd)"
      "d' = d\<lparr>fd2pageno := (fd2pageno d)(fd := wrap32 (fd2pageno d fd + 1))\<rparr>"
  | (bad) "r = Inl UndefinedBehaviour" "d' = d" "\<not> (0 \<le> fd \<and> fd < MAX_FD)"
proof (cases "0 \<le> fd \<and> fd < MAX_FD")
  case True
  with assms have "r = Inr (fd2pageno d fd)" "d' = d\<lparr>fd2pageno := (fd2pageno d)(fd := wrap32 (fd2pageno d fd + 1))\<rparr>"
    by (simp_all add: AllocatePage_def)
  with True ok show thesis by blast
next
  case False
  with assms have "r = Inl UndefinedBehaviour" "d' = d" by (auto simp: AllocatePage_def)
  with False bad show thesis by blast
qed

lemma NewPage_cases:
  assumes "bp_inv s" "NewPage file s = (r, s')"
  obtains (null) "r = Inr None" "s' = s" "avail s = {}"
  | (bad_fd) f s0 where "took s f s0" "r = Inl UndefinedBehaviour" "s' = s0" "\<not> (0 \<le> file \<and> file < MAX_FD)"
  | (evict) f s0 d' where "took s f s0" "r = Inl (Exc UnixError)" "s' = s0\<lparr>disk_manager := d'\<rparr>" "disk_inv d'"
      "page_content d' = page_content (disk_manager s)" "evict_fails s f" "0 \<le> file" "file < MAX_FD"
  | (ok) f s0 d' pid where "took s f s0" "r = Inr (Some (f, pid))" "evicted s f d'" "0 \<le> file" "file < MAX_FD"
      "pid = \<lparr>pid_fd = file, pid_page_no = fd2pageno (disk_manager s) file\<rparr>"
      "s' = pin_frame f (load f pid zero_page 1 (s0\<lparr>disk_manager := d'\<rparr>))"
proof -
  obtain found f s0 where v: "FindVictimPage s = ((found, f), s0)" by (metis surj_pair)
  show thesis
  proof (cases found)
    case False
    with v assms FindVictimPage_took [OF assms(1) v] null show thesis by (simp add: NewPage_def)
  next
    case True
    then have t: "took s f s0" using FindVictimPage_took [OF assms(1) v] by simp
    obtain r0 d where a: "AllocatePage file (disk_manager s0) = (r0, d)" by (metis surj_pair)
    from a show thesis
    proof (cases rule: AllocatePage_cases)
      case bad
      then have "r = Inl UndefinedBehaviour" "s' = s0"
        using v a True assms(2) by (simp_all add: NewPage_def on_disk_def bind_def)
      then show thesis using bad(3) by (rule bad_fd [OF t])
    next
      case ok
      let ?pid = "\<lparr>pid_fd = file, pid_page_no = fd2pageno (disk_manager s) file\<rparr>"
      have d: "disk_inv d" "page_content d = page_content (disk_manager s)"
        "dm_open d = dm_open (disk_manager s)"
        using ok(4) tookD [OF t] bp_invD(1) [OF assms(1)] by simp_all
      note t' = took_disk [OF t d(1)]
      obtain r1 s1 where u: "UpdatePage f ?pid f (s0\<lparr>disk_manager := d\<rparr>) = (r1, s1)" by (metis surj_pair)
      have N: "NewPage file s = (case r1 of Inl e \<Rightarrow> (Inl e, s1) | Inr _ \<Rightarrow> (Inr (Some (f, ?pid)),
          (upd_page f (\<lambda>p. p\<lparr>pg_pin_count := 1\<rparr>) s1)\<lparr>bp_replacer := Pin f (bp_replacer s1)\<rparr>))"
        using v True a u ok(3) tookD(6) [OF t] by (simp add: NewPage_def on_disk_def bind_def Let_def)
      from UpdatePage_took [OF t' u] show thesis
      proof (elim exE disjE conjE)
        fix d' assume r1: "r1 = Inl (Exc UnixError)" "s1 = s0\<lparr>disk_manager := d, disk_manager := d'\<rparr>"
          and d': "disk_inv d'" "page_content d' = page_content (disk_manager (s\<lparr>disk_manager := d\<rparr>))"
          and e: "evict_fails (s\<lparr>disk_manager := d\<rparr>) f"
        from e d have "evict_fails s f" by (simp add: evict_fails_def Let_def)
        moreover have "s' = s0\<lparr>disk_manager := d'\<rparr>" "r = Inl (Exc UnixError)"
          using N assms(2) r1 by simp_all
        ultimately show thesis using d d' ok(1,2) by (intro evict [OF t, where d' = d']) simp_all
      next
        fix d' assume r1: "r1 = Inr ()"
          and s1: "s1 = load f ?pid zero_page 0 (s0\<lparr>disk_manager := d, disk_manager := d'\<rparr>)"
          and e: "evicted (s\<lparr>disk_manager := d\<rparr>) f d'"
        from e d have "evicted s f d'" by (simp add: evicted_def Let_def wrote_def)
        moreover have "s' = pin_frame f (load f ?pid zero_page 1 (s0\<lparr>disk_manager := d'\<rparr>))" "r = Inr (Some (f, ?pid))"
          using N assms(2) r1 s1 load_pin [of f "s0\<lparr>disk_manager := d'\<rparr>" 1 ?pid zero_page] by simp_all
        ultimately show thesis using ok(1,2) by (intro that(4) [OF t, where d' = d']) simp_all
      qed
    qed
  qed
qed

section \<open>The operations keep the invariant\<close>

lemma evictedD:
  assumes "evicted s f d'" shows "disk_inv d'" "dm_open d' = dm_open (disk_manager s)"
  using assms by (auto simp: evicted_def wrote_def Let_def)

lemma took_load_inv:
  assumes "took s f s0" "disk_inv d" "page_table s pid = None" "pid_page_no pid \<noteq> INVALID_PAGE_ID"
    and "length b = PAGE_SIZE" "0 \<le> k"
  shows "bp_inv (load f pid b k (s0\<lparr>disk_manager := d\<rparr>))"
    and "bp_inv (pin_frame f (load f pid b k (s0\<lparr>disk_manager := d\<rparr>)))"
    and "avail (pin_frame f (load f pid b k (s0\<lparr>disk_manager := d\<rparr>))) = avail s - {f}"
proof -
  note t = tookD [OF assms(1)]
  show i: "bp_inv (load f pid b k (s0\<lparr>disk_manager := d\<rparr>))"
    using t assms by (intro load_inv bp_inv_disk) simp_all
  then show "bp_inv (pin_frame f (load f pid b k (s0\<lparr>disk_manager := d\<rparr>)))" by (rule pin_frame_inv)
  have "f \<notin> avail s0" using t(3) by simp
  then show "avail (pin_frame f (load f pid b k (s0\<lparr>disk_manager := d\<rparr>))) = avail s - {f}"
    using avail_pin_frame [OF i, of f] t(3) by (simp add: avail_def)
qed

lemma hit_inv:
  assumes "bp_inv s" "page_table s pid = Some f"
  defines "s' \<equiv> pin_frame f (upd_page f (\<lambda>p. p\<lparr>pg_pin_count := pg_pin_count p + 1\<rparr>) s)"
  shows "bp_inv s'" and "avail s' = avail s - {f}"
proof -
  note f = bp_invD(4) [OF assms(1), THEN iffD1, OF assms(2)]
  have nf: "f \<notin> set (free_list s)" using bp_invD(6) [OF assms(1), of f] f by auto
  have eq: "s' = upd_page f (\<lambda>p. p\<lparr>pg_pin_count := pg_pin_count p + 1\<rparr>) (pin_frame f s)"
    unfolding s'_def by (simp add: upd_page_def pin_frame_def)
  have av: "avail (pin_frame f s) = avail s - {f}" by (rule avail_pin_frame [OF assms(1) nf])
  then show "avail s' = avail s - {f}" unfolding eq by simp
  show "bp_inv s'" unfolding eq
    by (rule bp_inv_upd_page) (use av pin_frame_inv [OF assms(1), of f] in simp_all)
qed

lemma FetchPage_inv:
  assumes "bp_inv s" "pid_page_no pid \<noteq> INVALID_PAGE_ID" "FetchPage pid s = (r, s')"
  shows "bp_inv s'"
proof (cases "page_table s pid")
  case (Some f)
  with hit_inv [OF assms(1) Some] assms(3) show ?thesis by (simp add: FetchPage_hit)
next
  case None
  from assms(1) None assms(3) show ?thesis
  proof (cases rule: FetchPage_miss)
    case (evict f s0 d')
    then show ?thesis by (simp add: bp_inv_disk tookD(1))
  next
    case (absent f s0 b d' d'')
    with None assms(2) show ?thesis by (simp add: took_load_inv(1))
  next
    case (ok f s0 b d' d'')
    with None assms(2) show ?thesis by (simp add: took_load_inv(2))
  qed (use assms in simp)
qed

lemma NewPage_inv:
  assumes "bp_inv s" "NewPage file s = (r, s')"
    and "page_table s \<lparr>pid_fd = file, pid_page_no = fd2pageno (disk_manager s) file\<rparr> = None"
    and "fd2pageno (disk_manager s) file \<noteq> INVALID_PAGE_ID"
  shows "bp_inv s'"
  using assms(1,2)
proof (cases rule: NewPage_cases)
  case (bad_fd f s0)
  then show ?thesis by (simp add: tookD(1))
next
  case (evict f s0 d')
  then show ?thesis by (simp add: bp_inv_disk tookD(1))
next
  case (ok f s0 d' pid)
  with assms(3,4) show ?thesis by (simp add: took_load_inv(2) evictedD(1))
qed (use assms in simp)

lemma bp_inv_Unpin:
  assumes "bp_inv s" "page_table s pid = Some f" "pg_pin_count (pages s f) = 0"
  shows "bp_inv (s\<lparr>bp_replacer := Unpin f (bp_replacer s)\<rparr>)"
    and "avail (s\<lparr>bp_replacer := Unpin f (bp_replacer s)\<rparr>) = insert f (avail s)"
proof -
  note f = bp_invD(4) [OF assms(1), THEN iffD1, OF assms(2)]
  have "set (frames (Unpin f (bp_replacer s))) = insert f (set (frames (bp_replacer s)))"
  proof (rule lru.unpin_has_room [where F = "{0..<int (pool_size s)}"])
    show "set (frames (bp_replacer s)) \<subseteq> {0..<int (pool_size s)}"
      using bp_invD(7) [OF assms(1)] by (auto simp: is_frame_def)
    show "f \<in> {0..<int (pool_size s)}" using f by (simp add: is_frame_def)
  qed (simp_all add: bp_invD [OF assms(1)])
  then show "bp_inv (s\<lparr>bp_replacer := Unpin f (bp_replacer s)\<rparr>)"
    "avail (s\<lparr>bp_replacer := Unpin f (bp_replacer s)\<rparr>) = insert f (avail s)"
    using assms(1,3) f by (auto simp: bp_inv_def Unpin_inv avail_def)
qed

lemma UnpinPage_inv:
  assumes "bp_inv s" "UnpinPage pid dirty s = (b, s')"
  shows "bp_inv s'"
proof (cases "page_table s pid")
  case (Some f)
  let ?s1 = "upd_page f (\<lambda>p. p\<lparr>pg_pin_count := pg_pin_count p - 1, pg_is_dirty := dirty \<or> pg_is_dirty p\<rparr>) s"
  show ?thesis
  proof (cases "pg_pin_count (pages s f) \<le> 0")
    case False
    then have "f \<notin> avail s" using avail_frame [OF assms(1), of f] by auto
    with assms(1) False have i: "bp_inv ?s1" by (intro bp_inv_upd_page) auto
    with bp_inv_Unpin(1) [OF i, of pid f] Some False assms(2) show ?thesis
      by (auto simp: UnpinPage_def Let_def split: if_splits)
  qed (use assms Some in \<open>simp add: UnpinPage_def\<close>)
qed (use assms in \<open>simp add: UnpinPage_def\<close>)

lemma FlushPage_cases:
  assumes "bp_inv s" "page_table s pid = Some f" "FlushPage pid s = (r, s')"
  shows "\<exists>d'. wrote (disk_manager s) (pid_fd pid) (pid_page_no pid) d' \<and>
    (r = Inr True \<and> s' = upd_page f (\<lambda>p. p\<lparr>pg_is_dirty := False\<rparr>) (s\<lparr>disk_manager := d'\<rparr>) \<and>
       dm_open (disk_manager s) (pid_fd pid) \<and> 0 \<le> pid_page_no pid \<and>
       page_content d' (pid_fd pid) (pid_page_no pid) = Some (pg_data (pages s f)) \<or>
     r = Inl (Exc UnixError) \<and> s' = s\<lparr>disk_manager := d'\<rparr> \<and>
       \<not> (dm_open (disk_manager s) (pid_fd pid) \<and> 0 \<le> pid_page_no pid) \<and>
       page_content d' = page_content (disk_manager s))"
proof -
  note f = bp_invD(4) [OF assms(1), THEN iffD1, OF assms(2)]
  then have fr: "is_frame s f" by simp
  obtain r1 s1 where w: "write_frame f s = (r1, s1)" by (metis surj_pair)
  have F: "(r, s') = (case r1 of Inl e \<Rightarrow> (Inl e, s1)
      | Inr _ \<Rightarrow> (Inr True, upd_page f (\<lambda>p. p\<lparr>pg_is_dirty := False\<rparr>) s1))"
    using w assms(2,3) by (simp add: FlushPage_def bind_def)
  have "pg_id (pages s f) = pid" using f by simp
  with write_frame_cases [OF assms(1) fr w] obtain d' where
    d': "s1 = s\<lparr>disk_manager := d'\<rparr>" "wrote (disk_manager s) (pid_fd pid) (pid_page_no pid) d'"
    and c: "r1 = Inr () \<and> dm_open (disk_manager s) (pid_fd pid) \<and> 0 \<le> pid_page_no pid \<and>
       page_content d' (pid_fd pid) (pid_page_no pid) = Some (pg_data (pages s f)) \<or>
     r1 = Inl (Exc UnixError) \<and> \<not> (dm_open (disk_manager s) (pid_fd pid) \<and> 0 \<le> pid_page_no pid) \<and>
       page_content d' = page_content (disk_manager s)" by auto
  from c F d' show ?thesis by (intro exI [of _ d']) auto
qed

lemma bp_inv_clean: "bp_inv s \<Longrightarrow> bp_inv (upd_page f (\<lambda>p. p\<lparr>pg_is_dirty := x\<rparr>) s)"
  by (rule bp_inv_upd_page) simp_all

lemma FlushPage_inv:
  assumes "bp_inv s" "FlushPage pid s = (r, s')"
  shows "bp_inv s'"
proof (cases "page_table s pid")
  case (Some f)
  with FlushPage_cases [OF assms(1) Some assms(2)] assms(1) show ?thesis
    by (auto simp: wrote_def intro!: bp_inv_clean bp_inv_disk)
qed (use assms in \<open>simp add: FlushPage_def\<close>)

text \<open>\<open>s'\<close> differs from \<open>s\<close> in the disk and in frames that have become clean.\<close>

definition flushed :: "BufferPoolManager \<Rightarrow> BufferPoolManager \<Rightarrow> bool" where
  "flushed s s' \<longleftrightarrow> bp_inv s' \<and> page_table s' = page_table s \<and> free_list s' = free_list s \<and>
     bp_replacer s' = bp_replacer s \<and> pool_size s' = pool_size s \<and>
     dm_open (disk_manager s') = dm_open (disk_manager s) \<and>
     (\<forall>f. pg_id (pages s' f) = pg_id (pages s f) \<and> pg_data (pages s' f) = pg_data (pages s f) \<and>
          pg_pin_count (pages s' f) = pg_pin_count (pages s f) \<and>
          (pg_is_dirty (pages s' f) \<longrightarrow> pg_is_dirty (pages s f))) \<and>
     (\<forall>fd no b. page_content (disk_manager s) fd no = Some b \<longrightarrow>
        (\<forall>f. is_frame s f \<longrightarrow> pg_id (pages s f) = \<lparr>pid_fd = fd, pid_page_no = no\<rparr> \<longrightarrow> pg_data (pages s f) = b) \<longrightarrow>
        page_content (disk_manager s') fd no = Some b)"

lemma flushedD:
  assumes "flushed s s'"
  shows "bp_inv s'" "page_table s' = page_table s" "free_list s' = free_list s"
    "bp_replacer s' = bp_replacer s" "pool_size s' = pool_size s"
    "dm_open (disk_manager s') = dm_open (disk_manager s)"
    "pg_id (pages s' f) = pg_id (pages s f)" "pg_data (pages s' f) = pg_data (pages s f)"
    "pg_pin_count (pages s' f) = pg_pin_count (pages s f)"
    "pg_is_dirty (pages s' f) \<Longrightarrow> pg_is_dirty (pages s f)"
    "page_content (disk_manager s) fd no = Some b \<Longrightarrow>
      (\<And>f. is_frame s f \<Longrightarrow> pg_id (pages s f) = \<lparr>pid_fd = fd, pid_page_no = no\<rparr> \<Longrightarrow> pg_data (pages s f) = b) \<Longrightarrow>
      page_content (disk_manager s') fd no = Some b"
    "is_frame s' = is_frame s" "avail s' = avail s"
  using assms by (simp_all add: flushed_def is_frame_def fun_eq_iff avail_def)

lemma flushed_refl: "bp_inv s \<Longrightarrow> flushed s s"
  by (simp add: flushed_def)

lemma flushed_trans:
  assumes "flushed s t" "flushed t u" shows "flushed s u"
proof -
  note a = flushedD [OF assms(1)] and b = flushedD [OF assms(2)]
  have "page_content (disk_manager u) fd no = Some c"
    if "page_content (disk_manager s) fd no = Some c"
      "\<And>f. is_frame s f \<Longrightarrow> pg_id (pages s f) = \<lparr>pid_fd = fd, pid_page_no = no\<rparr> \<Longrightarrow> pg_data (pages s f) = c" for fd no c
    using that a(7,8,12) by (intro b(11) a(11)) simp_all
  with a b show ?thesis unfolding flushed_def by simp
qed

lemma write_frame_flushed:
  assumes "bp_inv s" "is_frame s f" "write_frame f s = (r, s')"
  shows "flushed s s'"
    and "r = Inr () \<Longrightarrow> flushed s (upd_page f (\<lambda>p. p\<lparr>pg_is_dirty := False\<rparr>) s')"
    and "r = Inr () \<Longrightarrow> page_content (disk_manager s') (pid_fd (pg_id (pages s f))) (pid_page_no (pg_id (pages s f)))
           = Some (pg_data (pages s f))"
proof -
  from write_frame_cases [OF assms] obtain d' where s': "s' = s\<lparr>disk_manager := d'\<rparr>"
    and w: "wrote (disk_manager s) (pid_fd (pg_id (pages s f))) (pid_page_no (pg_id (pages s f))) d'"
    and c: "r = Inr () \<and> page_content d' (pid_fd (pg_id (pages s f))) (pid_page_no (pg_id (pages s f)))
              = Some (pg_data (pages s f)) \<or>
            r = Inl (Exc UnixError) \<and> page_content d' = page_content (disk_manager s)" by blast
  have keep: "page_content d' fd no = Some b"
    if "page_content (disk_manager s) fd no = Some b"
      "\<And>g. is_frame s g \<Longrightarrow> pg_id (pages s g) = \<lparr>pid_fd = fd, pid_page_no = no\<rparr> \<Longrightarrow> pg_data (pages s g) = b" for fd no b
  proof (cases "pg_id (pages s f) = \<lparr>pid_fd = fd, pid_page_no = no\<rparr>")
    case True
    with that(2) [OF assms(2)] that(1) c show ?thesis by auto
  next
    case False
    then have "(fd, no) \<noteq> (pid_fd (pg_id (pages s f)), pid_page_no (pg_id (pages s f)))"
      by (cases "pg_id (pages s f)") auto
    with w that(1) show ?thesis by (simp add: wrote_def)
  qed
  have "bp_inv s'" using w assms(1) s' by (simp add: wrote_def bp_inv_disk)
  with keep w s' show F: "flushed s s'" by (simp add: flushed_def wrote_def)
  with bp_inv_clean [OF \<open>bp_inv s'\<close>] keep w s' show "flushed s (upd_page f (\<lambda>p. p\<lparr>pg_is_dirty := False\<rparr>) s')"
    by (simp add: flushed_def wrote_def)
  show "r = Inr () \<Longrightarrow> page_content (disk_manager s') (pid_fd (pg_id (pages s f))) (pid_page_no (pg_id (pages s f)))
           = Some (pg_data (pages s f))" using c s' by auto
qed

lemma flush_frames_flushed:
  "bp_inv s \<Longrightarrow> \<forall>f\<in>set fs. is_frame s f \<Longrightarrow> flush_frames file fs s = (r, s') \<Longrightarrow>
   flushed s s' \<and>
   (r = Inr () \<longrightarrow> (\<forall>f\<in>set fs. pid_fd (pg_id (pages s f)) = file \<longrightarrow> pid_page_no (pg_id (pages s f)) \<noteq> INVALID_PAGE_ID \<longrightarrow>
      \<not> pg_is_dirty (pages s' f) \<and>
      page_content (disk_manager s') file (pid_page_no (pg_id (pages s f))) = Some (pg_data (pages s f))))"
proof (induction fs arbitrary: s)
  case (Cons f fs)
  show ?case
  proof (cases "pid_fd (pg_id (pages s f)) = file \<and> pid_page_no (pg_id (pages s f)) \<noteq> INVALID_PAGE_ID")
    case False
    with Cons show ?thesis by auto
  next
    case True
    obtain r1 s1 where w: "write_frame f s = (r1, s1)" by (metis surj_pair)
    have f: "is_frame s f" using Cons.prems(2) by simp
    note wf = write_frame_flushed [OF Cons.prems(1) f w]
    show ?thesis
    proof (cases r1)
      case (Inl e)
      with w True Cons.prems(3) have "r = Inl e" "s' = s1" by simp_all
      with wf(1) show ?thesis by simp
    next
      case (Inr u)
      let ?s2 = "upd_page f (\<lambda>p. p\<lparr>pg_is_dirty := False\<rparr>) s1"
      have F: "flushed s ?s2" using wf(2) Inr by simp
      have run: "flush_frames file fs ?s2 = (r, s')" using w True Inr Cons.prems(3) by simp
      have IH: "flushed ?s2 s' \<and> (r = Inr () \<longrightarrow> (\<forall>f\<in>set fs. pid_fd (pg_id (pages ?s2 f)) = file \<longrightarrow>
          pid_page_no (pg_id (pages ?s2 f)) \<noteq> INVALID_PAGE_ID \<longrightarrow> \<not> pg_is_dirty (pages s' f) \<and>
          page_content (disk_manager s') file (pid_page_no (pg_id (pages ?s2 f))) = Some (pg_data (pages ?s2 f))))"
        using Cons.prems(2) flushedD(1,12) [OF F] by (intro Cons.IH run) simp_all
      have c: "page_content (disk_manager ?s2) file (pid_page_no (pg_id (pages s f))) = Some (pg_data (pages s f))"
        using wf(3) Inr True by simp
      have "pg_data (pages ?s2 g) = pg_data (pages s f)"
        if "is_frame ?s2 g" "pg_id (pages ?s2 g) = \<lparr>pid_fd = file, pid_page_no = pid_page_no (pg_id (pages s f))\<rparr>" for g
      proof -
        have "pg_id (pages s f) = \<lparr>pid_fd = file, pid_page_no = pid_page_no (pg_id (pages s f))\<rparr>"
          using True by (intro PageId.equality) simp_all
        with that(2) flushedD(7) [OF F, of g] have "pg_id (pages s g) = pg_id (pages s f)" by argo
        moreover have "is_frame s g" using that(1) flushedD(12) [OF F] by simp
        ultimately have "page_table s (pg_id (pages s f)) = Some g" "page_table s (pg_id (pages s f)) = Some f"
          using f True by (simp_all add: bp_invD(4) [OF Cons.prems(1)])
        then have "g = f" by simp
        then show ?thesis using flushedD(8) [OF F, of f] by simp
      qed
      with flushedD(11) [OF conjunct1 [OF IH] c]
      have "page_content (disk_manager s') file (pid_page_no (pg_id (pages s f))) = Some (pg_data (pages s f))"
        by blast
      moreover have "\<not> pg_is_dirty (pages s' f)" using flushedD(10) [OF conjunct1 [OF IH], of f] by auto
      ultimately show ?thesis
        using IH flushed_trans [OF F] flushedD(7,8) [OF F] by simp
    qed
  qed
qed (simp add: flushed_refl)

lemma FlushAllPages_flushed:
  assumes "bp_inv s" "FlushAllPages file s = (r, s')"
  shows "flushed s s'"
    and "r = Inr () \<Longrightarrow> page_table s \<lparr>pid_fd = file, pid_page_no = no\<rparr> = Some f \<Longrightarrow>
      \<not> pg_is_dirty (pages s' f) \<and> page_content (disk_manager s') file no = Some (pg_data (pages s f))"
proof -
  have "\<forall>f\<in>set (map int [0..<pool_size s]). is_frame s f" by (auto simp: is_frame_def)
  note F = flush_frames_flushed [OF assms(1) this assms(2) [unfolded FlushAllPages_def]]
  then show "flushed s s'" by simp
  assume r: "r = Inr ()" and t: "page_table s \<lparr>pid_fd = file, pid_page_no = no\<rparr> = Some f"
  have "f \<in> int ` {0..<pool_size s}"
    using bp_invD(4) [OF assms(1), THEN iffD1, OF t] by (auto simp: is_frame_def image_iff intro: bexI [of _ "nat f"])
  with F r bp_invD(4) [OF assms(1), THEN iffD1, OF t]
  show "\<not> pg_is_dirty (pages s' f) \<and> page_content (disk_manager s') file no = Some (pg_data (pages s f))"
    by (auto simp del: upt_conv_Cons)
qed

text \<open>The frame of a deleted page: blank and without a page.\<close>

definition release :: "frame_id_t \<Rightarrow> BufferPoolManager \<Rightarrow> BufferPoolManager" where
  "release f s = pin_frame f (upd_page f (\<lambda>p. p\<lparr>pg_data := zero_page,
       pg_id := \<lparr>pid_fd = pid_fd (pg_id p), pid_page_no = INVALID_PAGE_ID\<rparr>, pg_is_dirty := False,
       pg_pin_count := 0\<rparr>)
     (s\<lparr>page_table := (page_table s)(pg_id (pages s f) := None), free_list := free_list s @ [f]\<rparr>))"

lemma release_inv:
  assumes "bp_inv s" "page_table s pid = Some f" "pg_pin_count (pages s f) = 0"
  shows "bp_inv (release f s)" and "avail (release f s) = insert f (avail s)"
proof -
  note f = bp_invD(4) [OF assms(1), THEN iffD1, OF assms(2)]
  have nf: "f \<notin> set (free_list s)" using bp_invD(6) [OF assms(1), of f] f by auto
  have tab: "((page_table s)(pid := None)) p = Some g \<longleftrightarrow> is_frame s g \<and>
      (if g = f then \<lparr>pid_fd = pid_fd pid, pid_page_no = INVALID_PAGE_ID\<rparr> else pg_id (pages s g)) = p \<and>
      pid_page_no p \<noteq> INVALID_PAGE_ID" for p g
    using bp_invD(4) [OF assms(1), of p g] f assms(2) by (cases pid) auto
  have fr: "set (frames (Pin f (bp_replacer s))) = set (frames (bp_replacer s)) - {f}"
    by (rule lru.evictable_pin [OF bp_invD(2) [OF assms(1)]])
  have "pg_id (pages s f) = pid" using f by simp
  then show "bp_inv (release f s)"
    unfolding bp_inv_def release_def using f nf tab assms(1) fr
    by (simp add: bp_inv_def Pin_inv)
  show "avail (release f s) = insert f (avail s)"
    by (auto simp: release_def avail_def lru.evictable_pin bp_invD(2) [OF assms(1)])
qed

lemma DeletePage_cases:
  assumes "bp_inv s" "DeletePage pid s = (r, s')"
  obtains (absent) "page_table s pid = None" "r = Inr True" "s' = s"
  | (pinned) f where "page_table s pid = Some f" "0 < pg_pin_count (pages s f)" "r = Inr False" "s' = s"
  | (fails) f where "page_table s pid = Some f" "pg_pin_count (pages s f) = 0" "evict_fails s f" "r = Inl (Exc UnixError)"
  | (ok) f d' where "page_table s pid = Some f" "pg_pin_count (pages s f) = 0" "r = Inr True"
      "evicted s f d'" "s' = release f (s\<lparr>disk_manager := d'\<rparr>)"
proof (cases "page_table s pid")
  case None
  with assms(2) have "r = Inr True" "s' = s" by (simp_all add: DeletePage_def DeallocatePage_def)
  with None show thesis by (rule absent)
next
  case (Some f)
  note f = bp_invD(4) [OF assms(1), THEN iffD1, OF Some]
  then have fr: "is_frame s f" and pid: "pg_id (pages s f) = pid" by simp_all
  let ?t = "(page_table s)(pid := None)"
  show thesis
  proof (cases "pg_pin_count (pages s f) > 0")
    case True
    with Some assms(2) have "r = Inr False" "s' = s" by (simp_all add: DeletePage_def)
    with Some True show thesis by (rule pinned)
  next
    case False
    then have pin0: "pg_pin_count (pages s f) = 0" using bp_invD(8) [OF assms(1) fr] by simp
    have rel: "release f (s\<lparr>disk_manager := d\<rparr>) =
        (let s1 = upd_page f (\<lambda>p. p\<lparr>pg_data := zero_page,
              pg_id := \<lparr>pid_fd = pid_fd (pg_id p), pid_page_no = INVALID_PAGE_ID\<rparr>,
              pg_is_dirty := False, pg_pin_count := 0\<rparr>) (s\<lparr>page_table := ?t, disk_manager := d\<rparr>)
         in s1\<lparr>free_list := free_list s1 @ [f], bp_replacer := Pin f (bp_replacer s1),
               disk_manager := DeallocatePage (pid_page_no pid) (disk_manager s1)\<rparr>)" for d
      using pid by (cases s) (simp add: release_def upd_page_def pin_frame_def DeallocatePage_def)
    show thesis
    proof (cases "pg_is_dirty (pages s f)")
      case clean: False
      then have "evicted s f (disk_manager s)"
        using bp_invD(1) [OF assms(1)] by (simp add: evicted_def Let_def wrote_refl)
      moreover from clean have "r = Inr True" "s' = release f (s\<lparr>disk_manager := disk_manager s\<rparr>)"
        using rel [of "disk_manager s"] assms(2) Some False by (simp_all add: DeletePage_def Let_def prog_simps)
      ultimately show thesis using ok [OF Some pin0] by blast
    next
      case dirty: True
      obtain r1 s1 where w: "write_frame f s = (r1, s1)" by (metis surj_pair)
      from write_frame_cases [OF assms(1) fr w] obtain d' where s1: "s1 = s\<lparr>disk_manager := d'\<rparr>"
        and wr: "wrote (disk_manager s) (pid_fd pid) (pid_page_no pid) d'"
        and c: "r1 = Inr () \<and> page_content d' (pid_fd pid) (pid_page_no pid) = Some (pg_data (pages s f)) \<or>
          r1 = Inl (Exc UnixError) \<and> \<not> (dm_open (disk_manager s) (pid_fd pid) \<and> 0 \<le> pid_page_no pid)"
        using pid by auto
      have w': "write_frame f (s\<lparr>page_table := ?t\<rparr>) = (r1, s\<lparr>page_table := ?t, disk_manager := d'\<rparr>)"
        using w s1 by (cases s) (auto simp: write_frame_def on_disk_def Let_def split: prod.splits)
      from c show thesis
      proof (elim disjE conjE)
        assume "r1 = Inr ()" "page_content d' (pid_fd pid) (pid_page_no pid) = Some (pg_data (pages s f))"
        then have "evicted s f d'" "r = Inr True" "s' = release f (s\<lparr>disk_manager := d'\<rparr>)"
          using rel [of d'] assms(2) Some False w' dirty wr pid f
          by (simp_all add: DeletePage_def Let_def evicted_def)
        then show thesis using ok [OF Some pin0] by blast
      next
        assume r1: "r1 = Inl (Exc UnixError)" "\<not> (dm_open (disk_manager s) (pid_fd pid) \<and> 0 \<le> pid_page_no pid)"
        then have "evict_fails s f" "r = Inl (Exc UnixError)"
          using assms(2) Some False w' dirty pid f by (auto simp: DeletePage_def evict_fails_def Let_def)
        then show thesis by (rule fails [OF Some pin0])
      qed
    qed
  qed
qed

lemma DeletePage_inv:
  assumes "bp_inv s" "DeletePage pid s = (Inr b, s')"
  shows "bp_inv s'"
  using assms
proof (cases rule: DeletePage_cases)
  case (ok f d')
  with assms(1) show ?thesis
    using release_inv(1) [OF bp_inv_disk [OF assms(1) evictedD(1) [OF ok(4)]], of pid f] by simp
qed (use assms in simp_all)

section \<open>Reachable states\<close>

text \<open>A client's store through the \<open>Page *\<close> of a page that it holds.\<close>

definition poke :: "frame_id_t \<Rightarrow> bytes \<Rightarrow> BufferPoolManager \<Rightarrow> BufferPoolManager" where
  "poke f b s = upd_page f (\<lambda>p. p\<lparr>pg_data := b\<rparr>) s"

lemma poke_simps [simp]:
  "pages (poke f b s) = (pages s)(f := (pages s f)\<lparr>pg_data := b\<rparr>)"
  "page_table (poke f b s) = page_table s" "free_list (poke f b s) = free_list s"
  "disk_manager (poke f b s) = disk_manager s" "bp_replacer (poke f b s) = bp_replacer s"
  "pool_size (poke f b s) = pool_size s" "is_frame (poke f b s) = is_frame s" "avail (poke f b s) = avail s"
  by (simp_all add: poke_def)

lemma poke_inv: "bp_inv s \<Longrightarrow> length b = PAGE_SIZE \<Longrightarrow> bp_inv (poke f b s)"
  unfolding poke_def by (rule bp_inv_upd_page) simp_all

text \<open>A \<open>DeletePage\<close> that throws has taken the page out of the table, and nothing else.\<close>

lemma DeletePage_throws:
  assumes "bp_inv s" "DeletePage pid s = (Inl e, s')"
  shows "page_table s' pid = None \<and>
    (\<exists>g. is_frame s' g \<and> pg_id (pages s' g) = pid \<and> pid_page_no pid \<noteq> INVALID_PAGE_ID \<and> g \<notin> set (free_list s'))"
proof -
  obtain g where g: "page_table s pid = Some g" using assms(2) by (auto simp: DeletePage_def split: option.splits)
  let ?s = "s\<lparr>page_table := (page_table s)(pid := None)\<rparr>"
  have "write_frame g ?s = (Inl e, s')"
    using assms(2) g by (auto simp: DeletePage_def bind_def ret_def Let_def split: if_splits prod.splits sum.splits)
  then obtain d where "s' = ?s\<lparr>disk_manager := d\<rparr>" by (auto simp: write_frame_def on_disk_def split: prod.splits)
  moreover note f = bp_invD(4) [OF assms(1), THEN iffD1, OF g]
  moreover have "g \<notin> set (free_list s)" using bp_invD(6) [OF assms(1), of g] f by auto
  ultimately show ?thesis by (auto simp: is_frame_def)
qed

text \<open>
  Any interleaving of pool operations, client stores and disk manager operations. Clients do not
  fetch \<open>INVALID_PAGE_ID\<close>, and the page number that \<open>NewPage\<close> takes from the disk manager is
  not one of a page in the pool.
\<close>

inductive bp_reach :: "BufferPoolManager \<Rightarrow> bool" where
  start: "dm_reach d \<Longrightarrow> bp_reach (BufferPoolManager_init n junk d)"
| FetchPage: "bp_reach s \<Longrightarrow> pid_page_no pid \<noteq> INVALID_PAGE_ID \<Longrightarrow> FetchPage pid s = (rf, s') \<Longrightarrow> bp_reach s'"
| UnpinPage: "bp_reach s \<Longrightarrow> UnpinPage pid dirty s = (b, s') \<Longrightarrow> bp_reach s'"
| FlushPage: "bp_reach s \<Longrightarrow> FlushPage pid s = (rb, s') \<Longrightarrow> bp_reach s'"
| NewPage: "bp_reach s \<Longrightarrow> NewPage file s = (rn, s') \<Longrightarrow>
    page_table s \<lparr>pid_fd = file, pid_page_no = fd2pageno (disk_manager s) file\<rparr> = None \<Longrightarrow>
    fd2pageno (disk_manager s) file \<noteq> INVALID_PAGE_ID \<Longrightarrow> bp_reach s'"
| DeletePage: "bp_reach s \<Longrightarrow> DeletePage pid s = (Inr b, s') \<Longrightarrow> bp_reach s'"
| FlushAllPages: "bp_reach s \<Longrightarrow> FlushAllPages file s = (ru, s') \<Longrightarrow> bp_reach s'"
| poke: "bp_reach s \<Longrightarrow> length b = PAGE_SIZE \<Longrightarrow> bp_reach (poke f b s)"
| disk_call: "bp_reach s \<Longrightarrow> disk_call (disk_manager s) d \<Longrightarrow> bp_reach (s\<lparr>disk_manager := d\<rparr>)"

lemma bp_reach_inv: "bp_reach s \<Longrightarrow> bp_inv s"
proof (induction rule: bp_reach.induct)
  case (FlushAllPages s fd ru s')
  then show ?case using FlushAllPages_flushed(1) flushedD(1) by blast
qed (auto intro: BufferPoolManager_init_inv dm_reach_inv FetchPage_inv UnpinPage_inv FlushPage_inv NewPage_inv
      DeletePage_inv poke_inv bp_inv_disk disk_call_inv
      dest: bp_invD(1))

section \<open>The page store behind the pool\<close>

text \<open>
  What a client sees: the contents of every page, wherever it is, and how often each page is
  pinned.
\<close>

definition logical :: "BufferPoolManager \<Rightarrow> PageId \<Rightarrow> bytes option" where
  "logical s pid =
     (case page_table s pid of
        Some f \<Rightarrow> Some (pg_data (pages s f))
      | None \<Rightarrow> page_content (disk_manager s) (pid_fd pid) (pid_page_no pid))"

lemma flushed_logical:
  assumes "bp_inv s" "flushed s s'" "logical s p = Some c"
  shows "logical s' p = Some c"
proof (cases "page_table s p")
  case (Some f)
  with assms(3) flushedD(2,8) [OF assms(2)] show ?thesis by (simp add: logical_def)
next
  case None
  then have c: "page_content (disk_manager s) (pid_fd p) (pid_page_no p) = Some c" using assms(3) by (simp add: logical_def)
  then have "pid_page_no p \<noteq> INVALID_PAGE_ID" by (auto simp: page_content_def INVALID_PAGE_ID_def split: option.splits if_splits)
  then have "pg_id (pages s f) \<noteq> p" if "is_frame s f" for f using bp_invD(4) [OF assms(1), of p f] None that by auto
  moreover have "\<lparr>pid_fd = pid_fd p, pid_page_no = pid_page_no p\<rparr> = p" by (cases p) simp
  ultimately have "page_content (disk_manager s') (pid_fd p) (pid_page_no p) = Some c" using flushedD(11) [OF assms(2) c] by metis
  with None flushedD(2) [OF assms(2)] show ?thesis by (simp add: logical_def)
qed

lemma FlushPage_flushed:
  assumes "bp_inv s" "FlushPage pid s = (Inr True, s')"
  shows "flushed s s'"
proof -
  obtain f where f: "page_table s pid = Some f" using assms(2) by (auto simp: FlushPage_def split: option.splits)
  obtain r1 s1 where w: "write_frame f s = (r1, s1)" by (metis surj_pair)
  have "is_frame s f" using bp_invD(4) [OF assms(1), THEN iffD1, OF f] by simp
  from write_frame_flushed(2) [OF assms(1) this w] show ?thesis
    using assms(2) f w by (auto simp: FlushPage_def bind_def split: sum.splits)
qed

definition pins :: "BufferPoolManager \<Rightarrow> PageId \<Rightarrow> int" where
  "pins s pid = (case page_table s pid of Some f \<Rightarrow> pg_pin_count (pages s f) | None \<Rightarrow> 0)"

definition holds :: "BufferPoolManager \<Rightarrow> frame_id_t \<Rightarrow> PageId \<Rightarrow> bool" where
  "holds s f pid \<longleftrightarrow> page_table s pid = Some f"

text \<open>
  The state between well-behaved calls, where \<open>X\<close> is the set of pages with client stores that no
  \<open>UnpinPage(pid, true)\<close> has announced yet: no frame has leaked, the files of resident pages
  are open, and every clean page outside \<open>X\<close> agrees with the disk.
\<close>

definition bp_ok :: "PageId set \<Rightarrow> BufferPoolManager \<Rightarrow> bool" where
  "bp_ok X s \<longleftrightarrow> bp_inv s \<and>
     (\<forall>f. is_frame s f \<longrightarrow> f \<in> avail s \<or> 0 < pg_pin_count (pages s f) \<and> pid_page_no (pg_id (pages s f)) \<noteq> INVALID_PAGE_ID) \<and>
     (\<forall>pid f. page_table s pid = Some f \<longrightarrow>
        dm_open (disk_manager s) (pid_fd pid) \<and> 0 \<le> pid_page_no pid \<and>
        (pid \<in> X \<or> pg_is_dirty (pages s f) \<or>
         page_content (disk_manager s) (pid_fd pid) (pid_page_no pid) = Some (pg_data (pages s f)))) \<and>
     (\<forall>pid\<in>X. 0 < pins s pid)"

lemma bp_okD:
  assumes "bp_ok X s"
  shows "bp_inv s"
    "is_frame s f \<Longrightarrow> f \<in> avail s \<or> 0 < pg_pin_count (pages s f) \<and> pid_page_no (pg_id (pages s f)) \<noteq> INVALID_PAGE_ID"
    "page_table s pid = Some f \<Longrightarrow> dm_open (disk_manager s) (pid_fd pid) \<and> 0 \<le> pid_page_no pid"
    "page_table s pid = Some f \<Longrightarrow> pid \<notin> X \<Longrightarrow> \<not> pg_is_dirty (pages s f) \<Longrightarrow>
       page_content (disk_manager s) (pid_fd pid) (pid_page_no pid) = Some (pg_data (pages s f))"
    "pid \<in> X \<Longrightarrow> 0 < pins s pid"
  using assms unfolding bp_ok_def by blast+

lemma bp_okI:
  assumes "bp_inv s"
    "\<And>f. is_frame s f \<Longrightarrow> f \<notin> avail s \<Longrightarrow> 0 < pg_pin_count (pages s f) \<and> pid_page_no (pg_id (pages s f)) \<noteq> INVALID_PAGE_ID"
    "\<And>pid f. page_table s pid = Some f \<Longrightarrow> dm_open (disk_manager s) (pid_fd pid) \<and> 0 \<le> pid_page_no pid"
    "\<And>pid f. page_table s pid = Some f \<Longrightarrow> pid \<notin> X \<Longrightarrow> \<not> pg_is_dirty (pages s f) \<Longrightarrow>
       page_content (disk_manager s) (pid_fd pid) (pid_page_no pid) = Some (pg_data (pages s f))"
    "\<And>pid. pid \<in> X \<Longrightarrow> 0 < pins s pid"
  shows "bp_ok X s"
  using assms unfolding bp_ok_def by blast

text \<open>A pool with fewer pinned pages than frames has a frame to give.\<close>

lemma finite_pins:
  assumes "bp_ok X s"
  shows "finite {pid. 0 < pins s pid}"
proof (rule finite_subset)
  show "{pid. 0 < pins s pid} \<subseteq> (\<lambda>f. pg_id (pages s f)) ` {0..<int (pool_size s)}"
    using bp_invD(4) [OF bp_okD(1) [OF assms]]
    by (auto simp: pins_def is_frame_def image_iff split: option.splits intro!: bexI)
qed simp

lemma avail_room:
  assumes "bp_ok X s" "card {pid. 0 < pins s pid} < pool_size s"
  shows "avail s \<noteq> {}"
proof
  assume none: "avail s = {}"
  let ?F = "{0..<int (pool_size s)}"
  have "(\<lambda>f. pg_id (pages s f)) ` ?F \<subseteq> {pid. 0 < pins s pid}"
  proof (intro image_subsetI CollectI)
    fix f assume "f \<in> ?F"
    then have f: "is_frame s f" by (simp add: is_frame_def)
    with bp_okD(2) [OF assms(1) f] none have "page_table s (pg_id (pages s f)) = Some f"
      by (simp add: bp_invD(4) [OF bp_okD(1) [OF assms(1)]])
    with bp_okD(2) [OF assms(1) f] none show "0 < pins s (pg_id (pages s f))" by (simp add: pins_def)
  qed
  moreover have "inj_on (\<lambda>f. pg_id (pages s f)) ?F"
  proof (rule inj_onI)
    fix f g assume "f \<in> ?F" "g \<in> ?F" and e: "pg_id (pages s f) = pg_id (pages s g)"
    then have "is_frame s f" "is_frame s g" by (simp_all add: is_frame_def)
    with bp_okD(2) [OF assms(1)] none have "page_table s (pg_id (pages s f)) = Some f" "page_table s (pg_id (pages s g)) = Some g"
      by (simp_all add: bp_invD(4) [OF bp_okD(1) [OF assms(1)]])
    with e show "f = g" by (metis option.inject)
  qed
  moreover have "finite {pid. 0 < pins s pid}" by (rule finite_pins [OF assms(1)])
  ultimately have "card ?F \<le> card {pid. 0 < pins s pid}" using card_image card_mono by metis
  with assms(2) show False by simp
qed

lemma pid_collapse [simp]: "\<lparr>pid_fd = pid_fd p, pid_page_no = pid_page_no p\<rparr> = p"
  by (rule PageId.equality) simp_all

lemma pid_neq_iff: "(p :: PageId) \<noteq> q \<longleftrightarrow> (pid_fd p, pid_page_no p) \<noteq> (pid_fd q, pid_page_no q)"
  by (cases p; cases q) auto

text \<open>Eviction is invisible: the contents of a page survive it.\<close>

lemma logical_evicted:
  assumes "bp_ok X s" "evicted s f d'" "f \<in> avail s" "logical s p = Some b"
  shows "(case ((page_table s)(pg_id (pages s f) := None)) p of
            Some g \<Rightarrow> Some (pg_data (pages s g)) | None \<Rightarrow> page_content d' (pid_fd p) (pid_page_no p)) = Some b"
    (is "?L = _")
proof -
  let ?old = "pg_id (pages s f)"
  note inv = bp_okD(1) [OF assms(1)]
  have f: "is_frame s f" "pg_pin_count (pages s f) = 0" using avail_frame [OF inv assms(3)] by auto
  have w: "p \<noteq> ?old \<Longrightarrow> page_content (disk_manager s) (pid_fd p) (pid_page_no p) = Some c \<Longrightarrow>
      page_content d' (pid_fd p) (pid_page_no p) = Some c" for c
    using assms(2) by (simp add: evicted_def Let_def wrote_def pid_neq_iff)
  consider (old) "p = ?old" "pid_page_no ?old \<noteq> INVALID_PAGE_ID"
    | (none) "p = ?old" "pid_page_no ?old = INVALID_PAGE_ID" | (other) "p \<noteq> ?old" by blast
  then show ?thesis
  proof cases
    case old
    with f have t: "page_table s p = Some f" by (simp add: bp_invD(4) [OF inv])
    then have b: "b = pg_data (pages s f)" using assms(4) by (simp add: logical_def)
    have nX: "p \<notin> X" using bp_okD(5) [OF assms(1), of p] t f(2) by (auto simp: pins_def)
    from assms(2) old b bp_okD(4) [OF assms(1) t nX] show ?thesis
      by (cases "pg_is_dirty (pages s f)") (simp_all add: evicted_def Let_def)
  next
    case none
    have "page_table s p \<noteq> Some g" for g using none bp_invD(4) [OF inv, of p g] by simp
    then have t: "page_table s p = None" by auto
    with none assms(2,4) show ?thesis by (simp add: logical_def evicted_def Let_def)
  next
    case other
    with assms(4) w show ?thesis by (simp add: logical_def split: option.splits)
  qed
qed

text \<open>Placing a page in a frame that was taken keeps the store and adds one pin.\<close>

lemma load_ok:
  assumes "bp_ok X s" "took s f s0" "evicted s f d'" "page_table s pid = None" "disk_inv d"
    and "page_content d = page_content d'" "dm_open d = dm_open (disk_manager s)"
    and "length b = PAGE_SIZE" "0 \<le> pid_page_no pid" "dm_open (disk_manager s) (pid_fd pid)"
    and "pid \<in> Y \<or> page_content d (pid_fd pid) (pid_page_no pid) = Some b" "X \<subseteq> Y" "Y \<subseteq> insert pid X"
  defines "s' \<equiv> pin_frame f (load f pid b 1 (s0\<lparr>disk_manager := d\<rparr>))"
  shows "bp_ok Y s'" "logical s' pid = Some b" "p \<noteq> pid \<Longrightarrow> logical s p = Some c \<Longrightarrow> logical s' p = Some c"
    "pins s' = (pins s)(pid := 1)" "holds s' f pid" "pool_size s' = pool_size s"
    "holds s g q \<Longrightarrow> 0 < pins s q \<Longrightarrow> holds s' g q"
proof -
  let ?old = "pg_id (pages s f)"
  note inv = bp_okD(1) [OF assms(1)] and t = tookD [OF assms(2)]
  have f: "is_frame s f" "pg_pin_count (pages s f) = 0" using avail_frame [OF inv t(2)] by auto
  have pno: "pid_page_no pid \<noteq> INVALID_PAGE_ID" using assms(9) by (simp add: INVALID_PAGE_ID_def)
  note li = took_load_inv [OF assms(2,5,4) pno assms(8), of 1]
  have [simp]: "pages s' = (pages s)(f := \<lparr>pg_id = pid, pg_data = b, pg_is_dirty = False, pg_pin_count = 1, \<dots> = Page.more (pages s f)\<rparr>)"
    "page_table s' = (page_table s)(?old := None, pid \<mapsto> f)" "disk_manager s' = d" "pool_size s' = pool_size s"
    "is_frame s' = is_frame s" "avail s' = avail s - {f}"
    using t li(3) by (simp_all add: s'_def)
  have other: "g \<noteq> f" if "((page_table s)(?old := None)) q = Some g" for q g
    using that bp_invD(4) [OF inv, of q g] by (auto split: if_splits)
  show P: "pins s' = (pins s)(pid := 1)"
  proof (rule ext)
    fix q
    have "pins s ?old = 0"
      using f bp_invD(4) [OF inv, of ?old] by (auto simp: pins_def split: option.splits)
        (metis bp_invD(4) [OF inv] option.inject)
    then show "pins s' q = ((pins s)(pid := 1)) q"
      using other [of q] by (auto simp: pins_def split: option.splits)
  qed
  show "logical s' pid = Some b" "holds s' f pid" "pool_size s' = pool_size s"
    by (simp_all add: logical_def holds_def)
  show L: "logical s' p = Some c" if "p \<noteq> pid" "logical s p = Some c" for p c
    using logical_evicted [OF assms(1,3) t(2) that(2)] that(1) assms(6) other [of p]
    by (auto simp: logical_def split: option.splits)
  show "holds s' g q" if "holds s g q" "0 < pins s q" for g q
  proof -
    have q: "page_table s q = Some g" "0 < pg_pin_count (pages s g)" using that by (simp_all add: holds_def pins_def)
    then have "g \<noteq> f" "pg_id (pages s g) = q" "pid_page_no q \<noteq> INVALID_PAGE_ID" "is_frame s g"
      using f(2) bp_invD(4) [OF inv, of q g] by auto
    then have "q \<noteq> ?old" using f(1) bp_invD(4) [OF inv, of q f] q(1) by (metis option.inject)
    with q assms(4) show ?thesis by (auto simp: holds_def)
  qed
  show "bp_ok Y s'"
  proof (rule bp_okI)
    show "bp_inv s'" using li(2) by (simp add: s'_def)
  next
    fix g assume "is_frame s' g" "g \<notin> avail s'"
    then show "0 < pg_pin_count (pages s' g) \<and> pid_page_no (pg_id (pages s' g)) \<noteq> INVALID_PAGE_ID"
      using bp_okD(2) [OF assms(1), of g] pno by auto
  next
    fix q g assume "page_table s' q = Some g"
    then show "dm_open (disk_manager s') (pid_fd q) \<and> 0 \<le> pid_page_no q"
      using bp_okD(3) [OF assms(1), of q g] assms(7,9,10) by (auto split: if_splits)
  next
    fix q assume "q \<in> Y"
    then show "0 < pins s' q" using P bp_okD(5) [OF assms(1), of q] assms(13) by auto
  next
    fix q g assume q: "page_table s' q = Some g" "q \<notin> Y" "\<not> pg_is_dirty (pages s' g)"
    show "page_content (disk_manager s') (pid_fd q) (pid_page_no q) = Some (pg_data (pages s' g))"
    proof (cases "q = pid")
      case True
      with q assms(11) show ?thesis by auto
    next
      case False
      with q(1) have qs: "page_table s q = Some g" "q \<noteq> ?old" "g \<noteq> f" using other [of q g] by (auto split: if_splits)
      with q assms(12) bp_okD(4) [OF assms(1) qs(1)] assms(3) qs(2) show ?thesis
        by (auto simp: assms(6) evicted_def Let_def wrote_def pid_neq_iff)
    qed
  qed
qed

lemma evict_never_fails:
  assumes "bp_ok X s" "f \<in> avail s" shows "\<not> evict_fails s f"
proof
  assume e: "evict_fails s f"
  note inv = bp_okD(1) [OF assms(1)]
  have "page_table s (pg_id (pages s f)) = Some f"
    using e avail_frame [OF inv assms(2)] by (simp add: bp_invD(4) [OF inv] evict_fails_def Let_def)
  with bp_okD(3) [OF assms(1)] e show False by (auto simp: evict_fails_def Let_def)
qed

definition store_le :: "BufferPoolManager \<Rightarrow> BufferPoolManager \<Rightarrow> bool" where
  "store_le s s' \<longleftrightarrow> pool_size s' = pool_size s \<and> (\<forall>p c. logical s p = Some c \<longrightarrow> logical s' p = Some c)"

lemma hit_ok:
  assumes "bp_ok X s" "page_table s pid = Some f"
  defines "s' \<equiv> pin_frame f (upd_page f (\<lambda>p. p\<lparr>pg_pin_count := pg_pin_count p + 1\<rparr>) s)"
  shows "bp_ok X s'" "logical s' = logical s" "pins s' = (pins s)(pid := pins s pid + 1)" "holds s' = holds s"
proof -
  note inv = bp_okD(1) [OF assms(1)]
  note f = bp_invD(4) [OF inv, THEN iffD1, OF assms(2)]
  have uniq: "page_table s q = Some f \<longleftrightarrow> q = pid" for q using assms(2) bp_invD(4) [OF inv, of q f] f by auto
  show "logical s' = logical s" "holds s' = holds s"
    by (auto simp: fun_eq_iff logical_def holds_def s'_def split: option.splits)
  have "pins s' q = ((pins s)(pid := pins s pid + 1)) q" for q
    using assms(2) uniq [of q] by (cases "q = pid") (auto simp: pins_def s'_def split: option.splits)
  then show P: "pins s' = (pins s)(pid := pins s pid + 1)" by (rule ext)
  have pin: "0 \<le> pg_pin_count (pages s f)" using bp_invD(8) [OF inv] f by simp
  show "bp_ok X s'"
  proof (rule bp_okI)
    show "bp_inv s'" unfolding s'_def by (rule hit_inv [OF inv assms(2)])
  next
    fix g assume "is_frame s' g" "g \<notin> avail s'"
    then show "0 < pg_pin_count (pages s' g) \<and> pid_page_no (pg_id (pages s' g)) \<noteq> INVALID_PAGE_ID"
      using hit_inv(2) [OF inv assms(2)] bp_okD(2) [OF assms(1), of g] f pin by (auto simp: s'_def)
  next
    fix q assume "q \<in> X"
    then show "0 < pins s' q" using P bp_okD(5) [OF assms(1), of q] by auto
  next
    fix q g assume "page_table s' q = Some g"
    then show "dm_open (disk_manager s') (pid_fd q) \<and> 0 \<le> pid_page_no q"
      using bp_okD(3) [OF assms(1)] by (simp add: s'_def)
  next
    fix q g assume q: "page_table s' q = Some g" "q \<notin> X" "\<not> pg_is_dirty (pages s' g)"
    then have "\<not> pg_is_dirty (pages s g)" "pg_data (pages s' g) = pg_data (pages s g)"
      by (auto simp: s'_def split: if_splits)
    with q bp_okD(4) [OF assms(1), of q g]
    show "page_content (disk_manager s') (pid_fd q) (pid_page_no q) = Some (pg_data (pages s' g))"
      by (simp add: s'_def)
  qed
qed

lemma FetchPage_ok:
  assumes "bp_ok X s" "logical s pid = Some b" "0 < pins s pid \<or> card {p. 0 < pins s p} < pool_size s"
  shows "\<exists>f s'. FetchPage pid s = (Inr (Some f), s') \<and> bp_ok X s' \<and> holds s' f pid \<and> store_le s s' \<and>
    pins s' = (pins s)(pid := pins s pid + 1) \<and> (\<forall>g q. holds s g q \<longrightarrow> 0 < pins s q \<longrightarrow> holds s' g q)"
proof (cases "page_table s pid")
  case (Some f)
  from hit_ok [OF assms(1) Some] show ?thesis
    by (simp add: FetchPage_hit [OF Some] store_le_def) (simp add: holds_def Some)
next
  case None
  then have p0: "pins s pid = 0" by (simp add: pins_def)
  note inv = bp_okD(1) [OF assms(1)]
  have c: "page_content (disk_manager s) (pid_fd pid) (pid_page_no pid) = Some b"
    using assms(2) None by (simp add: logical_def)
  note o = dm.content_opened [OF bp_invD(1) [OF inv] c]
  have av: "avail s \<noteq> {}" using avail_room [OF assms(1)] assms(3) p0 by simp
  obtain r s' where F: "FetchPage pid s = (r, s')" by (metis surj_pair)
  from inv None F show ?thesis
  proof (cases rule: FetchPage_miss)
    case null
    with av show ?thesis by simp
  next
    case (evict f s0 d')
    with evict_never_fails [OF assms(1)] tookD(2) show ?thesis by blast
  next
    case (absent f s0 c' d' d'')
    have "page_content d' (pid_fd pid) (pid_page_no pid) = Some b"
      using logical_evicted [OF assms(1) absent(3) tookD(2) [OF absent(1)] assms(2)] None by (simp split: if_splits)
    with absent show ?thesis by simp
  next
    case (ok f s0 c' d' d'')
    have "page_content d' (pid_fd pid) (pid_page_no pid) = Some b"
      using logical_evicted [OF assms(1) ok(3) tookD(2) [OF ok(1)] assms(2)] None by (simp split: if_splits)
    with ok have c': "c' = b" by simp
    have pre: "length b = PAGE_SIZE" "0 \<le> pid_page_no pid" "dm_open (disk_manager s) (pid_fd pid)"
      "pid \<in> X \<or> page_content d'' (pid_fd pid) (pid_page_no pid) = Some b" "X \<subseteq> X" "X \<subseteq> insert pid X"
      using o ok(7,8) c' by auto
    note lo = load_ok [OF assms(1) ok(1) ok(3) None ok(6) ok(8) ok(9) pre, folded ok(4) [unfolded c']]
    have "logical s' p = Some c" if "logical s p = Some c" for p c
      using that lo(2,3) assms(2) by (cases "p = pid") auto
    with F ok(2) lo p0 show ?thesis by (auto simp: store_le_def)
  qed
qed

lemma poke_ok:
  assumes "bp_ok X s" "holds s f pid" "0 < pins s pid" "length b = PAGE_SIZE"
  shows "bp_ok (insert pid X) (poke f b s)" "logical (poke f b s) = (logical s)(pid \<mapsto> b)"
    "pins (poke f b s) = pins s" "holds (poke f b s) = holds s"
proof -
  note inv = bp_okD(1) [OF assms(1)]
  have t: "page_table s pid = Some f" using assms(2) by (simp add: holds_def)
  have uniq: "page_table s q = Some f \<longleftrightarrow> q = pid" for q using t bp_invD(4) [OF inv, of q f] bp_invD(4) [OF inv, of pid f] by auto
  have "logical (poke f b s) q = ((logical s)(pid \<mapsto> b)) q" for q
    using uniq [of q] t by (cases "q = pid") (auto simp: logical_def split: option.splits)
  then show "logical (poke f b s) = (logical s)(pid \<mapsto> b)" by (rule ext)
  show P: "pins (poke f b s) = pins s" "holds (poke f b s) = holds s"
    by (auto simp: fun_eq_iff pins_def holds_def split: option.splits)
  show "bp_ok (insert pid X) (poke f b s)"
  proof (rule bp_okI)
    show "bp_inv (poke f b s)" by (rule poke_inv [OF inv assms(4)])
  next
    fix q g assume "page_table (poke f b s) q = Some g" "q \<notin> insert pid X" "\<not> pg_is_dirty (pages (poke f b s) g)"
    then show "page_content (disk_manager (poke f b s)) (pid_fd q) (pid_page_no q) = Some (pg_data (pages (poke f b s) g))"
      using uniq [of q] bp_okD(4) [OF assms(1), of q g] by (auto split: if_splits)
  qed (use assms(3) P bp_okD(2,3,5) [OF assms(1)] in auto)
qed

lemma NewPage_ok:
  assumes "bp_ok X s" "card {p. 0 < pins s p} < pool_size s" "dm_open (disk_manager s) file" "0 \<le> file" "file < MAX_FD"
  defines "pid \<equiv> \<lparr>pid_fd = file, pid_page_no = fd2pageno (disk_manager s) file\<rparr>"
  assumes "page_table s pid = None" "0 \<le> pid_page_no pid"
  shows "\<exists>f s'. NewPage file s = (Inr (Some (f, pid)), s') \<and> bp_ok (insert pid X) s' \<and> holds s' f pid \<and>
    logical s' pid = Some zero_page \<and> pool_size s' = pool_size s \<and>
    (\<forall>p c. p \<noteq> pid \<longrightarrow> logical s p = Some c \<longrightarrow> logical s' p = Some c) \<and>
    pins s' = (pins s)(pid := 1) \<and> (\<forall>g q. holds s g q \<longrightarrow> 0 < pins s q \<longrightarrow> holds s' g q)"
proof -
  note inv = bp_okD(1) [OF assms(1)]
  have av: "avail s \<noteq> {}" by (rule avail_room [OF assms(1,2)])
  obtain r s' where N: "NewPage file s = (r, s')" by (metis surj_pair)
  from inv N show ?thesis
  proof (cases rule: NewPage_cases)
    case (evict f s0 d')
    with evict_never_fails [OF assms(1)] tookD(2) show ?thesis by blast
  next
    case (ok f s0 d' q)
    then have q: "q = pid" by (simp add: pid_def)
    have pre: "length zero_page = PAGE_SIZE" "0 \<le> pid_page_no pid" "dm_open (disk_manager s) (pid_fd pid)"
      "pid \<in> insert pid X \<or> page_content d' (pid_fd pid) (pid_page_no pid) = Some zero_page"
      "X \<subseteq> insert pid X" "insert pid X \<subseteq> insert pid X"
      using assms(3,8) by (auto simp: pid_def)
    note lo = load_ok [OF assms(1) ok(1) ok(3) assms(7) evictedD(1) [OF ok(3)] refl evictedD(2) [OF ok(3)] pre,
        folded ok(7) [unfolded q]]
    then show ?thesis using N ok(2) q by blast
  qed (use av assms(4,5) in simp_all)
qed

lemma UnpinPage_ok:
  assumes "bp_ok X s" "0 < pins s pid" "dirty \<or> pid \<notin> X"
  shows "\<exists>s'. UnpinPage pid dirty s = (True, s') \<and> bp_ok (X - {pid}) s' \<and> logical s' = logical s \<and>
    pins s' = (pins s)(pid := pins s pid - 1) \<and> holds s' = holds s \<and> pool_size s' = pool_size s"
proof -
  note inv = bp_okD(1) [OF assms(1)]
  obtain f where t: "page_table s pid = Some f" and pin: "0 < pg_pin_count (pages s f)"
    using assms(2) by (auto simp: pins_def split: option.splits)
  note f = bp_invD(4) [OF inv, THEN iffD1, OF t]
  obtain s' where U: "UnpinPage pid dirty s = (True, s')" using t pin by (simp add: UnpinPage_def Let_def)
  note inv' = UnpinPage_inv [OF inv U]
  let ?s1 = "upd_page f (\<lambda>p. p\<lparr>pg_pin_count := pg_pin_count p - 1, pg_is_dirty := dirty \<or> pg_is_dirty p\<rparr>) s"
  have s': "s' = (if pg_pin_count (pages s f) = 1 then ?s1\<lparr>bp_replacer := Unpin f (bp_replacer s)\<rparr> else ?s1)"
    using U t pin by (cases "pg_pin_count (pages s f) = 1") (simp_all add: UnpinPage_def Let_def)
  have [simp]: "pages s' = (pages s)(f := (pages s f)\<lparr>pg_pin_count := pg_pin_count (pages s f) - 1,
        pg_is_dirty := dirty \<or> pg_is_dirty (pages s f)\<rparr>)"
    "page_table s' = page_table s" "disk_manager s' = disk_manager s" "pool_size s' = pool_size s" "is_frame s' = is_frame s"
    by (simp_all add: s')
  have uniq: "page_table s q = Some f \<longleftrightarrow> q = pid" for q using t bp_invD(4) [OF inv, of q f] f by auto
  have "f \<notin> avail s" using avail_frame [OF inv, of f] pin by auto
  with inv pin have i1: "bp_inv ?s1" by (intro bp_inv_upd_page) auto
  have av: "avail s' = (if pg_pin_count (pages s f) = 1 then insert f (avail s) else avail s)"
    using bp_inv_Unpin(2) [OF i1, of pid f] t by (simp add: s')
  have "pins s' q = ((pins s)(pid := pins s pid - 1)) q" for q
    using t uniq [of q] by (cases "q = pid") (auto simp: pins_def split: option.splits)
  then have P: "pins s' = (pins s)(pid := pins s pid - 1)" by (rule ext)
  have L: "logical s' = logical s" "holds s' = holds s"
    by (auto simp: fun_eq_iff logical_def holds_def split: option.splits)
  have "bp_ok (X - {pid}) s'"
  proof (rule bp_okI [OF inv'])
    fix g assume "is_frame s' g" "g \<notin> avail s'"
    then show "0 < pg_pin_count (pages s' g) \<and> pid_page_no (pg_id (pages s' g)) \<noteq> INVALID_PAGE_ID"
      using bp_okD(2) [OF assms(1), of g] pin f av by (auto split: if_splits)
  next
    fix q assume "q \<in> X - {pid}"
    then show "0 < pins s' q" using P bp_okD(5) [OF assms(1), of q] by auto
  next
    fix q g assume q: "page_table s' q = Some g" "q \<notin> X - {pid}" "\<not> pg_is_dirty (pages s' g)"
    then show "page_content (disk_manager s') (pid_fd q) (pid_page_no q) = Some (pg_data (pages s' g))"
      using bp_okD(4) [OF assms(1), of q g] assms(3) uniq [of q] by (auto split: if_splits)
  qed (use bp_okD(3) [OF assms(1)] in simp)
  with U P L show ?thesis by simp
qed

text \<open>
  Page number allocation and the set of open files are not touched by fetching and unpinning, and
  a fetch makes at most the page that it fetches resident.
\<close>

definition disk_env :: "BufferPoolManager \<Rightarrow> (int \<Rightarrow> page_id_t) \<times> (int \<Rightarrow> bool)" where
  "disk_env s = (fd2pageno (disk_manager s), dm_open (disk_manager s))"

lemma write_page_alloc: "fd2pageno (snd (write_page fd no buf d)) = fd2pageno d"
  by (simp add: write_page_def Let_def split: prod.splits)

lemma read_page_alloc: "fd2pageno (snd (snd (read_page fd no n buf d))) = fd2pageno d"
  by (simp add: read_page_def Let_def split: prod.splits option.splits)

lemma write_frame_alloc: "fd2pageno (disk_manager (snd (write_frame f s))) = fd2pageno (disk_manager s)"
  using write_page_alloc by (simp add: write_frame_def on_disk_def split_beta)

lemma read_frame_alloc: "fd2pageno (disk_manager (snd (read_frame pid f s))) = fd2pageno (disk_manager s)"
  using read_page_alloc by (simp add: read_frame_def split_beta)

lemma FindVictimPage_disk: "disk_manager (snd (FindVictimPage s)) = disk_manager s"
  by (simp add: FindVictimPage_def split_beta split: list.splits)

lemma UpdatePage_alloc: "fd2pageno (disk_manager (snd (UpdatePage f pid g s))) = fd2pageno (disk_manager s)"
  using write_frame_alloc [of f s]
  by (auto simp: UpdatePage_def bind_def ret_def Let_def split: prod.splits sum.splits)

lemma FetchPage_alloc: "fd2pageno (disk_manager (snd (FetchPage pid s))) = fd2pageno (disk_manager s)"
proof (cases "page_table s pid")
  case None
  obtain b f s0 where v: "FindVictimPage s = ((b, f), s0)" by (metis surj_pair)
  then have d: "disk_manager s0 = disk_manager s" using FindVictimPage_disk [of s] by simp
  obtain r1 s1 where u: "UpdatePage f pid f s0 = (r1, s1)" by (metis surj_pair)
  obtain r2 s2 where r: "read_frame pid f s1 = (r2, s2)" by (metis surj_pair)
  show ?thesis
    using UpdatePage_alloc [of f pid f s0] read_frame_alloc [of pid f s1] None v u r d
    by (auto simp: FetchPage_def bind_def split: sum.splits)
qed (simp add: FetchPage_def)

lemma NewPage_alloc:
  assumes "NewPage fd s = (Inr (Some x), s')"
  shows "fd2pageno (disk_manager s') = (fd2pageno (disk_manager s))(fd := wrap32 (fd2pageno (disk_manager s) fd + 1))"
proof -
  obtain b f s0 where v: "FindVictimPage s = ((b, f), s0)" by (metis surj_pair)
  then have d: "disk_manager s0 = disk_manager s" using FindVictimPage_disk [of s] by simp
  from assms v have b: "b" by (auto simp: NewPage_def split: if_splits)
  obtain r0 d1 where a: "AllocatePage fd (disk_manager s0) = (r0, d1)" by (metis surj_pair)
  from a show ?thesis
  proof (cases rule: AllocatePage_cases)
    case bad
    with assms v b a show ?thesis by (simp add: NewPage_def on_disk_def bind_def)
  next
    case ok
    let ?pid = "\<lparr>pid_fd = fd, pid_page_no = fd2pageno (disk_manager s) fd\<rparr>"
    obtain r1 s1 where u: "UpdatePage f ?pid f (s0\<lparr>disk_manager := d1\<rparr>) = (r1, s1)" by (metis surj_pair)
    then have "fd2pageno (disk_manager s1) = fd2pageno d1"
      using UpdatePage_alloc [of f ?pid f "s0\<lparr>disk_manager := d1\<rparr>"] by simp
    with assms v b a ok(3,4) u d show ?thesis
      by (auto simp: NewPage_def on_disk_def bind_def Let_def split: sum.splits)
  qed
qed

lemma FetchPage_resident:
  assumes "bp_inv s" "FetchPage pid s = (r, s')"
  shows "dom (page_table s') \<subseteq> insert pid (dom (page_table s))"
proof (cases "page_table s pid")
  case None
  from assms(1) None assms(2) show ?thesis
    by (cases rule: FetchPage_miss) (auto simp: tookD(5) split: if_splits)
qed (use assms(2) in \<open>auto simp: FetchPage_hit\<close>)

lemma NewPage_resident:
  assumes "bp_inv s" "NewPage fd s = (Inr (Some (f, pid)), s')"
  shows "dom (page_table s') \<subseteq> insert pid (dom (page_table s))" "dm_open (disk_manager s') = dm_open (disk_manager s)"
  using assms(1,2)
  by (cases rule: NewPage_cases; auto simp: tookD(5) evictedD(2) split: if_splits)+

lemma UnpinPage_frame:
  "page_table (snd (UnpinPage pid d s)) = page_table s" "disk_manager (snd (UnpinPage pid d s)) = disk_manager s"
  by (simp_all add: UnpinPage_def Let_def split: option.splits)

lemma FetchPage_env:
  assumes "bp_inv s" "FetchPage pid s = (Inr (Some f), s')"
  shows "disk_env s' = disk_env s"
proof -
  have "dm_open (disk_manager s') = dm_open (disk_manager s)"
  proof (cases "page_table s pid")
    case None
    from assms(1) None assms(2) show ?thesis by (cases rule: FetchPage_miss) simp_all
  qed (use assms(2) in \<open>auto simp: FetchPage_hit\<close>)
  with FetchPage_alloc [of pid s] assms(2) show ?thesis by (simp add: disk_env_def)
qed

section \<open>The page cache interface\<close>

text \<open>
  What the record and index managers rely on. \<open>view\<close> is the page store, \<open>pinned\<close> the number of
  pins of each page, \<open>cap\<close> the number of frames, and \<open>ok X\<close> the state in which the pages in \<open>X\<close>
  have been written to and are not yet unpinned as dirty. \<open>resident\<close> is the set of pages in
  frames and \<open>env\<close> what the cache leaves alone.
\<close>

locale page_cache =
  fixes fetch :: "PageId \<Rightarrow> ('s, frame_id_t option) prog"
    and unpin :: "PageId \<Rightarrow> bool \<Rightarrow> 's \<Rightarrow> bool \<times> 's"
    and poke :: "frame_id_t \<Rightarrow> bytes \<Rightarrow> 's \<Rightarrow> 's"
    and view :: "'s \<Rightarrow> PageId \<Rightarrow> bytes option"
    and pinned :: "'s \<Rightarrow> PageId \<Rightarrow> int"
    and held :: "'s \<Rightarrow> frame_id_t \<Rightarrow> PageId \<Rightarrow> bool"
    and cap :: "'s \<Rightarrow> nat"
    and resident :: "'s \<Rightarrow> PageId set"
    and env :: "'s \<Rightarrow> 'e"
    and ok :: "PageId set \<Rightarrow> 's \<Rightarrow> bool"
  assumes fetch_ok: "ok X s \<Longrightarrow> view s pid = Some b \<Longrightarrow> 0 < pinned s pid \<or> card {p. 0 < pinned s p} < cap s \<Longrightarrow>
      \<exists>f s'. fetch pid s = (Inr (Some f), s') \<and> ok X s' \<and> held s' f pid \<and> cap s' = cap s \<and>
        env s' = env s \<and> resident s' \<subseteq> insert pid (resident s) \<and>
        (\<forall>p c. view s p = Some c \<longrightarrow> view s' p = Some c) \<and>
        pinned s' = (pinned s)(pid := pinned s pid + 1) \<and>
        (\<forall>g q. held s g q \<longrightarrow> 0 < pinned s q \<longrightarrow> held s' g q)"
    and poke_ok: "ok X s \<Longrightarrow> held s f pid \<Longrightarrow> 0 < pinned s pid \<Longrightarrow> length b = PAGE_SIZE \<Longrightarrow>
      ok (insert pid X) (poke f b s) \<and> view (poke f b s) = (view s)(pid \<mapsto> b) \<and>
      pinned (poke f b s) = pinned s \<and> held (poke f b s) = held s \<and> cap (poke f b s) = cap s \<and>
      env (poke f b s) = env s \<and> resident (poke f b s) = resident s"
    and unpin_ok: "ok X s \<Longrightarrow> 0 < pinned s pid \<Longrightarrow> dirty \<or> pid \<notin> X \<Longrightarrow>
      \<exists>s'. unpin pid dirty s = (True, s') \<and> ok (X - {pid}) s' \<and> view s' = view s \<and>
        pinned s' = (pinned s)(pid := pinned s pid - 1) \<and> held s' = held s \<and> cap s' = cap s \<and>
        env s' = env s \<and> resident s' = resident s"
    and pinned_nonneg: "ok X s \<Longrightarrow> 0 \<le> pinned s pid"
begin

text \<open>Fetch a page, look at it, release it: the store and the pins are unchanged.\<close>

lemma fetch_unpin:
  assumes "ok X s" "view s pid = Some b" "card {p. 0 < pinned s p} < cap s" "pid \<notin> X"
  shows "\<exists>f s1 s2. fetch pid s = (Inr (Some f), s1) \<and> held s1 f pid \<and> view s1 pid = Some b \<and>
    unpin pid False s1 = (True, s2) \<and> ok X s2 \<and> pinned s2 = pinned s \<and> cap s2 = cap s \<and>
    env s2 = env s \<and> resident s2 \<subseteq> insert pid (resident s) \<and>
    (\<forall>p c. view s p = Some c \<longrightarrow> view s2 p = Some c)"
proof -
  from fetch_ok [OF assms(1,2)] assms(3) obtain f s1 where f: "fetch pid s = (Inr (Some f), s1)" "ok X s1"
    "held s1 f pid" "cap s1 = cap s" "\<forall>p c. view s p = Some c \<longrightarrow> view s1 p = Some c"
    "pinned s1 = (pinned s)(pid := pinned s pid + 1)" "env s1 = env s" "resident s1 \<subseteq> insert pid (resident s)" by blast
  have "0 < pinned s1 pid" using f(6) pinned_nonneg [OF assms(1), of pid] by simp
  from unpin_ok [OF f(2) this, of False] assms(4) obtain s2 where "unpin pid False s1 = (True, s2)" "ok (X - {pid}) s2"
    "view s2 = view s1" "pinned s2 = (pinned s1)(pid := pinned s1 pid - 1)" "cap s2 = cap s1"
    "env s2 = env s1" "resident s2 = resident s1" by blast
  with f assms(2,4) show ?thesis by (auto simp: fun_eq_iff)
qed

text \<open>Fetch a page, overwrite it, release it as dirty: exactly that page has changed.\<close>

lemma fetch_poke_unpin:
  assumes "ok X s" "view s pid = Some b" "card {p. 0 < pinned s p} < cap s" "pid \<notin> X" "length b' = PAGE_SIZE"
  shows "\<exists>f s1 s2. fetch pid s = (Inr (Some f), s1) \<and> held s1 f pid \<and> view s1 pid = Some b \<and>
    unpin pid True (poke f b' s1) = (True, s2) \<and> ok X s2 \<and> pinned s2 = pinned s \<and> cap s2 = cap s \<and>
    env s2 = env s \<and> resident s2 \<subseteq> insert pid (resident s) \<and>
    view s2 pid = Some b' \<and> (\<forall>p c. p \<noteq> pid \<longrightarrow> view s p = Some c \<longrightarrow> view s2 p = Some c)"
proof -
  from fetch_ok [OF assms(1,2)] assms(3) obtain f s1 where f: "fetch pid s = (Inr (Some f), s1)" "ok X s1"
    "held s1 f pid" "cap s1 = cap s" "\<forall>p c. view s p = Some c \<longrightarrow> view s1 p = Some c"
    "pinned s1 = (pinned s)(pid := pinned s pid + 1)" "env s1 = env s" "resident s1 \<subseteq> insert pid (resident s)" by blast
  have pos: "0 < pinned s1 pid" using f(6) pinned_nonneg [OF assms(1), of pid] by simp
  note pk = poke_ok [OF f(2,3) pos assms(5)]
  from unpin_ok [of "insert pid X" "poke f b' s1" pid True] pk pos obtain s2 where
    "unpin pid True (poke f b' s1) = (True, s2)" "ok (insert pid X - {pid}) s2"
    "view s2 = view (poke f b' s1)" "pinned s2 = (pinned s1)(pid := pinned s1 pid - 1)" "cap s2 = cap (poke f b' s1)"
    "env s2 = env s1" "resident s2 = resident s1" by auto
  with f pk assms(2,4) show ?thesis by (auto simp: fun_eq_iff)
qed

end

interpretation bp: page_cache FetchPage UnpinPage poke logical pins holds pool_size "\<lambda>s. dom (page_table s)" disk_env bp_ok
proof (unfold_locales, goal_cases)
  case (1 X s pid b)
  from FetchPage_ok [OF this] obtain f s' where F: "FetchPage pid s = (Inr (Some f), s')" "bp_ok X s'" "holds s' f pid"
    "store_le s s'" "pins s' = (pins s)(pid := pins s pid + 1)" "\<forall>g q. holds s g q \<longrightarrow> 0 < pins s q \<longrightarrow> holds s' g q"
    by blast
  note i = bp_okD(1) [OF \<open>bp_ok X s\<close>]
  from F FetchPage_env [OF i F(1)] FetchPage_resident [OF i F(1)] show ?case unfolding store_le_def by blast
next
  case (2 X s f pid b)
  from poke_ok [OF this] show ?case by (simp add: disk_env_def)
next
  case (3 X s pid dirty)
  from UnpinPage_ok [OF this] UnpinPage_frame [of pid dirty s] show ?case by (auto simp: disk_env_def)
next
  case (4 X s pid)
  note i = bp_okD(1) [OF this]
  show ?case using bp_invD(4,8) [OF i] by (auto simp: pins_def split: option.splits)
qed

lemma int_image_range: "0 \<le> f \<Longrightarrow> f < int n \<Longrightarrow> f \<in> int ` {0..<n}"
  by (rule image_eqI [of _ _ "nat f"]) auto

lemma init_ok: "disk_inv d \<Longrightarrow> bp_ok {} (BufferPoolManager_init n junk d)"
  by (rule bp_okI [OF BufferPoolManager_init_inv])
    (use int_image_range in \<open>auto simp: BufferPoolManager_init_def avail_def is_frame_def\<close>)

lemma init_pins [simp]: "pins (BufferPoolManager_init n junk d) = (\<lambda>_. 0)"
  by (simp add: fun_eq_iff pins_def BufferPoolManager_init_def)

lemma init_logical: "logical (BufferPoolManager_init n junk d) pid = page_content d (pid_fd pid) (pid_page_no pid)"
  by (simp add: logical_def BufferPoolManager_init_def)

text \<open>Fetching and releasing a list of pages, one after the other.\<close>

fun touch :: "PageId list \<Rightarrow> (BufferPoolManager, unit) prog" where
  "touch [] s = (Inr (), s)"
| "touch (p # ps) s = bind (FetchPage p) (\<lambda>_ s. touch ps (snd (UnpinPage p False s))) s"

lemma touch_ok:
  assumes "bp_ok {} s" "card {p. 0 < pins s p} < pool_size s" "\<forall>p\<in>set ps. logical s p \<noteq> None"
  shows "\<exists>s'. touch ps s = (Inr (), s') \<and> bp_ok {} s' \<and> pins s' = pins s \<and> pool_size s' = pool_size s \<and>
    (\<forall>p c. logical s p = Some c \<longrightarrow> logical s' p = Some c)"
  using assms
proof (induction ps arbitrary: s)
  case (Cons p ps)
  then obtain b where b: "logical s p = Some b" by auto
  from bp.fetch_unpin [OF Cons.prems(1) b Cons.prems(2)] obtain f s1 s2 where
    s: "FetchPage p s = (Inr (Some f), s1)" "UnpinPage p False s1 = (True, s2)" "bp_ok {} s2" "pins s2 = pins s"
    "pool_size s2 = pool_size s" and l: "\<forall>q c. logical s q = Some c \<longrightarrow> logical s2 q = Some c" by auto
  have "\<forall>q\<in>set ps. logical s2 q \<noteq> None" using Cons.prems(3) l by fastforce
  with Cons.IH [of s2] s Cons.prems(2) obtain s' where "touch ps s2 = (Inr (), s')" "bp_ok {} s'" "pins s' = pins s2"
    "pool_size s' = pool_size s2" "\<forall>q c. logical s2 q = Some c \<longrightarrow> logical s' q = Some c" by auto
  with s l show ?case by simp
qed simp

section \<open>Properties\<close>

definition demo_pool :: BufferPoolManager where
  "demo_pool = BufferPoolManager_init 1 (\<lambda>_. 0) demo_disk"

definition demo_pid :: "page_id_t \<Rightarrow> PageId" where
  "demo_pid no = \<lparr>pid_fd = 3, pid_page_no = no\<rparr>"

lemma demo_pool_reach: "bp_reach demo_pool"
  unfolding demo_pool_def by (rule bp_reach.start [OF demo_reach])

lemma demo_pool_ok: "bp_ok {} demo_pool"
  unfolding demo_pool_def by (rule init_ok [OF dm_reach_inv [OF demo_reach]])

lemma demo_pool_pins [simp]: "pins demo_pool = (\<lambda>_. 0)" and demo_pool_size [simp]: "pool_size demo_pool = 1"
  unfolding demo_pool_def by simp (simp add: BufferPoolManager_init_def)

lemma demo_page_content: "page_content demo_disk 3 0 = Some zero_page" "page_content demo_disk 3 1 = None"
  by (simp_all add: page_content_def demo_disk_def demo_os_def os_contents_def LOG_FILE_NAME_def zero_page_def)

lemma demo_pool_logical: "logical demo_pool (demo_pid 0) = Some zero_page" "logical demo_pool (demo_pid 1) = None"
  by (simp_all add: demo_pool_def init_logical demo_pid_def demo_page_content)

lemma demo_fetched:
  "\<exists>f s1. FetchPage (demo_pid 0) demo_pool = (Inr (Some f), s1) \<and> bp_reach s1 \<and>
     page_table s1 (demo_pid 0) = Some f \<and> bp_ok {} s1 \<and> pins s1 (demo_pid 0) = 1"
proof -
  from FetchPage_ok [OF demo_pool_ok demo_pool_logical(1)] obtain f s1 where
    F: "FetchPage (demo_pid 0) demo_pool = (Inr (Some f), s1)" "bp_ok {} s1" "holds s1 f (demo_pid 0)"
    "pins s1 = (pins demo_pool)(demo_pid 0 := pins demo_pool (demo_pid 0) + 1)" by auto
  have r: "bp_reach s1"
    by (rule bp_reach.FetchPage [OF demo_pool_reach _ F(1)]) (simp add: demo_pid_def INVALID_PAGE_ID_def)
  from F r show ?thesis by (auto simp: holds_def)
qed

text \<open>
  C4. In every state that the buffer pool reaches the page table is exactly the index of the frames:
  it maps a page to a frame if and only if that frame is in range and holds that page, so no
  two frames hold the same page; a frame is never free and evictable at once; and free and
  evictable frames are never pinned. The states are those after any interleaving of client stores, of direct calls on the disk manager (those of C16),
  and of the calls of the pool, also calls that threw, with these exceptions:
  \<open>FetchPage\<close> is not called for page number -1, \<open>NewPage\<close> does not get the number -1 or that of a page in the pool, and
  \<open>DeletePage\<close> does not throw. The last is needed: a \<open>DeletePage\<close> that throws leaves a frame that holds the page, is not
  in the page table and is not free.
\<close>

theorem pool_tables_consistent:
  assumes "bp_reach s"
  shows "(page_table s pid = Some f \<longleftrightarrow>
            0 \<le> f \<and> f < int (pool_size s) \<and> pg_id (pages s f) = pid \<and> pid_page_no pid \<noteq> INVALID_PAGE_ID) \<and>
         distinct (free_list s) \<and> set (free_list s) \<inter> set (frames (bp_replacer s)) = {} \<and>
         (f \<in> set (free_list s) \<union> set (frames (bp_replacer s)) \<longrightarrow>
            0 \<le> f \<and> f < int (pool_size s) \<and> pg_pin_count (pages s f) = 0) \<and>
         (DeletePage pid s = (Inl e, s') \<longrightarrow> page_table s' pid = None \<and>
            (\<exists>g. is_frame s' g \<and> pg_id (pages s' g) = pid \<and> pid_page_no pid \<noteq> INVALID_PAGE_ID \<and> g \<notin> set (free_list s')))"
proof -
  note inv = bp_reach_inv [OF assms]
  have "set (free_list s) \<inter> set (frames (bp_replacer s)) = {}" using bp_invD(6,7) [OF inv] by blast
  moreover have "f \<in> avail s \<longrightarrow> is_frame s f \<and> pg_pin_count (pages s f) = 0" using avail_frame [OF inv] by blast
  moreover note DeletePage_throws [OF inv, of pid e s']
  ultimately show ?thesis using bp_invD(4,5) [OF inv] by (auto simp: is_frame_def avail_def)
qed

theorem pool_tables_consistent_witness:
  "bp_reach demo_pool \<and> distinct (free_list demo_pool) \<and> page_table demo_pool (demo_pid 0) \<noteq> Some 5"
  using pool_tables_consistent [OF demo_pool_reach, of "demo_pid 0" 5] demo_pool_reach by simp

text \<open>
  C11. The pool is transparent. From a well-behaved state with an unpinned frame, \<open>FetchPage\<close> of a
  page that exists succeeds and returns a frame with the page's current contents, pinned once more;
  whatever page it had to evict, the contents of every page stay what they were.
\<close>

theorem fetch_transparent:
  assumes "bp_ok X s" "logical s pid = Some b" "card {p. 0 < pins s p} < pool_size s"
  shows "\<exists>f s'. FetchPage pid s = (Inr (Some f), s') \<and> pg_id (pages s' f) = pid \<and> pg_data (pages s' f) = b \<and>
    pg_pin_count (pages s' f) = pins s pid + 1 \<and> bp_ok X s' \<and>
    (\<forall>p c. logical s p = Some c \<longrightarrow> logical s' p = Some c)"
proof -
  from bp.fetch_ok [OF assms(1,2)] assms(3) obtain f s' where F: "FetchPage pid s = (Inr (Some f), s')" "bp_ok X s'"
    "holds s' f pid" "\<forall>p c. logical s p = Some c \<longrightarrow> logical s' p = Some c"
    "pins s' = (pins s)(pid := pins s pid + 1)" by blast
  from F(3) have t: "page_table s' pid = Some f" by (simp add: holds_def)
  then have "pg_id (pages s' f) = pid" using bp_invD(4) [OF bp_okD(1) [OF F(2)]] by simp
  moreover have "logical s' pid = Some b" using F(4) assms(2) by blast
  then have "pg_data (pages s' f) = b" using t by (simp add: logical_def)
  moreover have "pg_pin_count (pages s' f) = pins s pid + 1" using F(5) t by (simp add: pins_def fun_eq_iff) (metis option.simps(5))
  ultimately show ?thesis using F by blast
qed

theorem fetch_transparent_witness:
  "\<exists>f s'. FetchPage (demo_pid 0) demo_pool = (Inr (Some f), s') \<and> pg_data (pages s' f) = zero_page \<and>
     pg_pin_count (pages s' f) = 1"
  using fetch_transparent [OF demo_pool_ok demo_pool_logical(1)] by auto

text \<open>
  C1. An update is never lost. After a page has been fetched, overwritten and unpinned as dirty, any
  number of other pages may pass through the pool, evicting it and being evicted themselves: the
  next fetch returns the new contents.
\<close>

theorem update_survives_eviction:
  assumes "bp_ok {} s" "logical s pid = Some b" "card {p. 0 < pins s p} < pool_size s" "length b' = PAGE_SIZE"
    and "\<forall>p\<in>set ps. logical s p \<noteq> None"
  shows "\<exists>f s1 s2 s3 g s4. FetchPage pid s = (Inr (Some f), s1) \<and> UnpinPage pid True (poke f b' s1) = (True, s2) \<and>
    touch ps s2 = (Inr (), s3) \<and> FetchPage pid s3 = (Inr (Some g), s4) \<and> pg_data (pages s4 g) = b'"
proof -
  from bp.fetch_poke_unpin [OF assms(1-3) _ assms(4)] obtain f s1 s2 where
    1: "FetchPage pid s = (Inr (Some f), s1)" "UnpinPage pid True (poke f b' s1) = (True, s2)" "bp_ok {} s2"
      "pins s2 = pins s" "pool_size s2 = pool_size s" "logical s2 pid = Some b'"
      "\<forall>p c. p \<noteq> pid \<longrightarrow> logical s p = Some c \<longrightarrow> logical s2 p = Some c" by auto
  then have "\<forall>p\<in>set ps. logical s2 p \<noteq> None" using assms(5) by (metis option.distinct(1) not_Some_eq)
  with touch_ok [OF 1(3), of ps] 1(4,5,6) assms(3) obtain s3 where
    3: "touch ps s2 = (Inr (), s3)" "bp_ok {} s3" "pins s3 = pins s" "pool_size s3 = pool_size s"
      "logical s3 pid = Some b'" by auto
  from bp.fetch_ok [OF 3(2,5)] 3 assms(3) obtain g s4 where
    "FetchPage pid s3 = (Inr (Some g), s4)" "holds s4 g pid" "logical s4 pid = Some b'" by auto
  with 1 3 show ?thesis by (auto simp: holds_def logical_def)
qed

theorem update_survives_eviction_witness:
  "\<exists>f s1 s2 s3 g s4. FetchPage (demo_pid 0) demo_pool = (Inr (Some f), s1) \<and>
    UnpinPage (demo_pid 0) True (poke f (replicate PAGE_SIZE 7) s1) = (True, s2) \<and>
    touch [demo_pid 0] s2 = (Inr (), s3) \<and> FetchPage (demo_pid 0) s3 = (Inr (Some g), s4) \<and>
    pg_data (pages s4 g) = replicate PAGE_SIZE 7"
  by (rule update_survives_eviction [OF demo_pool_ok demo_pool_logical(1)]) (simp_all add: demo_pool_logical)

text \<open>
  \<open>FetchPage\<close> and \<open>NewPage\<close> return \<open>nullptr\<close> exactly when they need a frame and there is
  neither a free nor an evictable one, and then they change nothing.
\<close>

theorem null_iff_no_frame:
  assumes "bp_reach s"
  shows "(fst (FetchPage pid s) = Inr None \<longleftrightarrow>
            page_table s pid = None \<and> free_list s = [] \<and> frames (bp_replacer s) = []) \<and>
         (fst (NewPage fd s) = Inr None \<longleftrightarrow> free_list s = [] \<and> frames (bp_replacer s) = []) \<and>
         (fst (FetchPage pid s) = Inr None \<longrightarrow> snd (FetchPage pid s) = s) \<and>
         (fst (NewPage fd s) = Inr None \<longrightarrow> snd (NewPage fd s) = s)"
proof -
  note inv = bp_reach_inv [OF assms]
  obtain rf sf where F: "FetchPage pid s = (rf, sf)" by (metis surj_pair)
  obtain rn sn where N: "NewPage fd s = (rn, sn)" by (metis surj_pair)
  have e: "free_list s = [] \<and> frames (bp_replacer s) = [] \<longleftrightarrow> avail s = {}" by (simp add: avail_def)
  have "(rf = Inr None \<longleftrightarrow> page_table s pid = None \<and> avail s = {}) \<and> (rf = Inr None \<longrightarrow> sf = s)"
  proof (cases "page_table s pid")
    case None
    from inv None F show ?thesis
      by (cases rule: FetchPage_miss) (use None in \<open>auto dest: tookD(2)\<close>)
  qed (use F in \<open>auto simp: FetchPage_hit\<close>)
  moreover from inv N have "(rn = Inr None \<longleftrightarrow> avail s = {}) \<and> (rn = Inr None \<longrightarrow> sn = s)"
    by (cases rule: NewPage_cases) (auto dest: tookD(2))
  ultimately show ?thesis using F N e by simp
qed

theorem null_iff_no_frame_witness: "fst (NewPage 3 demo_pool) \<noteq> Inr None"
  using null_iff_no_frame [OF demo_pool_reach, of "demo_pid 0" 3]
  by (simp add: demo_pool_def BufferPoolManager_init_def)

text \<open>
  C26. A pinned page stays where it is: whatever other page is fetched, created or deleted, and
  whether or not the call throws, the frame of a pinned page keeps the page, its data and its
  pins.
\<close>

theorem pinned_page_stays:
  assumes "bp_reach s" "page_table s p = Some f" "0 < pg_pin_count (pages s f)" "pid \<noteq> p"
    and "s' \<in> {snd (FetchPage pid s), snd (NewPage fd s), snd (DeletePage pid s)}"
    and "fd2pageno (disk_manager s) fd \<noteq> pid_page_no p \<or> fd \<noteq> pid_fd p"
  shows "page_table s' p = Some f \<and> pages s' f = pages s f"
proof -
  note inv = bp_reach_inv [OF assms(1)]
  note f = bp_invD(4) [OF inv, THEN iffD1, OF assms(2)]
  have nav: "f \<notin> avail s" using avail_frame [OF inv, of f] assms(3) by auto
  have keep: "page_table (load g q b k (s0\<lparr>disk_manager := d\<rparr>)) p = Some f"
    "pages (load g q b k (s0\<lparr>disk_manager := d\<rparr>)) f = pages s f" if "took s g s0" "q \<noteq> p" for g q b k s0 d
  proof -
    note t = tookD [OF that(1)]
    have "g \<noteq> f" using t(2) nav by auto
    moreover have "pg_id (pages s g) \<noteq> p"
      using t(9) f \<open>g \<noteq> f\<close> bp_invD(4) [OF inv, of p g] assms(2) by auto
    ultimately show "page_table (load g q b k (s0\<lparr>disk_manager := d\<rparr>)) p = Some f"
      "pages (load g q b k (s0\<lparr>disk_manager := d\<rparr>)) f = pages s f"
      using assms(2) that(2) t(4,5) by simp_all
  qed
  from assms(5) consider (F) "s' = snd (FetchPage pid s)" | (N) "s' = snd (NewPage fd s)" | (D) "s' = snd (DeletePage pid s)"
    by blast
  then show ?thesis
  proof cases
    case s': F
    then obtain r where F: "FetchPage pid s = (r, s')" by (metis prod.collapse)
    show ?thesis
    proof (cases "page_table s pid")
      case (Some g)
      then have "g \<noteq> f" using assms(4) f bp_invD(4) [OF inv, of pid g] by auto
      with s' Some assms(2) show ?thesis by (simp add: FetchPage_hit)
    next
      case None
      from inv None F show ?thesis
        by (cases rule: FetchPage_miss) (use assms(2,4) in \<open>simp_all add: keep tookD(4,5) del: load_simps\<close>)
    qed
  next
    case N
    then obtain r where N: "NewPage fd s = (r, s')" by (metis prod.collapse)
    have ne: "\<lparr>pid_fd = fd, pid_page_no = fd2pageno (disk_manager s) fd\<rparr> \<noteq> p" using assms(6) by auto
    from inv N show ?thesis
      by (cases rule: NewPage_cases) (use assms(2) ne in \<open>simp_all add: keep tookD(4,5) del: load_simps\<close>)
  next
    case D
    show ?thesis
    proof (cases "page_table s pid")
      case None
      with D assms(2) show ?thesis by (simp add: DeletePage_def DeallocatePage_def)
    next
      case (Some g)
      then have "g \<noteq> f" using assms(4) f bp_invD(4) [OF inv, of pid g] by auto
      with D Some assms(2,4) show ?thesis
        by (auto simp: DeletePage_def bind_def ret_def write_frame_def on_disk_def Let_def split: if_splits prod.splits sum.splits)
    qed
  qed
qed

theorem pinned_page_stays_witness:
  "\<exists>f s1. FetchPage (demo_pid 0) demo_pool = (Inr (Some f), s1) \<and>
     pages (snd (FetchPage (demo_pid 1) s1)) f = pages s1 f"
proof -
  from demo_fetched obtain f s1 where F: "FetchPage (demo_pid 0) demo_pool = (Inr (Some f), s1)" and r: "bp_reach s1"
    and t: "page_table s1 (demo_pid 0) = Some f" and "pins s1 (demo_pid 0) = 1" by blast
  then have pin: "0 < pg_pin_count (pages s1 f)" by (simp add: pins_def)
  have "demo_pid 1 \<noteq> demo_pid 0" "4 \<noteq> pid_fd (demo_pid 0)" by (simp_all add: demo_pid_def)
  with pinned_page_stays [OF r t pin, of "demo_pid 1" "snd (FetchPage (demo_pid 1) s1)" 4] F
  show ?thesis by auto
qed

text \<open>
  C31. Flushing makes pages durable: after \<open>FlushPage\<close> returns \<open>true\<close> the disk holds the frame's
  data and the page is clean; after \<open>FlushAllPages(fd)\<close> returns this is so for every page of the
  file in the pool. Neither changes the contents of any page that exists, in the pool or on disk. (Pages that do not exist may come
  into being: writing a page behind the end of a file fills the gap with zeros.)
\<close>

theorem flush_persists:
  assumes "bp_reach s" "page_table s pid = Some f"
    and "FlushPage pid s = (Inr True, s') \<or> FlushAllPages (pid_fd pid) s = (Inr (), s')"
  shows "page_content (disk_manager s') (pid_fd pid) (pid_page_no pid) = Some (pg_data (pages s f)) \<and>
         \<not> pg_is_dirty (pages s' f) \<and> (\<forall>p c. logical s p = Some c \<longrightarrow> logical s' p = Some c)"
proof -
  note inv = bp_reach_inv [OF assms(1)]
  from assms(3) show ?thesis
  proof
    assume F: "FlushPage pid s = (Inr True, s')"
    from FlushPage_cases [OF inv assms(2) F] FlushPage_flushed [OF inv F] flushed_logical [OF inv] show ?thesis by auto
  next
    assume F: "FlushAllPages (pid_fd pid) s = (Inr (), s')"
    from FlushAllPages_flushed(2) [OF inv F, of "pid_page_no pid" f] flushed_logical [OF inv FlushAllPages_flushed(1) [OF inv F]] assms(2)
    show ?thesis by simp
  qed
qed

theorem flush_persists_witness:
  "\<exists>f s1 s'. FetchPage (demo_pid 0) demo_pool = (Inr (Some f), s1) \<and>
     FlushPage (demo_pid 0) (poke f (replicate PAGE_SIZE 7) s1) = (Inr True, s') \<and>
     page_content (disk_manager s') 3 0 = Some (replicate PAGE_SIZE 7)"
proof -
  from demo_fetched obtain f s1 where F: "FetchPage (demo_pid 0) demo_pool = (Inr (Some f), s1)" "bp_reach s1"
    "page_table s1 (demo_pid 0) = Some f" "bp_ok {} s1" by blast
  let ?s = "poke f (replicate PAGE_SIZE 7) s1"
  have r: "bp_reach ?s" by (rule bp_reach.poke [OF F(2)]) simp
  have t: "page_table ?s (demo_pid 0) = Some f" using F(3) by simp
  obtain rr s' where fl: "FlushPage (demo_pid 0) ?s = (rr, s')" by (metis surj_pair)
  have "dm_open (disk_manager ?s) (pid_fd (demo_pid 0)) \<and> 0 \<le> pid_page_no (demo_pid 0)"
    using bp_okD(3) [OF F(4) F(3)] by simp
  with FlushPage_cases [OF bp_reach_inv [OF r] t fl] have "rr = Inr True" by auto
  with flush_persists [OF r t, of s'] fl F(1) show ?thesis by (auto simp: demo_pid_def)
qed

text \<open>
  \<open>DeletePage\<close> refuses exactly the pinned pages and then changes nothing. Otherwise the page
  leaves the pool, its frame is free again, and its contents are on disk, so that a later fetch
  still finds them: page numbers are not recycled.
\<close>

theorem delete_page_spec:
  assumes "bp_ok {} s"
  shows "\<exists>b s'. DeletePage pid s = (Inr b, s') \<and> (b \<longleftrightarrow> pins s pid = 0) \<and> (\<not> b \<longrightarrow> s' = s) \<and>
    (b \<longrightarrow> page_table s' pid = None \<and> (\<forall>c. logical s pid = Some c \<longrightarrow> logical s' pid = Some c) \<and>
       (\<forall>f. page_table s pid = Some f \<longrightarrow> f \<in> set (free_list s')))"
proof -
  note inv = bp_okD(1) [OF assms]
  obtain r s' where D: "DeletePage pid s = (r, s')" by (metis surj_pair)
  from inv D show ?thesis
  proof (cases rule: DeletePage_cases)
    case absent
    with D show ?thesis by (auto simp: pins_def)
  next
    case (pinned f)
    with D show ?thesis by (auto simp: pins_def)
  next
    case (fails f)
    then have t: "page_table s (pg_id (pages s f)) = Some f" using bp_invD(4) [OF inv] by simp
    with bp_okD(3) [OF assms t] fails(3) show ?thesis by (auto simp: evict_fails_def Let_def)
  next
    case (ok f d')
    note f = bp_invD(4) [OF inv, THEN iffD1, OF ok(1)]
    have "page_content d' (pid_fd pid) (pid_page_no pid) = Some (pg_data (pages s f))"
      using ok(4) f bp_okD(4) [OF assms ok(1)]
      by (cases "pg_is_dirty (pages s f)") (simp_all add: evicted_def Let_def)
    with ok D f show ?thesis by (auto simp: release_def pins_def logical_def)
  qed
qed

theorem delete_page_spec_witness:
  "\<exists>b s'. DeletePage (demo_pid 0) demo_pool = (Inr b, s') \<and> b"
  using delete_page_spec [OF demo_pool_ok, of "demo_pid 0"] by auto

text \<open>
  C35. A fetch that fails is not undone. When a page is neither in the pool nor on disk, and the pool has a frame to give and
  no dirty page among those it may evict, \<open>FetchPage\<close> of it throws \<open>UnixError\<close> but leaves the page in the page table; the next
  \<open>FetchPage\<close> of the page succeeds without a call on the disk and hands out the frame as the failed read left it, although the page
  still does not exist.
\<close>

theorem failed_fetch_is_cached:
  assumes "bp_ok X s" "logical s pid = None" "avail s \<noteq> {}" "\<forall>f \<in> avail s. \<not> pg_is_dirty (pages s f)"
  shows "\<exists>s1 f s2. FetchPage pid s = (Inl (Exc UnixError), s1) \<and> page_table s1 pid = Some f \<and>
    FetchPage pid s1 = (Inr (Some f), s2) \<and> disk_manager s2 = disk_manager s1 \<and> pg_data (pages s2 f) = pg_data (pages s1 f) \<and>
    page_content (disk_manager s2) (pid_fd pid) (pid_page_no pid) = None"
proof -
  obtain r s1 where F: "FetchPage pid s = (r, s1)" by (metis surj_pair)
  have t: "page_table s pid = None" and c: "page_content (disk_manager s) (pid_fd pid) (pid_page_no pid) = None"
    using assms(2) by (auto simp: logical_def split: option.splits)
  have same: "page_content d' = page_content (disk_manager s)" if "evicted s f d'" "took s f s0" for f d' s0
    using that assms(4) tookD(2) [OF that(2)] by (simp add: evicted_def Let_def)
  from bp_okD(1) [OF assms(1)] t F show ?thesis
  proof (cases rule: FetchPage_miss)
    case null
    with assms(3) show ?thesis by simp
  next
    case (evict f s0 d')
    with evict_never_fails [OF assms(1)] tookD(2) show ?thesis by blast
  next
    case (absent f s0 b d' d'')
    then have "page_table s1 pid = Some f" by simp
    with absent F show ?thesis
      by (intro exI [of _ s1] exI [of _ f] exI) (auto simp: FetchPage_hit pin_frame_def upd_page_def)
  next
    case (ok f s0 b d' d'')
    with same c show ?thesis by simp
  qed
qed

theorem failed_fetch_is_cached_witness:
  "\<exists>s1 f s2. FetchPage (demo_pid 1) demo_pool = (Inl (Exc UnixError), s1) \<and>
     FetchPage (demo_pid 1) s1 = (Inr (Some f), s2) \<and> page_content (disk_manager s2) 3 1 = None"
proof -
  have "avail demo_pool \<noteq> {}" "\<forall>f \<in> avail demo_pool. \<not> pg_is_dirty (pages demo_pool f)"
    by (simp_all add: demo_pool_def BufferPoolManager_init_def avail_def Page_init_def)
  from failed_fetch_is_cached [OF demo_pool_ok demo_pool_logical(2) this] show ?thesis by (auto simp: demo_pid_def)
qed

end
