(* ===== verification/Page_Access.thy ===== *)
theory Page_Access
  imports Buffer_Pool
begin

text \<open>
  How the record and index managers read and write the bytes of a page that they hold: pointers
  into \<open>page->GetData()\<close> are offsets, and a dereference outside the page's \<open>PAGE_SIZE\<close> bytes is
  undefined behaviour. The lemmas reduce a sequence of such accesses to one \<open>poke\<close> of the new
  contents, to which the laws of the page cache apply.
\<close>

definition page_data :: "frame_id_t \<Rightarrow> BufferPoolManager \<Rightarrow> bytes" where
  "page_data f s = pg_data (pages s f)"

definition load_bytes :: "frame_id_t \<Rightarrow> int \<Rightarrow> int \<Rightarrow> (BufferPoolManager, bytes) prog" where
  "load_bytes f off n s =
     (if 0 \<le> off \<and> 0 \<le> n \<and> off + n \<le> int PAGE_SIZE then (Inr (rd (nat off) (nat n) (page_data f s)), s)
      else (Inl UndefinedBehaviour, s))"

definition store_bytes :: "frame_id_t \<Rightarrow> int \<Rightarrow> bytes \<Rightarrow> (BufferPoolManager, unit) prog" where
  "store_bytes f off bs s =
     (if 0 \<le> off \<and> off + int (length bs) \<le> int PAGE_SIZE
      then (Inr (), poke f (wr (nat off) bs (page_data f s)) s)
      else (Inl UndefinedBehaviour, s))"

definition load_int :: "frame_id_t \<Rightarrow> int \<Rightarrow> (BufferPoolManager, int) prog" where
  "load_int f off = bind (load_bytes f off 4) (\<lambda>bs. ret (of_le32 bs))"

definition store_int :: "frame_id_t \<Rightarrow> int \<Rightarrow> int \<Rightarrow> (BufferPoolManager, unit) prog" where
  "store_int f off i = store_bytes f off (le32 i)"

text \<open>\<open>page->GetPageId()\<close> followed by \<open>UnpinPage\<close>, whose result is ignored.\<close>

definition unpin_frame :: "frame_id_t \<Rightarrow> bool \<Rightarrow> (BufferPoolManager, unit) prog" where
  "unpin_frame f dirty s = (Inr (), snd (UnpinPage (pg_id (pages s f)) dirty s))"

section \<open>Reduction to pokes\<close>

lemma page_data_poke [simp]: "page_data f (poke f b s) = b"
  by (simp add: page_data_def)

lemma poke_poke [simp]: "poke f b (poke f c s) = poke f b s"
  by (simp add: poke_def upd_page_def)

lemma pg_id_poke [simp]: "pg_id (pages (poke f b s) g) = pg_id (pages s g)"
  by simp

lemma load_bytes_ok [simp]:
  "0 \<le> off \<Longrightarrow> 0 \<le> n \<Longrightarrow> off + n \<le> int PAGE_SIZE \<Longrightarrow>
   load_bytes f off n s = (Inr (rd (nat off) (nat n) (page_data f s)), s)"
  by (simp add: load_bytes_def)

lemma store_bytes_ok [simp]:
  "0 \<le> off \<Longrightarrow> off + int (length bs) \<le> int PAGE_SIZE \<Longrightarrow>
   store_bytes f off bs s = (Inr (), poke f (wr (nat off) bs (page_data f s)) s)"
  by (simp add: store_bytes_def)

lemma load_int_ok [simp]:
  "0 \<le> off \<Longrightarrow> off + 4 \<le> int PAGE_SIZE \<Longrightarrow>
   load_int f off s = (Inr (of_le32 (rd (nat off) 4 (page_data f s))), s)"
  by (simp add: load_int_def bind_def ret_def)

lemma store_int_ok [simp]:
  "0 \<le> off \<Longrightarrow> off + 4 \<le> int PAGE_SIZE \<Longrightarrow>
   store_int f off i s = (Inr (), poke f (wr (nat off) (le32 i) (page_data f s)) s)"
  by (simp add: store_int_def)

text \<open>The bytes of a held page, and its identity.\<close>

lemma held_data:
  assumes "bp_ok X s" "holds s f pid" "logical s pid = Some b"
  shows "page_data f s = b" "pg_id (pages s f) = pid" "length b = PAGE_SIZE"
proof -
  have t: "page_table s pid = Some f" using assms(2) by (simp add: holds_def)
  note inv = bp_okD(1) [OF assms(1)]
  from t show "pg_id (pages s f) = pid" using bp_invD(4) [OF inv] by simp
  from t assms(3) show d: "page_data f s = b" by (simp add: logical_def page_data_def)
  have "is_frame s f" using t bp_invD(4) [OF inv] by simp
  with d show "length b = PAGE_SIZE" using bp_invD(8) [OF inv, of f] by (simp add: page_data_def)
qed

lemma logical_length:
  assumes "bp_ok X s" "logical s pid = Some b"
  shows "length b = PAGE_SIZE"
proof (cases "page_table s pid")
  case (Some f)
  with held_data(3) [OF assms(1) _ assms(2), of f] show ?thesis by (simp add: holds_def)
next
  case None
  with assms dm.content_opened [OF bp_invD(1) [OF bp_okD(1) [OF assms(1)]]] show ?thesis
    by (auto simp: logical_def)
qed

text \<open>
  One visit to an existing page: fetch, compute, write back, unpin. \<open>quiet\<close> is the situation
  between two operations of a client that leaves no pins behind.
\<close>

definition quiet :: "BufferPoolManager \<Rightarrow> bool" where
  "quiet s \<longleftrightarrow> bp_ok {} s \<and> pins s = (\<lambda>_. 0) \<and> 0 < pool_size s"

lemma quiet_ok: "quiet s \<Longrightarrow> bp_ok {} s"
  by (simp add: quiet_def)

lemma quiet_room: "quiet s \<Longrightarrow> card {p. 0 < pins s p} < pool_size s"
  by (simp add: quiet_def)

lemma visit_read:
  assumes "quiet s" "logical s pid = Some b"
  shows "\<exists>f s1 s2. FetchPage pid s = (Inr (Some f), s1) \<and> page_data f s1 = b \<and> pg_id (pages s1 f) = pid \<and>
    UnpinPage pid False s1 = (True, s2) \<and> quiet s2 \<and> disk_env s2 = disk_env s \<and>
    dom (page_table s2) \<subseteq> insert pid (dom (page_table s)) \<and>
    (\<forall>p c. logical s p = Some c \<longrightarrow> logical s2 p = Some c)"
proof -
  from bp.fetch_ok [OF quiet_ok [OF assms(1)] assms(2)] quiet_room [OF assms(1)] obtain f s1 where
    f: "FetchPage pid s = (Inr (Some f), s1)" "bp_ok {} s1" "holds s1 f pid" "pool_size s1 = pool_size s"
    "disk_env s1 = disk_env s" "dom (page_table s1) \<subseteq> insert pid (dom (page_table s))"
    "\<forall>p c. logical s p = Some c \<longrightarrow> logical s1 p = Some c" "pins s1 = (pins s)(pid := pins s pid + 1)" by blast
  have "logical s1 pid = Some b" using f(7) assms(2) by blast
  note h = held_data [OF f(2,3) this]
  have "0 < pins s1 pid" using f(8) assms(1) by (simp add: quiet_def)
  from bp.unpin_ok [OF f(2) this, of False] obtain s2 where u: "UnpinPage pid False s1 = (True, s2)" "bp_ok ({} - {pid}) s2"
    "logical s2 = logical s1" "pins s2 = (pins s1)(pid := pins s1 pid - 1)" "pool_size s2 = pool_size s1"
    "disk_env s2 = disk_env s1" "dom (page_table s2) = dom (page_table s1)" by blast
  have "quiet s2" using u f assms(1) by (auto simp: quiet_def)
  with f u h show ?thesis by auto
qed

lemma visit_write:
  assumes "quiet s" "logical s pid = Some b" "length b' = PAGE_SIZE"
  shows "\<exists>f s1 s2. FetchPage pid s = (Inr (Some f), s1) \<and> page_data f s1 = b \<and> pg_id (pages s1 f) = pid \<and>
    UnpinPage pid True (poke f b' s1) = (True, s2) \<and> quiet s2 \<and> disk_env s2 = disk_env s \<and>
    dom (page_table s2) \<subseteq> insert pid (dom (page_table s)) \<and>
    logical s2 pid = Some b' \<and> (\<forall>p c. p \<noteq> pid \<longrightarrow> logical s p = Some c \<longrightarrow> logical s2 p = Some c)"
proof -
  from bp.fetch_ok [OF quiet_ok [OF assms(1)] assms(2)] quiet_room [OF assms(1)] obtain f s1 where
    f: "FetchPage pid s = (Inr (Some f), s1)" "bp_ok {} s1" "holds s1 f pid" "pool_size s1 = pool_size s"
    "disk_env s1 = disk_env s" "dom (page_table s1) \<subseteq> insert pid (dom (page_table s))"
    "\<forall>p c. logical s p = Some c \<longrightarrow> logical s1 p = Some c" "pins s1 = (pins s)(pid := pins s pid + 1)" by blast
  have "logical s1 pid = Some b" using f(7) assms(2) by blast
  note h = held_data [OF f(2,3) this]
  have pos: "0 < pins s1 pid" using f(8) assms(1) by (simp add: quiet_def)
  note pk = bp.poke_ok [OF f(2,3) pos assms(3)]
  from bp.unpin_ok [of "insert pid {}" "poke f b' s1" pid True] pk pos obtain s2 where
    u: "UnpinPage pid True (poke f b' s1) = (True, s2)" "bp_ok (insert pid {} - {pid}) s2"
    "logical s2 = logical (poke f b' s1)" "pins s2 = (pins s1)(pid := pins s1 pid - 1)" "pool_size s2 = pool_size (poke f b' s1)"
    "disk_env s2 = disk_env s1" "dom (page_table s2) = dom (page_table s1)" by auto
  have "quiet s2" using u f pk assms(1) by (auto simp: quiet_def)
  with f u h pk show ?thesis by auto
qed

lemma visit_new:
  assumes "quiet s" "dm_open (disk_manager s) fd" "0 \<le> fd" "fd < MAX_FD" "length b' = PAGE_SIZE"
  defines "pid \<equiv> \<lparr>pid_fd = fd, pid_page_no = fd2pageno (disk_manager s) fd\<rparr>"
  assumes "page_table s pid = None" "0 \<le> pid_page_no pid"
  shows "\<exists>f s1 s2. NewPage fd s = (Inr (Some (f, pid)), s1) \<and> page_data f s1 = zero_page \<and> pg_id (pages s1 f) = pid \<and>
    UnpinPage pid True (poke f b' s1) = (True, s2) \<and> quiet s2 \<and> pool_size s2 = pool_size s \<and>
    disk_env s2 = ((fd2pageno (disk_manager s))(fd := wrap32 (fd2pageno (disk_manager s) fd + 1)), dm_open (disk_manager s)) \<and>
    dom (page_table s2) \<subseteq> insert pid (dom (page_table s)) \<and>
    logical s2 pid = Some b' \<and> (\<forall>p c. p \<noteq> pid \<longrightarrow> logical s p = Some c \<longrightarrow> logical s2 p = Some c)"
proof -
  from NewPage_ok [OF quiet_ok [OF assms(1)] quiet_room [OF assms(1)] assms(2-4)] assms(7,8)
  obtain f s1 where f: "NewPage fd s = (Inr (Some (f, pid)), s1)" "bp_ok {pid} s1" "holds s1 f pid"
    "logical s1 pid = Some zero_page" "pool_size s1 = pool_size s"
    "\<forall>p c. p \<noteq> pid \<longrightarrow> logical s p = Some c \<longrightarrow> logical s1 p = Some c" "pins s1 = (pins s)(pid := 1)"
    unfolding pid_def by auto
  note h = held_data [OF f(2,3,4)]
  note inv = bp_okD(1) [OF quiet_ok [OF assms(1)]]
  have pos: "0 < pins s1 pid" using f(7) by simp
  note pk = bp.poke_ok [OF f(2,3) pos assms(5)]
  from bp.unpin_ok [of "insert pid {pid}" "poke f b' s1" pid True] pk pos obtain s2 where
    u: "UnpinPage pid True (poke f b' s1) = (True, s2)" "bp_ok (insert pid {pid} - {pid}) s2"
    "logical s2 = logical (poke f b' s1)" "pins s2 = (pins s1)(pid := pins s1 pid - 1)" "pool_size s2 = pool_size (poke f b' s1)"
    "disk_env s2 = disk_env s1" "dom (page_table s2) = dom (page_table s1)" by auto
  have "quiet s2" using u f pk assms(1) by (auto simp: quiet_def)
  with f u h pk NewPage_alloc [OF f(1)] NewPage_resident [OF inv f(1)] show ?thesis
    by (auto simp: disk_env_def)
qed

end
