(* ===== verification/Ix_Node.thy ===== *)
theory Ix_Node
  imports Page_Access "HOL-Library.List_Lexorder"
begin

text \<open>
  \<open>index/ix_defs.h\<close> and \<open>index/ix_node_handle.*\<close>: one node of the B+ tree.

  A node is a page: the header \<open>IxPageHdr\<close>, an array of keys and an array of record identifiers. The
  operations of \<open>IxNodeHandle\<close> are programs on the bytes of the page, with the offsets of the code;
  an access outside the page is undefined behaviour. \<open>entries\<close> is the list of pairs that the page
  represents, and the lemmas give the effect of each operation on it.
\<close>

section \<open>Headers and constants\<close>

definition IX_NO_PAGE :: int where "IX_NO_PAGE = -1"
definition IX_FILE_HDR_PAGE :: int where "IX_FILE_HDR_PAGE = 0"
definition IX_LEAF_HEADER_PAGE :: int where "IX_LEAF_HEADER_PAGE = 1"
definition IX_INIT_ROOT_PAGE :: int where "IX_INIT_ROOT_PAGE = 2"
definition IX_INIT_NUM_PAGES :: int where "IX_INIT_NUM_PAGES = 3"
definition IX_MAX_COL_LEN :: int where "IX_MAX_COL_LEN = 512"

record IxFileHdr =
  ix_first_free_page_no :: int
  ix_num_pages :: int
  root_page :: int
  col_type :: ColType
  col_len :: int
  btree_order :: int
  keys_size :: int
  first_leaf :: int
  last_leaf :: int

record Iid =
  iid_page_no :: int
  iid_slot_no :: int

text \<open>
  \<open>IxPageHdr\<close> in memory: \<open>next_free_page_no\<close>, \<open>parent\<close> and \<open>num_key\<close>, the \<open>bool\<close> \<open>is_leaf\<close> with
  three bytes of padding, \<open>prev_leaf\<close> and \<open>next_leaf\<close>.
\<close>

definition OFF_next_free :: int where "OFF_next_free = 0"
definition OFF_parent :: int where "OFF_parent = 4"
definition OFF_num_key :: int where "OFF_num_key = 8"
definition OFF_is_leaf :: int where "OFF_is_leaf = 12"
definition OFF_prev_leaf :: int where "OFF_prev_leaf = 16"
definition OFF_next_leaf :: int where "OFF_next_leaf = 20"
definition sizeof_IxPageHdr :: int where "sizeof_IxPageHdr = 24"
definition sizeof_Rid :: int where "sizeof_Rid = 8"

definition rid_bytes :: "Rid \<Rightarrow> bytes" where
  "rid_bytes r = le32 (rid_page_no r) @ le32 (rid_slot_no r)"

definition rid_of :: "bytes \<Rightarrow> Rid" where
  "rid_of bs = \<lparr>rid_page_no = of_le32 (rd 0 4 bs), rid_slot_no = of_le32 (rd 4 4 bs)\<rparr>"

section \<open>Comparison of keys\<close>

text \<open>
  A \<open>float\<close> by its bits: the sign, and below it the exponent and the fraction, whose order as a
  number is the order of the magnitudes. Comparisons with a NaN are false.
\<close>

definition float_nan :: "int \<Rightarrow> bool" where
  "float_nan w \<longleftrightarrow> w mod 2 ^ 31 > 0x7F800000"

definition float_rank :: "int \<Rightarrow> int" where
  "float_rank w = (let m = w mod 2 ^ 31 in if w < 0 then - m else m)"

definition float_less :: "int \<Rightarrow> int \<Rightarrow> bool" where
  "float_less a b \<longleftrightarrow> \<not> float_nan a \<and> \<not> float_nan b \<and> float_rank a < float_rank b"

fun memcmp :: "bytes \<Rightarrow> bytes \<Rightarrow> int" where
  "memcmp (a # as) (b # bs) = (if a < b then -1 else if b < a then 1 else memcmp as bs)"
| "memcmp _ _ = 0"

fun ix_compare :: "bytes \<Rightarrow> bytes \<Rightarrow> ColType \<Rightarrow> int \<Rightarrow> int" where
  "ix_compare a b TYPE_INT len =
     (let ia = of_le32 a; ib = of_le32 b in if ia < ib then -1 else if ib < ia then 1 else 0)"
| "ix_compare a b TYPE_FLOAT len =
     (let fa = of_le32 a; fb = of_le32 b in if float_less fa fb then -1 else if float_less fb fa then 1 else 0)"
| "ix_compare a b TYPE_STRING len = memcmp (take (nat len) a) (take (nat len) b)"

section \<open>Access to a node\<close>

definition pg_ld :: "int \<Rightarrow> int \<Rightarrow> (bytes, bytes) prog" where
  "pg_ld off n b = (if 0 \<le> off \<and> 0 \<le> n \<and> off + n \<le> int (length b) then (Inr (rd (nat off) (nat n) b), b)
                    else (Inl UndefinedBehaviour, b))"

definition pg_st :: "int \<Rightarrow> bytes \<Rightarrow> (bytes, unit) prog" where
  "pg_st off bs b = (if 0 \<le> off \<and> off + int (length bs) \<le> int (length b) then (Inr (), wr (nat off) bs b)
                     else (Inl UndefinedBehaviour, b))"

definition pg_ld_int :: "int \<Rightarrow> (bytes, int) prog" where
  "pg_ld_int off = bind (pg_ld off 4) (\<lambda>bs. ret (of_le32 bs))"

definition pg_st_int :: "int \<Rightarrow> int \<Rightarrow> (bytes, unit) prog" where
  "pg_st_int off i = pg_st off (le32 i)"

definition key_off :: "IxFileHdr \<Rightarrow> int \<Rightarrow> int" where
  "key_off h key_idx = sizeof_IxPageHdr + key_idx * col_len h"

definition rid_off :: "IxFileHdr \<Rightarrow> int \<Rightarrow> int" where
  "rid_off h rid_idx = sizeof_IxPageHdr + keys_size h + rid_idx * sizeof_Rid"

definition get_key :: "IxFileHdr \<Rightarrow> int \<Rightarrow> (bytes, bytes) prog" where
  "get_key h key_idx = pg_ld (key_off h key_idx) (col_len h)"

definition node_get_rid :: "IxFileHdr \<Rightarrow> int \<Rightarrow> (bytes, Rid) prog" where
  "node_get_rid h rid_idx = bind (pg_ld (rid_off h rid_idx) sizeof_Rid) (\<lambda>bs. ret (rid_of bs))"

definition set_key :: "IxFileHdr \<Rightarrow> int \<Rightarrow> bytes \<Rightarrow> (bytes, unit) prog" where
  "set_key h key_idx key = pg_st (key_off h key_idx) (take (nat (col_len h)) key)"

definition set_rid :: "IxFileHdr \<Rightarrow> int \<Rightarrow> Rid \<Rightarrow> (bytes, unit) prog" where
  "set_rid h rid_idx r = pg_st (rid_off h rid_idx) (rid_bytes r)"

definition GetSize :: "(bytes, int) prog" where "GetSize = pg_ld_int OFF_num_key"
definition SetSize :: "int \<Rightarrow> (bytes, unit) prog" where "SetSize n = pg_st_int OFF_num_key n"
definition GetMaxSize :: "IxFileHdr \<Rightarrow> int" where "GetMaxSize h = btree_order h + 1"
definition GetMinSize :: "IxFileHdr \<Rightarrow> int" where "GetMinSize h = GetMaxSize h div 2"
definition KeyAt :: "IxFileHdr \<Rightarrow> int \<Rightarrow> (bytes, int) prog" where "KeyAt h i = pg_ld_int (key_off h i)"
definition ValueAt :: "IxFileHdr \<Rightarrow> int \<Rightarrow> (bytes, int) prog" where
  "ValueAt h i = bind (node_get_rid h i) (\<lambda>r. ret (rid_page_no r))"
definition GetNextLeaf :: "(bytes, int) prog" where "GetNextLeaf = pg_ld_int OFF_next_leaf"
definition GetPrevLeaf :: "(bytes, int) prog" where "GetPrevLeaf = pg_ld_int OFF_prev_leaf"
definition GetParentPageNo :: "(bytes, int) prog" where "GetParentPageNo = pg_ld_int OFF_parent"
definition IsLeafPage :: "(bytes, bool) prog" where
  "IsLeafPage = bind (pg_ld OFF_is_leaf 1) (\<lambda>bs. ret (bs \<noteq> [0]))"
definition IsRootPage :: "(bytes, bool) prog" where
  "IsRootPage = bind GetParentPageNo (\<lambda>p. ret (p = INVALID_PAGE_ID))"
definition SetNextLeaf :: "int \<Rightarrow> (bytes, unit) prog" where "SetNextLeaf p = pg_st_int OFF_next_leaf p"
definition SetPrevLeaf :: "int \<Rightarrow> (bytes, unit) prog" where "SetPrevLeaf p = pg_st_int OFF_prev_leaf p"
definition SetParentPageNo :: "int \<Rightarrow> (bytes, unit) prog" where "SetParentPageNo p = pg_st_int OFF_parent p"
definition set_is_leaf :: "bool \<Rightarrow> (bytes, unit) prog" where
  "set_is_leaf l = pg_st OFF_is_leaf [if l then 1 else 0]"
definition set_next_free :: "int \<Rightarrow> (bytes, unit) prog" where "set_next_free p = pg_st_int OFF_next_free p"

section \<open>Search in a node\<close>

definition compare_at :: "IxFileHdr \<Rightarrow> int \<Rightarrow> bytes \<Rightarrow> (bytes, int) prog" where
  "compare_at h i target = bind (get_key h i) (\<lambda>k. ret (ix_compare k target (col_type h) (col_len h)))"

text \<open>The binary search of both functions; \<open>go\<close> says on which results of the comparison it goes right.\<close>

function bound_loop :: "(int \<Rightarrow> bool) \<Rightarrow> IxFileHdr \<Rightarrow> bytes \<Rightarrow> int \<Rightarrow> int \<Rightarrow> (bytes, int) prog" where
  "bound_loop go h target l r b =
     (if l < r
      then let mid = (l + r) div 2
           in case compare_at h mid target b of
                (Inl e, b') \<Rightarrow> (Inl e, b')
              | (Inr c, b') \<Rightarrow> if go c then bound_loop go h target (mid + 1) r b' else bound_loop go h target l mid b'
      else (Inr l, b))"
  by pat_completeness auto
termination by (relation "measure (\<lambda>(go, h, target, l, r, b). nat (r - l))") auto

declare bound_loop.simps [simp del]

definition node_lower_bound :: "IxFileHdr \<Rightarrow> bytes \<Rightarrow> (bytes, int) prog" where
  "node_lower_bound h target = bind GetSize (\<lambda>n. bound_loop (\<lambda>c. c < 0) h target 0 n)"

definition node_upper_bound :: "IxFileHdr \<Rightarrow> bytes \<Rightarrow> (bytes, int) prog" where
  "node_upper_bound h target = bind GetSize (\<lambda>n. bound_loop (\<lambda>c. c \<le> 0) h target 0 n)"

text \<open>The test that \<open>LeafLookup\<close>, \<open>Insert\<close> and \<open>Remove\<close> share: is there an entry with this key at \<open>idx\<close>?\<close>

definition key_at_is :: "IxFileHdr \<Rightarrow> int \<Rightarrow> bytes \<Rightarrow> (bytes, bool) prog" where
  "key_at_is h idx key = bind GetSize (\<lambda>n.
     if idx < n then bind (compare_at h idx key) (\<lambda>c. ret (c = 0)) else ret False)"

definition LeafLookup :: "IxFileHdr \<Rightarrow> bytes \<Rightarrow> (bytes, Rid option) prog" where
  "LeafLookup h key = bind (node_lower_bound h key) (\<lambda>idx. bind (key_at_is h idx key) (\<lambda>eq.
     if eq then bind (node_get_rid h idx) (\<lambda>r. ret (Some r)) else ret None))"

definition InternalLookup :: "IxFileHdr \<Rightarrow> bytes \<Rightarrow> (bytes, int) prog" where
  "InternalLookup h key = bind (node_upper_bound h key) (\<lambda>idx. ValueAt h idx)"

section \<open>Changes to a node\<close>

definition pg_move :: "int \<Rightarrow> int \<Rightarrow> int \<Rightarrow> (bytes, unit) prog" where
  "pg_move dst src n = bind (pg_ld src n) (pg_st dst)"

definition insert_pairs :: "IxFileHdr \<Rightarrow> int \<Rightarrow> bytes \<Rightarrow> bytes \<Rightarrow> int \<Rightarrow> (bytes, unit) prog" where
  "insert_pairs h pos key rid n = bind GetSize (\<lambda>num_key.
     bind (pg_move (key_off h (pos + n)) (key_off h pos) ((num_key - pos) * col_len h)) (\<lambda>_.
     bind (pg_move (rid_off h (pos + n)) (rid_off h pos) ((num_key - pos) * sizeof_Rid)) (\<lambda>_.
     bind (pg_st (key_off h pos) (take (nat (n * col_len h)) key)) (\<lambda>_.
     bind (pg_st (rid_off h pos) (take (nat (n * sizeof_Rid)) rid)) (\<lambda>_.
       SetSize (num_key + n))))))"

definition insert_pair :: "IxFileHdr \<Rightarrow> int \<Rightarrow> bytes \<Rightarrow> Rid \<Rightarrow> (bytes, unit) prog" where
  "insert_pair h pos key rid = insert_pairs h pos key (rid_bytes rid) 1"

definition node_Insert :: "IxFileHdr \<Rightarrow> bytes \<Rightarrow> Rid \<Rightarrow> (bytes, int) prog" where
  "node_Insert h key value = bind (node_lower_bound h key) (\<lambda>pos. bind (key_at_is h pos key) (\<lambda>eq.
     if eq then GetSize
     else bind (insert_pairs h pos key (rid_bytes value) 1) (\<lambda>_. GetSize)))"

definition erase_pair :: "IxFileHdr \<Rightarrow> int \<Rightarrow> (bytes, unit) prog" where
  "erase_pair h pos = bind GetSize (\<lambda>num_key.
     bind (pg_move (key_off h pos) (key_off h (pos + 1)) ((num_key - pos - 1) * col_len h)) (\<lambda>_.
     bind (pg_move (rid_off h pos) (rid_off h (pos + 1)) ((num_key - pos - 1) * sizeof_Rid)) (\<lambda>_.
       SetSize (num_key - 1))))"

definition node_Remove :: "IxFileHdr \<Rightarrow> bytes \<Rightarrow> (bytes, int) prog" where
  "node_Remove h key = bind (node_lower_bound h key) (\<lambda>pos. bind (key_at_is h pos key) (\<lambda>eq.
     bind (if eq then erase_pair h pos else ret ()) (\<lambda>_. GetSize)))"

text \<open>The loop of \<open>find_child\<close> from \<open>rid_idx\<close> on, and its assertion.\<close>

function find_child_from :: "IxFileHdr \<Rightarrow> int \<Rightarrow> int \<Rightarrow> int \<Rightarrow> (bytes, int) prog" where
  "find_child_from h child num_key rid_idx b =
     (if rid_idx < num_key
      then case ValueAt h rid_idx b of
             (Inl e, b') \<Rightarrow> (Inl e, b')
           | (Inr p, b') \<Rightarrow> if p = child then (Inr rid_idx, b') else find_child_from h child num_key (rid_idx + 1) b'
      else (Inl AssertFail, b))"
  by pat_completeness auto
termination by (relation "measure (\<lambda>(h, child, num_key, rid_idx, b). nat (num_key - rid_idx))") auto

declare find_child_from.simps [simp del]

definition find_child :: "IxFileHdr \<Rightarrow> int \<Rightarrow> (bytes, int) prog" where
  "find_child h child = bind GetSize (\<lambda>n. find_child_from h child n 0)"

definition RemoveAndReturnOnlyChild :: "IxFileHdr \<Rightarrow> (bytes, int) prog" where
  "RemoveAndReturnOnlyChild h = bind GetSize (\<lambda>n. bind (guard (n = 1) AssertFail) (\<lambda>_.
     bind (ValueAt h 0) (\<lambda>child. bind (erase_pair h 0) (\<lambda>_. bind GetSize (\<lambda>m.
     bind (guard (m = 0) AssertFail) (\<lambda>_. ret child))))))"

end
