(* ===== verification/Ix_Index.thy ===== *)
theory Ix_Index
  imports Ix_Node
begin

text \<open>
  \<open>index/ix_index_handle.*\<close>, \<open>index/ix_manager.h\<close> and \<open>index/ix_scan.*\<close>: the B+ tree over the pages of
  an index file.

  A node handle is the frame of its page. The state of the operations is the handle of the index
  (its descriptor and its copy of the file header) with the buffer pool. The loops and recursions
  that follow page numbers stored in the pages (\<open>FindLeafPage\<close>, \<open>InsertIntoParent\<close>,
  \<open>CoalesceOrRedistribute\<close>, \<open>maintain_parent\<close>) take fuel for the number of levels they visit; nothing
  in the code bounds it. The transaction arguments are not used by the code, and the operations run
  under \<open>root_latch_\<close>, one at a time.
\<close>

record IxIndexHandle =
  ixh_fd :: int
  ixh_hdr :: IxFileHdr

record ix_state =
  ix_bpm :: BufferPoolManager
  ix_fh :: IxIndexHandle

definition on_pool :: "(BufferPoolManager, 'a) prog \<Rightarrow> (ix_state, 'a) prog" where
  "on_pool m s = (let (r, b) = m (ix_bpm s) in (r, s\<lparr>ix_bpm := b\<rparr>))"

definition ix_hdr :: "ix_state \<Rightarrow> IxFileHdr" where
  "ix_hdr s = ixh_hdr (ix_fh s)"

definition upd_ix_hdr :: "(IxFileHdr \<Rightarrow> IxFileHdr) \<Rightarrow> (ix_state, unit) prog" where
  "upd_ix_hdr g s = (Inr (), s\<lparr>ix_fh := (ix_fh s)\<lparr>ixh_hdr := g (ixh_hdr (ix_fh s))\<rparr>\<rparr>)"

text \<open>A method of the node in frame \<open>f\<close>.\<close>

definition on_node :: "frame_id_t \<Rightarrow> (IxFileHdr \<Rightarrow> (bytes, 'a) prog) \<Rightarrow> (ix_state, 'a) prog" where
  "on_node f m s = (let (r, b) = m (ix_hdr s) (page_data f (ix_bpm s)) in (r, s\<lparr>ix_bpm := poke f b (ix_bpm s)\<rparr>))"

definition GetPageNo :: "frame_id_t \<Rightarrow> (ix_state, int) prog" where
  "GetPageNo f = query (\<lambda>s. pid_page_no (pg_id (pages (ix_bpm s) f)))"

definition node_unpin :: "frame_id_t \<Rightarrow> bool \<Rightarrow> (ix_state, unit) prog" where
  "node_unpin f dirty = on_pool (unpin_frame f dirty)"

section \<open>Nodes\<close>

text \<open>A null page is dereferenced by the constructor of the node handle.\<close>

definition FetchNode :: "int \<Rightarrow> (ix_state, frame_id_t) prog" where
  "FetchNode page_no s =
     bind (on_pool (FetchPage \<lparr>pid_fd = ixh_fd (ix_fh s), pid_page_no = page_no\<rparr>))
       (\<lambda>page. case page of None \<Rightarrow> throw UndefinedBehaviour | Some f \<Rightarrow> ret f) s"

definition CreateNode :: "(ix_state, frame_id_t) prog" where
  "CreateNode =
     bind (upd_ix_hdr (\<lambda>h. h\<lparr>ix_num_pages := ix_num_pages h + 1\<rparr>)) (\<lambda>_ s.
     bind (on_pool (NewPage (ixh_fd (ix_fh s))))
       (\<lambda>page. case page of None \<Rightarrow> throw UndefinedBehaviour | Some (f, _) \<Rightarrow> ret f) s)"

definition release_node_handle :: "(ix_state, unit) prog" where
  "release_node_handle = upd_ix_hdr (\<lambda>h. h\<lparr>ix_num_pages := ix_num_pages h - 1\<rparr>)"

definition maintain_child :: "frame_id_t \<Rightarrow> int \<Rightarrow> (ix_state, unit) prog" where
  "maintain_child node child_idx =
     bind (on_node node (\<lambda>h. IsLeafPage)) (\<lambda>leaf. if leaf then ret () else
     bind (on_node node (\<lambda>h. ValueAt h child_idx)) (\<lambda>child_page_no.
     bind (FetchNode child_page_no) (\<lambda>child.
     bind (GetPageNo node) (\<lambda>p.
     bind (on_node child (\<lambda>h. SetParentPageNo p)) (\<lambda>_.
       node_unpin child True)))))"

text \<open>\<open>for (int i = 0; i < n; i++) maintain_child(node, base + i)\<close>.\<close>

primrec maintain_children :: "nat \<Rightarrow> frame_id_t \<Rightarrow> int \<Rightarrow> (ix_state, unit) prog" where
  "maintain_children 0 node i = ret ()"
| "maintain_children (Suc n) node i = bind (maintain_child node i) (\<lambda>_. maintain_children n node (i + 1))"

primrec maintain_parent :: "nat \<Rightarrow> frame_id_t \<Rightarrow> (ix_state, unit) prog" where
  "maintain_parent 0 cur = throw OutOfFuel"
| "maintain_parent (Suc n) cur =
     bind (on_node cur (\<lambda>h. GetParentPageNo)) (\<lambda>p. if p = IX_NO_PAGE then ret () else
     bind (FetchNode p) (\<lambda>parent.
     bind (GetPageNo cur) (\<lambda>child.
     bind (on_node parent (\<lambda>h. find_child h child)) (\<lambda>rnk.
     bind (on_node parent (\<lambda>h. get_key h rnk)) (\<lambda>parent_key.
     bind (on_node cur (\<lambda>h. get_key h 0)) (\<lambda>child_first_key.
     if memcmp parent_key child_first_key = 0
     then bind (query (\<lambda>s. pg_id (pages (ix_bpm s) parent))) (\<lambda>pid.
          bind (on_pool (\<lambda>b. let (r, b') = UnpinPage pid True b in (Inr r, b'))) (\<lambda>r. guard r AssertFail))
     else bind (on_node parent (\<lambda>h. set_key h rnk child_first_key)) (\<lambda>_.
          bind (query (\<lambda>s. pg_id (pages (ix_bpm s) parent))) (\<lambda>pid.
          bind (on_pool (\<lambda>b. let (r, b') = UnpinPage pid True b in (Inr r, b'))) (\<lambda>r.
          bind (guard r AssertFail) (\<lambda>_. maintain_parent n parent))))))))))"

definition erase_leaf :: "frame_id_t \<Rightarrow> (ix_state, unit) prog" where
  "erase_leaf leaf =
     bind (on_node leaf (\<lambda>h. IsLeafPage)) (\<lambda>l. bind (guard l AssertFail) (\<lambda>_.
     bind (on_node leaf (\<lambda>h. GetPrevLeaf)) (\<lambda>p. bind (FetchNode p) (\<lambda>prev.
     bind (on_node leaf (\<lambda>h. GetNextLeaf)) (\<lambda>nx.
     bind (on_node prev (\<lambda>h. SetNextLeaf nx)) (\<lambda>_.
     bind (node_unpin prev True) (\<lambda>_.
     bind (on_node leaf (\<lambda>h. GetNextLeaf)) (\<lambda>nx. bind (FetchNode nx) (\<lambda>next.
     bind (on_node leaf (\<lambda>h. GetPrevLeaf)) (\<lambda>p.
     bind (on_node next (\<lambda>h. SetPrevLeaf p)) (\<lambda>_.
       node_unpin next True)))))))))))"

section \<open>Search\<close>

primrec find_leaf :: "nat \<Rightarrow> bytes \<Rightarrow> frame_id_t \<Rightarrow> (ix_state, frame_id_t) prog" where
  "find_leaf 0 key node = throw OutOfFuel"
| "find_leaf (Suc n) key node =
     bind (on_node node (\<lambda>h. IsLeafPage)) (\<lambda>leaf. if leaf then ret node else
     bind (on_node node (\<lambda>h. InternalLookup h key)) (\<lambda>child_page_no.
     bind (node_unpin node False) (\<lambda>_.
     bind (FetchNode child_page_no) (\<lambda>child. find_leaf n key child))))"

definition FindLeafPage :: "nat \<Rightarrow> bytes \<Rightarrow> (ix_state, frame_id_t) prog" where
  "FindLeafPage fuel key s = bind (FetchNode (root_page (ix_hdr s))) (\<lambda>node. find_leaf fuel key node) s"

definition GetValue :: "nat \<Rightarrow> bytes \<Rightarrow> (ix_state, Rid option) prog" where
  "GetValue fuel key =
     bind (FindLeafPage fuel key) (\<lambda>leaf.
     bind (on_node leaf (\<lambda>h. LeafLookup h key)) (\<lambda>value.
     bind (node_unpin leaf False) (\<lambda>_. ret value)))"

section \<open>Insertion\<close>

definition Split :: "frame_id_t \<Rightarrow> (ix_state, frame_id_t) prog" where
  "Split node =
     bind CreateNode (\<lambda>new_node.
     bind (on_node node (\<lambda>h. IsLeafPage)) (\<lambda>leaf.
     bind (on_node new_node (\<lambda>h. set_is_leaf leaf)) (\<lambda>_.
     bind (on_node new_node (\<lambda>h. SetSize 0)) (\<lambda>_.
     bind (on_node node (\<lambda>h. GetParentPageNo)) (\<lambda>p.
     bind (on_node new_node (\<lambda>h. SetParentPageNo p)) (\<lambda>_.
     bind (on_node new_node (\<lambda>h. set_next_free IX_NO_PAGE)) (\<lambda>_.
     bind (on_node node (\<lambda>h. GetSize)) (\<lambda>total.
     let mid = (total + 1) div 2; right_size = total - mid in
     bind (on_node node (\<lambda>h. pg_ld (key_off h mid) (right_size * col_len h))) (\<lambda>ks.
     bind (on_node node (\<lambda>h. pg_ld (rid_off h mid) (right_size * sizeof_Rid))) (\<lambda>rs.
     bind (on_node new_node (\<lambda>h. insert_pairs h 0 ks rs right_size)) (\<lambda>_.
     bind (on_node node (\<lambda>h. SetSize mid)) (\<lambda>_.
     bind (on_node node (\<lambda>h. IsLeafPage)) (\<lambda>leaf.
     bind (if leaf
           then bind (on_node node (\<lambda>h. GetNextLeaf)) (\<lambda>nx.
                bind (on_node new_node (\<lambda>h. SetNextLeaf nx)) (\<lambda>_.
                bind (GetPageNo node) (\<lambda>np.
                bind (on_node new_node (\<lambda>h. SetPrevLeaf np)) (\<lambda>_.
                bind (GetPageNo new_node) (\<lambda>nnp.
                bind (if nx \<noteq> IX_NO_PAGE
                      then bind (FetchNode nx) (\<lambda>next_leaf.
                           bind (on_node next_leaf (\<lambda>h. SetPrevLeaf nnp)) (\<lambda>_.
                             node_unpin next_leaf True))
                      else ret ()) (\<lambda>_.
                  on_node node (\<lambda>h. SetNextLeaf nnp)))))))
           else bind (on_node new_node (\<lambda>h. GetSize)) (\<lambda>n. maintain_children (nat n) new_node 0)) (\<lambda>_.
       ret new_node))))))))))))))"

primrec InsertIntoParent :: "nat \<Rightarrow> frame_id_t \<Rightarrow> bytes \<Rightarrow> frame_id_t \<Rightarrow> (ix_state, unit) prog" where
  "InsertIntoParent 0 old_node key new_node = throw OutOfFuel"
| "InsertIntoParent (Suc n) old_node key new_node =
     bind (on_node old_node (\<lambda>h. IsRootPage)) (\<lambda>is_root.
     if is_root
     then bind CreateNode (\<lambda>new_root.
          bind (on_node new_root (\<lambda>h. set_is_leaf False)) (\<lambda>_.
          bind (on_node new_root (\<lambda>h. SetSize 0)) (\<lambda>_.
          bind (on_node new_root (\<lambda>h. SetParentPageNo IX_NO_PAGE)) (\<lambda>_.
          bind (on_node new_root (\<lambda>h. set_next_free IX_NO_PAGE)) (\<lambda>_.
          bind (on_node old_node (\<lambda>h. get_key h 0)) (\<lambda>k0.
          bind (GetPageNo old_node) (\<lambda>op.
          bind (on_node new_root (\<lambda>h. insert_pair h 0 k0 \<lparr>rid_page_no = op, rid_slot_no = -1\<rparr>)) (\<lambda>_.
          bind (GetPageNo new_node) (\<lambda>np.
          bind (on_node new_root (\<lambda>h. insert_pair h 1 key \<lparr>rid_page_no = np, rid_slot_no = -1\<rparr>)) (\<lambda>_.
          bind (GetPageNo new_root) (\<lambda>rp.
          bind (on_node old_node (\<lambda>h. SetParentPageNo rp)) (\<lambda>_.
          bind (on_node new_node (\<lambda>h. SetParentPageNo rp)) (\<lambda>_.
          bind (upd_ix_hdr (\<lambda>h. h\<lparr>root_page := rp\<rparr>)) (\<lambda>_.
            node_unpin new_root True))))))))))))))
     else bind (on_node old_node (\<lambda>h. GetParentPageNo)) (\<lambda>p.
          bind (FetchNode p) (\<lambda>parent.
          bind (GetPageNo old_node) (\<lambda>op.
          bind (on_node parent (\<lambda>h. find_child h op)) (\<lambda>idx.
          bind (GetPageNo new_node) (\<lambda>np.
          bind (on_node parent (\<lambda>h. insert_pair h (idx + 1) key \<lparr>rid_page_no = np, rid_slot_no = -1\<rparr>)) (\<lambda>_.
          bind (GetPageNo parent) (\<lambda>pp.
          bind (on_node new_node (\<lambda>h. SetParentPageNo pp)) (\<lambda>_.
          bind (on_node parent (\<lambda>h. GetSize)) (\<lambda>sz s.
          bind (if sz = GetMaxSize (ix_hdr s)
                then bind (Split parent) (\<lambda>new_parent.
                     bind (on_node new_parent (\<lambda>h. get_key h 0)) (\<lambda>k.
                     bind (InsertIntoParent n parent k new_parent) (\<lambda>_.
                       node_unpin new_parent True)))
                else ret ()) (\<lambda>_.
            node_unpin parent True) s))))))))))"

definition insert_entry :: "nat \<Rightarrow> bytes \<Rightarrow> Rid \<Rightarrow> (ix_state, bool) prog" where
  "insert_entry fuel key value =
     bind (FindLeafPage fuel key) (\<lambda>leaf.
     bind (on_node leaf (\<lambda>h. node_Insert h key value)) (\<lambda>new_size s.
     bind (if new_size = GetMaxSize (ix_hdr s)
           then bind (GetPageNo leaf) (\<lambda>lp s. let is_last_leaf = (lp = last_leaf (ix_hdr s)) in
                bind (Split leaf) (\<lambda>new_leaf.
                bind (on_node new_leaf (\<lambda>h. get_key h 0)) (\<lambda>k.
                bind (InsertIntoParent fuel leaf k new_leaf) (\<lambda>_.
                bind (GetPageNo new_leaf) (\<lambda>np.
                bind (if is_last_leaf then upd_ix_hdr (\<lambda>h. h\<lparr>last_leaf := np\<rparr>) else ret ()) (\<lambda>_.
                  node_unpin new_leaf True))))) s)
           else ret ()) (\<lambda>_.
     bind (node_unpin leaf True) (\<lambda>_. ret True)) s))"

section \<open>Deletion\<close>

definition AdjustRoot :: "frame_id_t \<Rightarrow> (ix_state, bool) prog" where
  "AdjustRoot old_root_node =
     bind (on_node old_root_node (\<lambda>h. IsLeafPage)) (\<lambda>leaf.
     bind (on_node old_root_node (\<lambda>h. GetSize)) (\<lambda>sz.
     if \<not> leaf \<and> sz = 1
     then bind (on_node old_root_node (\<lambda>h. RemoveAndReturnOnlyChild h)) (\<lambda>new_root_page.
          bind (FetchNode new_root_page) (\<lambda>new_root.
          bind (on_node new_root (\<lambda>h. SetParentPageNo IX_NO_PAGE)) (\<lambda>_.
          bind (node_unpin new_root True) (\<lambda>_.
          bind (upd_ix_hdr (\<lambda>h. h\<lparr>root_page := new_root_page\<rparr>)) (\<lambda>_.
          bind release_node_handle (\<lambda>_. ret True))))))
     else if leaf \<and> sz = 0
     then bind (upd_ix_hdr (\<lambda>h. h\<lparr>root_page := IX_NO_PAGE\<rparr>)) (\<lambda>_.
          bind release_node_handle (\<lambda>_. ret True))
     else ret False))"

definition Redistribute :: "nat \<Rightarrow> frame_id_t \<Rightarrow> frame_id_t \<Rightarrow> int \<Rightarrow> (ix_state, unit) prog" where
  "Redistribute fuel neighbor_node node index =
     (if index = 0
      then bind (on_node node (\<lambda>h. GetSize)) (\<lambda>sz.
           bind (on_node neighbor_node (\<lambda>h. get_key h 0)) (\<lambda>k.
           bind (on_node neighbor_node (\<lambda>h. node_get_rid h 0)) (\<lambda>r.
           bind (on_node node (\<lambda>h. insert_pair h sz k r)) (\<lambda>_.
           bind (on_node neighbor_node (\<lambda>h. erase_pair h 0)) (\<lambda>_.
           bind (maintain_parent fuel neighbor_node) (\<lambda>_.
           bind (on_node node (\<lambda>h. GetSize)) (\<lambda>sz. maintain_child node (sz - 1))))))))
      else bind (on_node neighbor_node (\<lambda>h. GetSize)) (\<lambda>sz. let last = sz - 1 in
           bind (on_node neighbor_node (\<lambda>h. get_key h last)) (\<lambda>k.
           bind (on_node neighbor_node (\<lambda>h. node_get_rid h last)) (\<lambda>r.
           bind (on_node node (\<lambda>h. insert_pair h 0 k r)) (\<lambda>_.
           bind (on_node neighbor_node (\<lambda>h. erase_pair h last)) (\<lambda>_.
           bind (maintain_parent fuel node) (\<lambda>_. maintain_child node 0)))))))"

text \<open>\<open>Coalesce\<close>, with the recursive call to \<open>CoalesceOrRedistribute\<close> as an argument.\<close>

definition Coalesce :: "(frame_id_t \<Rightarrow> (ix_state, bool) prog) \<Rightarrow> frame_id_t \<Rightarrow> frame_id_t \<Rightarrow> frame_id_t \<Rightarrow> int \<Rightarrow> (ix_state, bool) prog" where
  "Coalesce rec neighbor_node node parent index =
     (let left_node = if index = 0 then node else neighbor_node;
          right_node = if index = 0 then neighbor_node else node
      in bind (on_node right_node (\<lambda>h. GetSize)) (\<lambda>right_size.
         bind (on_node left_node (\<lambda>h. GetSize)) (\<lambda>left_size.
         bind (on_node right_node (\<lambda>h. pg_ld (key_off h 0) (right_size * col_len h))) (\<lambda>ks.
         bind (on_node right_node (\<lambda>h. pg_ld (rid_off h 0) (right_size * sizeof_Rid))) (\<lambda>rs.
         bind (on_node left_node (\<lambda>h. insert_pairs h left_size ks rs right_size)) (\<lambda>_.
         bind (on_node right_node (\<lambda>h. IsLeafPage)) (\<lambda>leaf.
         bind (if \<not> leaf
               then bind (on_node left_node (\<lambda>h. GetSize)) (\<lambda>sz. maintain_children (nat right_size) left_node (sz - right_size))
               else bind (GetPageNo right_node) (\<lambda>rp. bind (GetPageNo left_node) (\<lambda>lp.
                    bind (upd_ix_hdr (\<lambda>h. if rp = last_leaf h then h\<lparr>last_leaf := lp\<rparr> else h)) (\<lambda>_.
                      erase_leaf right_node)))) (\<lambda>_.
         bind (GetPageNo right_node) (\<lambda>rp.
         bind (on_node parent (\<lambda>h. find_child h rp)) (\<lambda>right_idx_in_parent.
         bind (on_node parent (\<lambda>h. erase_pair h right_idx_in_parent)) (\<lambda>_.
         bind release_node_handle (\<lambda>_.
         bind (node_unpin right_node True) (\<lambda>_.
         bind (query (\<lambda>s. pg_id (pages (ix_bpm s) right_node))) (\<lambda>pid.
         bind (on_pool (DeletePage pid)) (\<lambda>_.
         bind (node_unpin left_node True) (\<lambda>_.
           rec parent))))))))))))))))"

primrec CoalesceOrRedistribute :: "nat \<Rightarrow> frame_id_t \<Rightarrow> (ix_state, bool) prog" where
  "CoalesceOrRedistribute 0 node = throw OutOfFuel"
| "CoalesceOrRedistribute (Suc n) node =
     bind (on_node node (\<lambda>h. GetSize)) (\<lambda>sz s.
     if sz \<ge> GetMinSize (ix_hdr s) then bind (node_unpin node True) (\<lambda>_. ret False) s
     else bind (on_node node (\<lambda>h. IsRootPage)) (\<lambda>is_root.
     if is_root
     then bind (AdjustRoot node) (\<lambda>deleted. bind (node_unpin node True) (\<lambda>_. ret deleted))
     else bind (on_node node (\<lambda>h. GetParentPageNo)) (\<lambda>p.
          bind (FetchNode p) (\<lambda>parent.
          bind (GetPageNo node) (\<lambda>np.
          bind (on_node parent (\<lambda>h. find_child h np)) (\<lambda>idx.
          bind (on_node parent (\<lambda>h. ValueAt h (if idx > 0 then idx - 1 else idx + 1))) (\<lambda>q.
          bind (FetchNode q) (\<lambda>neighbor.
          bind (on_node node (\<lambda>h. GetSize)) (\<lambda>sz.
          bind (on_node neighbor (\<lambda>h. GetSize)) (\<lambda>nsz s.
          if sz + nsz \<ge> GetMinSize (ix_hdr s) * 2
          then bind (Redistribute n neighbor node idx) (\<lambda>_.
               bind (node_unpin node True) (\<lambda>_.
               bind (node_unpin neighbor True) (\<lambda>_.
               bind (node_unpin parent True) (\<lambda>_. ret False)))) s
          else Coalesce (CoalesceOrRedistribute n) neighbor node parent idx s))))))))) s)"

definition delete_entry :: "nat \<Rightarrow> bytes \<Rightarrow> (ix_state, bool) prog" where
  "delete_entry fuel key =
     bind (FindLeafPage fuel key) (\<lambda>leaf.
     bind (on_node leaf (\<lambda>h. GetSize)) (\<lambda>old_size.
     bind (on_node leaf (\<lambda>h. node_Remove h key)) (\<lambda>new_size.
     if new_size = old_size then bind (node_unpin leaf True) (\<lambda>_. ret False)
     else bind (CoalesceOrRedistribute fuel leaf) (\<lambda>_. ret True))))"

section \<open>Positions\<close>

definition ix_get_rid :: "Iid \<Rightarrow> (ix_state, Rid) prog" where
  "ix_get_rid iid =
     bind (FetchNode (iid_page_no iid)) (\<lambda>node.
     bind (on_node node (\<lambda>h. GetSize)) (\<lambda>sz.
     if iid_slot_no iid \<ge> sz then throw (Exc IndexEntryNotFoundError)
     else bind (node_unpin node False) (\<lambda>_. on_node node (\<lambda>h. node_get_rid h (iid_slot_no iid)))))"

definition leaf_begin :: "(ix_state, Iid) prog" where
  "leaf_begin = query (\<lambda>s. \<lparr>iid_page_no = first_leaf (ix_hdr s), iid_slot_no = 0\<rparr>)"

definition leaf_end :: "(ix_state, Iid) prog" where
  "leaf_end s =
     bind (FetchNode (last_leaf (ix_hdr s))) (\<lambda>node.
     bind (on_node node (\<lambda>h. GetSize)) (\<lambda>sz.
     bind (node_unpin node False) (\<lambda>_.
       ret \<lparr>iid_page_no = last_leaf (ix_hdr s), iid_slot_no = sz\<rparr>))) s"

definition ix_lower_bound :: "nat \<Rightarrow> bytes \<Rightarrow> (ix_state, Iid) prog" where
  "ix_lower_bound fuel key =
     bind (FindLeafPage fuel key) (\<lambda>node.
     bind (on_node node (\<lambda>h. node_lower_bound h key)) (\<lambda>key_idx.
     bind (GetPageNo node) (\<lambda>p.
     bind (node_unpin node False) (\<lambda>_. ret \<lparr>iid_page_no = p, iid_slot_no = key_idx\<rparr>))))"

definition ix_upper_bound :: "nat \<Rightarrow> bytes \<Rightarrow> (ix_state, Iid) prog" where
  "ix_upper_bound fuel key =
     bind (FindLeafPage fuel key) (\<lambda>node.
     bind (on_node node (\<lambda>h. node_upper_bound h key)) (\<lambda>key_idx.
     bind (on_node node (\<lambda>h. GetSize)) (\<lambda>sz.
     bind (if key_idx = sz then leaf_end
           else bind (GetPageNo node) (\<lambda>p. ret \<lparr>iid_page_no = p, iid_slot_no = key_idx\<rparr>)) (\<lambda>iid.
     bind (node_unpin node False) (\<lambda>_. ret iid)))))"

section \<open>Index scan\<close>

record IxScan =
  is_iid :: Iid
  is_end_iid :: Iid

definition IxScan_is_end :: "IxScan \<Rightarrow> bool" where
  "IxScan_is_end sc \<longleftrightarrow> is_iid sc = is_end_iid sc"

definition IxScan_next :: "IxScan \<Rightarrow> (ix_state, IxScan) prog" where
  "IxScan_next sc =
     bind (guard (\<not> IxScan_is_end sc) AssertFail) (\<lambda>_.
     bind (FetchNode (iid_page_no (is_iid sc))) (\<lambda>node.
     bind (on_node node (\<lambda>h. IsLeafPage)) (\<lambda>leaf. bind (guard leaf AssertFail) (\<lambda>_.
     bind (on_node node (\<lambda>h. GetSize)) (\<lambda>sz. bind (guard (iid_slot_no (is_iid sc) < sz) AssertFail) (\<lambda>_ s.
       let slot = iid_slot_no (is_iid sc) + 1
       in if iid_page_no (is_iid sc) \<noteq> last_leaf (ix_hdr s) \<and> slot = sz
          then bind (on_node node (\<lambda>h. GetNextLeaf)) (\<lambda>p.
                 ret (sc\<lparr>is_iid := \<lparr>iid_page_no = p, iid_slot_no = 0\<rparr>\<rparr>)) s
          else ret (sc\<lparr>is_iid := (is_iid sc)\<lparr>iid_slot_no := slot\<rparr>\<rparr>) s))))))"

definition IxScan_rid :: "IxScan \<Rightarrow> (ix_state, Rid) prog" where
  "IxScan_rid sc = ix_get_rid (is_iid sc)"

section \<open>The index manager\<close>

definition coltype_int :: "ColType \<Rightarrow> int" where
  "coltype_int t = (case t of TYPE_INT \<Rightarrow> 0 | TYPE_FLOAT \<Rightarrow> 1 | TYPE_STRING \<Rightarrow> 2)"

definition coltype_of_int :: "int \<Rightarrow> ColType" where
  "coltype_of_int i = (if i = 0 then TYPE_INT else if i = 1 then TYPE_FLOAT else TYPE_STRING)"

definition sizeof_IxFileHdr :: int where "sizeof_IxFileHdr = 36"

definition ix_hdr_bytes :: "IxFileHdr \<Rightarrow> bytes" where
  "ix_hdr_bytes h = le32 (ix_first_free_page_no h) @ le32 (ix_num_pages h) @ le32 (root_page h) @
     le32 (coltype_int (col_type h)) @ le32 (col_len h) @ le32 (btree_order h) @ le32 (keys_size h) @
     le32 (first_leaf h) @ le32 (last_leaf h)"

definition ix_hdr_of_bytes :: "bytes \<Rightarrow> IxFileHdr" where
  "ix_hdr_of_bytes bs = \<lparr>ix_first_free_page_no = of_le32 (rd 0 4 bs), ix_num_pages = of_le32 (rd 4 4 bs),
     root_page = of_le32 (rd 8 4 bs), col_type = coltype_of_int (of_le32 (rd 12 4 bs)), col_len = of_le32 (rd 16 4 bs),
     btree_order = of_le32 (rd 20 4 bs), keys_size = of_le32 (rd 24 4 bs), first_leaf = of_le32 (rd 28 4 bs),
     last_leaf = of_le32 (rd 32 4 bs)\<rparr>"

definition get_index_name :: "string \<Rightarrow> int \<Rightarrow> string" where
  "get_index_name filename index_no = filename @ ''.'' @ to_string index_no @ ''.idx''"

definition Ix_exists :: "string \<Rightarrow> int \<Rightarrow> BufferPoolManager \<Rightarrow> bool" where
  "Ix_exists filename index_no s = is_file (get_index_name filename index_no) (disk_manager s)"

text \<open>
  The computation of \<open>btree_order\<close> is in \<open>size_t\<close>; a divisor of 0 is undefined.
\<close>

definition index_order :: "int \<Rightarrow> int option" where
  "index_order clen =
     (let d = (clen + sizeof_Rid) mod 2 ^ 64
      in if d = 0 then None else Some (wrap32 ((int PAGE_SIZE - sizeof_IxPageHdr) div d - 1)))"

definition new_index_hdr :: "ColType \<Rightarrow> int \<Rightarrow> int \<Rightarrow> IxFileHdr" where
  "new_index_hdr ctype clen order =
     \<lparr>ix_first_free_page_no = IX_NO_PAGE, ix_num_pages = IX_INIT_NUM_PAGES, root_page = IX_INIT_ROOT_PAGE,
      col_type = ctype, col_len = clen, btree_order = order, keys_size = (order + 1) * clen,
      first_leaf = IX_INIT_ROOT_PAGE, last_leaf = IX_INIT_ROOT_PAGE\<rparr>"

text \<open>The header of a page built in \<open>page_buf\<close>; the other bytes of the buffer are what the stack held.\<close>

definition page_with_hdr :: "int \<Rightarrow> int \<Rightarrow> bytes \<Rightarrow> bytes" where
  "page_with_hdr prev nx buf =
     wr 0 (le32 IX_NO_PAGE @ le32 IX_NO_PAGE @ le32 0 @ [1]) (wr 16 (le32 prev @ le32 nx) buf)"

definition create_index :: "bytes \<Rightarrow> string \<Rightarrow> int \<Rightarrow> ColType \<Rightarrow> int \<Rightarrow> (BufferPoolManager, unit) prog" where
  "create_index page_buf filename index_no ctype clen =
     (let ix_name = get_index_name filename index_no in
      bind (guard (index_no \<ge> 0) AssertFail) (\<lambda>_.
      bind (on_disk (create_file ix_name)) (\<lambda>_.
      bind (on_disk (open_file ix_name)) (\<lambda>fd.
      if clen > IX_MAX_COL_LEN then throw (Exc (InvalidColLengthError clen))
      else case index_order clen of
             None \<Rightarrow> throw UndefinedBehaviour
           | Some order \<Rightarrow>
               bind (guard (order > 2) AssertFail) (\<lambda>_.
               bind (on_disk (write_page fd IX_FILE_HDR_PAGE (ix_hdr_bytes (new_index_hdr ctype clen order)))) (\<lambda>_.
               let buf1 = page_with_hdr IX_INIT_ROOT_PAGE IX_INIT_ROOT_PAGE page_buf;
                   buf2 = page_with_hdr IX_LEAF_HEADER_PAGE IX_LEAF_HEADER_PAGE buf1 in
               bind (on_disk (write_page fd IX_LEAF_HEADER_PAGE buf1)) (\<lambda>_.
               bind (on_disk (write_page fd IX_INIT_ROOT_PAGE buf2)) (\<lambda>_.
               bind (on_disk (set_fd2pageno fd (IX_INIT_NUM_PAGES - 1))) (\<lambda>_.
                 on_disk (close_file fd))))))))))"

definition destroy_index :: "string \<Rightarrow> int \<Rightarrow> (BufferPoolManager, unit) prog" where
  "destroy_index filename index_no = on_disk (destroy_file (get_index_name filename index_no))"

definition IxIndexHandle_init :: "int \<Rightarrow> (BufferPoolManager, IxIndexHandle) prog" where
  "IxIndexHandle_init fd s =
     (let (r, buf, d) = read_page fd IX_FILE_HDR_PAGE (nat sizeof_IxFileHdr) (replicate (nat sizeof_IxFileHdr) 0) (disk_manager s);
          s1 = s\<lparr>disk_manager := d\<rparr>;
          h = ix_hdr_of_bytes buf
      in case r of
           Inl e \<Rightarrow> (Inl e, s1)
         | Inr _ \<Rightarrow> bind (on_disk (get_fd2pageno fd)) (\<lambda>n.
                      bind (on_disk (set_fd2pageno fd (n + 1))) (\<lambda>_. ret \<lparr>ixh_fd = fd, ixh_hdr = h\<rparr>)) s1)"

definition open_index :: "string \<Rightarrow> int \<Rightarrow> (BufferPoolManager, IxIndexHandle) prog" where
  "open_index filename index_no =
     bind (on_disk (open_file (get_index_name filename index_no))) IxIndexHandle_init"

definition close_index :: "IxIndexHandle \<Rightarrow> (BufferPoolManager, unit) prog" where
  "close_index ih =
     bind (on_disk (write_page (ixh_fd ih) IX_FILE_HDR_PAGE (ix_hdr_bytes (ixh_hdr ih)))) (\<lambda>_.
     bind (FlushAllPages (ixh_fd ih)) (\<lambda>_.
       on_disk (close_file (ixh_fd ih))))"

end
