(* ===== verification/Ix_Node_Spec.thy ===== *)
theory Ix_Node_Spec
  imports Ix_Node
begin

text \<open>
  What the operations of a node do to the list of pairs it holds. The arrays of keys and of record
  identifiers are regions of the page; \<open>cells\<close> cuts a region into elements.
\<close>

section \<open>Arrays of fixed-size elements\<close>

definition cells :: "nat \<Rightarrow> nat \<Rightarrow> 'a list \<Rightarrow> 'a list list" where
  "cells w n xs = map (\<lambda>i. rd (i * w) w xs) [0..<n]"

lemma length_cells [simp]: "length (cells w n xs) = n"
  by (simp add: cells_def)

lemma nth_cells [simp]: "i < n \<Longrightarrow> cells w n xs ! i = rd (i * w) w xs"
  by (simp add: cells_def)

lemma cell_bound: "i < n \<Longrightarrow> i * w + w \<le> n * (w :: nat)"
  by (metis Suc_leI add.commute mult_Suc mult_le_mono1)

lemma cell_outside:
  fixes w :: nat
  assumes "i < p \<or> p + k \<le> i" shows "i * w + w \<le> p * w \<or> p * w + k * w \<le> i * w"
  using assms cell_bound [of i p w] mult_le_mono1 [of "p + k" i w] by (auto simp: add_mult_distrib)

lemma cell_wr_inside:
  assumes "p \<le> i" "i < p + k" "length ys = k * w" "(p + k) * w \<le> length xs"
  shows "rd (i * w) w (wr (p * w) ys xs) = rd ((i - p) * w) w ys"
proof -
  obtain j where j: "i = p + j" "j < k" using assms(1,2) by (metis le_add_diff_inverse nat_add_left_cancel_less)
  have "j * w + w \<le> k * w" by (rule cell_bound [OF j(2)])
  then show ?thesis
    using rd_wr_inside [of "p * w" ys xs "i * w" w] assms(3,4) j by (simp add: add_mult_distrib)
qed

lemma cell_wr_outside:
  assumes "i < p \<or> p + k \<le> i" "length ys = k * w" "(p + k) * w \<le> length xs" "(i + 1) * w \<le> length xs"
  shows "rd (i * w) w (wr (p * w) ys xs) = rd (i * w) w xs"
  by (rule rd_wr_disjoint) (use assms cell_outside [OF assms(1), of w] in \<open>auto simp: add_mult_distrib\<close>)

lemma cell_rd: "i < k \<Longrightarrow> rd (i * w) w (rd (p * w) (k * w) xs) = rd ((p + i) * w) w xs"
  using rd_rd [of "i * w" w "k * w" "p * w" xs] cell_bound [of i k w] by (simp add: add_mult_distrib)

text \<open>Shifting the elements from \<open>pos\<close> on and writing \<open>n\<close> new ones into the gap is insertion.\<close>

lemma array_insert:
  assumes "pos \<le> num" "(num + n) * w \<le> length xs" "length ys = n * w"
  defines "xs1 \<equiv> wr ((pos + n) * w) (rd (pos * w) ((num - pos) * w) xs) xs"
  shows "cells w (num + n) (wr (pos * w) ys xs1) = take pos (cells w num xs) @ cells w n ys @ drop pos (cells w num xs)"
    and "length (wr (pos * w) ys xs1) = length xs"
proof -
  obtain m where m: "num = pos + m" using assms(1) le_Suc_ex by blast
  have le: "(pos + m) * w \<le> length xs" "(pos + n) * w + m * w \<le> length xs" "(pos + n) * w \<le> length xs"
    using assms(2) unfolding m by (simp_all add: add_mult_distrib)
  have lr: "length (rd (pos * w) (m * w) xs) = m * w"
    using le(1) by (intro length_rd) (simp add: add_mult_distrib)
  have l1: "length xs1 = length xs" unfolding xs1_def using lr le by (intro length_wr) (simp add: m)
  then show "length (wr (pos * w) ys xs1) = length xs"
    using le assms(3) by (simp add: length_wr add_mult_distrib)
  have x1: "xs1 = wr ((pos + n) * w) (rd (pos * w) (m * w) xs) xs" by (simp add: xs1_def m)
  show "cells w (num + n) (wr (pos * w) ys xs1) = take pos (cells w num xs) @ cells w n ys @ drop pos (cells w num xs)"
  proof (rule nth_equalityI)
    show "length (cells w (num + n) (wr (pos * w) ys xs1)) = length (take pos (cells w num xs) @ cells w n ys @ drop pos (cells w num xs))"
      using assms(1) by simp
    fix i assume "i < length (cells w (num + n) (wr (pos * w) ys xs1))"
    then have i: "i < num + n" by simp
    have ib: "(i + 1) * w \<le> length xs"
      using mult_le_mono1 [of "i + 1" "num + n" w] i assms(2) by simp
    consider (left) "i < pos" | (mid) "pos \<le> i" "i < pos + n" | (right) "pos + n \<le> i" by linarith
    then show "cells w (num + n) (wr (pos * w) ys xs1) ! i = (take pos (cells w num xs) @ cells w n ys @ drop pos (cells w num xs)) ! i"
    proof cases
      case left
      then have "rd (i * w) w (wr (pos * w) ys xs1) = rd (i * w) w xs"
        using cell_wr_outside [of i pos n ys w xs1] cell_wr_outside [of i "pos + n" m "rd (pos * w) (m * w) xs" w xs] assms(3) l1 ib le lr
        by (simp add: x1 add_mult_distrib)
      with left i m show ?thesis by (simp add: nth_append)
    next
      case mid
      then have "rd (i * w) w (wr (pos * w) ys xs1) = rd ((i - pos) * w) w ys"
        using assms(3) l1 le by (intro cell_wr_inside [where k = n]) simp_all
      moreover have "i - pos < n" using mid by linarith
      ultimately show ?thesis using mid i m by (simp add: nth_append)
    next
      case right
      have "rd (i * w) w (wr (pos * w) ys xs1) = rd (i * w) w xs1"
        using right assms(3) l1 le ib by (intro cell_wr_outside [where k = n]) simp_all
      also have "\<dots> = rd ((i - (pos + n)) * w) w (rd (pos * w) (m * w) xs)"
        unfolding x1 using right i m lr le by (intro cell_wr_inside [where k = m]) (simp_all add: add_mult_distrib)
      also have "\<dots> = rd ((i - n) * w) w xs"
        using cell_rd [of "i - (pos + n)" m w pos xs] right i m by simp
      finally have "rd (i * w) w (wr (pos * w) ys xs1) = rd ((i - n) * w) w xs" .
      moreover have "\<not> i < pos" "\<not> i - pos < n" "pos + (i - pos - n) = i - n" "i - pos - n < m" using right i m by linarith+
      ultimately show ?thesis using i m by (simp add: nth_append)
    qed
  qed
qed

lemma array_erase:
  assumes "pos < num" "num * w \<le> length xs"
  shows "cells w (num - 1) (wr (pos * w) (rd ((pos + 1) * w) ((num - pos - 1) * w) xs) xs) =
      take pos (cells w num xs) @ drop (pos + 1) (cells w num xs)"
    and "length (wr (pos * w) (rd ((pos + 1) * w) ((num - pos - 1) * w) xs) xs) = length xs"
proof -
  obtain m where m: "num = pos + 1 + m" using assms(1) less_imp_Suc_add by fastforce
  have le: "(pos + 1 + m) * w \<le> length xs" using assms(2) m by simp
  have lr: "length (rd ((pos + 1) * w) (m * w) xs) = m * w" using le by (intro length_rd) (simp add: add_mult_distrib)
  show "length (wr (pos * w) (rd ((pos + 1) * w) ((num - pos - 1) * w) xs) xs) = length xs"
    using le lr by (intro length_wr) (simp add: m add_mult_distrib)
  show "cells w (num - 1) (wr (pos * w) (rd ((pos + 1) * w) ((num - pos - 1) * w) xs) xs) =
      take pos (cells w num xs) @ drop (pos + 1) (cells w num xs)"
  proof (rule nth_equalityI)
    show "length (cells w (num - 1) (wr (pos * w) (rd ((pos + 1) * w) ((num - pos - 1) * w) xs) xs)) =
      length (take pos (cells w num xs) @ drop (pos + 1) (cells w num xs))" using m by simp
    fix i assume "i < length (cells w (num - 1) (wr (pos * w) (rd ((pos + 1) * w) ((num - pos - 1) * w) xs) xs))"
    then have i: "i < pos + m" using m by simp
    have ib: "(i + 1) * w \<le> length xs" "(pos + m) * w \<le> length xs"
      using mult_le_mono1 [of "i + 1" "pos + 1 + m" w] i le by (auto simp: add_mult_distrib)
    show "cells w (num - 1) (wr (pos * w) (rd ((pos + 1) * w) ((num - pos - 1) * w) xs) xs) ! i =
      (take pos (cells w num xs) @ drop (pos + 1) (cells w num xs)) ! i"
    proof (cases "i < pos")
      case True
      then have "rd (i * w) w (wr (pos * w) (rd ((pos + 1) * w) (m * w) xs) xs) = rd (i * w) w xs"
        using lr ib by (intro cell_wr_outside [where k = m]) simp_all
      with True i m show ?thesis by (simp add: nth_append)
    next
      case False
      then have "rd (i * w) w (wr (pos * w) (rd ((pos + 1) * w) (m * w) xs) xs) = rd ((i - pos) * w) w (rd ((pos + 1) * w) (m * w) xs)"
        using lr ib i by (intro cell_wr_inside [where k = m]) simp_all
      also have "\<dots> = rd ((i + 1) * w) w xs" using cell_rd [of "i - pos" m w "pos + 1" xs] False i by simp
      finally show ?thesis using False i m by (simp add: nth_append)
    qed
  qed
qed

text \<open>A write inside a region is a write to the region.\<close>

lemma rd_wr_region:
  assumes "p \<le> off" "off + length ys \<le> p + n" "p + n \<le> length xs"
  shows "rd p n (wr off ys xs) = wr (off - p) ys (rd p n xs)"
proof (rule nth_equalityI)
  show l: "length (rd p n (wr off ys xs)) = length (wr (off - p) ys (rd p n xs))"
    using assms by (simp add: length_rd length_wr)
  fix i assume "i < length (rd p n (wr off ys xs))"
  then have "i < n" using assms by (simp add: length_rd length_wr)
  then show "rd p n (wr off ys xs) ! i = wr (off - p) ys (rd p n xs) ! i"
    using assms by (auto simp: nth_rd nth_wr length_rd length_wr add.commute [of p i])
qed


section \<open>The contents of a node\<close>

definition ix_hdr_ok :: "IxFileHdr \<Rightarrow> bool" where
  "ix_hdr_ok h \<longleftrightarrow> 0 < col_len h \<and> 1 \<le> btree_order h \<and> keys_size h = (btree_order h + 1) * col_len h \<and>
     sizeof_IxPageHdr + (btree_order h + 1) * (col_len h + sizeof_Rid) \<le> int PAGE_SIZE \<and>
     (col_type h \<noteq> TYPE_STRING \<longrightarrow> col_len h = 4)"

definition slots :: "IxFileHdr \<Rightarrow> nat" where "slots h = nat (btree_order h + 1)"
definition klen :: "IxFileHdr \<Rightarrow> nat" where "klen h = nat (col_len h)"

definition n_num :: "bytes \<Rightarrow> int" where "n_num b = of_le32 (rd 8 4 b)"
definition n_parent :: "bytes \<Rightarrow> int" where "n_parent b = of_le32 (rd 4 4 b)"
definition n_leaf :: "bytes \<Rightarrow> bool" where "n_leaf b \<longleftrightarrow> rd 12 1 b \<noteq> [0]"
definition n_prev :: "bytes \<Rightarrow> int" where "n_prev b = of_le32 (rd 16 4 b)"
definition n_next :: "bytes \<Rightarrow> int" where "n_next b = of_le32 (rd 20 4 b)"

definition kreg :: "IxFileHdr \<Rightarrow> bytes \<Rightarrow> bytes" where "kreg h b = rd 24 (slots h * klen h) b"
definition rreg :: "IxFileHdr \<Rightarrow> bytes \<Rightarrow> bytes" where "rreg h b = rd (24 + slots h * klen h) (slots h * 8) b"

definition entries :: "IxFileHdr \<Rightarrow> bytes \<Rightarrow> (bytes \<times> Rid) list" where
  "entries h b = zip (cells (klen h) (nat (n_num b)) (kreg h b)) (map rid_of (cells 8 (nat (n_num b)) (rreg h b)))"

definition node_ok :: "IxFileHdr \<Rightarrow> bytes \<Rightarrow> bool" where
  "node_ok h b \<longleftrightarrow> ix_hdr_ok h \<and> length b = PAGE_SIZE \<and> 0 \<le> n_num b \<and> n_num b \<le> btree_order h + 1"

text \<open>The fields of the page header other than the number of keys.\<close>

definition links :: "bytes \<Rightarrow> bytes \<times> bytes" where "links b = (rd 0 8 b, rd 12 12 b)"

lemma links_fields:
  assumes "links b' = links b"
  shows "n_parent b' = n_parent b" "n_leaf b' = n_leaf b" "n_prev b' = n_prev b" "n_next b' = n_next b"
proof -
  have "rd 4 4 (rd 0 8 b') = rd 4 4 (rd 0 8 b)" "rd 0 1 (rd 12 12 b') = rd 0 1 (rd 12 12 b)"
    "rd 4 4 (rd 12 12 b') = rd 4 4 (rd 12 12 b)" "rd 8 4 (rd 12 12 b') = rd 8 4 (rd 12 12 b)"
    using assms by (simp_all add: links_def)
  then show "n_parent b' = n_parent b" "n_leaf b' = n_leaf b" "n_prev b' = n_prev b" "n_next b' = n_next b"
    by (simp_all add: n_parent_def n_leaf_def n_prev_def n_next_def rd_rd)
qed

lemma ix_layout:
  assumes "ix_hdr_ok h"
  shows "24 + slots h * klen h + slots h * 8 \<le> 4096" "0 < klen h" "2 \<le> slots h" "int (slots h) = btree_order h + 1"
    "int (klen h) = col_len h" "keys_size h = int (slots h * klen h)" "btree_order h < 2 ^ 31 - 1"
proof -
  from assms have o: "1 \<le> btree_order h" "0 < col_len h" and l: "24 + (btree_order h + 1) * (col_len h + 8) \<le> 4096"
    and k: "keys_size h = (btree_order h + 1) * col_len h"
    by (simp_all add: ix_hdr_ok_def PAGE_SIZE_def sizeof_IxPageHdr_def sizeof_Rid_def)
  show e: "int (slots h) = btree_order h + 1" "int (klen h) = col_len h" "0 < klen h" "2 \<le> slots h" using o by (auto simp: slots_def klen_def)
  then show ks: "keys_size h = int (slots h * klen h)" using k by simp
  have "int (24 + slots h * klen h + slots h * 8) \<le> int 4096" using l e(1,2) by (simp add: ring_distribs)
  then show "24 + slots h * klen h + slots h * 8 \<le> 4096" by (simp only: of_nat_le_iff)
  then have "slots h \<le> 4096" by simp
  then show "btree_order h < 2 ^ 31 - 1" using e by simp
qed

lemma length_entries [simp]: "length (entries h b) = nat (n_num b)"
  by (simp add: entries_def)

lemma node_okD:
  assumes "node_ok h b"
  shows "ix_hdr_ok h" "length b = 4096" "nat (n_num b) \<le> slots h" "0 \<le> n_num b" "n_num b = int (nat (n_num b))"
    "length (kreg h b) = slots h * klen h" "length (rreg h b) = slots h * 8" "in32 (n_num b)"
proof -
  show h: "ix_hdr_ok h" and l: "length b = 4096" and "nat (n_num b) \<le> slots h" "0 \<le> n_num b" "n_num b = int (nat (n_num b))"
    using assms by (auto simp: node_ok_def PAGE_SIZE_def slots_def)
  show "length (kreg h b) = slots h * klen h" "length (rreg h b) = slots h * 8"
    using ix_layout(1) [OF h] l by (simp_all add: kreg_def rreg_def length_rd)
  show "in32 (n_num b)" by (simp add: n_num_def in32_of_le32)
qed

lemma pg_ld_ok: "off = int p \<Longrightarrow> n = int m \<Longrightarrow> p + m \<le> length b \<Longrightarrow> pg_ld off n b = (Inr (rd p m b), b)"
  by (simp add: pg_ld_def)

lemma pg_st_ok: "off = int p \<Longrightarrow> p + length bs \<le> length b \<Longrightarrow> pg_st off bs b = (Inr (), wr p bs b)"
  by (simp add: pg_st_def)

lemma GetSize_ok [simp]: "length b = 4096 \<Longrightarrow> GetSize b = (Inr (n_num b), b)"
  by (simp add: GetSize_def pg_ld_int_def OFF_num_key_def n_num_def ret_def pg_ld_ok [of 8 8 4 4])

text \<open>Offsets of elements, as natural numbers.\<close>

lemma key_off_nat: "ix_hdr_ok h \<Longrightarrow> key_off h (int i) = int (24 + i * klen h)"
  using ix_layout(5) [of h] by (simp add: key_off_def sizeof_IxPageHdr_def)

lemma rid_off_nat: "ix_hdr_ok h \<Longrightarrow> rid_off h (int i) = int (24 + slots h * klen h + i * 8)"
  using ix_layout(6) [of h] by (simp add: rid_off_def sizeof_IxPageHdr_def sizeof_Rid_def)

lemma get_key_ok:
  assumes "node_ok h b" "int i < n_num b"
  shows "get_key h (int i) b = (Inr (fst (entries h b ! i)), b)"
    and "node_get_rid h (int i) b = (Inr (snd (entries h b ! i)), b)"
proof -
  note n = node_okD [OF assms(1)]
  note l = ix_layout [OF n(1)]
  have i: "i < nat (n_num b)" "i < slots h" using assms n(3) by linarith+
  have kb: "i * klen h + klen h \<le> slots h * klen h" "i * 8 + 8 \<le> slots h * 8" using cell_bound [OF i(2)] by blast+
  have "rd (i * klen h) (klen h) (kreg h b) = rd (24 + i * klen h) (klen h) b"
    "rd (i * 8) 8 (rreg h b) = rd (24 + slots h * klen h + i * 8) 8 b"
    unfolding kreg_def rreg_def using kb by (simp_all add: rd_rd)
  then show "get_key h (int i) b = (Inr (fst (entries h b ! i)), b)" "node_get_rid h (int i) b = (Inr (snd (entries h b ! i)), b)"
    using i(1) pg_ld_ok [OF key_off_nat [OF n(1), of i] l(5) [symmetric], of b]
      pg_ld_ok [OF rid_off_nat [OF n(1), of i], of 8 8 b] kb l(1) n(2)
    by (simp_all add: get_key_def node_get_rid_def entries_def sizeof_Rid_def ret_def)
qed


section \<open>Writes to the regions of a node\<close>

lemma write_keys:
  assumes "ix_hdr_ok h" "length b = 4096" "x + length ys \<le> slots h * klen h"
  defines "b' \<equiv> wr (24 + x) ys b"
  shows "kreg h b' = wr x ys (kreg h b)" "rreg h b' = rreg h b" "links b' = links b" "n_num b' = n_num b" "length b' = 4096"
proof -
  note l = ix_layout(1) [OF assms(1)]
  show "kreg h b' = wr x ys (kreg h b)" unfolding kreg_def b'_def using assms(2,3) l by (subst rd_wr_region) simp_all
  show "rreg h b' = rreg h b" unfolding rreg_def b'_def using assms(2,3) l by (intro rd_wr_disjoint) simp_all
  show "links b' = links b" unfolding links_def b'_def using assms(2,3) l by (simp add: rd_wr_disjoint)
  show "n_num b' = n_num b" unfolding n_num_def b'_def using assms(2,3) l by (simp add: rd_wr_disjoint)
  show "length b' = 4096" unfolding b'_def using assms(2,3) l by (subst length_wr) simp_all
qed

lemma write_rids:
  assumes "ix_hdr_ok h" "length b = 4096" "x + length ys \<le> slots h * 8"
  defines "b' \<equiv> wr (24 + slots h * klen h + x) ys b"
  shows "rreg h b' = wr x ys (rreg h b)" "kreg h b' = kreg h b" "links b' = links b" "n_num b' = n_num b" "length b' = 4096"
proof -
  note l = ix_layout(1) [OF assms(1)]
  show "rreg h b' = wr x ys (rreg h b)" unfolding rreg_def b'_def using assms(2,3) l by (subst rd_wr_region) simp_all
  show "kreg h b' = kreg h b" unfolding kreg_def b'_def using assms(2,3) l by (intro rd_wr_disjoint) simp_all
  show "links b' = links b" unfolding links_def b'_def using assms(2,3) l by (simp add: rd_wr_disjoint)
  show "n_num b' = n_num b" unfolding n_num_def b'_def using assms(2,3) l by (simp add: rd_wr_disjoint)
  show "length b' = 4096" unfolding b'_def using assms(2,3) l by (subst length_wr) simp_all
qed

lemma write_num:
  assumes "ix_hdr_ok h" "length b = 4096" "in32 k"
  defines "b' \<equiv> wr 8 (le32 k) b"
  shows "n_num b' = k" "kreg h b' = kreg h b" "rreg h b' = rreg h b" "links b' = links b" "length b' = 4096"
proof -
  note l = ix_layout(1) [OF assms(1)]
  show "n_num b' = k" unfolding n_num_def b'_def using assms(2,3) by (simp add: rd_wr_same)
  show "kreg h b' = kreg h b" unfolding kreg_def b'_def using assms(2) l by (intro rd_wr_disjoint) simp_all
  show "rreg h b' = rreg h b" unfolding rreg_def b'_def using assms(2) l by (intro rd_wr_disjoint) simp_all
  show "links b' = links b" unfolding links_def b'_def using assms(2) by (simp add: rd_wr_disjoint)
  show "length b' = 4096" unfolding b'_def using assms(2) by (subst length_wr) simp_all
qed

lemma SetSize_ok: "length b = 4096 \<Longrightarrow> SetSize k b = (Inr (), wr 8 (le32 k) b)"
  by (simp add: SetSize_def pg_st_int_def OFF_num_key_def pg_st_ok [of 8 8])

lemma move_ok:
  assumes "d = int d'" "p = int p'" "n = int n'" "p' + n' \<le> length b" "d' + n' \<le> length b"
  shows "pg_move d p n b = (Inr (), wr d' (rd p' n' b) b)"
  using assms pg_ld_ok [OF assms(2,3,4)] pg_st_ok [OF assms(1), of "rd p' n' b" b] by (simp add: pg_move_def length_rd)

lemma move_keys:
  assumes "ix_hdr_ok h" "length b = 4096" "d + m \<le> slots h" "p + m \<le> slots h"
  defines "b' \<equiv> wr (24 + d * klen h) (rd (24 + p * klen h) (m * klen h) b) b"
  shows "pg_move (key_off h (int d)) (key_off h (int p)) (int m * col_len h) b = (Inr (), b')"
    "kreg h b' = wr (d * klen h) (rd (p * klen h) (m * klen h) (kreg h b)) (kreg h b)"
    "rreg h b' = rreg h b" "links b' = links b" "n_num b' = n_num b" "length b' = 4096"
proof -
  note l = ix_layout [OF assms(1)]
  have le: "d * klen h + m * klen h \<le> slots h * klen h" "p * klen h + m * klen h \<le> slots h * klen h"
    using assms(3,4) by (metis add_mult_distrib mult_le_mono1)+
  have m: "int m * col_len h = int (m * klen h)" using l(5) by simp
  show "pg_move (key_off h (int d)) (key_off h (int p)) (int m * col_len h) b = (Inr (), b')"
    unfolding b'_def by (rule move_ok [OF key_off_nat [OF assms(1)] key_off_nat [OF assms(1)] m]) (use assms(2) le l(1) in simp_all)
  have r: "rd (24 + p * klen h) (m * klen h) b = rd (p * klen h) (m * klen h) (kreg h b)"
    unfolding kreg_def using le by (simp add: rd_rd)
  have "length (rd (24 + p * klen h) (m * klen h) b) = m * klen h" using le l(1) assms(2) by (intro length_rd) simp
  then show "kreg h b' = wr (d * klen h) (rd (p * klen h) (m * klen h) (kreg h b)) (kreg h b)"
    "rreg h b' = rreg h b" "links b' = links b" "n_num b' = n_num b" "length b' = 4096"
    unfolding b'_def using write_keys [OF assms(1,2), of "d * klen h" "rd (24 + p * klen h) (m * klen h) b"] le r by auto
qed

lemma move_rids:
  assumes "ix_hdr_ok h" "length b = 4096" "d + m \<le> slots h" "p + m \<le> slots h"
  defines "b' \<equiv> wr (24 + slots h * klen h + d * 8) (rd (24 + slots h * klen h + p * 8) (m * 8) b) b"
  shows "pg_move (rid_off h (int d)) (rid_off h (int p)) (int m * sizeof_Rid) b = (Inr (), b')"
    "rreg h b' = wr (d * 8) (rd (p * 8) (m * 8) (rreg h b)) (rreg h b)"
    "kreg h b' = kreg h b" "links b' = links b" "n_num b' = n_num b" "length b' = 4096"
proof -
  note l = ix_layout [OF assms(1)]
  have le: "d * 8 + m * 8 \<le> slots h * 8" "p * 8 + m * 8 \<le> slots h * 8" using assms(3,4) by simp_all
  have m: "int m * sizeof_Rid = int (m * 8)" by (simp add: sizeof_Rid_def)
  show "pg_move (rid_off h (int d)) (rid_off h (int p)) (int m * sizeof_Rid) b = (Inr (), b')"
    unfolding b'_def by (rule move_ok [OF rid_off_nat [OF assms(1)] rid_off_nat [OF assms(1)] m]) (use assms(2) le l(1) in simp_all)
  have r: "rd (24 + slots h * klen h + p * 8) (m * 8) b = rd (p * 8) (m * 8) (rreg h b)"
    unfolding rreg_def using le by (simp add: rd_rd)
  have "length (rd (24 + slots h * klen h + p * 8) (m * 8) b) = m * 8" using le l(1) assms(2) by (intro length_rd) simp
  then show "rreg h b' = wr (d * 8) (rd (p * 8) (m * 8) (rreg h b)) (rreg h b)"
    "kreg h b' = kreg h b" "links b' = links b" "n_num b' = n_num b" "length b' = 4096"
    unfolding b'_def using write_rids [OF assms(1,2), of "d * 8" "rd (24 + slots h * klen h + p * 8) (m * 8) b"] le r by auto
qed


section \<open>Insertion and removal of pairs\<close>

lemma in32_slots: "ix_hdr_ok h \<Longrightarrow> k \<le> slots h \<Longrightarrow> in32 (int k)"
  using ix_layout(4,7) [of h] by (simp add: in32_def)

lemma insert_pairs_ok:
  assumes "node_ok h b" "pos \<le> nat (n_num b)" "nat (n_num b) + n \<le> slots h" "length key = n * klen h" "length rid = n * 8"
  shows "\<exists>b'. insert_pairs h (int pos) key rid (int n) b = (Inr (), b') \<and> node_ok h b' \<and> n_num b' = n_num b + int n \<and>
    entries h b' = take pos (entries h b) @ zip (cells (klen h) n key) (map rid_of (cells 8 n rid)) @ drop pos (entries h b) \<and>
    links b' = links b"
proof -
  note nd = node_okD [OF assms(1)]
  note hdr = nd(1) and l = ix_layout [OF nd(1)]
  let ?N = "nat (n_num b)" and ?w = "klen h"
  define m where "m = ?N - pos"
  have m: "?N = pos + m" "n_num b - int pos = int m" "int pos + int n = int (pos + n)" using assms(2) nd(4) by (auto simp: m_def)
  have le: "pos + n + m \<le> slots h" "pos + m \<le> slots h" "pos + n \<le> slots h" using assms(3) m by auto
  note k = move_keys [OF hdr nd(2) le(1,2)]
  let ?b1 = "wr (24 + (pos + n) * ?w) (rd (24 + pos * ?w) (m * ?w) b) b"
  note r = move_rids [OF hdr k(6) le(1,2)]
  let ?b2 = "wr (24 + slots h * ?w + (pos + n) * 8) (rd (24 + slots h * ?w + pos * 8) (m * 8) ?b1) ?b1"
  have kl: "pos * ?w + length key \<le> slots h * ?w" "pos * 8 + length rid \<le> slots h * 8"
    using mult_le_mono1 [OF le(3), of ?w] le(3) assms(4,5) by (simp_all add: add_mult_distrib)
  note wk = write_keys [OF hdr r(6) kl(1)]
  let ?b3 = "wr (24 + pos * ?w) key ?b2"
  note wrd = write_rids [OF hdr wk(5) kl(2)]
  let ?b4 = "wr (24 + slots h * ?w + pos * 8) rid ?b3"
  have i32: "in32 (n_num b + int n)" using in32_slots [OF hdr, of "?N + n"] assms(3) nd(4) by simp
  note wn = write_num [OF hdr wrd(5) i32]
  let ?b5 = "wr 8 (le32 (n_num b + int n)) ?b4"
  have kt: "take (nat (int n * col_len h)) key = key" "take (nat (int n * sizeof_Rid)) rid = rid"
    using l(5) assms(4,5) by (simp_all add: sizeof_Rid_def nat_mult_distrib klen_def)
  have s3: "pg_st (key_off h (int pos)) key ?b2 = (Inr (), ?b3)"
    by (rule pg_st_ok [OF key_off_nat [OF hdr]]) (use kl(1) l(1) r(6) in linarith)
  have s4: "pg_st (rid_off h (int pos)) rid ?b3 = (Inr (), ?b4)"
    by (rule pg_st_ok [OF rid_off_nat [OF hdr]]) (use kl(2) l(1) wk(5) in linarith)
  have run: "insert_pairs h (int pos) key rid (int n) b = (Inr (), ?b5)"
    unfolding insert_pairs_def
    by (simp only: bind_Inr m(2,3) kt GetSize_ok [OF nd(2)] k(1) r(1) s3 s4 SetSize_ok [OF wrd(5)])
  have num: "n_num ?b5 = n_num b + int n" by (rule wn(1))
  have N: "nat (n_num ?b5) = ?N + n" using num nd(4) by simp
  have kr: "kreg h ?b5 = wr (pos * ?w) key (wr ((pos + n) * ?w) (rd (pos * ?w) ((?N - pos) * ?w) (kreg h b)) (kreg h b))"
    by (simp only: wn(2) wrd(2) wk(1) r(3) k(2) m_def [symmetric])
  have rr: "rreg h ?b5 = wr (pos * 8) rid (wr ((pos + n) * 8) (rd (pos * 8) ((?N - pos) * 8) (rreg h b)) (rreg h b))"
    by (simp only: wn(3) wrd(1) wk(2) r(2) k(3) m_def [symmetric])
  have ck: "cells ?w (?N + n) (kreg h ?b5) = take pos (cells ?w ?N (kreg h b)) @ cells ?w n key @ drop pos (cells ?w ?N (kreg h b))"
    unfolding kr using nd(6) mult_le_mono1 [OF assms(3), of ?w] assms(4) by (intro array_insert(1) [OF assms(2)]) simp_all
  have cr: "cells 8 (?N + n) (rreg h ?b5) = take pos (cells 8 ?N (rreg h b)) @ cells 8 n rid @ drop pos (cells 8 ?N (rreg h b))"
    unfolding rr using nd(7) assms(3,5) by (intro array_insert(1) [OF assms(2)]) simp_all
  have "entries h ?b5 = take pos (entries h b) @ zip (cells ?w n key) (map rid_of (cells 8 n rid)) @ drop pos (entries h b)"
    unfolding entries_def N ck cr using assms(2) by (simp add: take_zip drop_zip take_map drop_map)
  moreover have "links ?b5 = links b" by (simp only: wn(4) wrd(3) wk(3) r(4) k(4))
  moreover have "node_ok h ?b5" using hdr wn(5) num nd(4) assms(3) l(4) by (simp add: node_ok_def PAGE_SIZE_def)
  ultimately show ?thesis using run num by blast
qed

lemma erase_pair_ok:
  assumes "node_ok h b" "pos < nat (n_num b)"
  shows "\<exists>b'. erase_pair h (int pos) b = (Inr (), b') \<and> node_ok h b' \<and> n_num b' = n_num b - 1 \<and>
    entries h b' = take pos (entries h b) @ drop (pos + 1) (entries h b) \<and> links b' = links b"
proof -
  note nd = node_okD [OF assms(1)]
  note hdr = nd(1) and l = ix_layout [OF nd(1)]
  let ?N = "nat (n_num b)" and ?w = "klen h"
  define m where "m = ?N - pos - 1"
  have m: "?N = pos + 1 + m" "n_num b - int pos - 1 = int m" "int pos + 1 = int (pos + 1)" using assms(2) nd(4) by (auto simp: m_def)
  have le: "pos + m \<le> slots h" "pos + 1 + m \<le> slots h" using nd(3) m by auto
  note k = move_keys [OF hdr nd(2) le]
  let ?b1 = "wr (24 + pos * ?w) (rd (24 + (pos + 1) * ?w) (m * ?w) b) b"
  note r = move_rids [OF hdr k(6) le]
  let ?b2 = "wr (24 + slots h * ?w + pos * 8) (rd (24 + slots h * ?w + (pos + 1) * 8) (m * 8) ?b1) ?b1"
  have i32: "in32 (n_num b - 1)" using in32_slots [OF hdr, of "?N - 1"] nd(3,4) assms(2) by (simp add: of_nat_diff)
  note wn = write_num [OF hdr r(6) i32]
  let ?b3 = "wr 8 (le32 (n_num b - 1)) ?b2"
  have run: "erase_pair h (int pos) b = (Inr (), ?b3)"
    unfolding erase_pair_def
    by (simp only: bind_Inr m(2,3) GetSize_ok [OF nd(2)] k(1) r(1) SetSize_ok [OF r(6)])
  have num: "n_num ?b3 = n_num b - 1" by (rule wn(1))
  have N: "nat (n_num ?b3) = ?N - 1" using num nd(4) by simp
  have kr: "kreg h ?b3 = wr (pos * ?w) (rd ((pos + 1) * ?w) ((?N - pos - 1) * ?w) (kreg h b)) (kreg h b)"
    by (simp only: wn(2) r(3) k(2) m_def [symmetric])
  have rr: "rreg h ?b3 = wr (pos * 8) (rd ((pos + 1) * 8) ((?N - pos - 1) * 8) (rreg h b)) (rreg h b)"
    by (simp only: wn(3) r(2) k(3) m_def [symmetric])
  have ck: "cells ?w (?N - 1) (kreg h ?b3) = take pos (cells ?w ?N (kreg h b)) @ drop (pos + 1) (cells ?w ?N (kreg h b))"
    unfolding kr using nd(6) mult_le_mono1 [OF nd(3), of ?w] by (intro array_erase(1) [OF assms(2)]) simp
  have cr: "cells 8 (?N - 1) (rreg h ?b3) = take pos (cells 8 ?N (rreg h b)) @ drop (pos + 1) (cells 8 ?N (rreg h b))"
    unfolding rr using nd(3,7) by (intro array_erase(1) [OF assms(2)]) simp
  have "entries h ?b3 = take pos (entries h b) @ drop (pos + 1) (entries h b)"
    unfolding entries_def N ck cr using assms(2) by (simp add: take_zip drop_zip take_map drop_map)
  moreover have "links ?b3 = links b" by (simp only: wn(4) r(4) k(4))
  moreover have "node_ok h ?b3" using hdr wn(5) num assms(1,2) by (simp add: node_ok_def PAGE_SIZE_def)
  ultimately show ?thesis using run num by blast
qed


section \<open>Sorted association lists\<close>

definition strict :: "('k :: linorder \<times> 'v) list \<Rightarrow> bool" where
  "strict xs \<longleftrightarrow> sorted_wrt (\<lambda>a b. fst a < fst b) xs"

definition lower :: "('k :: linorder \<times> 'v) list \<Rightarrow> 'k \<Rightarrow> nat" where
  "lower xs k = length (takeWhile (\<lambda>e. fst e < k) xs)"

lemma lower_le: "lower xs k \<le> length xs"
  by (simp add: lower_def length_takeWhile_le)

lemma lower_unique:
  assumes "p \<le> length xs" "\<And>i. i < p \<Longrightarrow> fst (xs ! i) < k" "p < length xs \<Longrightarrow> \<not> fst (xs ! p) < k"
  shows "lower xs k = p"
proof -
  have "takeWhile (\<lambda>e. fst e < k) xs = take p xs"
    using assms by (intro takeWhile_eq_take_P_nth) auto
  then show ?thesis using assms(1) by (simp add: lower_def)
qed

lemma lower_split:
  assumes "strict xs"
  shows "\<forall>e \<in> set (take (lower xs k) xs). fst e < k" "\<forall>e \<in> set (drop (lower xs k) xs). k \<le> fst e"
    "\<forall>e \<in> set (drop (lower xs k + 1) xs). k < fst e"
proof -
  have t: "take (lower xs k) xs = takeWhile (\<lambda>e. fst e < k) xs" by (simp add: lower_def takeWhile_eq_take [symmetric])
  have d: "drop (lower xs k) xs = dropWhile (\<lambda>e. fst e < k) xs" by (simp add: lower_def dropWhile_eq_drop)
  show "\<forall>e \<in> set (take (lower xs k) xs). fst e < k" unfolding t by (auto dest: set_takeWhileD)
  have s: "strict (dropWhile (\<lambda>e. fst e < k) xs)" using assms unfolding strict_def
    by (metis d sorted_wrt_drop)
  show "\<forall>e \<in> set (drop (lower xs k) xs). k \<le> fst e" "\<forall>e \<in> set (drop (lower xs k + 1) xs). k < fst e"
  proof -
    consider "dropWhile (\<lambda>e. fst e < k) xs = []" | e es where "dropWhile (\<lambda>e. fst e < k) xs = e # es" "k \<le> fst e"
      by (metis hd_dropWhile list.exhaust list.sel(1) not_less list.distinct(1))
    then have "(\<forall>e \<in> set (dropWhile (\<lambda>e. fst e < k) xs). k \<le> fst e) \<and> (\<forall>e \<in> set (drop 1 (dropWhile (\<lambda>e. fst e < k) xs)). k < fst e)"
    proof cases
      case 1
      show ?thesis unfolding 1 by simp
    next
      case (2 e es)
      then show ?thesis using s by (auto simp: strict_def intro: order_less_imp_le order_le_less_trans)
    qed
    moreover have "drop (lower xs k + 1) xs = drop 1 (dropWhile (\<lambda>e. fst e < k) xs)" using d by (metis add.commute drop_drop)
    ultimately show "\<forall>e \<in> set (drop (lower xs k) xs). k \<le> fst e" "\<forall>e \<in> set (drop (lower xs k + 1) xs). k < fst e"
      using d by auto
  qed
qed

lemma map_of_None: "\<forall>e \<in> set xs. fst e \<noteq> k \<Longrightarrow> map_of xs k = None"
  by (auto simp: map_of_eq_None_iff)

lemma strict_lookup:
  assumes "strict xs"
  shows "map_of xs k = (if lower xs k < length xs \<and> fst (xs ! lower xs k) = k then Some (snd (xs ! lower xs k)) else None)"
proof -
  let ?p = "lower xs k"
  have t: "map_of (take ?p xs) k = None" using lower_split(1) [OF assms, of k] by (intro map_of_None) auto
  have xs: "xs = take ?p xs @ drop ?p xs" by simp
  have 1: "map_of xs k = map_of (drop ?p xs) k"
    by (subst xs) (simp only: map_of_append map_add_def t option.case_eq_if, simp split: option.splits)
  show ?thesis
  proof (cases "?p < length xs")
    case True
    then have "drop ?p xs = xs ! ?p # drop (?p + 1) xs" by (simp add: Cons_nth_drop_Suc)
    moreover have "map_of (drop (?p + 1) xs) k = None" using lower_split(3) [OF assms, of k] by (intro map_of_None) auto
    ultimately show ?thesis using 1 True by (cases "xs ! ?p") simp
  qed (simp add: 1)
qed

lemma strict_insert:
  assumes "strict xs" "map_of xs k = None"
  shows "strict (take (lower xs k) xs @ (k, v) # drop (lower xs k) xs)"
    "map_of (take (lower xs k) xs @ (k, v) # drop (lower xs k) xs) = (map_of xs)(k \<mapsto> v)"
proof -
  let ?p = "lower xs k"
  note l = lower_split [OF assms(1), of k]
  have ne: "\<forall>e \<in> set xs. fst e \<noteq> k" using assms(2) by (auto simp: map_of_eq_None_iff)
  have xs: "strict (take ?p xs @ drop ?p xs)" using assms(1) by simp
  have gt: "\<forall>e \<in> set (drop ?p xs). k < fst e" using l(2) ne by (metis in_set_dropD order_le_less)
  show "strict (take ?p xs @ (k, v) # drop ?p xs)"
    using xs l(1) gt unfolding strict_def sorted_wrt_append by (force simp del: append_take_drop_id)
  have t: "map_of (take ?p xs) k = None" using l(1) by (intro map_of_None) auto
  have "map_of (take ?p xs @ (k, v) # drop ?p xs) = (map_of (take ?p xs @ drop ?p xs))(k \<mapsto> v)"
    using t by (auto simp: map_of_append map_add_def fun_eq_iff simp del: append_take_drop_id split: option.splits)
  then show "map_of (take ?p xs @ (k, v) # drop ?p xs) = (map_of xs)(k \<mapsto> v)" by simp
qed

lemma strict_remove:
  assumes "strict xs" "lower xs k < length xs" "fst (xs ! lower xs k) = k"
  shows "strict (take (lower xs k) xs @ drop (lower xs k + 1) xs)"
    "map_of (take (lower xs k) xs @ drop (lower xs k + 1) xs) = (map_of xs)(k := None)"
proof -
  let ?p = "lower xs k"
  note l = lower_split [OF assms(1), of k]
  have xs: "xs = take ?p xs @ xs ! ?p # drop (?p + 1) xs" using assms(2) by (simp add: Cons_nth_drop_Suc)
  have "strict (take ?p xs @ xs ! ?p # drop (?p + 1) xs)" using assms(1) xs by simp
  then show "strict (take ?p xs @ drop (?p + 1) xs)" unfolding strict_def by (auto simp: sorted_wrt_append)
  have t: "map_of (take ?p xs) k = None" "map_of (drop (?p + 1) xs) k = None"
    using l(1,3) by (intro map_of_None; auto)+
  obtain v where v: "xs ! ?p = (k, v)" using assms(3) by (cases "xs ! ?p") simp
  have "map_of (take ?p xs @ drop (?p + 1) xs) = (map_of (take ?p xs @ (k, v) # drop (?p + 1) xs))(k := None)"
    using t by (auto simp: map_of_append map_add_def fun_eq_iff split: option.splits)
  then show "map_of (take ?p xs @ drop (?p + 1) xs) = (map_of xs)(k := None)" by (simp only: v [symmetric] xs [symmetric])
qed


section \<open>The order of keys\<close>

text \<open>
  Every key has a rank in the linear order of integer lists, and \<open>ix_compare\<close> compares ranks. NaNs
  have none.
\<close>

fun key_rank :: "ColType \<Rightarrow> bytes \<Rightarrow> int list" where
  "key_rank TYPE_INT a = [of_le32 a]"
| "key_rank TYPE_FLOAT a = [float_rank (of_le32 a)]"
| "key_rank TYPE_STRING a = map uint a"

definition valid_key :: "IxFileHdr \<Rightarrow> bytes \<Rightarrow> bool" where
  "valid_key h k \<longleftrightarrow> length k = klen h \<and> (col_type h = TYPE_FLOAT \<longrightarrow> \<not> float_nan (of_le32 k))"

abbreviation "rank h \<equiv> key_rank (col_type h)"

lemma memcmp_rank:
  "length a = length b \<Longrightarrow> (memcmp a b < 0 \<longleftrightarrow> map uint a < map uint b) \<and> (memcmp a b = 0 \<longleftrightarrow> map uint a = map uint b)"
proof (induction a b rule: memcmp.induct)
  case (1 a as b bs)
  then show ?case by (auto simp: word_less_def word_uint_eq_iff)
qed auto

lemma ix_compare_rank:
  assumes "valid_key h a" "valid_key h b"
  defines "c \<equiv> ix_compare a b (col_type h) (col_len h)"
  shows "c < 0 \<longleftrightarrow> rank h a < rank h b" "c = 0 \<longleftrightarrow> rank h a = rank h b" "c \<le> 0 \<longleftrightarrow> rank h a \<le> rank h b"
proof -
  have "(c < 0 \<longleftrightarrow> rank h a < rank h b) \<and> (c = 0 \<longleftrightarrow> rank h a = rank h b)"
    using assms memcmp_rank [of a b] by (cases "col_type h") (auto simp: valid_key_def klen_def float_less_def Let_def)
  then show "c < 0 \<longleftrightarrow> rank h a < rank h b" "c = 0 \<longleftrightarrow> rank h a = rank h b" "c \<le> 0 \<longleftrightarrow> rank h a \<le> rank h b"
    by (auto simp: order_le_less)
qed

definition ranked :: "IxFileHdr \<Rightarrow> bytes \<Rightarrow> (int list \<times> Rid) list" where
  "ranked h b = map (\<lambda>(k, r). (rank h k, r)) (entries h b)"

definition node_sorted :: "IxFileHdr \<Rightarrow> bytes \<Rightarrow> bool" where
  "node_sorted h b \<longleftrightarrow> node_ok h b \<and> strict (ranked h b) \<and> (\<forall>e \<in> set (entries h b). valid_key h (fst e))"

definition node_map :: "IxFileHdr \<Rightarrow> bytes \<Rightarrow> int list \<Rightarrow> Rid option" where
  "node_map h b = map_of (ranked h b)"

lemma length_ranked [simp]: "length (ranked h b) = nat (n_num b)"
  by (simp add: ranked_def)

lemma nth_ranked [simp]: "i < nat (n_num b) \<Longrightarrow> ranked h b ! i = (rank h (fst (entries h b ! i)), snd (entries h b ! i))"
  by (simp add: ranked_def case_prod_unfold)

lemma node_sortedD:
  assumes "node_sorted h b"
  shows "node_ok h b" "strict (ranked h b)" "i < nat (n_num b) \<Longrightarrow> valid_key h (fst (entries h b ! i))"
  using assms by (auto simp: node_sorted_def)

section \<open>Binary search\<close>

lemma compare_at_ok:
  assumes "node_ok h b" "int i < n_num b"
  shows "compare_at h (int i) t b = (Inr (ix_compare (fst (entries h b ! i)) t (col_type h) (col_len h)), b)"
  using get_key_ok(1) [OF assms] by (simp add: compare_at_def ret_def)

lemma bound_loop_ok:
  assumes "node_ok h b" "l \<le> r" "r \<le> nat (n_num b)"
    and "\<And>i j. i \<le> j \<Longrightarrow> j < nat (n_num b) \<Longrightarrow> Q j \<Longrightarrow> Q i"
    and "\<And>i. i < nat (n_num b) \<Longrightarrow> go (ix_compare (fst (entries h b ! i)) t (col_type h) (col_len h)) = Q i"
  shows "\<exists>p. bound_loop go h t (int l) (int r) b = (Inr (int p), b) \<and> l \<le> p \<and> p \<le> r \<and>
    (\<forall>i. l \<le> i \<and> i < p \<longrightarrow> Q i) \<and> (\<forall>i. p \<le> i \<and> i < r \<longrightarrow> \<not> Q i)"
  using assms(2,3)
proof (induction "r - l" arbitrary: l r rule: less_induct)
  case less
  show ?case
  proof (cases "l < r")
    case True
    let ?m = "(l + r) div 2"
    have mid: "(int l + int r) div 2 = int ?m" "l \<le> ?m" "?m < r" "int ?m + 1 = int (?m + 1)" using True by auto
    have m: "?m < nat (n_num b)" using mid less.prems by simp
    have ms: "r - (?m + 1) < r - l" "?m + 1 \<le> r" "?m - l < r - l" using mid(2,3) True by linarith+
    have c: "compare_at h (int ?m) t b = (Inr (ix_compare (fst (entries h b ! ?m)) t (col_type h) (col_len h)), b)"
      using m by (intro compare_at_ok [OF assms(1)]) simp
    have step: "bound_loop go h t (int l) (int r) b =
      (if Q ?m then bound_loop go h t (int (?m + 1)) (int r) b else bound_loop go h t (int l) (int ?m) b)"
      using True assms(5) [OF m] by (subst bound_loop.simps) (simp only: mid Let_def c, simp)
    show ?thesis
    proof (cases "Q ?m")
      case q: True
      obtain p where p: "bound_loop go h t (int (?m + 1)) (int r) b = (Inr (int p), b)" "?m + 1 \<le> p" "p \<le> r"
        "\<forall>i. ?m + 1 \<le> i \<and> i < p \<longrightarrow> Q i" "\<forall>i. p \<le> i \<and> i < r \<longrightarrow> \<not> Q i"
        using less.hyps [OF ms(1) ms(2) less.prems(2)] by blast
      have "Q i" if "i < p" for i using that p(4) assms(4) [of i ?m] q m by (cases "?m + 1 \<le> i") auto
      with p step q mid show ?thesis by (intro exI [of _ p]) auto
    next
      case q: False
      obtain p where p: "bound_loop go h t (int l) (int ?m) b = (Inr (int p), b)" "l \<le> p" "p \<le> ?m"
        "\<forall>i. l \<le> i \<and> i < p \<longrightarrow> Q i" "\<forall>i. p \<le> i \<and> i < ?m \<longrightarrow> \<not> Q i"
        using less.hyps [OF ms(3) mid(2) less_imp_le [OF m]] by blast
      have "\<not> Q i" if "p \<le> i" "i < r" for i
        using that p(5) assms(4) [of ?m i] q less.prems by (cases "i < ?m") auto
      with p step q mid show ?thesis by (intro exI [of _ p]) auto
    qed
  next
    case False
    then show ?thesis using less.prems by (intro exI [of _ l]) (auto simp: bound_loop.simps [of go h t "int r" "int r" b])
  qed
qed

lemma strict_nth: "strict xs \<Longrightarrow> i < j \<Longrightarrow> j < length xs \<Longrightarrow> fst (xs ! i) < fst (xs ! j)"
  by (simp add: strict_def sorted_wrt_iff_nth_less)

lemma node_lower_bound_ok:
  assumes "node_sorted h b" "valid_key h t"
  shows "node_lower_bound h t b = (Inr (int (lower (ranked h b) (rank h t))), b)"
proof -
  note n = node_sortedD [OF assms(1)]
  note nd = node_okD [OF n(1)]
  let ?Q = "\<lambda>i. rank h (fst (entries h b ! i)) < rank h t"
  have mono: "?Q i" if "i \<le> j" "j < nat (n_num b)" "?Q j" for i j
    using that strict_nth [OF n(2), of i j] by (cases "i = j") auto
  have go: "(ix_compare (fst (entries h b ! i)) t (col_type h) (col_len h) < 0) = ?Q i" if "i < nat (n_num b)" for i
    by (rule ix_compare_rank(1) [OF n(3) [OF that] assms(2)])
  from bound_loop_ok [OF n(1), of 0 "nat (n_num b)" ?Q "\<lambda>c. c < 0" t] mono go obtain p where
    p: "bound_loop (\<lambda>c. c < 0) h t (int 0) (int (nat (n_num b))) b = (Inr (int p), b)" "p \<le> nat (n_num b)"
    "\<forall>i<p. ?Q i" "\<forall>i. p \<le> i \<and> i < nat (n_num b) \<longrightarrow> \<not> ?Q i" by auto
  have "lower (ranked h b) (rank h t) = p" using p by (intro lower_unique) auto
  with p(1) nd(2,5) show ?thesis by (simp add: node_lower_bound_def)
qed

definition upper :: "('k :: linorder \<times> 'v) list \<Rightarrow> 'k \<Rightarrow> nat" where
  "upper xs k = length (takeWhile (\<lambda>e. fst e \<le> k) xs)"

lemma node_upper_bound_ok:
  assumes "node_sorted h b" "valid_key h t"
  shows "node_upper_bound h t b = (Inr (int (upper (ranked h b) (rank h t))), b)"
proof -
  note n = node_sortedD [OF assms(1)]
  note nd = node_okD [OF n(1)]
  let ?Q = "\<lambda>i. rank h (fst (entries h b ! i)) \<le> rank h t"
  have mono: "?Q i" if "i \<le> j" "j < nat (n_num b)" "?Q j" for i j
    using that strict_nth [OF n(2), of i j] by (cases "i = j") auto
  have go: "(ix_compare (fst (entries h b ! i)) t (col_type h) (col_len h) \<le> 0) = ?Q i" if "i < nat (n_num b)" for i
    by (rule ix_compare_rank(3) [OF n(3) [OF that] assms(2)])
  from bound_loop_ok [OF n(1), of 0 "nat (n_num b)" ?Q "\<lambda>c. c \<le> 0" t] mono go obtain p where
    p: "bound_loop (\<lambda>c. c \<le> 0) h t (int 0) (int (nat (n_num b))) b = (Inr (int p), b)" "p \<le> nat (n_num b)"
    "\<forall>i<p. ?Q i" "\<forall>i. p \<le> i \<and> i < nat (n_num b) \<longrightarrow> \<not> ?Q i" by auto
  have "takeWhile (\<lambda>e. fst e \<le> rank h t) (ranked h b) = take p (ranked h b)"
    using p by (intro takeWhile_eq_take_P_nth) auto
  then have "upper (ranked h b) (rank h t) = p" using p(2) by (simp add: upper_def)
  with p(1) nd(2,5) show ?thesis by (simp add: node_upper_bound_def)
qed


section \<open>A leaf is a sorted map\<close>

lemma key_at_is_ok:
  assumes "node_sorted h b" "valid_key h t"
  defines "p \<equiv> lower (ranked h b) (rank h t)"
  shows "key_at_is h (int p) t b = (Inr (node_map h b (rank h t) \<noteq> None), b)"
    and "node_map h b (rank h t) \<noteq> None \<Longrightarrow> p < nat (n_num b) \<and> fst (ranked h b ! p) = rank h t \<and>
      node_map h b (rank h t) = Some (snd (entries h b ! p))"
proof -
  note n = node_sortedD [OF assms(1)]
  note nd = node_okD [OF n(1)]
  have lk: "node_map h b (rank h t) = (if p < nat (n_num b) \<and> fst (ranked h b ! p) = rank h t then Some (snd (ranked h b ! p)) else None)"
    unfolding node_map_def p_def using strict_lookup [OF n(2)] by simp
  show "key_at_is h (int p) t b = (Inr (node_map h b (rank h t) \<noteq> None), b)"
  proof (cases "p < nat (n_num b)")
    case True
    then have "int p < n_num b" by linarith
    with True show ?thesis
      using nd(2,4) compare_at_ok [OF n(1), of p t] ix_compare_rank(2) [OF n(3) [OF True] assms(2)] lk
      by (simp add: key_at_is_def ret_def)
  next
    case False
    then have "\<not> int p < n_num b" by linarith
    with False show ?thesis using nd(2,4) lk by (simp add: key_at_is_def ret_def)
  qed
  show "p < nat (n_num b) \<and> fst (ranked h b ! p) = rank h t \<and> node_map h b (rank h t) = Some (snd (entries h b ! p))"
    if "node_map h b (rank h t) \<noteq> None"
  proof -
    from that lk have "p < nat (n_num b)" "fst (ranked h b ! p) = rank h t" by (auto split: if_splits)
    with lk show ?thesis by simp
  qed
qed

lemma LeafLookup_ok:
  assumes "node_sorted h b" "valid_key h t"
  shows "LeafLookup h t b = (Inr (node_map h b (rank h t)), b)"
proof (cases "node_map h b (rank h t) = None")
  case True
  then show ?thesis
    using key_at_is_ok(1) [OF assms] by (simp add: LeafLookup_def node_lower_bound_ok [OF assms] ret_def)
next
  case False
  note k = key_at_is_ok [OF assms]
  note p = k(2) [OF False]
  have "int (lower (ranked h b) (rank h t)) < n_num b" using p node_okD(5) [OF node_sortedD(1) [OF assms(1)]] by linarith
  from get_key_ok(2) [OF node_sortedD(1) [OF assms(1)] this] show ?thesis
    using k(1) p by (simp add: LeafLookup_def node_lower_bound_ok [OF assms] ret_def)
qed

lemma cells_1: "length xs = w \<Longrightarrow> cells w 1 xs = [xs]"
  by (simp add: cells_def)

lemma rid_of_rid_bytes: "in32 (rid_page_no r) \<Longrightarrow> in32 (rid_slot_no r) \<Longrightarrow> rid_of (rid_bytes r) = r"
  by (rule Rid.equality) (simp_all add: rid_of_def rid_bytes_def rd_def)

lemma length_rid_bytes [simp]: "length (rid_bytes r) = 8"
  by (simp add: rid_bytes_def)

definition rid_in32 :: "Rid \<Rightarrow> bool" where
  "rid_in32 r \<longleftrightarrow> in32 (rid_page_no r) \<and> in32 (rid_slot_no r)"

lemma Insert_ok:
  assumes "node_sorted h b" "valid_key h k" "rid_in32 v" "nat (n_num b) < slots h"
  shows "\<exists>b'. node_Insert h k v b = (Inr (n_num b'), b') \<and> node_sorted h b' \<and> links b' = links b \<and>
    (if node_map h b (rank h k) = None then node_map h b' = (node_map h b)(rank h k \<mapsto> v) \<and> n_num b' = n_num b + 1
     else b' = b)"
proof (cases "node_map h b (rank h k) = None")
  case False
  then show ?thesis
    using assms key_at_is_ok(1) [OF assms(1,2)] node_okD(2) [OF node_sortedD(1) [OF assms(1)]]
    by (simp add: node_Insert_def node_lower_bound_ok [OF assms(1,2)])
next
  case True
  note n = node_sortedD [OF assms(1)]
  let ?p = "lower (ranked h b) (rank h k)"
  have p: "?p \<le> nat (n_num b)" using lower_le [of "ranked h b"] by simp
  have kl: "length k = 1 * klen h" "length (rid_bytes v) = 1 * 8" using assms(2) by (simp_all add: valid_key_def)
  from insert_pairs_ok [OF n(1) p _ kl] assms(4) obtain b' where
    i: "insert_pairs h (int ?p) k (rid_bytes v) (int 1) b = (Inr (), b')" "node_ok h b'" "n_num b' = n_num b + int 1"
    and e: "entries h b' = take ?p (entries h b) @ zip (cells (klen h) 1 k) (map rid_of (cells 8 1 (rid_bytes v))) @ drop ?p (entries h b)"
    and l: "links b' = links b" by auto
  have e': "entries h b' = take ?p (entries h b) @ (k, v) # drop ?p (entries h b)"
    using e assms(2,3) by (simp add: cells_1 [unfolded One_nat_def] valid_key_def rid_of_rid_bytes rid_in32_def)
  have r: "ranked h b' = take ?p (ranked h b) @ (rank h k, v) # drop ?p (ranked h b)"
    by (simp add: ranked_def e' take_map drop_map)
  have "strict (ranked h b')" "node_map h b' = (node_map h b)(rank h k \<mapsto> v)"
    unfolding node_map_def r using strict_insert [OF n(2)] True by (simp_all add: node_map_def)
  moreover have "\<forall>e \<in> set (entries h b'). valid_key h (fst e)"
    using assms(1,2) e' by (auto simp: node_sorted_def dest: in_set_takeD in_set_dropD)
  moreover have "node_Insert h k v b = (Inr (n_num b'), b')"
    using True key_at_is_ok(1) [OF assms(1,2)] i(1) node_okD(2) [OF i(2)]
    by (simp add: node_Insert_def node_lower_bound_ok [OF assms(1,2)])
  ultimately show ?thesis using True i l by (auto simp: node_sorted_def)
qed

lemma Remove_ok:
  assumes "node_sorted h b" "valid_key h k"
  shows "\<exists>b'. node_Remove h k b = (Inr (n_num b'), b') \<and> node_sorted h b' \<and> links b' = links b \<and>
    node_map h b' = (node_map h b)(rank h k := None) \<and>
    n_num b' = (if node_map h b (rank h k) = None then n_num b else n_num b - 1)"
proof (cases "node_map h b (rank h k) = None")
  case True
  then have "(node_map h b)(rank h k := None) = node_map h b" by (metis fun_upd_triv)
  then show ?thesis
    using True assms key_at_is_ok(1) [OF assms] node_okD(2) [OF node_sortedD(1) [OF assms(1)]]
    by (simp add: node_Remove_def node_lower_bound_ok [OF assms] ret_def)
next
  case False
  note n = node_sortedD [OF assms(1)]
  let ?p = "lower (ranked h b) (rank h k)"
  note p = key_at_is_ok(2) [OF assms False]
  from erase_pair_ok [OF n(1)] p obtain b' where
    i: "erase_pair h (int ?p) b = (Inr (), b')" "node_ok h b'" "n_num b' = n_num b - 1"
    and e: "entries h b' = take ?p (entries h b) @ drop (?p + 1) (entries h b)" and l: "links b' = links b" by blast
  have r: "ranked h b' = take ?p (ranked h b) @ drop (?p + 1) (ranked h b)"
    by (simp add: ranked_def e take_map drop_map)
  have "strict (ranked h b')" "node_map h b' = (node_map h b)(rank h k := None)"
    unfolding node_map_def r using p by (intro strict_remove [OF n(2)]; simp only: length_ranked)+
  moreover have "\<forall>e \<in> set (entries h b'). valid_key h (fst e)"
    using assms(1) e by (auto simp: node_sorted_def dest: in_set_takeD in_set_dropD)
  moreover have "node_Remove h k b = (Inr (n_num b'), b')"
    using False key_at_is_ok(1) [OF assms] i(1) node_okD(2) [OF i(2)]
    by (simp add: node_Remove_def node_lower_bound_ok [OF assms])
  ultimately show ?thesis using False i l by (auto simp: node_sorted_def)
qed

text \<open>The search in an inner node, as it is written: the child behind the position of the key.\<close>

lemma InternalLookup_ok:
  assumes "node_sorted h b" "valid_key h k" "upper (ranked h b) (rank h k) < nat (n_num b)"
  shows "InternalLookup h k b = (Inr (rid_page_no (snd (entries h b ! upper (ranked h b) (rank h k)))), b)"
proof -
  have "int (upper (ranked h b) (rank h k)) < n_num b" using assms(3) by linarith
  from get_key_ok(2) [OF node_sortedD(1) [OF assms(1)] this] show ?thesis
    by (simp add: InternalLookup_def node_upper_bound_ok [OF assms(1,2)] ValueAt_def ret_def)
qed

end
