(* ===== verification/Simulation.thy ===== *)
theory Simulation
  imports Defs
begin

text \<open>
  Forward simulation of a specification by a component, once for all components.

  \<open>runs\<close> are the sequences of calls that clients make on a component: \<open>allowed\<close> says which calls
  they may make in which state, and the outcome of every call is recorded, exceptions included.
  \<open>spec_runs\<close> are the sequences that the specification has, all of them without exceptions. A component
  that simulates its specification call by call does so in every run, and never gets stuck.
\<close>

inductive runs :: "('op \<Rightarrow> ('s, 'out) prog) \<Rightarrow> ('op \<Rightarrow> 's \<Rightarrow> bool) \<Rightarrow> 's \<Rightarrow> ('op \<times> (fault + 'out)) list \<Rightarrow> 's \<Rightarrow> bool"
  for exec allowed where
  runs_done: "runs exec allowed s [] s"
| runs_step: "allowed op s \<Longrightarrow> exec op s = (res, s1) \<Longrightarrow> runs exec allowed s1 tr s' \<Longrightarrow> runs exec allowed s ((op, res) # tr) s'"

fun spec_runs :: "('m \<Rightarrow> 'op \<Rightarrow> 'out \<Rightarrow> 'm \<Rightarrow> bool) \<Rightarrow> 'm \<Rightarrow> ('op \<times> (fault + 'out)) list \<Rightarrow> 'm \<Rightarrow> bool" where
  "spec_runs spec m [] m' \<longleftrightarrow> m' = m"
| "spec_runs spec m ((op, res) # tr) m' \<longleftrightarrow> (\<exists>out m1. res = Inr out \<and> spec m op out m1 \<and> spec_runs spec m1 tr m')"

locale simulation =
  fixes exec :: "'op \<Rightarrow> ('s, 'out) prog" and allowed :: "'op \<Rightarrow> 's \<Rightarrow> bool"
    and spec :: "'m \<Rightarrow> 'op \<Rightarrow> 'out \<Rightarrow> 'm \<Rightarrow> bool" and abst :: "'s \<Rightarrow> 'm" and inv :: "'s \<Rightarrow> bool"
  assumes step: "inv s \<Longrightarrow> allowed op s \<Longrightarrow>
    \<exists>out s'. exec op s = (Inr out, s') \<and> inv s' \<and> spec (abst s) op out (abst s')"
begin

lemma run_refines: "runs exec allowed s tr s' \<Longrightarrow> inv s \<Longrightarrow> inv s' \<and> spec_runs spec (abst s) tr (abst s')"
proof (induction rule: runs.induct)
  case (runs_step op s res s1 tr s')
  from step [OF runs_step.prems runs_step.hyps(1)] runs_step.hyps(2) obtain out where
    "res = Inr out" "inv s1" "spec (abst s) op out (abst s1)" by auto
  with runs_step.IH show ?case by auto
qed simp

lemma not_stuck:
  assumes "inv s" "runs exec allowed s tr s'" "allowed op s'"
  shows "\<exists>out s''. exec op s' = (Inr out, s'') \<and> spec (abst s') op out (abst s'')"
  using step [of s' op] run_refines [OF assms(2,1)] assms(3) by blast

lemma refines:
  assumes "inv s" "runs exec allowed s tr s'"
  shows "inv s' \<and> spec_runs spec (abst s) tr (abst s') \<and>
    (\<forall>op. allowed op s' \<longrightarrow> (\<exists>out s''. exec op s' = (Inr out, s'') \<and> spec (abst s') op out (abst s'')))"
  using run_refines [OF assms(2,1)] not_stuck [OF assms] by blast

end

end
