(* ===== verification/Ix_Spec.thy ===== *)
theory Ix_Spec
  imports Ix_Index Ix_Node_Spec Simulation
begin

text \<open>
  What the index does while it is one leaf, and where the code for larger trees departs from the
  search tree it is meant to build.

  \<open>leaf_index\<close> is the state of an index whose root is a leaf that is not full; \<open>ix_contents\<close> is the map
  from keys (by rank) to record identifiers that it represents.
\<close>

section \<open>Visits to a node\<close>

definition ix_pid :: "ix_state \<Rightarrow> int \<Rightarrow> PageId" where
  "ix_pid s p = \<lparr>pid_fd = ixh_fd (ix_fh s), pid_page_no = p\<rparr>"

definition ix_page :: "ix_state \<Rightarrow> int \<Rightarrow> bytes option" where
  "ix_page s p = logical (ix_bpm s) (ix_pid s p)"

lemma on_pool_eq [simp]: "m (ix_bpm s) = (r, b) \<Longrightarrow> on_pool m s = (r, s\<lparr>ix_bpm := b\<rparr>)"
  by (simp add: on_pool_def)

lemma ix_upd_simps [simp]:
  "ix_hdr (s\<lparr>ix_bpm := b\<rparr>) = ix_hdr s" "ix_pid (s\<lparr>ix_bpm := b\<rparr>) = ix_pid s"
  by (simp_all add: ix_hdr_def ix_pid_def fun_eq_iff)

lemma FetchNode_eq:
  "FetchPage (ix_pid s p) (ix_bpm s) = (Inr (Some f), b) \<Longrightarrow> FetchNode p s = (Inr f, s\<lparr>ix_bpm := b\<rparr>)"
  by (simp add: FetchNode_def ix_pid_def ret_def)

lemma poke_same [simp]: "poke f (page_data f b) b = b"
  by (simp add: poke_def upd_page_def page_data_def)

lemma on_node_read:
  "m (ix_hdr s) (page_data f (ix_bpm s)) = (r, page_data f (ix_bpm s)) \<Longrightarrow> on_node f m s = (r, s)"
  by (simp add: on_node_def)

lemma on_node_write:
  "m (ix_hdr s) (page_data f (ix_bpm s)) = (r, b') \<Longrightarrow> on_node f m s = (r, s\<lparr>ix_bpm := poke f b' (ix_bpm s)\<rparr>)"
  by (simp add: on_node_def)

lemma node_unpin_eq:
  "pg_id (pages (ix_bpm s) f) = pid \<Longrightarrow> UnpinPage pid d (ix_bpm s) = (r, b) \<Longrightarrow> node_unpin f d s = (Inr (), s\<lparr>ix_bpm := b\<rparr>)"
  by (simp add: node_unpin_def unpin_frame_def)

lemma field_reads:
  assumes "length b = 4096"
  shows "IsLeafPage b = (Inr (n_leaf b), b)" "GetParentPageNo b = (Inr (n_parent b), b)"
    "IsRootPage b = (Inr (n_parent b = INVALID_PAGE_ID), b)"
    "GetNextLeaf b = (Inr (n_next b), b)" "GetPrevLeaf b = (Inr (n_prev b), b)"
proof -
  show "IsLeafPage b = (Inr (n_leaf b), b)"
    using assms pg_ld_ok [of 12 12 1 1 b] by (simp add: IsLeafPage_def OFF_is_leaf_def n_leaf_def ret_def)
  show p: "GetParentPageNo b = (Inr (n_parent b), b)"
  proof -
    have "pg_ld 4 4 b = (Inr (rd 4 4 b), b)" by (rule pg_ld_ok) (simp_all add: assms)
    then show ?thesis by (simp add: GetParentPageNo_def pg_ld_int_def OFF_parent_def n_parent_def ret_def)
  qed
  then show "IsRootPage b = (Inr (n_parent b = INVALID_PAGE_ID), b)"
    by (simp add: IsRootPage_def ret_def)
  show "GetNextLeaf b = (Inr (n_next b), b)"
    using assms pg_ld_ok [of 20 20 4 4 b] by (simp add: GetNextLeaf_def pg_ld_int_def OFF_next_leaf_def n_next_def ret_def)
  show "GetPrevLeaf b = (Inr (n_prev b), b)"
    using assms pg_ld_ok [of 16 16 4 4 b] by (simp add: GetPrevLeaf_def pg_ld_int_def OFF_prev_leaf_def n_prev_def ret_def)
qed

section \<open>An index of one leaf\<close>

definition root_leaf :: "IxFileHdr \<Rightarrow> bytes \<Rightarrow> bool" where
  "root_leaf h b \<longleftrightarrow> node_sorted h b \<and> n_leaf b \<and> n_parent b = INVALID_PAGE_ID \<and> nat (n_num b) < slots h"

definition root_bytes :: "ix_state \<Rightarrow> bytes" where
  "root_bytes s = the (ix_page s (root_page (ix_hdr s)))"

definition leaf_index :: "ix_state \<Rightarrow> bool" where
  "leaf_index s \<longleftrightarrow> quiet (ix_bpm s) \<and> ix_page s (root_page (ix_hdr s)) \<noteq> None \<and> root_leaf (ix_hdr s) (root_bytes s)"

definition ix_contents :: "ix_state \<Rightarrow> int list \<Rightarrow> Rid option" where
  "ix_contents s = node_map (ix_hdr s) (root_bytes s)"

lemma leaf_indexD:
  assumes "leaf_index s"
  shows "quiet (ix_bpm s)" "logical (ix_bpm s) (ix_pid s (root_page (ix_hdr s))) = Some (root_bytes s)"
    "root_leaf (ix_hdr s) (root_bytes s)" "node_sorted (ix_hdr s) (root_bytes s)" "length (root_bytes s) = 4096"
    "n_leaf (root_bytes s)" "n_parent (root_bytes s) = INVALID_PAGE_ID" "nat (n_num (root_bytes s)) < slots (ix_hdr s)"
  using assms node_okD(2) [OF node_sortedD(1)] by (auto simp: leaf_index_def ix_page_def root_bytes_def root_leaf_def)

text \<open>The state after a visit that leaves \<open>b'\<close> in the root.\<close>

lemma leaf_index_after:
  assumes "leaf_index s" "quiet b2" "logical b2 (ix_pid s (root_page (ix_hdr s))) = Some b'" "root_leaf (ix_hdr s) b'"
  shows "leaf_index (s\<lparr>ix_bpm := b2\<rparr>)" "ix_contents (s\<lparr>ix_bpm := b2\<rparr>) = node_map (ix_hdr s) b'"
    "root_bytes (s\<lparr>ix_bpm := b2\<rparr>) = b'"
  using assms by (simp_all add: leaf_index_def ix_page_def root_bytes_def ix_contents_def)

lemma FindLeafPage_ok:
  assumes "leaf_index s" "FetchPage (ix_pid s (root_page (ix_hdr s))) (ix_bpm s) = (Inr (Some f), b1)" "page_data f b1 = root_bytes s"
  shows "FindLeafPage (Suc n) key s = (Inr f, s\<lparr>ix_bpm := b1\<rparr>)"
proof -
  have "on_node f (\<lambda>h. IsLeafPage) (s\<lparr>ix_bpm := b1\<rparr>) = (Inr True, s\<lparr>ix_bpm := b1\<rparr>)"
    using field_reads(1) [OF leaf_indexD(5) [OF assms(1)]] leaf_indexD(6) [OF assms(1)] assms(3) by (intro on_node_read) simp
  then show ?thesis by (simp add: FindLeafPage_def FetchNode_eq [OF assms(2)] ret_def)
qed

lemma GetValue_ok:
  assumes "leaf_index s" "valid_key (ix_hdr s) key"
  shows "\<exists>s'. GetValue (Suc n) key s = (Inr (ix_contents s (rank (ix_hdr s) key)), s') \<and> leaf_index s' \<and>
    ix_contents s' = ix_contents s \<and> ix_hdr s' = ix_hdr s"
proof -
  note i = leaf_indexD [OF assms(1)]
  let ?pid = "ix_pid s (root_page (ix_hdr s))"
  from visit_read [OF i(1,2)] obtain f b1 b2 where
    F: "FetchPage ?pid (ix_bpm s) = (Inr (Some f), b1)" "page_data f b1 = root_bytes s" "pg_id (pages b1 f) = ?pid"
    "UnpinPage ?pid False b1 = (True, b2)" "quiet b2" and lg: "\<forall>p c. logical (ix_bpm s) p = Some c \<longrightarrow> logical b2 p = Some c"
    by blast
  have lk: "on_node f (\<lambda>h. LeafLookup h key) (s\<lparr>ix_bpm := b1\<rparr>) =
      (Inr (ix_contents s (rank (ix_hdr s) key)), s\<lparr>ix_bpm := b1\<rparr>)"
    using LeafLookup_ok [OF i(4) assms(2)] F(2) by (intro on_node_read) (simp add: ix_contents_def)
  have "node_unpin f False (s\<lparr>ix_bpm := b1\<rparr>) = (Inr (), s\<lparr>ix_bpm := b2\<rparr>)"
    using node_unpin_eq [of "s\<lparr>ix_bpm := b1\<rparr>" f ?pid False True b2] F by simp
  then have "GetValue (Suc n) key s = (Inr (ix_contents s (rank (ix_hdr s) key)), s\<lparr>ix_bpm := b2\<rparr>)"
    by (simp add: GetValue_def FindLeafPage_ok [OF assms(1) F(1,2)] lk ret_def)
  moreover have "logical b2 ?pid = Some (root_bytes s)" using lg i(2) by blast
  ultimately show ?thesis using leaf_index_after [OF assms(1) F(5) _ i(3)] by (simp add: ix_contents_def)
qed

lemma root_leaf_links: "links b' = links b \<Longrightarrow> root_leaf h b \<Longrightarrow> node_sorted h b' \<Longrightarrow> nat (n_num b') < slots h \<Longrightarrow> root_leaf h b'"
  using links_fields [of b' b] by (simp add: root_leaf_def)

lemma insert_entry_ok:
  assumes "leaf_index s" "valid_key (ix_hdr s) key" "rid_in32 v"
    and "ix_contents s (rank (ix_hdr s) key) = None \<longrightarrow> n_num (root_bytes s) + 1 < GetMaxSize (ix_hdr s)"
  shows "\<exists>s'. insert_entry (Suc n) key v s = (Inr True, s') \<and> leaf_index s' \<and> ix_hdr s' = ix_hdr s \<and>
    ix_contents s' = (if ix_contents s (rank (ix_hdr s) key) = None then (ix_contents s)(rank (ix_hdr s) key \<mapsto> v) else ix_contents s)"
proof -
  note i = leaf_indexD [OF assms(1)]
  let ?pid = "ix_pid s (root_page (ix_hdr s))" and ?h = "ix_hdr s"
  note nd = node_okD [OF node_sortedD(1) [OF i(4)]]
  from Insert_ok [OF i(4) assms(2,3) i(8)] obtain b' where
    I: "node_Insert ?h key v (root_bytes s) = (Inr (n_num b'), b')" "node_sorted ?h b'" "links b' = links (root_bytes s)"
    and m: "if node_map ?h (root_bytes s) (rank ?h key) = None
      then node_map ?h b' = (node_map ?h (root_bytes s))(rank ?h key \<mapsto> v) \<and> n_num b' = n_num (root_bytes s) + 1 else b' = root_bytes s"
    by blast
  have sz: "n_num b' < GetMaxSize ?h"
    using m assms(4) i(8) nd(4) ix_layout(4) [OF nd(1)] by (auto simp: ix_contents_def GetMaxSize_def slots_def split: if_splits)
  have rl: "root_leaf ?h b'"
    using sz ix_layout(3,4) [OF nd(1)] unfolding GetMaxSize_def by (intro root_leaf_links [OF I(3) i(3) I(2)]) linarith
  have "length b' = PAGE_SIZE" using I(2) by (simp add: node_sorted_def node_ok_def)
  from visit_write [OF i(1,2) this] obtain f b1 b2 where
    F: "FetchPage ?pid (ix_bpm s) = (Inr (Some f), b1)" "page_data f b1 = root_bytes s" "pg_id (pages b1 f) = ?pid"
    "UnpinPage ?pid True (poke f b' b1) = (True, b2)" "quiet b2" "logical b2 ?pid = Some b'" by blast
  have ins: "on_node f (\<lambda>h. node_Insert h key v) (s\<lparr>ix_bpm := b1\<rparr>) = (Inr (n_num b'), s\<lparr>ix_bpm := poke f b' b1\<rparr>)"
    using on_node_write [of "\<lambda>h. node_Insert h key v" "s\<lparr>ix_bpm := b1\<rparr>" f "Inr (n_num b')" b'] I(1) F(2) by simp
  have "node_unpin f True (s\<lparr>ix_bpm := poke f b' b1\<rparr>) = (Inr (), s\<lparr>ix_bpm := b2\<rparr>)"
    using node_unpin_eq [of "s\<lparr>ix_bpm := poke f b' b1\<rparr>" f ?pid True True b2] F by simp
  then have "insert_entry (Suc n) key v s = (Inr True, s\<lparr>ix_bpm := b2\<rparr>)"
    using sz by (simp add: insert_entry_def FindLeafPage_ok [OF assms(1) F(1,2)] ins ret_def)
  then show ?thesis using leaf_index_after [OF assms(1) F(5,6) rl] m by (auto simp: ix_contents_def split: if_splits)
qed

lemma delete_entry_ok:
  assumes "leaf_index s" "valid_key (ix_hdr s) key" "ix_contents s (rank (ix_hdr s) key) = None \<or> 1 < n_num (root_bytes s)"
  shows "\<exists>s'. delete_entry (Suc n) key s = (Inr (ix_contents s (rank (ix_hdr s) key) \<noteq> None), s') \<and> leaf_index s' \<and>
    ix_hdr s' = ix_hdr s \<and> ix_contents s' = (ix_contents s)(rank (ix_hdr s) key := None)"
proof -
  note i = leaf_indexD [OF assms(1)]
  let ?pid = "ix_pid s (root_page (ix_hdr s))" and ?h = "ix_hdr s" and ?b = "root_bytes s"
  note nd = node_okD [OF node_sortedD(1) [OF i(4)]]
  from Remove_ok [OF i(4) assms(2)] obtain b' where
    R: "node_Remove ?h key ?b = (Inr (n_num b'), b')" "node_sorted ?h b'" "links b' = links ?b"
    "node_map ?h b' = (node_map ?h ?b)(rank ?h key := None)"
    "n_num b' = (if node_map ?h ?b (rank ?h key) = None then n_num ?b else n_num ?b - 1)" by blast
  have rl: "root_leaf ?h b'" using root_leaf_links [OF R(3) i(3) R(2)] R(5) i(8) by (simp split: if_splits)
  have l': "length b' = 4096" using node_okD(2) [OF node_sortedD(1) [OF R(2)]] .
  then have "length b' = PAGE_SIZE" by (simp add: PAGE_SIZE_def)
  from visit_write [OF i(1,2) this] obtain f b1 b2 where
    F: "FetchPage ?pid (ix_bpm s) = (Inr (Some f), b1)" "page_data f b1 = ?b" "pg_id (pages b1 f) = ?pid"
    "UnpinPage ?pid True (poke f b' b1) = (True, b2)" "quiet b2" "logical b2 ?pid = Some b'" by blast
  let ?s1 = "s\<lparr>ix_bpm := b1\<rparr>" and ?s2 = "s\<lparr>ix_bpm := poke f b' b1\<rparr>" and ?s3 = "s\<lparr>ix_bpm := b2\<rparr>"
  have gs: "on_node f (\<lambda>h. GetSize) ?s1 = (Inr (n_num ?b), ?s1)" using F(2) i(5) by (intro on_node_read) simp
  have rm: "on_node f (\<lambda>h. node_Remove h key) ?s1 = (Inr (n_num b'), ?s2)"
    using on_node_write [of "\<lambda>h. node_Remove h key" ?s1 f "Inr (n_num b')" b'] R(1) F(2) by simp
  have un: "node_unpin f True ?s2 = (Inr (), ?s3)" using node_unpin_eq [of ?s2 f ?pid True True b2] F by simp
  have rd2: "on_node f (\<lambda>h. GetSize) ?s2 = (Inr (n_num b'), ?s2)" "on_node f (\<lambda>h. IsRootPage) ?s2 = (Inr True, ?s2)"
    "on_node f (\<lambda>h. IsLeafPage) ?s2 = (Inr True, ?s2)"
    using field_reads [OF l'] rl l' by (intro on_node_read; simp add: root_leaf_def)+
  have "delete_entry (Suc n) key s = (Inr (node_map ?h ?b (rank ?h key) \<noteq> None), ?s3)"
  proof (cases "node_map ?h ?b (rank ?h key) = None")
    case True
    then show ?thesis using R(5) by (simp add: delete_entry_def FindLeafPage_ok [OF assms(1) F(1,2)] gs rm un ret_def)
  next
    case False
    then have n: "n_num b' = n_num ?b - 1" "n_num b' \<noteq> 0" using R(5) assms(3) by (auto simp: ix_contents_def)
    have ar: "AdjustRoot f ?s2 = (Inr False, ?s2)" using n(2) by (simp add: AdjustRoot_def rd2 ret_def)
    have "CoalesceOrRedistribute (Suc n) f ?s2 = (Inr False, ?s3)"
      using rd2 un ar by (cases "GetMinSize ?h \<le> n_num b'") (simp_all add: ret_def)
    then show ?thesis
      using n False by (auto simp: delete_entry_def FindLeafPage_ok [OF assms(1) F(1,2)] gs rm ret_def simp del: CoalesceOrRedistribute.simps)
  qed
  then show ?thesis using leaf_index_after [OF assms(1) F(5,6) rl] R(4) by (simp add: ix_contents_def)
qed


section \<open>The index interface\<close>

text \<open>
  What a client of an index relies on: a map from keys to record identifiers. \<open>room\<close> and \<open>spare\<close> are the
  situations in which the code keeps to it, for an insertion and for a removal.
\<close>

locale ordered_index =
  fixes look :: "bytes \<Rightarrow> ('s, Rid option) prog" and ins :: "bytes \<Rightarrow> Rid \<Rightarrow> ('s, bool) prog"
    and del :: "bytes \<Rightarrow> ('s, bool) prog" and cont :: "'s \<Rightarrow> 'k \<Rightarrow> Rid option" and keyof :: "'s \<Rightarrow> bytes \<Rightarrow> 'k"
    and inv :: "'s \<Rightarrow> bool" and valid :: "'s \<Rightarrow> bytes \<Rightarrow> bool" and room :: "'s \<Rightarrow> bool" and spare :: "'s \<Rightarrow> bool"
  assumes look_ok: "inv s \<Longrightarrow> valid s k \<Longrightarrow>
      \<exists>s'. look k s = (Inr (cont s (keyof s k)), s') \<and> inv s' \<and> cont s' = cont s \<and> keyof s' = keyof s \<and> valid s' = valid s"
    and ins_ok: "inv s \<Longrightarrow> valid s k \<Longrightarrow> rid_in32 v \<Longrightarrow> cont s (keyof s k) = None \<longrightarrow> room s \<Longrightarrow>
      \<exists>s'. ins k v s = (Inr True, s') \<and> inv s' \<and> keyof s' = keyof s \<and> valid s' = valid s \<and>
        cont s' = (if cont s (keyof s k) = None then (cont s)(keyof s k \<mapsto> v) else cont s)"
    and del_ok: "inv s \<Longrightarrow> valid s k \<Longrightarrow> cont s (keyof s k) = None \<or> spare s \<Longrightarrow>
      \<exists>s'. del k s = (Inr (cont s (keyof s k) \<noteq> None), s') \<and> inv s' \<and> keyof s' = keyof s \<and> valid s' = valid s \<and>
        cont s' = (cont s)(keyof s k := None)"
begin

lemma look_after_ins:
  assumes "inv s" "valid s k" "rid_in32 v" "cont s (keyof s k) = None" "room s"
  shows "\<exists>s1 s2. ins k v s = (Inr True, s1) \<and> look k s1 = (Inr (Some v), s2)"
proof -
  from ins_ok [OF assms(1-3)] assms(4,5) obtain s1 where s1: "ins k v s = (Inr True, s1)" "inv s1" "keyof s1 = keyof s"
    "valid s1 = valid s" "cont s1 = (cont s)(keyof s k \<mapsto> v)" by auto
  with look_ok [OF s1(2), of k] assms(2) show ?thesis by auto
qed

lemma look_after_del:
  assumes "inv s" "valid s k" "spare s"
  shows "\<exists>r s1 s2. del k s = (Inr r, s1) \<and> look k s1 = (Inr None, s2)"
proof -
  from del_ok [OF assms(1,2)] assms(3) obtain s1 where s1: "del k s = (Inr (cont s (keyof s k) \<noteq> None), s1)" "inv s1"
    "keyof s1 = keyof s" "valid s1 = valid s" "cont s1 = (cont s)(keyof s k := None)" by auto
  with look_ok [OF s1(2), of k] assms(2) show ?thesis by auto
qed

end

interpretation ix: ordered_index "GetValue (Suc n)" "insert_entry (Suc n)" "delete_entry (Suc n)" ix_contents
  "\<lambda>s. rank (ix_hdr s)" leaf_index "\<lambda>s. valid_key (ix_hdr s)" "\<lambda>s. n_num (root_bytes s) + 1 < GetMaxSize (ix_hdr s)"
  "\<lambda>s. 1 < n_num (root_bytes s)" for n
proof (unfold_locales, goal_cases)
  case (1 s k)
  from GetValue_ok [OF this] show ?case by fastforce
next
  case (2 s k v)
  from insert_entry_ok [OF this] show ?case by fastforce
next
  case (3 s k)
  from delete_entry_ok [OF this] show ?case by fastforce
qed

section \<open>Sequences of operations\<close>

datatype ix_op = IxGet bytes | IxInsert bytes Rid | IxDelete bytes
datatype ix_out = IxValue "Rid option" | IxBool bool

fun ix_exec :: "ix_op \<Rightarrow> (ix_state, ix_out) prog" where
  "ix_exec (IxGet k) = bind (GetValue 1 k) (\<lambda>v. ret (IxValue v))"
| "ix_exec (IxInsert k v) = bind (insert_entry 1 k v) (\<lambda>r. ret (IxBool r))"
| "ix_exec (IxDelete k) = bind (delete_entry 1 k) (\<lambda>r. ret (IxBool r))"

fun ix_allowed :: "ix_op \<Rightarrow> ix_state \<Rightarrow> bool" where
  "ix_allowed (IxGet k) s \<longleftrightarrow> valid_key (ix_hdr s) k"
| "ix_allowed (IxInsert k v) s \<longleftrightarrow> valid_key (ix_hdr s) k \<and> rid_in32 v \<and> n_num (root_bytes s) < btree_order (ix_hdr s)"
| "ix_allowed (IxDelete k) s \<longleftrightarrow> valid_key (ix_hdr s) k \<and> 1 < n_num (root_bytes s)"

text \<open>The specification: an insertion of a key that is there already changes nothing, and says true.\<close>

fun ix_spec :: "(int list \<Rightarrow> Rid option) \<times> ColType \<Rightarrow> ix_op \<Rightarrow> ix_out \<Rightarrow> (int list \<Rightarrow> Rid option) \<times> ColType \<Rightarrow> bool" where
  "ix_spec (m, t) (IxGet k) out (m', t') \<longleftrightarrow> out = IxValue (m (key_rank t k)) \<and> m' = m \<and> t' = t"
| "ix_spec (m, t) (IxInsert k v) out (m', t') \<longleftrightarrow>
     out = IxBool True \<and> m' = (if m (key_rank t k) = None then m(key_rank t k \<mapsto> v) else m) \<and> t' = t"
| "ix_spec (m, t) (IxDelete k) out (m', t') \<longleftrightarrow> out = IxBool (m (key_rank t k) \<noteq> None) \<and> m' = m(key_rank t k := None) \<and> t' = t"

definition ix_abs :: "ix_state \<Rightarrow> (int list \<Rightarrow> Rid option) \<times> ColType" where
  "ix_abs s = (ix_contents s, col_type (ix_hdr s))"

lemma ix_exec_refines:
  assumes "leaf_index s" "ix_allowed op s"
  shows "\<exists>out s'. ix_exec op s = (Inr out, s') \<and> leaf_index s' \<and> ix_spec (ix_abs s) op out (ix_abs s')"
proof (cases op)
  case (IxGet k)
  with GetValue_ok [OF assms(1), of k 0] assms(2) show ?thesis by (auto simp: ix_abs_def ret_def)
next
  case (IxInsert k v)
  with insert_entry_ok [OF assms(1), of k v 0] assms(2) obtain s' where
    "insert_entry 1 k v s = (Inr True, s')" "leaf_index s'" "ix_hdr s' = ix_hdr s"
    "ix_contents s' = (if ix_contents s (rank (ix_hdr s) k) = None then (ix_contents s)(rank (ix_hdr s) k \<mapsto> v) else ix_contents s)"
    by (auto simp: GetMaxSize_def)
  then show ?thesis using IxInsert by (simp add: ix_abs_def ret_def)
next
  case (IxDelete k)
  with delete_entry_ok [OF assms(1), of k 0] assms(2) obtain s' where
    "delete_entry 1 k s = (Inr (ix_contents s (rank (ix_hdr s) k) \<noteq> None), s')" "leaf_index s'" "ix_hdr s' = ix_hdr s"
    "ix_contents s' = (ix_contents s)(rank (ix_hdr s) k := None)" by auto
  then show ?thesis using IxDelete by (cases "ix_contents s (rank (ix_hdr s) k)") (auto simp: ix_abs_def ret_def)
qed

interpretation ix_sim: simulation ix_exec ix_allowed ix_spec ix_abs leaf_index
  by unfold_locales (rule ix_exec_refines)


section \<open>Layout\<close>

lemma page_with_hdr_fields:
  assumes "length buf = 4096" "in32 p" "in32 q"
  defines "b \<equiv> page_with_hdr p q buf"
  shows "length b = 4096" "n_num b = 0" "n_parent b = IX_NO_PAGE" "n_leaf b" "n_prev b = p" "n_next b = q"
proof -
  let ?w = "wr 16 (le32 p @ le32 q) buf" and ?x = "le32 IX_NO_PAGE @ le32 IX_NO_PAGE @ le32 0 @ [1 :: byte]"
  have l: "length ?w = 4096" using assms(1) by (simp add: length_wr)
  then show "length b = 4096" by (simp add: b_def page_with_hdr_def length_wr)
  have ins: "rd i k b = rd i k ?x" if "i + k \<le> 13" for i k
    unfolding b_def page_with_hdr_def using rd_wr_inside [of 0 ?x ?w i k] l that by simp
  have out: "rd i k b = rd (i - 16) k (le32 p @ le32 q)" if "16 \<le> i" "i + k \<le> 24" for i k
  proof -
    have "rd i k b = rd i k ?w" unfolding b_def page_with_hdr_def using l that by (intro rd_wr_disjoint) simp_all
    then show ?thesis using rd_wr_inside [of 16 "le32 p @ le32 q" buf i k] assms(1) that by simp
  qed
  have i: "in32 IX_NO_PAGE" "in32 0" by (simp_all add: in32_def IX_NO_PAGE_def)
  show "n_num b = 0" "n_parent b = IX_NO_PAGE" "n_leaf b"
    using ins [of 8 4] ins [of 4 4] ins [of 12 1] i by (simp_all add: n_num_def n_parent_def n_leaf_def rd_def)
  show "n_prev b = p" "n_next b = q"
    using out [of 16 4] out [of 20 4] assms(2,3) by (simp_all add: n_prev_def n_next_def rd_def)
qed

lemma index_order_eq:
  assumes "1 \<le> clen" "clen \<le> 512"
  defines "q \<equiv> 4072 div (clen + 8)"
  shows "index_order clen = Some (q - 1)" "7 \<le> q" "q \<le> 452" "q * (clen + 8) \<le> 4072" "4072 < (q + 1) * (clen + 8)"
proof -
  have "4072 div 520 \<le> q" "q \<le> 4072 div 9" unfolding q_def using assms(1,2) by (intro zdiv_mono2; simp)+
  then show b: "7 \<le> q" "q \<le> 452" by simp_all
  have "in32 (q - 1)" using b by (simp add: in32_def)
  moreover have "(clen + 8) mod 2 ^ 64 = clen + 8" using assms(1,2) by simp
  ultimately show "index_order clen = Some (q - 1)"
    using assms(1) by (simp add: index_order_def Let_def sizeof_Rid_def sizeof_IxPageHdr_def PAGE_SIZE_def q_def)
  have m: "q * (clen + 8) + 4072 mod (clen + 8) = 4072" unfolding q_def by (rule div_mult_mod_eq)
  have r: "0 \<le> 4072 mod (clen + 8)" "4072 mod (clen + 8) < clen + 8" using assms(1) by simp_all
  show "q * (clen + 8) \<le> 4072" using m r(1) by linarith
  have "(q + 1) * (clen + 8) = q * (clen + 8) + (clen + 8)" by (simp add: ring_distribs)
  then show "4072 < (q + 1) * (clen + 8)" using m r(2) by linarith
qed

lemma new_index_hdr_ok:
  assumes "1 \<le> clen" "clen \<le> 512" "t = TYPE_STRING \<or> clen = 4" "index_order clen = Some order"
  shows "ix_hdr_ok (new_index_hdr t clen order)" "2 < order"
proof -
  note q = index_order_eq [OF assms(1,2)]
  have o: "order = 4072 div (clen + 8) - 1" using q(1) assms(4) by simp
  show "2 < order" using q(2) o by simp
  show "ix_hdr_ok (new_index_hdr t clen order)"
    using q(2,4) assms(1,3) by (auto simp: ix_hdr_ok_def new_index_hdr_def o PAGE_SIZE_def sizeof_IxPageHdr_def sizeof_Rid_def)
qed

section \<open>Properties\<close>

text \<open>An empty index of integers in the system of the examples.\<close>

definition demo_ix_hdr :: IxFileHdr where
  "demo_ix_hdr = (new_index_hdr TYPE_INT 4 338)\<lparr>root_page := 0\<rparr>"

lemma demo_ix_hdr_ok: "ix_hdr_ok demo_ix_hdr" "slots demo_ix_hdr = 339" "klen demo_ix_hdr = 4"
  by (simp_all add: demo_ix_hdr_def ix_hdr_ok_def new_index_hdr_def PAGE_SIZE_def sizeof_IxPageHdr_def sizeof_Rid_def slots_def klen_def)

lemma demo_index:
  "\<exists>s. leaf_index s \<and> ix_contents s = Map.empty \<and> ix_hdr s = demo_ix_hdr \<and> n_num (root_bytes s) = 0"
proof -
  let ?b = "page_with_hdr 1 1 zero_page"
  have z: "length zero_page = 4096" by (simp add: zero_page_def PAGE_SIZE_def)
  note f = page_with_hdr_fields [OF z, of 1 1, unfolded in32_def, simplified]
  have q: "quiet demo_pool" using demo_pool_ok by (simp add: quiet_def)
  have "length ?b = PAGE_SIZE" using f(1) by (simp add: PAGE_SIZE_def)
  from visit_write [OF q demo_pool_logical(1) this] obtain b2 where b2: "quiet b2" "logical b2 (demo_pid 0) = Some ?b" by blast
  let ?s = "\<lparr>ix_bpm = b2, ix_fh = \<lparr>ixh_fd = 3, ixh_hdr = demo_ix_hdr\<rparr>\<rparr>"
  have h: "ix_hdr ?s = demo_ix_hdr" "root_page demo_ix_hdr = 0" by (simp_all add: ix_hdr_def demo_ix_hdr_def)
  have pg: "ix_page ?s 0 = Some ?b" using b2(2) by (simp add: ix_page_def ix_pid_def demo_pid_def)
  then have r: "root_bytes ?s = ?b" by (simp add: root_bytes_def h)
  have e: "entries demo_ix_hdr ?b = []" using length_entries [of demo_ix_hdr ?b] f(2) by (simp del: length_entries)
  then have "node_sorted demo_ix_hdr ?b" "node_map demo_ix_hdr ?b = Map.empty"
    using f demo_ix_hdr_ok by (auto simp: node_sorted_def node_ok_def ranked_def strict_def node_map_def PAGE_SIZE_def demo_ix_hdr_def new_index_hdr_def)
  then show ?thesis
    using b2(1) pg r h f(2-4) demo_ix_hdr_ok(2)
    by (intro exI [of _ ?s]) (simp add: leaf_index_def root_leaf_def ix_contents_def IX_NO_PAGE_def INVALID_PAGE_ID_def)
qed


text \<open>
  C3. An index whose root is a leaf with room is a map from keys to record identifiers: in every
  sequence of lookups, insertions (while a slot is free) and removals (of other keys than the last
  one), each with a key of the column's length that is not a NaN, every call returns, no call throws
  or reaches undefined behaviour, and the answers are those of the map; in particular a removal says
  whether the key was there, and an insertion of a present key leaves the old value and still says
  true.
\<close>

theorem index_refines_map:
  assumes "leaf_index s" "runs ix_exec ix_allowed s tr s'"
  shows "leaf_index s' \<and> spec_runs ix_spec (ix_abs s) tr (ix_abs s') \<and>
    (\<forall>op. ix_allowed op s' \<longrightarrow> (\<exists>out s''. ix_exec op s' = (Inr out, s'') \<and> ix_spec (ix_abs s') op out (ix_abs s'')))"
  by (rule ix_sim.refines [OF assms])

theorem index_refines_map_witness:
  "\<exists>s s2 r. runs ix_exec ix_allowed s [(IxInsert (le32 7) \<lparr>rid_page_no = 1, rid_slot_no = 2\<rparr>, Inr (IxBool True)), (IxGet (le32 7), Inr (IxValue r))] s2 \<and>
     r = Some \<lparr>rid_page_no = 1, rid_slot_no = 2\<rparr> \<and> ix_contents s = Map.empty"
proof -
  let ?v = "\<lparr>rid_page_no = 1, rid_slot_no = 2\<rparr>"
  from demo_index obtain s where s: "leaf_index s" "ix_contents s = Map.empty" "ix_hdr s = demo_ix_hdr" "n_num (root_bytes s) = 0" by blast
  have i: "in32 7" "in32 1" "in32 2" by (simp_all add: in32_def)
  have vk: "valid_key demo_ix_hdr (le32 7)" by (simp add: valid_key_def demo_ix_hdr_ok) (simp add: demo_ix_hdr_def new_index_hdr_def)
  have a: "ix_allowed (IxInsert (le32 7) ?v) s"
    using s vk i by (simp add: rid_in32_def) (simp add: demo_ix_hdr_def new_index_hdr_def)
  obtain s1 where 1: "ix_exec (IxInsert (le32 7) ?v) s = (Inr (IxBool True), s1)" "leaf_index s1" "ix_hdr s1 = ix_hdr s"
    "ix_contents s1 = [rank demo_ix_hdr (le32 7) \<mapsto> ?v]"
    using insert_entry_ok [OF s(1), of "le32 7" ?v 0] a s vk by (auto simp: GetMaxSize_def ret_def rid_in32_def i)
  have b: "ix_allowed (IxGet (le32 7)) s1" using vk 1(3) s(3) by simp
  from ix_exec_refines [OF 1(2) b] 1(3,4) s(3) obtain r s2 where
    2: "ix_exec (IxGet (le32 7)) s1 = (Inr (IxValue r), s2)" by (auto simp: ix_abs_def)
  have run: "runs ix_exec ix_allowed s [(IxInsert (le32 7) ?v, Inr (IxBool True)), (IxGet (le32 7), Inr (IxValue r))] s2"
    by (rule runs_step [where exec = ix_exec and allowed = ix_allowed, OF a 1(1)],
        rule runs_step [where exec = ix_exec and allowed = ix_allowed, OF b 2], rule runs_done)
  from index_refines_map [OF s(1) this] have "r = Some ?v" using s(2,3) by (auto simp: ix_abs_def)
  with run s(2) show ?thesis by blast
qed

text \<open>
  C25. The binary searches in a node find what a linear search finds: \<open>lower_bound\<close> the number of keys
  below the target, which is the first position whose key is not smaller, and \<open>upper_bound\<close> the number
  of keys not above it, for integer, float and string columns.
\<close>

theorem binary_search_correct:
  assumes "node_sorted h b" "valid_key h t"
  shows "\<exists>lo up. node_lower_bound h t b = (Inr (int lo), b) \<and> node_upper_bound h t b = (Inr (int up), b) \<and>
    lo \<le> up \<and> up \<le> length (entries h b) \<and>
    lo = length (filter (\<lambda>e. ix_compare (fst e) t (col_type h) (col_len h) < 0) (entries h b)) \<and>
    up = length (filter (\<lambda>e. ix_compare (fst e) t (col_type h) (col_len h) \<le> 0) (entries h b))"
proof -
  let ?r = "ranked h b" and ?k = "rank h t"
  note n = node_sortedD [OF assms(1)]
  have val: "valid_key h (fst e)" if "e \<in> set (entries h b)" for e using that assms(1) by (simp add: node_sorted_def)
  have fl: "length (filter (\<lambda>e. P (fst e)) ?r) = length (filter (\<lambda>e. P (rank h (fst e))) (entries h b))" for P
    by (simp add: ranked_def filter_map case_prod_unfold comp_def)
  have tw: "takeWhile P xs = filter P xs" if "strict xs" "\<And>a b. fst a < fst b \<Longrightarrow> P b \<Longrightarrow> P a" for P and xs :: "(int list \<times> Rid) list"
    using that(1)
  proof (induction xs)
    case (Cons x xs)
    have "filter P xs = []" if "\<not> P x"
      unfolding filter_empty_conv using that Cons.prems \<open>\<And>a b. fst a < fst b \<Longrightarrow> P b \<Longrightarrow> P a\<close>
      by (metis strict_def sorted_wrt.simps(2))
    with Cons show ?case by (auto simp: strict_def)
  qed simp
  have lo: "lower ?r ?k = length (filter (\<lambda>e. ix_compare (fst e) t (col_type h) (col_len h) < 0) (entries h b))"
    unfolding lower_def by (subst tw [OF n(2)]) (auto simp: fl [of "\<lambda>x. x < ?k"] ix_compare_rank(1) [OF val assms(2)] cong: filter_cong)
  have up: "upper ?r ?k = length (filter (\<lambda>e. ix_compare (fst e) t (col_type h) (col_len h) \<le> 0) (entries h b))"
    unfolding upper_def by (subst tw [OF n(2)]) (auto simp: fl [of "\<lambda>x. x \<le> ?k"] ix_compare_rank(3) [OF val assms(2)] cong: filter_cong)
  have "length (filter (\<lambda>e. ix_compare (fst e) t (col_type h) (col_len h) < 0) xs) \<le>
      length (filter (\<lambda>e. ix_compare (fst e) t (col_type h) (col_len h) \<le> 0) xs)" for xs :: "(bytes \<times> Rid) list"
    by (induction xs) auto
  then show ?thesis
    using node_lower_bound_ok [OF assms] node_upper_bound_ok [OF assms] lo up by (simp add: length_filter_le del: length_entries)
qed

theorem binary_search_correct_witness:
  "\<exists>h b. node_sorted h b \<and> (\<exists>up. node_upper_bound h (le32 7) b = (Inr (int up), b) \<and> up \<le> length (entries h b))"
proof -
  from demo_index obtain s where s: "leaf_index s" "ix_hdr s = demo_ix_hdr" by blast
  have vk: "valid_key demo_ix_hdr (le32 7)" by (simp add: valid_key_def demo_ix_hdr_ok) (simp add: demo_ix_hdr_def new_index_hdr_def)
  from binary_search_correct [OF leaf_indexD(4) [OF s(1)]] vk s leaf_indexD(4) [OF s(1)] show ?thesis by fastforce
qed


text \<open>
  The search in an inner node goes one child too far. An inner node holds for every child the
  first key of its subtree, so the subtree of a key \<open>k\<close> is the last child whose key is not above \<open>k\<close>;
  \<open>InternalLookup\<close> returns the next one. Searching for the very key that child \<open>i\<close> is filed under ends in
  child \<open>i + 1\<close>.
\<close>

theorem inner_search_skips_child:
  assumes "node_sorted h b" "Suc i < length (entries h b)"
  shows "InternalLookup h (fst (entries h b ! i)) b = (Inr (rid_page_no (snd (entries h b ! Suc i))), b)"
proof -
  note n = node_sortedD [OF assms(1)]
  have i: "i < nat (n_num b)" "Suc i < nat (n_num b)" using assms(2) by simp_all
  have "takeWhile (\<lambda>e. fst e \<le> rank h (fst (entries h b ! i))) (ranked h b) = take (Suc i) (ranked h b)"
  proof (rule takeWhile_eq_take_P_nth)
    fix j assume "j < Suc i" "j < length (ranked h b)"
    then show "fst (ranked h b ! j) \<le> rank h (fst (entries h b ! i))"
      using strict_nth [OF n(2), of j i] i by (cases "j = i") auto
  next
    assume "Suc i < length (ranked h b)"
    then show "\<not> fst (ranked h b ! Suc i) \<le> rank h (fst (entries h b ! i))"
      using strict_nth [OF n(2), of i "Suc i"] i by auto
  qed
  then have u: "upper (ranked h b) (rank h (fst (entries h b ! i))) = Suc i" using i by (simp add: upper_def)
  then show ?thesis using InternalLookup_ok [OF assms(1) n(3) [OF i(1)]] i(2) by simp
qed

theorem inner_search_skips_child_witness:
  "\<exists>h b. node_sorted h b \<and> length (entries h b) = 2 \<and>
     InternalLookup h (fst (entries h b ! 0)) b = (Inr (rid_page_no (snd (entries h b ! 1))), b)"
proof -
  from demo_index obtain s where s: "leaf_index s" "ix_contents s = Map.empty" "ix_hdr s = demo_ix_hdr" "n_num (root_bytes s) = 0" by blast
  have v: "valid_key demo_ix_hdr (le32 k)" for k by (simp add: valid_key_def demo_ix_hdr_ok) (simp add: demo_ix_hdr_def new_index_hdr_def)
  have r: "rid_in32 \<lparr>rid_page_no = 3, rid_slot_no = -1\<rparr>" by (simp add: rid_in32_def in32_def)
  have ns: "node_sorted demo_ix_hdr (root_bytes s)" "node_map demo_ix_hdr (root_bytes s) = Map.empty"
    using leaf_indexD(4) [OF s(1)] s(2,3) by (simp_all add: ix_contents_def)
  from Insert_ok [OF ns(1) v [of 7] r] ns(2) s(4) obtain b1 where
    b1: "node_sorted demo_ix_hdr b1" "node_map demo_ix_hdr b1 = [rank demo_ix_hdr (le32 7) \<mapsto> \<lparr>rid_page_no = 3, rid_slot_no = -1\<rparr>]" "n_num b1 = 1"
    by (auto simp: demo_ix_hdr_ok)
  have "rank demo_ix_hdr (le32 9) \<noteq> rank demo_ix_hdr (le32 7)" by (simp add: demo_ix_hdr_def new_index_hdr_def in32_def)
  with Insert_ok [OF b1(1) v [of 9] r] b1(2,3) obtain b2 where "node_sorted demo_ix_hdr b2" "n_num b2 = 2" by (auto simp: demo_ix_hdr_ok)
  then show ?thesis using inner_search_skips_child [of demo_ix_hdr b2 0] by (intro exI [of _ demo_ix_hdr] exI [of _ b2]) simp
qed

text \<open>A fetch of page -1 from a pool without pinned pages.\<close>

lemma fetch_minus_1:
  assumes "quiet b"
  shows "\<exists>b'. FetchPage \<lparr>pid_fd = fd, pid_page_no = -1\<rparr> b = (Inl (Exc UnixError), b')"
proof -
  let ?q = "\<lparr>pid_fd = fd, pid_page_no = -1\<rparr>"
  note ok = quiet_ok [OF assms]
  obtain r b' where fp: "FetchPage ?q b = (r, b')" by (metis surj_pair)
  have pt: "page_table b ?q = None" using bp_okD(3) [OF ok, of ?q] by (cases "page_table b ?q") auto
  have "avail b \<noteq> {}"
  proof
    assume "avail b = {}"
    moreover have "is_frame b 0" using assms by (simp add: quiet_def is_frame_def)
    ultimately have p: "0 < pg_pin_count (pages b 0)" "pid_page_no (pg_id (pages b 0)) \<noteq> INVALID_PAGE_ID" "is_frame b 0"
      using bp_okD(2) [OF ok] by blast+
    then have "page_table b (pg_id (pages b 0)) = Some 0" using bp_invD(4) [OF bp_okD(1) [OF ok]] by simp
    with p(1) have "pins b (pg_id (pages b 0)) \<noteq> 0" by (simp add: pins_def)
    then show False using assms by (simp add: quiet_def)
  qed
  with bp_okD(1) [OF ok] pt fp have "r = Inl (Exc UnixError)"
    by (cases rule: FetchPage_miss) (auto simp: page_content_def split: option.splits)
  with fp show ?thesis by blast
qed

text \<open>
  C37. Removing the last key of an index makes it unusable: \<open>AdjustRoot\<close> sets the root to
  \<open>IX_NO_PAGE\<close>, and no later search looks at that (\<open>IsEmpty\<close> is never called): the next lookup, insertion or deletion,
  whatever its key, fetches page -1, which throws \<open>UnixError\<close>, and ends with that exception.
\<close>

theorem last_delete_loses_root:
  assumes "leaf_index s" "valid_key (ix_hdr s) key" "ix_contents s (rank (ix_hdr s) key) \<noteq> None" "n_num (root_bytes s) = 1"
  shows "\<exists>s'. delete_entry (Suc n) key s = (Inr True, s') \<and> root_page (ix_hdr s') = IX_NO_PAGE \<and>
    (\<exists>b'. FetchPage \<lparr>pid_fd = ixh_fd (ix_fh s'), pid_page_no = -1\<rparr> (ix_bpm s') = (Inl (Exc UnixError), b') \<and>
       (\<forall>k v m. GetValue m k s' = (Inl (Exc UnixError), s'\<lparr>ix_bpm := b'\<rparr>) \<and>
          insert_entry m k v s' = (Inl (Exc UnixError), s'\<lparr>ix_bpm := b'\<rparr>) \<and>
          delete_entry m k s' = (Inl (Exc UnixError), s'\<lparr>ix_bpm := b'\<rparr>)))"
proof -
  note i = leaf_indexD [OF assms(1)]
  let ?pid = "ix_pid s (root_page (ix_hdr s))" and ?h = "ix_hdr s" and ?b = "root_bytes s"
  note nd = node_okD [OF node_sortedD(1) [OF i(4)]]
  from Remove_ok [OF i(4) assms(2)] assms(3,4) obtain b' where
    R: "node_Remove ?h key ?b = (Inr 0, b')" "node_sorted ?h b'" "links b' = links ?b" "n_num b' = 0" by (auto simp: ix_contents_def)
  have l': "length b' = 4096" using node_okD(2) [OF node_sortedD(1) [OF R(2)]] .
  then have "length b' = PAGE_SIZE" by (simp add: PAGE_SIZE_def)
  from visit_write [OF i(1,2) this] obtain f b1 b2 where
    F: "FetchPage ?pid (ix_bpm s) = (Inr (Some f), b1)" "page_data f b1 = ?b" "pg_id (pages b1 f) = ?pid"
    "UnpinPage ?pid True (poke f b' b1) = (True, b2)" "quiet b2" by blast
  let ?s1 = "s\<lparr>ix_bpm := b1\<rparr>" and ?s2 = "s\<lparr>ix_bpm := poke f b' b1\<rparr>"
  let ?fh = "(ix_fh s)\<lparr>ixh_hdr := ?h\<lparr>root_page := IX_NO_PAGE, ix_num_pages := ix_num_pages ?h - 1\<rparr>\<rparr>"
  let ?s3 = "?s2\<lparr>ix_fh := ?fh\<rparr>" and ?s4 = "s\<lparr>ix_bpm := b2, ix_fh := ?fh\<rparr>"
  have gs: "on_node f (\<lambda>h. GetSize) ?s1 = (Inr 1, ?s1)" using F(2) i(5) assms(4) by (intro on_node_read) simp
  have rm: "on_node f (\<lambda>h. node_Remove h key) ?s1 = (Inr 0, ?s2)"
    using on_node_write [of "\<lambda>h. node_Remove h key" ?s1 f "Inr 0" b'] R(1) F(2) by simp
  have rd2: "on_node f (\<lambda>h. GetSize) ?s2 = (Inr 0, ?s2)" "on_node f (\<lambda>h. IsRootPage) ?s2 = (Inr True, ?s2)"
    "on_node f (\<lambda>h. IsLeafPage) ?s2 = (Inr True, ?s2)"
    using field_reads [OF l'] R(4) l' links_fields [OF R(3)] i(6,7) by (intro on_node_read; simp)+
  have ms: "0 < GetMinSize ?h" using ix_layout(3,4) [OF nd(1)] by (simp add: GetMinSize_def GetMaxSize_def pos_imp_zdiv_pos_iff)
  have ar: "AdjustRoot f ?s2 = (Inr True, ?s3)"
    by (simp add: AdjustRoot_def rd2 ret_def upd_ix_hdr_def release_node_handle_def bind_def) (simp add: ix_hdr_def)
  have un: "node_unpin f True ?s3 = (Inr (), ?s4)" using node_unpin_eq [of ?s3 f ?pid True True b2] F by simp
  have "delete_entry (Suc n) key s = (Inr True, ?s4)"
    using ms by (simp add: delete_entry_def FindLeafPage_ok [OF assms(1) F(1,2)] gs rm rd2 ar un ret_def)
  moreover have hd: "root_page (ix_hdr ?s4) = IX_NO_PAGE" by (simp add: ix_hdr_def)
  moreover obtain b3 where fp: "FetchPage \<lparr>pid_fd = ixh_fd (ix_fh s), pid_page_no = -1\<rparr> b2 = (Inl (Exc UnixError), b3)"
    using fetch_minus_1 [OF F(5)] by blast
  then have "FindLeafPage m k ?s4 = (Inl (Exc UnixError), ?s4\<lparr>ix_bpm := b3\<rparr>)" for m k
    using hd by (simp add: FindLeafPage_def FetchNode_def on_pool_def IX_NO_PAGE_def)
  then have "GetValue m k ?s4 = (Inl (Exc UnixError), ?s4\<lparr>ix_bpm := b3\<rparr>) \<and> insert_entry m k v ?s4 = (Inl (Exc UnixError), ?s4\<lparr>ix_bpm := b3\<rparr>) \<and>
      delete_entry m k ?s4 = (Inl (Exc UnixError), ?s4\<lparr>ix_bpm := b3\<rparr>)" for m k v
    by (simp add: GetValue_def insert_entry_def delete_entry_def)
  ultimately show ?thesis using fp by (intro exI [of _ ?s4] conjI exI [of _ b3]) simp_all
qed


theorem last_delete_loses_root_witness:
  "\<exists>s s' s''. leaf_index s \<and> delete_entry 1 (le32 7) s = (Inr True, s') \<and> root_page (ix_hdr s') = IX_NO_PAGE \<and>
     GetValue 1 (le32 7) s' = (Inl (Exc UnixError), s'')"
proof -
  let ?v = "\<lparr>rid_page_no = 1, rid_slot_no = 2\<rparr>"
  from demo_index obtain s where s: "leaf_index s" "ix_contents s = Map.empty" "ix_hdr s = demo_ix_hdr" "n_num (root_bytes s) = 0" by blast
  have v: "valid_key demo_ix_hdr (le32 7)" by (simp add: valid_key_def demo_ix_hdr_ok) (simp add: demo_ix_hdr_def new_index_hdr_def)
  have g: "GetMaxSize demo_ix_hdr = 339" by (simp add: GetMaxSize_def demo_ix_hdr_def new_index_hdr_def)
  have r: "rid_in32 ?v" by (simp add: rid_in32_def in32_def)
  from insert_entry_ok [OF s(1), of "le32 7" ?v 0] v r s g obtain s1 where
    1: "leaf_index s1" "ix_hdr s1 = demo_ix_hdr" "ix_contents s1 = [rank demo_ix_hdr (le32 7) \<mapsto> ?v]" by auto
  have "dom (ix_contents s1) = fst ` set (ranked demo_ix_hdr (root_bytes s1))" using 1(2) by (simp add: ix_contents_def node_map_def dom_map_of_conv_image_fst)
  moreover have "distinct (map fst (ranked demo_ix_hdr (root_bytes s1)))"
    using node_sortedD(2) [OF leaf_indexD(4) [OF 1(1)]] 1(2)
    by (simp add: strict_def sorted_wrt_map [symmetric] strict_sorted_iff)
  ultimately have "length (ranked demo_ix_hdr (root_bytes s1)) = card (dom (ix_contents s1))"
    by (metis distinct_card length_map list.set_map)
  then have "n_num (root_bytes s1) = 1" using 1(3) by simp
  with last_delete_loses_root [OF 1(1), of "le32 7" 0] v 1 show ?thesis by auto
qed

text \<open>
  The layout of an index page: for every column length up to \<open>IX_MAX_COL_LEN\<close> the order that
  \<open>create_index\<close> computes passes its own assertion, a node with the reserved slot fits into the page,
  and one more entry would not.
\<close>

theorem index_layout_fits:
  assumes "1 \<le> clen" "clen \<le> IX_MAX_COL_LEN"
  shows "\<exists>order. index_order clen = Some order \<and> 2 < order \<and>
    sizeof_IxPageHdr + keys_size (new_index_hdr t clen order) + (order + 1) * sizeof_Rid \<le> int PAGE_SIZE \<and>
    int PAGE_SIZE < sizeof_IxPageHdr + (order + 2) * (clen + sizeof_Rid)"
proof -
  have c: "clen \<le> 512" using assms(2) by (simp add: IX_MAX_COL_LEN_def)
  note q = index_order_eq [OF assms(1) c]
  show ?thesis
    using q by (intro exI [of _ "4072 div (clen + 8) - 1"])
      (simp add: new_index_hdr_def sizeof_IxPageHdr_def sizeof_Rid_def PAGE_SIZE_def ring_distribs)
qed

theorem index_layout_fits_witness: "\<exists>order. index_order 4 = Some order \<and> 2 < order"
  using index_layout_fits [of 4 TYPE_INT] by (auto simp: IX_MAX_COL_LEN_def)

text \<open>
  Opening an index does not restore its page counter from the file header: new nodes are
  numbered from the value that the process happens to hold for the descriptor. In a process that has
  not used the descriptor before, the first node that is created gets page number 1, which is the leaf
  header of the file, although the header says how many pages there are.
\<close>

theorem reopened_index_reuses_pages:
  assumes "fd2pageno (disk_manager s) fd = 0" "IxIndexHandle_init fd s = (Inr ih, s1)"
  shows "\<exists>d. AllocatePage fd (disk_manager s1) = (Inr IX_LEAF_HEADER_PAGE, d)"
proof -
  obtain r buf d where rp: "read_page fd IX_FILE_HDR_PAGE (nat sizeof_IxFileHdr) (replicate (nat sizeof_IxFileHdr) 0) (disk_manager s) = (r, buf, d)"
    by (metis surj_pair)
  then have "fd2pageno d = fd2pageno (disk_manager s)"
    by (auto simp: read_page_def Let_def split: prod.splits if_splits option.splits)
  with assms rp show ?thesis
    by (auto simp: IxIndexHandle_init_def Let_def on_disk_def get_fd2pageno_def set_fd2pageno_def AllocatePage_def ret_def bind_def
        IX_LEAF_HEADER_PAGE_def split: sum.splits if_splits prod.splits)
qed


theorem reopened_index_reuses_pages_witness:
  "\<exists>ih s1 d. IxIndexHandle_init 3 demo_pool = (Inr ih, s1) \<and> AllocatePage 3 (disk_manager s1) = (Inr 1, d)"
proof -
  have dd: "disk_manager demo_pool = demo_disk" by (simp add: demo_pool_def BufferPoolManager_init_def)
  have f: "os_fds (dm_os demo_disk) 3 = Some \<lparr>fd_path = ''t'', fd_pos = 0\<rparr>" "os_files (dm_os demo_disk) ''t'' = Some (replicate PAGE_SIZE 0)"
    by (simp_all add: demo_disk_def demo_os_def LOG_FILE_NAME_def)
  have r: "\<exists>buf d. read_page 3 0 36 (replicate 36 0) demo_disk = (Inr (), buf, d)"
    using f by (simp add: read_page_open [OF f(1)] Let_def rd_def PAGE_SIZE_def)
  then have "\<exists>ih s1. IxIndexHandle_init 3 demo_pool = (Inr ih, s1)"
    by (auto simp: IxIndexHandle_init_def dd IX_FILE_HDR_PAGE_def sizeof_IxFileHdr_def on_disk_def get_fd2pageno_def set_fd2pageno_def MAX_FD_def ret_def)
  moreover have "fd2pageno (disk_manager demo_pool) 3 = 0" by (simp add: dd demo_disk_def)
  ultimately show ?thesis using reopened_index_reuses_pages [of demo_pool 3] by (auto simp: IX_LEAF_HEADER_PAGE_def)
qed

end
