(* ===== verification/Ix_Split.thy ===== *)
theory Ix_Split
  imports Ix_Spec
begin

text \<open>
  Splitting a leaf: the two halves hold the entries of the full node between them, in order, and are linked
  into the list of leaves.
\<close>

section \<open>Header fields\<close>

lemma setters:
  assumes "length b = 4096"
  shows "SetNextLeaf p b = (Inr (), wr 20 (le32 p) b)" "SetPrevLeaf p b = (Inr (), wr 16 (le32 p) b)"
    "SetParentPageNo p b = (Inr (), wr 4 (le32 p) b)" "set_next_free p b = (Inr (), wr 0 (le32 p) b)"
    "set_is_leaf l b = (Inr (), wr 12 [if l then 1 else 0] b)"
  using assms pg_st_ok [of 20 20 "le32 p" b] pg_st_ok [of 16 16 "le32 p" b] pg_st_ok [of 4 4 "le32 p" b] pg_st_ok [of 0 0 "le32 p" b]
    pg_st_ok [of 12 12 "[if l then 1 else 0]" b]
  by (simp_all add: SetNextLeaf_def SetPrevLeaf_def SetParentPageNo_def set_next_free_def set_is_leaf_def pg_st_int_def
      OFF_next_leaf_def OFF_prev_leaf_def OFF_parent_def OFF_next_free_def OFF_is_leaf_def)

lemma hdr_write:
  assumes "length b = 4096" "p + length bs \<le> 24"
  shows "length (wr p bs b) = 4096" "ix_hdr_ok h \<Longrightarrow> kreg h (wr p bs b) = kreg h b" "ix_hdr_ok h \<Longrightarrow> rreg h (wr p bs b) = rreg h b"
    "i + k \<le> 24 \<Longrightarrow> i + k \<le> p \<or> p + length bs \<le> i \<Longrightarrow> rd i k (wr p bs b) = rd i k b"
proof -
  show "length (wr p bs b) = 4096" using assms by (simp add: length_wr)
  show "kreg h (wr p bs b) = kreg h b" "rreg h (wr p bs b) = rreg h b" if h: "ix_hdr_ok h"
    unfolding kreg_def rreg_def using assms ix_layout(1) [OF h] by (intro rd_wr_disjoint; simp)+
  show "i + k \<le> 24 \<Longrightarrow> i + k \<le> p \<or> p + length bs \<le> i \<Longrightarrow> rd i k (wr p bs b) = rd i k b"
    using assms by (intro rd_wr_disjoint) simp_all
qed

lemmas field_defs = n_num_def n_parent_def n_leaf_def n_prev_def n_next_def

text \<open>The fields after each of the writes of \<open>Split\<close>.\<close>

lemma field_writes [simp]:
  assumes "length b = 4096"
  shows "n_num (wr 20 (le32 p) b) = n_num b" "n_parent (wr 20 (le32 p) b) = n_parent b" "n_leaf (wr 20 (le32 p) b) = n_leaf b"
    "n_prev (wr 20 (le32 p) b) = n_prev b" "in32 p \<Longrightarrow> n_next (wr 20 (le32 p) b) = p"
    "n_num (wr 16 (le32 p) b) = n_num b" "n_parent (wr 16 (le32 p) b) = n_parent b" "n_leaf (wr 16 (le32 p) b) = n_leaf b"
    "in32 p \<Longrightarrow> n_prev (wr 16 (le32 p) b) = p" "n_next (wr 16 (le32 p) b) = n_next b"
    "n_num (wr 4 (le32 p) b) = n_num b" "in32 p \<Longrightarrow> n_parent (wr 4 (le32 p) b) = p" "n_leaf (wr 4 (le32 p) b) = n_leaf b"
    "n_num (wr 0 (le32 p) b) = n_num b" "n_parent (wr 0 (le32 p) b) = n_parent b" "n_leaf (wr 0 (le32 p) b) = n_leaf b"
    "n_leaf (wr 12 [if l then 1 else 0] b) = l"
    "n_leaf (wr 8 (le32 p) b) = n_leaf b" "n_parent (wr 8 (le32 p) b) = n_parent b" "n_prev (wr 8 (le32 p) b) = n_prev b"
    "n_next (wr 8 (le32 p) b) = n_next b" "in32 p \<Longrightarrow> n_num (wr 8 (le32 p) b) = p"
  using assms by (simp_all add: field_defs hdr_write(4) rd_wr_same)

lemma entries_hdr_write:
  assumes "ix_hdr_ok h" "length b = 4096" "p + length bs \<le> 24" "n_num (wr p bs b) = n_num b"
  shows "entries h (wr p bs b) = entries h b"
  using assms by (simp add: entries_def hdr_write)

lemma sorted_hdr_write:
  assumes "node_sorted h b" "p + length bs \<le> 24" "n_num (wr p bs b) = n_num b"
  shows "node_sorted h (wr p bs b)" "entries h (wr p bs b) = entries h b"
proof -
  note n = node_okD [OF node_sortedD(1) [OF assms(1)]]
  show e: "entries h (wr p bs b) = entries h b" by (rule entries_hdr_write [OF n(1,2) assms(2,3)])
  show "node_sorted h (wr p bs b)"
    using assms n(1,2) e by (simp add: node_sorted_def node_ok_def ranked_def hdr_write(1) PAGE_SIZE_def)
qed

section \<open>The two halves\<close>

lemma cells_take: "m \<le> n \<Longrightarrow> cells w m xs = take m (cells w n xs)"
  by (intro nth_equalityI) simp_all

lemma cells_drop: "m \<le> n \<Longrightarrow> cells w (n - m) (rd (m * w) ((n - m) * w) xs) = drop m (cells w n xs)"
  by (intro nth_equalityI) (simp_all add: cell_rd)

lemma sorted_part:
  assumes "node_sorted h b" "node_ok h b'" "entries h b' = take m (entries h b) \<or> entries h b' = drop m (entries h b)"
  shows "node_sorted h b'"
proof -
  have "ranked h b' = take m (ranked h b) \<or> ranked h b' = drop m (ranked h b)"
    using assms(3) by (auto simp: ranked_def take_map drop_map)
  moreover have "set (entries h b') \<subseteq> set (entries h b)" using assms(3) by (auto dest: in_set_takeD in_set_dropD)
  ultimately show ?thesis
    using assms(1,2) by (auto simp: node_sorted_def strict_def intro: sorted_wrt_take sorted_wrt_drop)
qed

lemma left_half:
  assumes "node_sorted h b" "int m \<le> n_num b"
  defines "b' \<equiv> wr 8 (le32 (int m)) b"
  shows "node_sorted h b'" "entries h b' = take m (entries h b)" "n_num b' = int m" "length b' = 4096"
proof -
  note n = node_okD [OF node_sortedD(1) [OF assms(1)]]
  have m: "m \<le> nat (n_num b)" "m \<le> slots h" using assms(2) n(3,4) by linarith+
  note w = write_num [OF n(1,2) in32_slots [OF n(1) m(2)], folded b'_def]
  show "n_num b' = int m" "length b' = 4096" by (fact w)+
  show e: "entries h b' = take m (entries h b)"
    using m(1) by (simp add: entries_def w cells_take [OF m(1)] take_zip take_map)
  have "node_ok h b'" using n(1) w(1,5) m(2) ix_layout(4) [OF n(1)] by (simp add: node_ok_def PAGE_SIZE_def)
  then show "node_sorted h b'" by (rule sorted_part [where m = m, OF assms(1)]) (simp add: e)
qed

text \<open>The fresh page as \<open>Split\<close> prepares it, and with the second half of the entries.\<close>

definition blank_node :: "bool \<Rightarrow> int \<Rightarrow> bytes" where
  "blank_node leaf parent = wr 0 (le32 IX_NO_PAGE) (wr 4 (le32 parent) (wr 8 (le32 0) (wr 12 [if leaf then 1 else 0] zero_page)))"

lemma blank_node:
  assumes "in32 parent"
  shows "length (blank_node leaf parent) = 4096" "n_num (blank_node leaf parent) = 0" "n_parent (blank_node leaf parent) = parent"
    "n_leaf (blank_node leaf parent) = leaf"
  using assms by (simp_all add: blank_node_def hdr_write(1) PAGE_SIZE_def in32_def)

lemma right_half:
  assumes "node_sorted h b" "int m \<le> n_num b" "in32 parent"
  defines "k \<equiv> nat (n_num b) - m"
  shows "\<exists>N. insert_pairs h 0 (rd (24 + m * klen h) (k * klen h) b) (rd (24 + slots h * klen h + m * 8) (k * 8) b) (int k) (blank_node leaf parent) = (Inr (), N) \<and>
    node_sorted h N \<and> n_num N = int k \<and> entries h N = drop m (entries h b) \<and> links N = links (blank_node leaf parent)"
proof -
  note n = node_okD [OF node_sortedD(1) [OF assms(1)]]
  note l = ix_layout [OF n(1)]
  let ?w = "klen h" and ?n = "nat (n_num b)"
  have m: "m \<le> ?n" "m + k = ?n" using assms(2) n(4) by (auto simp: k_def)
  have le: "m * ?w + k * ?w \<le> slots h * ?w" "m * 8 + k * 8 \<le> slots h * 8"
    using mult_le_mono1 [OF n(3), of ?w] n(3) m(2) by (simp_all add: add_mult_distrib [symmetric])
  have ks: "rd (24 + m * ?w) (k * ?w) b = rd (m * ?w) (k * ?w) (kreg h b)"
    "rd (24 + slots h * ?w + m * 8) (k * 8) b = rd (m * 8) (k * 8) (rreg h b)"
    using le by (simp_all add: kreg_def rreg_def rd_rd)
  have len: "length (rd (24 + m * ?w) (k * ?w) b) = k * ?w" "length (rd (24 + slots h * ?w + m * 8) (k * 8) b) = k * 8"
    using le l(1) n(2) by (simp_all add: length_rd)
  note bl = blank_node [OF assms(3), of leaf]
  have ok: "node_ok h (blank_node leaf parent)" using n(1) bl l(3,4) by (simp add: node_ok_def PAGE_SIZE_def)
  have "length (entries h (blank_node leaf parent)) = 0" using bl(2) by simp
  then have none: "entries h (blank_node leaf parent) = []" by (simp only: length_0_conv)
  from insert_pairs_ok [OF ok, of 0 k, OF _ _ len] bl(2) m n(3) obtain N where
    N: "insert_pairs h 0 (rd (24 + m * ?w) (k * ?w) b) (rd (24 + slots h * ?w + m * 8) (k * 8) b) (int k) (blank_node leaf parent) = (Inr (), N)"
      "node_ok h N" "n_num N = int k" "links N = links (blank_node leaf parent)"
    and e: "entries h N = zip (cells ?w k (rd (m * ?w) (k * ?w) (kreg h b))) (map rid_of (cells 8 k (rd (m * 8) (k * 8) (rreg h b))))"
    by (auto simp: ks none)
  have "zip (cells ?w k (rd (m * ?w) (k * ?w) (kreg h b))) (map rid_of (cells 8 k (rd (m * 8) (k * 8) (rreg h b)))) = drop m (entries h b)"
    unfolding entries_def k_def cells_drop [OF m(1)] by (simp add: drop_zip drop_map)
  then have "entries h N = drop m (entries h b)" by (rule trans [OF e])
  with N show ?thesis using sorted_part [OF assms(1) N(2)] by blast
qed

section \<open>The file header\<close>

lemma hdr_pages [simp]:
  "klen (h\<lparr>ix_num_pages := k\<rparr>) = klen h" "slots (h\<lparr>ix_num_pages := k\<rparr>) = slots h" "entries (h\<lparr>ix_num_pages := k\<rparr>) b = entries h b"
  "node_sorted (h\<lparr>ix_num_pages := k\<rparr>) b = node_sorted h b"
  by (simp_all add: klen_def slots_def entries_def kreg_def rreg_def node_sorted_def node_ok_def ix_hdr_ok_def ranked_def valid_key_def)

definition after_new :: "ix_state \<Rightarrow> BufferPoolManager \<Rightarrow> ix_state" where
  "after_new s b = s\<lparr>ix_bpm := b, ix_fh := (ix_fh s)\<lparr>ixh_hdr := (ix_hdr s)\<lparr>ix_num_pages := ix_num_pages (ix_hdr s) + 1\<rparr>\<rparr>\<rparr>"

lemma after_new_simps [simp]:
  "ix_bpm (after_new s b) = b" "ix_hdr (after_new s b) = (ix_hdr s)\<lparr>ix_num_pages := ix_num_pages (ix_hdr s) + 1\<rparr>"
  "ix_pid (after_new s b) = ix_pid s" "(after_new s b)\<lparr>ix_bpm := b'\<rparr> = after_new s b'" "ixh_fd (ix_fh (after_new s b)) = ixh_fd (ix_fh s)"
  by (simp_all add: after_new_def ix_hdr_def ix_pid_def fun_eq_iff)

lemma CreateNode_eq: "NewPage (ixh_fd (ix_fh s)) (ix_bpm s) = (Inr (Some (g, pid)), b) \<Longrightarrow> CreateNode s = (Inr g, after_new s b)"
  by (simp add: CreateNode_def upd_ix_hdr_def after_new_def ix_hdr_def ret_def)

section \<open>Two nodes in their frames\<close>

lemma page_data_poke_other [simp]: "f \<noteq> g \<Longrightarrow> page_data f (poke g b s) = page_data f s"
  by (simp add: page_data_def poke_def upd_page_def)

lemma poke_swap: "f \<noteq> g \<Longrightarrow> poke g b (poke f a s) = poke f a (poke g b s)"
  by (simp add: poke_def upd_page_def fun_upd_twist)

definition two :: "frame_id_t \<Rightarrow> frame_id_t \<Rightarrow> ix_state \<Rightarrow> BufferPoolManager \<Rightarrow> bytes \<Rightarrow> bytes \<Rightarrow> ix_state" where
  "two f g s b x y = after_new s (poke f x (poke g y b))"

lemma on_two:
  assumes "f \<noteq> g"
  shows "m (ix_hdr (after_new s b)) x = (r, x') \<Longrightarrow> on_node f m (two f g s b x y) = (r, two f g s b x' y)"
    "m (ix_hdr (after_new s b)) y = (r, y') \<Longrightarrow> on_node g m (two f g s b x y) = (r, two f g s b x y')"
  using assms poke_swap [OF assms] by (simp_all add: on_node_def two_def)

lemma GetPageNo_two:
  "GetPageNo q (two f g s b x y) = (Inr (pid_page_no (pg_id (pages b q))), two f g s b x y)"
  by (simp add: GetPageNo_def query_def two_def)

text \<open>\<open>Split\<close> up to the change of the next leaf.\<close>

lemma Split_two:
  assumes "NewPage (ixh_fd (ix_fh s)) (ix_bpm s) = (Inr (Some (g, pid)), b1)" "f \<noteq> g" "page_data f b1 = b" "page_data g b1 = zero_page"
    and "node_sorted (ix_hdr s) b" "n_leaf b" "n_next b \<noteq> IX_NO_PAGE"
  defines "m \<equiv> nat ((n_num b + 1) div 2)"
  shows "\<exists>N. Split f s = bind (FetchNode (n_next b)) (\<lambda>nl. bind (on_node nl (\<lambda>h. SetPrevLeaf (pid_page_no (pg_id (pages b1 g))))) (\<lambda>_.
      bind (node_unpin nl True) (\<lambda>_. bind (on_node f (\<lambda>h. SetNextLeaf (pid_page_no (pg_id (pages b1 g))))) (\<lambda>_. ret g))))
      (two f g s b1 (wr 8 (le32 (int m)) b) (wr 16 (le32 (pid_page_no (pg_id (pages b1 f)))) (wr 20 (le32 (n_next b)) N))) \<and>
    node_sorted (ix_hdr s) N \<and> entries (ix_hdr s) N = drop m (entries (ix_hdr s) b) \<and> n_num N = n_num b - int m \<and>
    n_leaf N \<and> n_parent N = n_parent b"
proof -
  let ?h = "ix_hdr (after_new s b1)" and ?Z = "zero_page" and ?t = "two f g s b1" and ?p = "n_parent b"
  have srt: "node_sorted ?h b" using assms(5) by simp
  note n = node_okD [OF node_sortedD(1) [OF srt]]
  have m: "int m = (n_num b + 1) div 2" "int m \<le> n_num b" "n_num b - int m = int (nat (n_num b) - m)" using n(4) by (auto simp: m_def)
  have i32: "in32 ?p" by (simp add: n_parent_def in32_of_le32)
  note fr = field_reads [OF n(2)]
  from right_half [OF srt m(2) i32, of True] obtain N where
    N: "insert_pairs ?h 0 (rd (24 + m * klen ?h) ((nat (n_num b) - m) * klen ?h) b) (rd (24 + slots ?h * klen ?h + m * 8) ((nat (n_num b) - m) * 8) b)
      (int (nat (n_num b) - m)) (blank_node True ?p) = (Inr (), N)" "node_sorted ?h N" "n_num N = int (nat (n_num b) - m)"
      "entries ?h N = drop m (entries ?h b)" "links N = links (blank_node True ?p)" by blast
  have lN: "length N = 4096" using node_okD(2) [OF node_sortedD(1) [OF N(2)]] .
  note lf = left_half(4) [OF srt m(2)]
  note L = on_two(1) [OF assms(2)] and R = on_two(2) [OF assms(2)]
  let ?Z1 = "wr 12 [1] ?Z"
  let ?Z2 = "wr 8 (le32 0) ?Z1"
  let ?Z3 = "wr 4 (le32 ?p) ?Z2"
  let ?Z4 = "wr 0 (le32 IX_NO_PAGE) ?Z3"
  have lz: "length ?Z = 4096" "length ?Z1 = 4096" "length ?Z2 = 4096" "length ?Z3 = 4096" by (simp_all add: hdr_write(1) PAGE_SIZE_def)
  have k: "nat (n_num b) - m + m \<le> slots ?h" using n(3) m(2) n(4) by simp
  have kb: "m * klen ?h + (nat (n_num b) - m) * klen ?h \<le> slots ?h * klen ?h" "m * 8 + (nat (n_num b) - m) * 8 \<le> slots ?h * 8"
    using mult_le_mono1 [OF k, of "klen ?h"] k by (simp_all add: add_mult_distrib)
  note lay = ix_layout [OF n(1)]
  have ldk: "pg_ld (key_off ?h (int m)) (int (nat (n_num b) - m) * col_len ?h) b = (Inr (rd (24 + m * klen ?h) ((nat (n_num b) - m) * klen ?h) b), b)"
    using kb(1) lay(1,5) n(2) by (intro pg_ld_ok [OF key_off_nat [OF n(1)]]) simp_all
  have ldr: "pg_ld (rid_off ?h (int m)) (int (nat (n_num b) - m) * sizeof_Rid) b = (Inr (rd (24 + slots ?h * klen ?h + m * 8) ((nat (n_num b) - m) * 8) b), b)"
    using kb(2) lay(1) n(2) by (intro pg_ld_ok [OF rid_off_nat [OF n(1)]]) (simp_all add: sizeof_Rid_def)
  have start: "after_new s b1 = ?t b ?Z" unfolding two_def assms(3,4) [symmetric] by (simp only: poke_same)
  let ?L = "wr 8 (le32 (int m)) b" and ?N6 = "wr 20 (le32 (n_next b)) N" and ?P = "\<lambda>q. pid_page_no (pg_id (pages b1 q))"
  have Z4: "?Z4 = blank_node True ?p" by (simp add: blank_node_def)
  have lL: "length ?L = 4096" by (rule lf)
  have l6: "length ?N6 = 4096" using lN by (simp add: hdr_write(1))
  have c: "CreateNode s = (Inr g, ?t b ?Z)" using CreateNode_eq [OF assms(1)] start by simp
  have e1: "on_node f (\<lambda>h. IsLeafPage) (?t b ?Z) = (Inr True, ?t b ?Z)" by (rule L) (use fr(1) assms(6) in simp)
  have e2: "on_node g (\<lambda>h. set_is_leaf True) (?t b ?Z) = (Inr (), ?t b ?Z1)" by (rule R) (use setters(5) [OF lz(1), of True] in simp)
  have e3: "on_node g (\<lambda>h. SetSize 0) (?t b ?Z1) = (Inr (), ?t b ?Z2)" by (rule R) (rule SetSize_ok [OF lz(2)])
  have e4: "on_node f (\<lambda>h. GetParentPageNo) (?t b ?Z2) = (Inr ?p, ?t b ?Z2)" by (rule L) (rule fr(2))
  have e5: "on_node g (\<lambda>h. SetParentPageNo ?p) (?t b ?Z2) = (Inr (), ?t b ?Z3)" by (rule R) (rule setters(3) [OF lz(3)])
  have e6: "on_node g (\<lambda>h. set_next_free IX_NO_PAGE) (?t b ?Z3) = (Inr (), ?t b ?Z4)" by (rule R) (rule setters(4) [OF lz(4)])
  have e7: "on_node f (\<lambda>h. GetSize) (?t b ?Z4) = (Inr (n_num b), ?t b ?Z4)" by (rule L) (rule GetSize_ok [OF n(2)])
  have e8: "on_node f (\<lambda>h. pg_ld (key_off h (int m)) ((n_num b - int m) * col_len h)) (?t b ?Z4) =
      (Inr (rd (24 + m * klen ?h) ((nat (n_num b) - m) * klen ?h) b), ?t b ?Z4)" unfolding m(3) by (rule L) (rule ldk)
  have e9: "on_node f (\<lambda>h. pg_ld (rid_off h (int m)) ((n_num b - int m) * sizeof_Rid)) (?t b ?Z4) =
      (Inr (rd (24 + slots ?h * klen ?h + m * 8) ((nat (n_num b) - m) * 8) b), ?t b ?Z4)" unfolding m(3) by (rule L) (rule ldr)
  have e10: "on_node g (\<lambda>h. insert_pairs h 0 (rd (24 + m * klen ?h) ((nat (n_num b) - m) * klen ?h) b)
      (rd (24 + slots ?h * klen ?h + m * 8) ((nat (n_num b) - m) * 8) b) (n_num b - int m)) (?t b ?Z4) = (Inr (), ?t b N)"
    unfolding m(3) Z4 by (rule R) (rule N(1))
  have e11: "on_node f (\<lambda>h. SetSize (int m)) (?t b N) = (Inr (), ?t ?L N)" by (rule L) (rule SetSize_ok [OF n(2)])
  have e12: "on_node f (\<lambda>h. IsLeafPage) (?t ?L N) = (Inr True, ?t ?L N)" by (rule L) (use field_reads(1) [OF lL] n(2) assms(6) in simp)
  have e13: "on_node f (\<lambda>h. GetNextLeaf) (?t ?L N) = (Inr (n_next b), ?t ?L N)" by (rule L) (use field_reads(4) [OF lL] n(2) in simp)
  have e14: "on_node g (\<lambda>h. SetNextLeaf (n_next b)) (?t ?L N) = (Inr (), ?t ?L ?N6)" by (rule R) (rule setters(1) [OF lN])
  have e15: "on_node g (\<lambda>h. SetPrevLeaf (?P f)) (?t ?L ?N6) = (Inr (), ?t ?L (wr 16 (le32 (?P f)) ?N6))" by (rule R) (rule setters(2) [OF l6])
  have "Split f s = bind (FetchNode (n_next b)) (\<lambda>nl. bind (on_node nl (\<lambda>h. SetPrevLeaf (?P g))) (\<lambda>_.
      bind (node_unpin nl True) (\<lambda>_. bind (on_node f (\<lambda>h. SetNextLeaf (?P g))) (\<lambda>_. ret g)))) (?t ?L (wr 16 (le32 (?P f)) ?N6))"
    unfolding Split_def Let_def
    by (simp only: bind_assoc bind_Inr c e1 e2 e3 e4 e5 e6 e7 m(1) [symmetric] e8 e9 e10 e11 e12 e13 e14 GetPageNo_two e15 if_True assms(7) simp_thms)
  moreover have "n_leaf N" "n_parent N = n_parent b" using links_fields [OF N(5)] blank_node [OF i32, of True] by simp_all
  moreover have "node_sorted (ix_hdr s) N" "entries (ix_hdr s) N = drop m (entries (ix_hdr s) b)" using N(2,4) by simp_all
  ultimately show ?thesis unfolding m(3) N(3) [symmetric] by (intro exI [of _ N] conjI) (assumption | rule refl)+
qed

section \<open>The pool during a split\<close>

text \<open>Opening the next leaf while the two halves are held, changing it and releasing it.\<close>

lemma visit_third:
  assumes "bp_ok X b1" "holds b1 f p" "holds b1 g q" "0 < pins b1 p" "0 < pins b1 q" "p \<noteq> q" "length x = PAGE_SIZE" "length y = PAGE_SIZE"
    and "logical b1 r = Some c" "r \<noteq> p" "r \<noteq> q" "card {a. 0 < pins b1 a} < pool_size b1" "length c' = PAGE_SIZE"
  shows "\<exists>k b2 b3. FetchPage r (poke f x (poke g y b1)) = (Inr (Some k), b2) \<and> page_data k b2 = c \<and> pg_id (pages b2 k) = r \<and>
    UnpinPage r True (poke k c' b2) = (True, b3) \<and> holds b3 f p \<and> holds b3 g q \<and> page_data f b3 = x \<and> 0 < pins b3 p \<and>
    bp_ok (insert p (insert q X) - {r}) b3 \<and> pins b3 = pins b1 \<and> pool_size b3 = pool_size b1 \<and> disk_env b3 = disk_env b1 \<and>
    dom (page_table b3) \<subseteq> insert r (dom (page_table b1)) \<and> logical b3 p = Some x \<and> logical b3 q = Some y \<and> logical b3 r = Some c' \<and>
    (\<forall>a d. a \<notin> {p, q, r} \<longrightarrow> logical b1 a = Some d \<longrightarrow> logical b3 a = Some d)"
proof -
  let ?C = "poke g y b1" and ?B = "poke f x (poke g y b1)"
  note k1 = bp.poke_ok [OF assms(1,3,5,8)]
  have h1: "bp_ok (insert q X) ?C" "holds ?C f p" "0 < pins ?C p" using k1 assms(2,4) by simp_all
  note k2 = bp.poke_ok [OF h1 assms(7)]
  have B: "bp_ok (insert p (insert q X)) ?B" "pins ?B = pins b1" "holds ?B = holds b1" "pool_size ?B = pool_size b1"
    "logical ?B = (logical b1)(q \<mapsto> y, p \<mapsto> x)" "disk_env ?B = disk_env b1" "dom (page_table ?B) = dom (page_table b1)" using k1 k2 by simp_all
  have c: "logical ?B r = Some c" using B(5) assms(9-11) by simp
  from bp.fetch_ok [OF B(1) c] assms(12) B obtain k b2 where
    F: "FetchPage r ?B = (Inr (Some k), b2)" "bp_ok (insert p (insert q X)) b2" "holds b2 k r" "pins b2 = (pins b1)(r := pins b1 r + 1)"
    "\<forall>a d. logical ?B a = Some d \<longrightarrow> logical b2 a = Some d" "\<forall>a d. holds b1 a d \<longrightarrow> 0 < pins b1 d \<longrightarrow> holds b2 a d"
    "pool_size b2 = pool_size b1" "disk_env b2 = disk_env b1" "dom (page_table b2) \<subseteq> insert r (dom (page_table b1))" by auto
  note hd = held_data [OF F(2,3)]
  have pos: "0 < pins b2 r" using F(4) bp.pinned_nonneg [OF assms(1), of r] by simp
  note pk = bp.poke_ok [OF F(2,3) pos assms(13)]
  have ok3: "bp_ok (insert r (insert p (insert q X))) (poke k c' b2)" "0 < pins (poke k c' b2) r" using pk pos by simp_all
  from bp.unpin_ok [OF ok3, of True] obtain b3 where
    U: "UnpinPage r True (poke k c' b2) = (True, b3)" "bp_ok (insert r (insert p (insert q X)) - {r}) b3" "logical b3 = logical (poke k c' b2)"
    "pins b3 = (pins (poke k c' b2))(r := pins (poke k c' b2) r - 1)" "holds b3 = holds (poke k c' b2)"
    "pool_size b3 = pool_size (poke k c' b2)" "disk_env b3 = disk_env (poke k c' b2)" "dom (page_table b3) = dom (page_table (poke k c' b2))" by blast
  have lg: "logical b3 a = (if a = r then Some c' else logical b2 a)" for a using U(3) pk by simp
  have L: "logical b3 p = Some x" "logical b3 q = Some y" "logical b3 r = Some c'"
    using F(5) B(5) assms(6,10,11) by (auto simp: lg)
  have H: "holds b3 f p" "holds b3 g q" using F(6) assms(2-5) U(5) pk by simp_all
  have pn: "pins b3 = pins b1" using U(4) pk F(4) by (simp add: fun_eq_iff)
  have fr: "pool_size b3 = pool_size b1" "disk_env b3 = disk_env b1" "dom (page_table b3) \<subseteq> insert r (dom (page_table b1))"
    using U(6-8) pk F(7-9) by simp_all
  have Y: "insert r (insert p (insert q X)) - {r} = insert p (insert q X) - {r}" by blast
  have "0 < pins b3 p" using pn assms(4) by simp
  moreover have "logical b3 a = Some d" if "a \<notin> {p, q, r}" "logical b1 a = Some d" for a d
    using F(5) B(5) that by (simp add: lg)
  moreover have "logical b2 r = Some c" using F(5) c by blast
  ultimately show ?thesis using F(1) hd U(1) U(2) [unfolded Y] L H held_data(1) [OF U(2) H(1) L(1)] pn fr by blast
qed

lemma room_after_new:
  assumes "bp_ok X s" "pins b1 = (pins s)(q := 1)" "card {p. 0 < pins s p} + 1 < n"
  shows "card {p. 0 < pins b1 p} < n"
proof -
  have "{p. 0 < pins b1 p} \<subseteq> insert q {p. 0 < pins s p}" using assms(2) by auto
  with card_mono [of "insert q {p. 0 < pins s p}"] finite_pins [OF assms(1)] have "card {p. 0 < pins b1 p} \<le> card (insert q {p. 0 < pins s p})" by simp
  also have "\<dots> \<le> card {p. 0 < pins s p} + 1" using finite_pins [OF assms(1)] by (simp add: card_insert_if)
  finally show ?thesis using assms(3) by simp
qed

text \<open>What \<open>Split\<close> does once the two halves are filled.\<close>

lemma link_next:
  assumes "bp_ok X b1" "holds b1 f (ix_pid s p)" "holds b1 g (ix_pid s np)" "0 < pins b1 (ix_pid s p)" "0 < pins b1 (ix_pid s np)"
    and "logical b1 (ix_pid s nx) = Some c" "distinct [p, np, nx]" "card {a. 0 < pins b1 a} < pool_size b1" "length x = 4096" "length y = 4096"
  shows "\<exists>b4. bind (FetchNode nx) (\<lambda>nl. bind (on_node nl (\<lambda>h. SetPrevLeaf np)) (\<lambda>_.
      bind (node_unpin nl True) (\<lambda>_. bind (on_node f (\<lambda>h. SetNextLeaf np)) (\<lambda>_. ret g)))) (two f g s b1 x y) = (Inr g, after_new s b4) \<and>
    bp_ok (insert (ix_pid s p) (insert (ix_pid s np) X) - {ix_pid s nx}) b4 \<and> pins b4 = pins b1 \<and> pool_size b4 = pool_size b1 \<and>
    disk_env b4 = disk_env b1 \<and> dom (page_table b4) \<subseteq> insert (ix_pid s nx) (dom (page_table b1)) \<and> holds b4 f (ix_pid s p) \<and>
    holds b4 g (ix_pid s np) \<and> logical b4 (ix_pid s p) = Some (wr 20 (le32 np) x) \<and> logical b4 (ix_pid s np) = Some y \<and>
    logical b4 (ix_pid s nx) = Some (wr 16 (le32 np) c) \<and>
    (\<forall>q d. q \<notin> {p, np, nx} \<longrightarrow> logical b1 (ix_pid s q) = Some d \<longrightarrow> logical b4 (ix_pid s q) = Some d)"
proof -
  have pid [simp]: "ix_pid s x = ix_pid s y \<longleftrightarrow> x = y" for x y by (simp add: ix_pid_def)
  have lc: "length c = 4096" using logical_length [OF assms(1,6)] by (simp add: PAGE_SIZE_def)
  have lens: "length x = PAGE_SIZE" "length y = PAGE_SIZE" "length (wr 16 (le32 np) c) = PAGE_SIZE" "length (wr 20 (le32 np) x) = PAGE_SIZE"
    using assms(9,10) lc by (simp_all add: hdr_write(1) PAGE_SIZE_def)
  from visit_third [OF assms(1-5) _ lens(1,2) assms(6) _ _ assms(8) lens(3)] assms(7) obtain k b2 b3 where
    V: "FetchPage (ix_pid s nx) (poke f x (poke g y b1)) = (Inr (Some k), b2)" "page_data k b2 = c" "pg_id (pages b2 k) = ix_pid s nx"
    "UnpinPage (ix_pid s nx) True (poke k (wr 16 (le32 np) c) b2) = (True, b3)" "holds b3 f (ix_pid s p)" "holds b3 g (ix_pid s np)"
    "page_data f b3 = x" "0 < pins b3 (ix_pid s p)"
    "bp_ok (insert (ix_pid s p) (insert (ix_pid s np) X) - {ix_pid s nx}) b3" "logical b3 (ix_pid s p) = Some x" "logical b3 (ix_pid s np) = Some y"
    "logical b3 (ix_pid s nx) = Some (wr 16 (le32 np) c)"
    "\<forall>a d. a \<notin> {ix_pid s p, ix_pid s np, ix_pid s nx} \<longrightarrow> logical b1 a = Some d \<longrightarrow> logical b3 a = Some d"
    "pins b3 = pins b1" "pool_size b3 = pool_size b1" "disk_env b3 = disk_env b1" "dom (page_table b3) \<subseteq> insert (ix_pid s nx) (dom (page_table b1))"
    by auto
  have 1: "FetchNode nx (two f g s b1 x y) = (Inr k, after_new s b2)"
    using FetchNode_eq [of "two f g s b1 x y" nx k b2] V(1) by (simp add: two_def)
  have 2: "on_node k (\<lambda>h. SetPrevLeaf np) (after_new s b2) = (Inr (), after_new s (poke k (wr 16 (le32 np) c) b2))"
    using on_node_write [of "\<lambda>h. SetPrevLeaf np" "after_new s b2" k] setters(2) [OF lc] V(2) by simp
  have 3: "node_unpin k True (after_new s (poke k (wr 16 (le32 np) c) b2)) = (Inr (), after_new s b3)"
    using node_unpin_eq [of "after_new s (poke k (wr 16 (le32 np) c) b2)" k "ix_pid s nx" True True b3] V(3,4) by simp
  have 4: "on_node f (\<lambda>h. SetNextLeaf np) (after_new s b3) = (Inr (), after_new s (poke f (wr 20 (le32 np) x) b3))"
    using on_node_write [of "\<lambda>h. SetNextLeaf np" "after_new s b3" f] setters(1) [OF assms(9)] V(7) by simp
  note pk = bp.poke_ok [OF V(9,5,8) lens(4)]
  have "bind (FetchNode nx) (\<lambda>nl. bind (on_node nl (\<lambda>h. SetPrevLeaf np)) (\<lambda>_.
      bind (node_unpin nl True) (\<lambda>_. bind (on_node f (\<lambda>h. SetNextLeaf np)) (\<lambda>_. ret g)))) (two f g s b1 x y) =
      (Inr g, after_new s (poke f (wr 20 (le32 np) x) b3))" by (simp only: 1 2 3 4 bind_Inr ret_def)
  moreover have "insert (ix_pid s p) (insert (ix_pid s p) (insert (ix_pid s np) X) - {ix_pid s nx}) = insert (ix_pid s p) (insert (ix_pid s np) X) - {ix_pid s nx}"
    using assms(7) by auto
  ultimately show ?thesis
    using pk V(5,6,11-) assms(7) by (intro exI [of _ "poke f (wr 20 (le32 np) x) b3"] conjI) (assumption | simp)+
qed

text \<open>The fields and entries of the two halves and of the next leaf at the end.\<close>

lemma halves:
  assumes "node_sorted h b" "n_leaf b" "node_sorted h N" "entries h N = drop m (entries h b)" "n_leaf N" "n_parent N = n_parent b"
    and "int m \<le> n_num b" "in32 np" "in32 p" "in32 nx" "length c = 4096"
  defines "L \<equiv> wr 20 (le32 np) (wr 8 (le32 (int m)) b)" and "R \<equiv> wr 16 (le32 p) (wr 20 (le32 nx) N)"
  shows "entries h L @ entries h R = entries h b" "n_num L = int m" "node_sorted h L" "node_sorted h R" "n_leaf L" "n_leaf R"
    "n_parent L = n_parent b" "n_parent R = n_parent b" "n_prev L = n_prev b" "n_next L = np" "n_prev R = p" "n_next R = nx"
    "n_prev (wr 16 (le32 np) c) = np" "n_next (wr 16 (le32 np) c) = n_next c" "entries h (wr 16 (le32 np) c) = entries h c"
proof -
  note n = node_okD [OF node_sortedD(1) [OF assms(1)]] and l = left_half [OF assms(1,7)]
  have lN: "length N = 4096" "length (wr 20 (le32 nx) N) = 4096" using node_okD(2) [OF node_sortedD(1) [OF assms(3)]] by (simp_all add: hdr_write(1))
  have L: "node_sorted h L" "entries h L = take m (entries h b)"
    unfolding L_def using sorted_hdr_write [OF l(1), of 20 "le32 np"] l(2,4) by simp_all
  have R1: "node_sorted h (wr 20 (le32 nx) N)" "entries h (wr 20 (le32 nx) N) = drop m (entries h b)"
    using sorted_hdr_write [OF assms(3), of 20 "le32 nx"] assms(4) lN by simp_all
  have R: "node_sorted h R" "entries h R = drop m (entries h b)"
    unfolding R_def using sorted_hdr_write [OF R1(1), of 16 "le32 p"] R1(2) lN(2) by simp_all
  show "entries h L @ entries h R = entries h b" using L R by simp
  show "node_sorted h L" "node_sorted h R" by (fact L R)+
  show "entries h (wr 16 (le32 np) c) = entries h c" using assms(11) by (intro entries_hdr_write [OF n(1)]) simp_all
  show "n_num L = int m" "n_leaf L" "n_leaf R" "n_parent L = n_parent b" "n_parent R = n_parent b" "n_prev L = n_prev b" "n_next L = np"
    "n_prev R = p" "n_next R = nx" "n_prev (wr 16 (le32 np) c) = np" "n_next (wr 16 (le32 np) c) = n_next c"
    using l(3,4) lN n(2) assms(2,5,6,8-11) by (simp_all add: L_def R_def)
qed

text \<open>The whole of \<open>Split\<close> on a leaf with a next leaf.\<close>

lemma Split_run:
  fixes s :: ix_state
  defines "h \<equiv> ix_hdr s" and "fd \<equiv> ixh_fd (ix_fh s)"
  defines "np \<equiv> fd2pageno (disk_manager (ix_bpm s)) fd"
  assumes "bp_ok X (ix_bpm s)" "holds (ix_bpm s) f (ix_pid s p)" "0 < pins (ix_bpm s) (ix_pid s p)"
    and "card {q. 0 < pins (ix_bpm s) q} + 1 < pool_size (ix_bpm s)"
    and "ix_page s p = Some b" "node_sorted h b" "n_leaf b"
    and "ix_page s (n_next b) = Some c" "n_next b \<noteq> IX_NO_PAGE" "n_next b \<noteq> p" "n_next b \<noteq> np"
    and "dm_open (disk_manager (ix_bpm s)) fd" "0 \<le> fd" "fd < MAX_FD" "page_table (ix_bpm s) (ix_pid s np) = None" "0 \<le> np" "in32 np" "in32 p"
  defines "m \<equiv> nat ((n_num b + 1) div 2)"
  shows "\<exists>g b4 N. Split f s = (Inr g, after_new s b4) \<and> holds b4 g (ix_pid s np) \<and> holds b4 f (ix_pid s p) \<and>
    bp_ok (insert (ix_pid s p) (insert (ix_pid s np) X) - {ix_pid s (n_next b)}) b4 \<and> pins b4 = (pins (ix_bpm s))(ix_pid s np := 1) \<and>
    pool_size b4 = pool_size (ix_bpm s) \<and> fd2pageno (disk_manager b4) fd = wrap32 (np + 1) \<and> dm_open (disk_manager b4) fd \<and>
    dom (page_table b4) \<subseteq> insert (ix_pid s (n_next b)) (insert (ix_pid s np) (dom (page_table (ix_bpm s)))) \<and>
    logical b4 (ix_pid s p) = Some (wr 20 (le32 np) (wr 8 (le32 (int m)) b)) \<and>
    logical b4 (ix_pid s np) = Some (wr 16 (le32 p) (wr 20 (le32 (n_next b)) N)) \<and> logical b4 (ix_pid s (n_next b)) = Some (wr 16 (le32 np) c) \<and>
    (\<forall>q d. q \<notin> {p, np, n_next b} \<longrightarrow> ix_page s q = Some d \<longrightarrow> logical b4 (ix_pid s q) = Some d) \<and>
    node_sorted h N \<and> entries h N = drop m (entries h b) \<and> n_leaf N \<and> n_parent N = n_parent b"
proof -
  note a = assms(4-21)
  have lp: "logical (ix_bpm s) (ix_pid s p) = Some b" "logical (ix_bpm s) (ix_pid s (n_next b)) = Some c" using a(5,8) by (simp_all add: ix_page_def)
  have new: "ix_pid s np = \<lparr>pid_fd = fd, pid_page_no = fd2pageno (disk_manager (ix_bpm s)) fd\<rparr>" by (simp add: ix_pid_def fd_def np_def)
  have room: "card {q. 0 < pins (ix_bpm s) q} < pool_size (ix_bpm s)" using a(4) by simp
  have np0: "0 \<le> pid_page_no (ix_pid s np)" using a(16) by (simp add: ix_pid_def)
  from NewPage_ok [OF a(1) room a(12-14), folded new, OF a(15) np0] obtain g b1 where
    N1: "NewPage fd (ix_bpm s) = (Inr (Some (g, ix_pid s np)), b1)" "bp_ok (insert (ix_pid s np) X) b1" "holds b1 g (ix_pid s np)"
    "logical b1 (ix_pid s np) = Some zero_page" "pool_size b1 = pool_size (ix_bpm s)"
    "\<forall>q d. q \<noteq> ix_pid s np \<longrightarrow> logical (ix_bpm s) q = Some d \<longrightarrow> logical b1 q = Some d" "pins b1 = (pins (ix_bpm s))(ix_pid s np := 1)"
    "\<forall>k q. holds (ix_bpm s) k q \<longrightarrow> 0 < pins (ix_bpm s) q \<longrightarrow> holds b1 k q" by blast
  have pnp: "p \<noteq> np" using a(2,15) by (auto simp: holds_def)
  have pid [simp]: "ix_pid s x = ix_pid s y \<longleftrightarrow> x = y" for x y by (simp add: ix_pid_def)
  have hf: "holds b1 f (ix_pid s p)" using N1(8) a(2,3) by blast
  have lb: "logical b1 (ix_pid s p) = Some b" "logical b1 (ix_pid s (n_next b)) = Some c" using N1(6) lp pnp a(11) by simp_all
  note df = held_data [OF N1(2) hf lb(1)] and dg = held_data [OF N1(2,3,4)]
  have fg: "f \<noteq> g" using df(2) dg(2) pnp by auto
  have P: "pid_page_no (pg_id (pages b1 g)) = np" "pid_page_no (pg_id (pages b1 f)) = p" using df(2) dg(2) by (simp_all add: ix_pid_def)
  from Split_two [OF N1(1) [unfolded fd_def] fg df(1) dg(1) a(6) [unfolded h_def] a(7,9), unfolded P, folded m_def] obtain N where
    S: "Split f s = bind (FetchNode (n_next b)) (\<lambda>nl. bind (on_node nl (\<lambda>h. SetPrevLeaf np)) (\<lambda>_.
      bind (node_unpin nl True) (\<lambda>_. bind (on_node f (\<lambda>h. SetNextLeaf np)) (\<lambda>_. ret g))))
      (two f g s b1 (wr 8 (le32 (int m)) b) (wr 16 (le32 p) (wr 20 (le32 (n_next b)) N)))"
    and N: "node_sorted h N" "entries h N = drop m (entries h b)" "n_leaf N" "n_parent N = n_parent b"
    unfolding h_def by blast
  have room1: "card {q. 0 < pins b1 q} < pool_size b1" by (rule room_after_new [OF a(1) N1(7)]) (use a(4) N1(5) in simp)
  have lens: "length (wr 8 (le32 (int m)) b) = 4096" "length (wr 16 (le32 p) (wr 20 (le32 (n_next b)) N)) = 4096" 
    using node_okD(2) [OF node_sortedD(1) [OF a(6)]] node_okD(2) [OF node_sortedD(1) [OF N(1)]]
    by (simp_all add: hdr_write(1) PAGE_SIZE_def)
  have pins: "0 < pins b1 (ix_pid s p)" "0 < pins b1 (ix_pid s np)" using N1(7) a(3) pnp by simp_all
  have dist: "distinct [p, np, n_next b]" using pnp a(10,11) by auto
  from link_next [OF N1(2) hf N1(3) pins lb(2) dist room1 lens(1,2)] obtain b4 where
    Q: "Split f s = (Inr g, after_new s b4)" "holds b4 g (ix_pid s np)"
    "logical b4 (ix_pid s p) = Some (wr 20 (le32 np) (wr 8 (le32 (int m)) b))"
    "logical b4 (ix_pid s np) = Some (wr 16 (le32 p) (wr 20 (le32 (n_next b)) N))" "logical b4 (ix_pid s (n_next b)) = Some (wr 16 (le32 np) c)"
    "\<forall>q d. q \<notin> {p, np, n_next b} \<longrightarrow> logical b1 (ix_pid s q) = Some d \<longrightarrow> logical b4 (ix_pid s q) = Some d"
    and E: "holds b4 f (ix_pid s p)" "bp_ok (insert (ix_pid s p) (insert (ix_pid s np) X) - {ix_pid s (n_next b)}) b4" "pins b4 = pins b1"
      "pool_size b4 = pool_size b1" "disk_env b4 = disk_env b1" "dom (page_table b4) \<subseteq> insert (ix_pid s (n_next b)) (dom (page_table b1))"
    unfolding S by auto
  have al: "fd2pageno (disk_manager b4) fd = wrap32 (np + 1)" "dm_open (disk_manager b4) fd"
    using NewPage_alloc [OF N1(1)] NewPage_resident(2) [OF bp_okD(1) [OF a(1)] N1(1)] E(5) a(12) by (auto simp: disk_env_def np_def)
  have dom: "dom (page_table b4) \<subseteq> insert (ix_pid s (n_next b)) (insert (ix_pid s np) (dom (page_table (ix_bpm s))))"
    using E(6) NewPage_resident(1) [OF bp_okD(1) [OF a(1)] N1(1)] by blast
  have "\<forall>q d. q \<notin> {p, np, n_next b} \<longrightarrow> ix_page s q = Some d \<longrightarrow> logical b4 (ix_pid s q) = Some d"
    using Q(6) N1(6) by (simp add: ix_page_def)
  with Q(1-5) N E al dom N1(5,7) show ?thesis by (intro exI [of _ g] exI [of _ b4] exI [of _ N]) simp
qed

section \<open>An example\<close>

text \<open>A leaf with two entries whose neighbour is page 0.\<close>

lemma demo_leaf:
  assumes "ix_hdr_ok h" "col_type h = TYPE_INT" "col_len h = 4"
  shows "\<exists>b v. node_sorted h b \<and> n_leaf b \<and> n_num b = 2 \<and> n_next b = 0 \<and> n_parent b = INVALID_PAGE_ID \<and>
    node_map h b = [rank h (le32 7) \<mapsto> v, rank h (le32 9) \<mapsto> v]"
proof -
  let ?b = "page_with_hdr 0 0 zero_page" and ?v = "\<lparr>rid_page_no = 3, rid_slot_no = -1\<rparr>"
  have z: "length zero_page = 4096" by (simp add: zero_page_def PAGE_SIZE_def)
  note f = page_with_hdr_fields [OF z, of 0 0, unfolded in32_def, simplified]
  note lay = ix_layout [OF assms(1)]
  have v: "valid_key h (le32 k)" for k using assms(2,3) by (simp add: valid_key_def klen_def)
  have r: "rid_in32 ?v" by (simp add: rid_in32_def in32_def)
  have e: "entries h ?b = []" using length_entries [of h ?b] f(2) by (simp del: length_entries)
  then have ns: "node_sorted h ?b" "node_map h ?b = Map.empty"
    using f assms(1) lay(3,4) by (auto simp: node_sorted_def node_ok_def ranked_def strict_def node_map_def PAGE_SIZE_def)
  from Insert_ok [OF ns(1) v [of 7] r] ns(2) f(2) lay(3) obtain b1 where
    b1: "node_sorted h b1" "node_map h b1 = [rank h (le32 7) \<mapsto> ?v]" "n_num b1 = 1" "links b1 = links ?b" by auto
  have "rank h (le32 9) \<noteq> rank h (le32 7)" using assms(2) by (simp add: in32_def)
  with Insert_ok [OF b1(1) v [of 9] r] b1(2,3) lay(3) obtain b2 where b2: "node_sorted h b2" "n_num b2 = 2" "links b2 = links b1"
    "node_map h b2 = [rank h (le32 7) \<mapsto> ?v, rank h (le32 9) \<mapsto> ?v]" by auto
  have "links b2 = links ?b" using b2(3) b1(4) by simp
  with b2 f(3,4,6) show ?thesis using links_fields [of b2 ?b] by (auto simp: INVALID_PAGE_ID_def IX_NO_PAGE_def)
qed

text \<open>A pool of three frames in which pages 0 and 1 hold given contents and the next page number is 2.\<close>

lemma demo_pages:
  assumes "length c = PAGE_SIZE" "length b = PAGE_SIZE"
  shows "\<exists>s. quiet s \<and> pool_size s = 3 \<and> logical s (demo_pid 1) = Some b \<and> logical s (demo_pid 0) = Some c \<and>
    dm_open (disk_manager s) 3 \<and> fd2pageno (disk_manager s) 3 = 2 \<and> dom (page_table s) \<subseteq> {demo_pid 0, demo_pid 1}"
proof -
  let ?P = "BufferPoolManager_init 3 (\<lambda>_. 0) demo_disk"
  have P: "quiet ?P" "disk_manager ?P = demo_disk" "page_table ?P = Map.empty" "pool_size ?P = 3"
    using init_ok [OF dm_reach_inv [OF demo_reach]] by (simp_all add: quiet_def) (simp_all add: BufferPoolManager_init_def)
  have op: "dm_open demo_disk 3" "fd2pageno demo_disk 3 = 0" by (simp_all add: demo_disk_def dm_open_def)
  have fd: "(0::int) \<le> 3" "(3::int) < MAX_FD" by (simp_all add: MAX_FD_def)
  have w: "wrap32 1 = 1" "wrap32 2 = 2" by (simp_all add: wrap32_def)
  have pids: "demo_pid k = \<lparr>pid_fd = 3, pid_page_no = k\<rparr>" for k by (simp add: demo_pid_def)
  from visit_new [OF P(1) _ fd assms(1)] P(2-4) op w obtain s2 where
    2: "quiet s2" "pool_size s2 = 3" "disk_env s2 = ((fd2pageno demo_disk)(3 := 1), dm_open demo_disk)" "dom (page_table s2) \<subseteq> {demo_pid 0}" "logical s2 (demo_pid 0) = Some c"
    by (auto simp: pids)
  have e2: "fd2pageno (disk_manager s2) 3 = 1" "dm_open (disk_manager s2) = dm_open demo_disk" using 2(3) by (simp_all add: disk_env_def)
  have "page_table s2 (demo_pid 1) = None" using 2(4) by (auto simp: pids)
  with visit_new [OF 2(1) _ fd assms(2)] 2(2) e2 op w obtain s3 where
    3: "quiet s3" "pool_size s3 = 3" "disk_env s3 = ((fd2pageno (disk_manager s2))(3 := 2), dm_open demo_disk)" "dom (page_table s3) \<subseteq> insert (demo_pid 1) (dom (page_table s2))"
    "logical s3 (demo_pid 1) = Some b" "\<forall>p d. p \<noteq> demo_pid 1 \<longrightarrow> logical s2 p = Some d \<longrightarrow> logical s3 p = Some d"
    by (auto simp: pids)
  have "fd2pageno (disk_manager s3) 3 = 2" "dm_open (disk_manager s3) 3" using 3(3) op(1) by (simp_all add: disk_env_def)
  moreover have "logical s3 (demo_pid 0) = Some c" using 3(6) 2(5) by (simp add: pids)
  moreover have "dom (page_table s3) \<subseteq> {demo_pid 0, demo_pid 1}" using 3(4) 2(4) by blast
  ultimately show ?thesis using 3(1,2,5) by blast
qed

text \<open>The same with page 1 held.\<close>

lemma demo_held:
  assumes "length c = PAGE_SIZE" "length b = PAGE_SIZE"
  shows "\<exists>f s. bp_ok {} s \<and> holds s f (demo_pid 1) \<and> pins s = (\<lambda>_. 0)(demo_pid 1 := 1) \<and> pool_size s = 3 \<and>
    logical s (demo_pid 1) = Some b \<and> logical s (demo_pid 0) = Some c \<and> dm_open (disk_manager s) 3 \<and>
    fd2pageno (disk_manager s) 3 = 2 \<and> page_table s (demo_pid 2) = None"
proof -
  from demo_pages [OF assms] obtain s3 where 3: "quiet s3" "pool_size s3 = 3" "logical s3 (demo_pid 1) = Some b" "logical s3 (demo_pid 0) = Some c"
    "dm_open (disk_manager s3) 3" "fd2pageno (disk_manager s3) 3 = 2" "dom (page_table s3) \<subseteq> {demo_pid 0, demo_pid 1}" by blast
  from bp.fetch_ok [OF quiet_ok [OF 3(1)] 3(3)] quiet_room [OF 3(1)] obtain f s4 where
    4: "bp_ok {} s4" "holds s4 f (demo_pid 1)" "pool_size s4 = pool_size s3" "disk_env s4 = disk_env s3"
    "dom (page_table s4) \<subseteq> insert (demo_pid 1) (dom (page_table s3))" "\<forall>p d. logical s3 p = Some d \<longrightarrow> logical s4 p = Some d"
    "pins s4 = (pins s3)(demo_pid 1 := pins s3 (demo_pid 1) + 1)" by blast
  have l: "logical s4 (demo_pid 1) = Some b" "logical s4 (demo_pid 0) = Some c" using 4(6) 3(3,4) by blast+
  have "dom (page_table s4) \<subseteq> {demo_pid 0, demo_pid 1}" using 4(5) 3(7) by blast
  then have "demo_pid 2 \<notin> dom (page_table s4)" by (auto simp: demo_pid_def simp del: domIff)
  moreover have "pins s4 = (\<lambda>_. 0)(demo_pid 1 := 1)" using 4(7) 3(1) by (simp add: quiet_def)
  ultimately show ?thesis using 4(1-4) 3(2,5,6) l by (intro exI [of _ f] exI [of _ s4]) (auto simp: disk_env_def dom_def)
qed

section \<open>Properties\<close>

text \<open>
  C8. Splitting a leaf loses nothing. From a state in which the leaf is held, there are frames for the
  new page and for the next leaf, and the page number that is allocated is fresh, \<open>Split\<close> returns a new leaf:
  the old one keeps the first half of the entries, the new one has the rest, both are sorted, and the
  new leaf stands between the old one and the next one in the list of leaves, in both directions. The
  entries of the next leaf and all other pages stay as they are.
\<close>

theorem leaf_split_keeps_entries:
  fixes s :: ix_state
  defines "h \<equiv> ix_hdr s" and "fd \<equiv> ixh_fd (ix_fh s)"
  defines "np \<equiv> fd2pageno (disk_manager (ix_bpm s)) fd"
  assumes "bp_ok X (ix_bpm s)" "holds (ix_bpm s) f (ix_pid s p)" "0 < pins (ix_bpm s) (ix_pid s p)"
    and "card {q. 0 < pins (ix_bpm s) q} + 1 < pool_size (ix_bpm s)"
    and "ix_page s p = Some b" "node_sorted h b" "n_leaf b"
    and "ix_page s (n_next b) = Some c" "n_next b \<noteq> IX_NO_PAGE" "n_next b \<noteq> p" "n_next b \<noteq> np"
    and "dm_open (disk_manager (ix_bpm s)) fd" "0 \<le> fd" "fd < MAX_FD" "page_table (ix_bpm s) (ix_pid s np) = None" "0 \<le> np" "in32 np" "in32 p"
  shows "\<exists>g s' L N c'. Split f s = (Inr g, s') \<and> holds (ix_bpm s') g (ix_pid s np) \<and>
    ix_page s' p = Some L \<and> ix_page s' np = Some N \<and> ix_page s' (n_next b) = Some c' \<and>
    entries h L @ entries h N = entries h b \<and> n_num L = (n_num b + 1) div 2 \<and>
    node_sorted h L \<and> node_sorted h N \<and> n_leaf L \<and> n_leaf N \<and> n_parent L = n_parent b \<and> n_parent N = n_parent b \<and>
    n_prev L = n_prev b \<and> n_next L = np \<and> n_prev N = p \<and> n_next N = n_next b \<and> n_prev c' = np \<and>
    n_next c' = n_next c \<and> entries h c' = entries h c \<and>
    (\<forall>q d. q \<notin> {p, np, n_next b} \<longrightarrow> ix_page s q = Some d \<longrightarrow> ix_page s' q = Some d)"
proof -
  let ?m = "nat ((n_num b + 1) div 2)"
  note a = assms(4-)
  from Split_run [OF a [unfolded h_def fd_def np_def], folded fd_def, folded np_def h_def] obtain g b4 N where
    Q: "Split f s = (Inr g, after_new s b4)" "holds b4 g (ix_pid s np)" "logical b4 (ix_pid s p) = Some (wr 20 (le32 np) (wr 8 (le32 (int ?m)) b))"
    "logical b4 (ix_pid s np) = Some (wr 16 (le32 p) (wr 20 (le32 (n_next b)) N))" "logical b4 (ix_pid s (n_next b)) = Some (wr 16 (le32 np) c)"
    and rest: "\<forall>q d. q \<notin> {p, np, n_next b} \<longrightarrow> ix_page s q = Some d \<longrightarrow> logical b4 (ix_pid s q) = Some d"
    and N: "node_sorted h N" "entries h N = drop ?m (entries h b)" "n_leaf N" "n_parent N = n_parent b" by blast
  have nn: "0 \<le> n_num b" using node_okD(4) [OF node_sortedD(1) [OF a(6)]] .
  have lc: "length c = 4096" using logical_length [OF a(1)] a(8) by (simp add: ix_page_def PAGE_SIZE_def)
  have nx: "in32 (n_next b)" by (simp add: n_next_def in32_of_le32)
  have m: "int ?m = (n_num b + 1) div 2" "int ?m \<le> n_num b" using nn by auto
  note H = halves [OF a(6,7) N m(2) a(17,18) nx lc]
  have pg: "ix_page (after_new s b4) p = Some (wr 20 (le32 np) (wr 8 (le32 (int ?m)) b))"
    "ix_page (after_new s b4) np = Some (wr 16 (le32 p) (wr 20 (le32 (n_next b)) N))" "ix_page (after_new s b4) (n_next b) = Some (wr 16 (le32 np) c)"
    "holds (ix_bpm (after_new s b4)) g (ix_pid s np)" using Q(2-5) by (simp_all add: ix_page_def)
  have "\<forall>q d. q \<notin> {p, np, n_next b} \<longrightarrow> ix_page s q = Some d \<longrightarrow> ix_page (after_new s b4) q = Some d"
    using rest by (simp add: ix_page_def)
  then show ?thesis
    by (intro exI [of _ g] exI [of _ "after_new s b4"]) (intro exI conjI, rule Q(1), rule pg(4), (rule pg(1-3))+,
      (rule H(1) trans [OF H(2) m(1)] H(3-) | assumption)+)
qed

theorem leaf_split_keeps_entries_witness:
  "\<exists>s f g s' b L N. ix_page s 1 = Some b \<and> length (entries (ix_hdr s) b) = 2 \<and> Split f s = (Inr g, s') \<and> ix_page s' 1 = Some L \<and>
     ix_page s' 2 = Some N \<and> entries (ix_hdr s) L @ entries (ix_hdr s) N = entries (ix_hdr s) b \<and> length (entries (ix_hdr s) L) = 1"
proof -
  have "col_type demo_ix_hdr = TYPE_INT" "col_len demo_ix_hdr = 4" by (simp_all add: demo_ix_hdr_def new_index_hdr_def)
  from demo_leaf [OF demo_ix_hdr_ok(1) this] obtain b where b: "node_sorted demo_ix_hdr b" "n_leaf b" "n_num b = 2" "n_next b = 0" by blast
  have "length b = PAGE_SIZE" "length zero_page = PAGE_SIZE" using node_okD(2) [OF node_sortedD(1) [OF b(1)]] by (simp_all add: PAGE_SIZE_def)
  from demo_held [OF this(2,1)] obtain f s where d: "bp_ok {} s" "holds s f (demo_pid 1)" "pins s = (\<lambda>_. 0)(demo_pid 1 := 1)" "pool_size s = 3"
    "logical s (demo_pid 1) = Some b" "logical s (demo_pid 0) = Some zero_page" "dm_open (disk_manager s) 3"
    "fd2pageno (disk_manager s) 3 = 2" "page_table s (demo_pid 2) = None" by blast
  let ?s = "\<lparr>ix_bpm = s, ix_fh = \<lparr>ixh_fd = 3, ixh_hdr = demo_ix_hdr\<rparr>\<rparr>"
  have pid: "ix_pid ?s k = demo_pid k" for k by (simp add: ix_pid_def demo_pid_def)
  have "{q. 0 < pins s q} = {demo_pid 1}" using d(3) by auto
  then have room: "card {q. 0 < pins (ix_bpm ?s) q} + 1 < pool_size (ix_bpm ?s)" using d(4) by simp
  have h: "ix_hdr ?s = demo_ix_hdr" by (simp add: ix_hdr_def)
  have pg: "ix_page ?s 1 = Some b" "ix_page ?s (n_next b) = Some zero_page" using d(5,6) b(4) by (simp_all add: ix_page_def pid)
  from leaf_split_keeps_entries [of "{}" ?s f 1 b zero_page] room pg d b h obtain g s' L N where
    "Split f ?s = (Inr g, s')" "ix_page s' 1 = Some L" "ix_page s' 2 = Some N" "entries demo_ix_hdr L @ entries demo_ix_hdr N = entries demo_ix_hdr b"
    "n_num L = (n_num b + 1) div 2" by (auto simp: pid IX_NO_PAGE_def MAX_FD_def in32_def)
  with b(3) pg(1) h show ?thesis by (intro exI [of _ ?s] exI [of _ f] exI [of _ g] exI [of _ s'] exI [of _ b] exI [of _ L] exI [of _ N]) simp
qed

end
