(* ===== verification/Ix_Root_Split.thy ===== *)
theory Ix_Root_Split
  imports Ix_Split
begin

text \<open>
  How an index of one leaf becomes a tree of two levels: the insertion that fills the root splits it and
  puts a new root above the two halves. No entry is lost on the way; but the searches that follow do not
  find what the first half holds.
\<close>

section \<open>Three nodes in their frames\<close>

definition three :: "frame_id_t \<Rightarrow> frame_id_t \<Rightarrow> frame_id_t \<Rightarrow> ix_state \<Rightarrow> BufferPoolManager \<Rightarrow> bytes \<Rightarrow> bytes \<Rightarrow> bytes \<Rightarrow> ix_state" where
  "three f g k s b x y z = s\<lparr>ix_bpm := poke f x (poke g y (poke k z b))\<rparr>"

lemma three_simps [simp]:
  "ix_hdr (three f g k s b x y z) = ix_hdr s" "ix_bpm (three f g k s b x y z) = poke f x (poke g y (poke k z b))"
  "ix_pid (three f g k s b x y z) = ix_pid s" "(three f g k s b x y z)\<lparr>ix_bpm := c\<rparr> = s\<lparr>ix_bpm := c\<rparr>"
  by (simp_all add: three_def)

lemma on_three:
  assumes "distinct [f, g, k]"
  shows "m (ix_hdr s) x = (r, x') \<Longrightarrow> on_node f m (three f g k s b x y z) = (r, three f g k s b x' y z)"
    "m (ix_hdr s) y = (r, y') \<Longrightarrow> on_node g m (three f g k s b x y z) = (r, three f g k s b x y' z)"
    "m (ix_hdr s) z = (r, z') \<Longrightarrow> on_node k m (three f g k s b x y z) = (r, three f g k s b x y z')"
  using assms poke_swap [of f g] poke_swap [of f k] poke_swap [of g k] by (auto simp: on_node_def three_def)

lemma GetPageNo_three: "GetPageNo q (three f g k s b x y z) = (Inr (pid_page_no (pg_id (pages b q))), three f g k s b x y z)"
  by (simp add: GetPageNo_def query_def three_def)

lemma upd_hdr_three: "upd_ix_hdr u (three f g k s b x y z) = (Inr (), three f g k (snd (upd_ix_hdr u s)) b x y z)"
  by (simp add: upd_ix_hdr_def three_def)

section \<open>A new root\<close>

lemma insert_pair_ok:
  assumes "node_ok h b" "pos \<le> nat (n_num b)" "nat (n_num b) < slots h" "length key = klen h" "rid_in32 r"
  shows "\<exists>b'. insert_pair h (int pos) key r b = (Inr (), b') \<and> node_ok h b' \<and> n_num b' = n_num b + 1 \<and>
    entries h b' = take pos (entries h b) @ (key, r) # drop pos (entries h b) \<and> links b' = links b"
proof -
  have "length key = 1 * klen h" "length (rid_bytes r) = 1 * 8" using assms(4) by simp_all
  from insert_pairs_ok [OF assms(1,2) _ this] assms(3) show ?thesis
    using assms(4,5) by (auto simp: insert_pair_def cells_1 [unfolded One_nat_def] rid_of_rid_bytes rid_in32_def)
qed

text \<open>\<open>InsertIntoParent\<close> above the two halves of a root, up to the release of the new root.\<close>

definition rooted :: "int \<Rightarrow> ix_state \<Rightarrow> ix_state" where
  "rooted rp s = snd (upd_ix_hdr (\<lambda>h. h\<lparr>root_page := rp\<rparr>) s)"

lemma node_ok_pages [simp]: "node_ok (h\<lparr>ix_num_pages := k\<rparr>) b = node_ok h b"
  by (simp add: node_ok_def ix_hdr_ok_def)

lemma new_root_page:
  assumes "node_ok h x" "0 < n_num x" "length key = klen h" "in32 p" "in32 q"
  shows "\<exists>R1 R. insert_pair h 0 (fst (entries h x ! 0)) \<lparr>rid_page_no = p, rid_slot_no = -1\<rparr> (blank_node False IX_NO_PAGE) = (Inr (), R1) \<and>
    insert_pair h 1 key \<lparr>rid_page_no = q, rid_slot_no = -1\<rparr> R1 = (Inr (), R) \<and> node_ok h R \<and>
    entries h R = [(fst (entries h x ! 0), \<lparr>rid_page_no = p, rid_slot_no = -1\<rparr>), (key, \<lparr>rid_page_no = q, rid_slot_no = -1\<rparr>)] \<and>
    \<not> n_leaf R \<and> n_parent R = IX_NO_PAGE"
proof -
  let ?B = "blank_node False IX_NO_PAGE"
  let ?rf = "\<lparr>rid_page_no = p, rid_slot_no = -1\<rparr>" and ?rg = "\<lparr>rid_page_no = q, rid_slot_no = -1\<rparr>"
  note n = node_okD [OF assms(1)]
  have i32: "in32 IX_NO_PAGE" "rid_in32 ?rf" "rid_in32 ?rg" using assms(4,5) by (simp_all add: IX_NO_PAGE_def rid_in32_def in32_def)
  note bl = blank_node [OF i32(1), of False] and lay = ix_layout [OF n(1)]
  have okB: "node_ok h ?B" using n(1) bl lay(3,4) by (simp add: node_ok_def PAGE_SIZE_def)
  have "length (entries h ?B) = 0" using bl(2) by simp
  then have eB: "entries h ?B = []" by (simp only: length_0_conv)
  have lk: "length (fst (entries h x ! 0)) = klen h"
    using n(3,4,6) assms(2) cell_bound [of 0 "slots h" "klen h"] lay(3) by (simp add: entries_def length_rd)
  from insert_pair_ok [OF okB, of 0, OF _ _ lk i32(2)] bl(2) lay(3) eB obtain R1 where
    R1: "insert_pair h 0 (fst (entries h x ! 0)) ?rf ?B = (Inr (), R1)" "node_ok h R1" "n_num R1 = 1"
      "entries h R1 = [(fst (entries h x ! 0), ?rf)]" "links R1 = links ?B" by auto
  from insert_pair_ok [OF R1(2), of 1, OF _ _ assms(3) i32(3)] R1(3,4) lay(3) obtain R where
    R: "insert_pair h 1 key ?rg R1 = (Inr (), R)" "node_ok h R" "entries h R = [(fst (entries h x ! 0), ?rf), (key, ?rg)]" "links R = links R1"
    by auto
  have "links R = links ?B" using R(4) R1(5) by simp
  from links_fields [OF this] bl have "\<not> n_leaf R" "n_parent R = IX_NO_PAGE" by simp_all
  with R1(1) R(1-3) show ?thesis by blast
qed

lemma InsertIntoParent_root:
  assumes "NewPage (ixh_fd (ix_fh s)) (ix_bpm s) = (Inr (Some (k, pid)), b)" "distinct [f, g, k]" "page_data f (ix_bpm s) = x"
    and "page_data f b = x" "page_data g b = y" "page_data k b = zero_page"
    and "node_ok (ix_hdr s) x" "0 < n_num x" "n_parent x = INVALID_PAGE_ID" "length y = 4096" "length key = klen (ix_hdr s)"
  defines "P \<equiv> \<lambda>q. pid_page_no (pg_id (pages b q))"
  assumes "in32 (P f)" "in32 (P g)"
  shows "\<exists>R. InsertIntoParent (Suc n) f key g s = node_unpin k True (three f g k (rooted (P k) (after_new s b)) b (wr 4 (le32 (P k)) x) (wr 4 (le32 (P k)) y) R) \<and>
    node_ok (ix_hdr s) R \<and> entries (ix_hdr s) R = [(fst (entries (ix_hdr s) x ! 0), \<lparr>rid_page_no = P f, rid_slot_no = -1\<rparr>),
      (key, \<lparr>rid_page_no = P g, rid_slot_no = -1\<rparr>)] \<and> \<not> n_leaf R \<and> n_parent R = IX_NO_PAGE"
proof -
  let ?h = "ix_hdr (after_new s b)" and ?t = "three f g k (after_new s b) b" and ?B = "blank_node False IX_NO_PAGE"
  let ?k0 = "fst (entries ?h x ! 0)"
  have ok: "node_ok ?h x" "length key = klen ?h" using assms(7,11) by simp_all
  note lx = node_okD(2) [OF ok(1)]
  from new_root_page [OF ok(1) assms(8) ok(2) assms(13,14)] obtain R1 R where
    R1: "insert_pair ?h 0 ?k0 \<lparr>rid_page_no = P f, rid_slot_no = -1\<rparr> ?B = (Inr (), R1)" and
    R: "insert_pair ?h 1 key \<lparr>rid_page_no = P g, rid_slot_no = -1\<rparr> R1 = (Inr (), R)" "node_ok ?h R"
      "entries ?h R = [(?k0, \<lparr>rid_page_no = P f, rid_slot_no = -1\<rparr>), (key, \<lparr>rid_page_no = P g, rid_slot_no = -1\<rparr>)]"
      "\<not> n_leaf R" "n_parent R = IX_NO_PAGE" by blast
  let ?Z1 = "wr 12 [0] zero_page"
  let ?Z2 = "wr 8 (le32 0) ?Z1"
  let ?Z3 = "wr 4 (le32 IX_NO_PAGE) ?Z2"
  have lz: "length zero_page = 4096" "length ?Z1 = 4096" "length ?Z2 = 4096" "length ?Z3 = 4096" by (simp_all add: hdr_write(1) PAGE_SIZE_def)
  have Z4: "wr 0 (le32 IX_NO_PAGE) ?Z3 = ?B" by (simp add: blank_node_def)
  have start: "after_new s b = ?t x y zero_page" unfolding three_def assms(4-6) [symmetric] by (simp only: poke_same after_new_simps)
  note F = on_three(1) [OF assms(2)] and G = on_three(2) [OF assms(2)] and K = on_three(3) [OF assms(2)]
  have e0: "on_node f (\<lambda>h. IsRootPage) s = (Inr True, s)" using field_reads(3) [OF lx] assms(3,9) by (intro on_node_read) simp
  have c: "CreateNode s = (Inr k, ?t x y zero_page)" using CreateNode_eq [OF assms(1)] start by simp
  have e1: "on_node k (\<lambda>h. set_is_leaf False) (?t x y zero_page) = (Inr (), ?t x y ?Z1)" by (rule K) (use setters(5) [OF lz(1), of False] in simp)
  have e2: "on_node k (\<lambda>h. SetSize 0) (?t x y ?Z1) = (Inr (), ?t x y ?Z2)" by (rule K) (rule SetSize_ok [OF lz(2)])
  have e3: "on_node k (\<lambda>h. SetParentPageNo IX_NO_PAGE) (?t x y ?Z2) = (Inr (), ?t x y ?Z3)" by (rule K) (rule setters(3) [OF lz(3)])
  have e4: "on_node k (\<lambda>h. set_next_free IX_NO_PAGE) (?t x y ?Z3) = (Inr (), ?t x y ?B)" by (rule K) (use setters(4) [OF lz(4)] Z4 in simp)
  have e5: "on_node f (\<lambda>h. get_key h 0) (?t x y ?B) = (Inr ?k0, ?t x y ?B)" by (rule F) (use get_key_ok(1) [OF ok(1), of 0] assms(8) in simp)
  have e6: "on_node k (\<lambda>h. insert_pair h 0 ?k0 \<lparr>rid_page_no = P f, rid_slot_no = -1\<rparr>) (?t x y ?B) = (Inr (), ?t x y R1)" by (rule K) (rule R1)
  have e7: "on_node k (\<lambda>h. insert_pair h 1 key \<lparr>rid_page_no = P g, rid_slot_no = -1\<rparr>) (?t x y R1) = (Inr (), ?t x y R)" by (rule K) (rule R(1))
  have e8: "on_node f (\<lambda>h. SetParentPageNo (P k)) (?t x y R) = (Inr (), ?t (wr 4 (le32 (P k)) x) y R)" by (rule F) (rule setters(3) [OF lx])
  have e9: "on_node g (\<lambda>h. SetParentPageNo (P k)) (?t (wr 4 (le32 (P k)) x) y R) = (Inr (), ?t (wr 4 (le32 (P k)) x) (wr 4 (le32 (P k)) y) R)"
    by (rule G) (rule setters(3) [OF assms(10)])
  have gp: "GetPageNo q (?t u v w) = (Inr (P q), ?t u v w)" for q u v w by (simp add: GetPageNo_three P_def)
  have "InsertIntoParent (Suc n) f key g s = node_unpin k True (three f g k (rooted (P k) (after_new s b)) b (wr 4 (le32 (P k)) x) (wr 4 (le32 (P k)) y) R)"
    unfolding InsertIntoParent.simps rooted_def
    by (simp only: bind_Inr e0 if_True c e1 e2 e3 e4 e5 gp e6 e7 e8 e9 upd_hdr_three)
  with R(2-) show ?thesis by (intro exI [of _ R]) simp
qed

section \<open>The pool while the root is split\<close>

text \<open>Three held pages are given their new contents and released.\<close>

lemma release_three:
  assumes "bp_ok X b" "holds b f p" "holds b g q" "holds b k r" "pins b = (\<lambda>_. 0)(p := 1, q := 1, r := 1)" "distinct [p, q, r]"
    and "X \<subseteq> {p, q, r}" "length x = PAGE_SIZE" "length y = PAGE_SIZE" "length z = PAGE_SIZE"
  defines "b0 \<equiv> poke f x (poke g y (poke k z b))"
  shows "\<exists>c1 c2 c3. UnpinPage r True b0 = (True, c1) \<and> UnpinPage q True c1 = (True, c2) \<and> UnpinPage p True c2 = (True, c3) \<and>
    pg_id (pages b0 k) = r \<and> pg_id (pages c1 g) = q \<and> pg_id (pages c2 f) = p \<and>
    bp_ok {} c3 \<and> pins c3 = (\<lambda>_. 0) \<and> pool_size c3 = pool_size b \<and> logical c3 = (logical b)(r \<mapsto> z, q \<mapsto> y, p \<mapsto> x)"
proof -
  have pos: "0 < pins b p" "0 < pins b q" "0 < pins b r" using assms(5,6) by auto
  note k1 = bp.poke_ok [OF assms(1,4) pos(3) assms(10)]
  have h1: "bp_ok (insert r X) (poke k z b)" "holds (poke k z b) g q" "0 < pins (poke k z b) q" using k1 assms(3) pos by simp_all
  note k2 = bp.poke_ok [OF h1 assms(9)]
  have h2: "bp_ok (insert q (insert r X)) (poke g y (poke k z b))" "holds (poke g y (poke k z b)) f p" "0 < pins (poke g y (poke k z b)) p"
    using k1 k2 assms(2) pos by simp_all
  note k3 = bp.poke_ok [OF h2 assms(8)]
  have B: "bp_ok (insert p (insert q (insert r X))) b0" "pins b0 = pins b" "holds b0 = holds b" "pool_size b0 = pool_size b"
    "logical b0 = (logical b)(r \<mapsto> z, q \<mapsto> y, p \<mapsto> x)" unfolding b0_def using k1 k2 k3 by simp_all
  have "0 < pins b0 r" using B(2) pos by simp
  from bp.unpin_ok [OF B(1) this, of True] obtain c1 where
    c1: "UnpinPage r True b0 = (True, c1)" "bp_ok (insert p (insert q (insert r X)) - {r}) c1" "logical c1 = logical b0"
      "pins c1 = (pins b0)(r := pins b0 r - 1)" "holds c1 = holds b0" "pool_size c1 = pool_size b0" by blast
  have "0 < pins c1 q" using c1(4) B(2) pos assms(6) by simp
  from bp.unpin_ok [OF c1(2) this, of True] obtain c2 where
    c2: "UnpinPage q True c1 = (True, c2)" "bp_ok (insert p (insert q (insert r X)) - {r} - {q}) c2" "logical c2 = logical c1"
      "pins c2 = (pins c1)(q := pins c1 q - 1)" "holds c2 = holds c1" "pool_size c2 = pool_size c1" by blast
  have "0 < pins c2 p" using c2(4) c1(4) B(2) pos assms(6) by simp
  from bp.unpin_ok [OF c2(2) this, of True] obtain c3 where
    c3: "UnpinPage p True c2 = (True, c3)" "bp_ok (insert p (insert q (insert r X)) - {r} - {q} - {p}) c3" "logical c3 = logical c2"
      "pins c3 = (pins c2)(p := pins c2 p - 1)" "pool_size c3 = pool_size c2" by blast
  have lg: "logical b0 r = Some z" "logical c1 q = Some y" "logical c2 p = Some x" using B(5) c1(3) c2(3) assms(6) by auto
  have hd: "holds b0 k r" "holds c1 g q" "holds c2 f p" using B(3) c1(5) c2(5) assms(2-4) by simp_all
  note id = held_data(2) [OF B(1) hd(1) lg(1)] held_data(2) [OF c1(2) hd(2) lg(2)] held_data(2) [OF c2(2) hd(3) lg(3)]
  have "insert p (insert q (insert r X)) - {r} - {q} - {p} = {}" using assms(7) by blast
  with c3(2) have "bp_ok {} c3" by (simp only:)
  moreover have "pins c3 = (\<lambda>_. 0)" unfolding c3(4) c2(4) c1(4) B(2) assms(5) using assms(6) by (auto simp: fun_eq_iff)
  moreover have "pool_size c3 = pool_size b" "logical c3 = (logical b)(r \<mapsto> z, q \<mapsto> y, p \<mapsto> x)"
    using c1(3,6) c2(3,6) c3(3,5) B(4,5) by simp_all
  ultimately show ?thesis using c1(1) c2(1) c3(1) id by blast
qed

definition grown :: "ix_state \<Rightarrow> int \<Rightarrow> BufferPoolManager \<Rightarrow> ix_state" where
  "grown s rp b = s\<lparr>ix_bpm := b, ix_fh := (ix_fh s)\<lparr>ixh_hdr := (ix_hdr s)\<lparr>root_page := rp, ix_num_pages := ix_num_pages (ix_hdr s) + 2\<rparr>\<rparr>\<rparr>"

lemma grown_simps [simp]:
  "ix_bpm (grown s rp b) = b" "ix_pid (grown s rp b) = ix_pid s" "(grown s rp b)\<lparr>ix_bpm := c\<rparr> = grown s rp c"
  "ix_hdr (grown s rp b) = (ix_hdr s)\<lparr>root_page := rp, ix_num_pages := ix_num_pages (ix_hdr s) + 2\<rparr>"
  by (simp_all add: grown_def ix_hdr_def ix_pid_def fun_eq_iff)

lemma grown_eq: "(rooted rp (after_new (after_new s b) c))\<lparr>ix_bpm := d\<rparr> = grown s rp d"
  by (simp add: rooted_def after_new_def grown_def upd_ix_hdr_def ix_hdr_def)

lemma set_parent:
  assumes "node_sorted h x" "in32 r"
  defines "x' \<equiv> wr 4 (le32 r) x"
  shows "node_sorted h x'" "entries h x' = entries h x" "n_parent x' = r" "n_leaf x' = n_leaf x" "n_prev x' = n_prev x" "n_next x' = n_next x" "length x' = PAGE_SIZE"
proof -
  have l: "length x = 4096" using node_okD(2) [OF node_sortedD(1) [OF assms(1)]] .
  then show "n_parent x' = r" "n_leaf x' = n_leaf x" "n_prev x' = n_prev x" "n_next x' = n_next x" "length x' = PAGE_SIZE"
    using assms(2) by (simp_all add: x'_def n_prev_def n_next_def hdr_write PAGE_SIZE_def)
  show "node_sorted h x'" "entries h x' = entries h x" unfolding x'_def using l by (intro sorted_hdr_write [OF assms(1)]; simp)+
qed

text \<open>The split of a full root and the new root above it, until the two halves are released.\<close>

lemma split_root:
  fixes s :: ix_state
  defines "h \<equiv> ix_hdr s" and "fd \<equiv> ixh_fd (ix_fh s)"
  defines "np \<equiv> fd2pageno (disk_manager (ix_bpm s)) fd"
  assumes "bp_ok {ix_pid s p} (ix_bpm s)" "holds (ix_bpm s) f (ix_pid s p)" "pins (ix_bpm s) = (\<lambda>_. 0)(ix_pid s p := 1)" "3 \<le> pool_size (ix_bpm s)"
    and "ix_page s p = Some b" "node_sorted h b" "n_leaf b" "n_parent b = INVALID_PAGE_ID" "2 \<le> n_num b"
    and "ix_page s (n_next b) = Some c" "n_next b \<noteq> IX_NO_PAGE" "n_next b \<noteq> p" "n_next b < np" "p < np"
    and "dm_open (disk_manager (ix_bpm s)) fd" "0 \<le> fd" "fd < MAX_FD" "0 \<le> np" "in32 (np + 1)" "in32 p"
    and "page_table (ix_bpm s) (ix_pid s np) = None" "page_table (ix_bpm s) (ix_pid s (np + 1)) = None"
  shows "\<exists>g s2 key c1 c2 c3 L N R. Split f s = (Inr g, s2) \<and> on_node g (\<lambda>h. get_key h 0) s2 = (Inr key, s2) \<and>
    InsertIntoParent (Suc n) f key g s2 = (Inr (), grown s (np + 1) c1) \<and> pg_id (pages c1 g) = ix_pid s np \<and>
    UnpinPage (ix_pid s np) True c1 = (True, c2) \<and> pg_id (pages c2 f) = ix_pid s p \<and> UnpinPage (ix_pid s p) True c2 = (True, c3) \<and>
    quiet c3 \<and> logical c3 (ix_pid s (np + 1)) = Some R \<and> logical c3 (ix_pid s p) = Some L \<and> logical c3 (ix_pid s np) = Some N \<and>
    node_sorted h L \<and> node_sorted h N \<and> n_leaf L \<and> n_leaf N \<and> n_parent L = np + 1 \<and> n_parent N = np + 1 \<and>
    n_next L = np \<and> n_prev N = p \<and> n_next N = n_next b \<and> entries h L @ entries h N = entries h b \<and> entries h L \<noteq> [] \<and> entries h N \<noteq> [] \<and>
    node_ok h R \<and> \<not> n_leaf R \<and> n_parent R = IX_NO_PAGE \<and> entries h R =
      [(fst (entries h L ! 0), \<lparr>rid_page_no = p, rid_slot_no = -1\<rparr>), (fst (entries h N ! 0), \<lparr>rid_page_no = np, rid_slot_no = -1\<rparr>)]"
proof -
  note a = assms(4-)
  let ?m = "nat ((n_num b + 1) div 2)" and ?pid = "ix_pid s"
  have pid [simp]: "?pid x = ?pid y \<longleftrightarrow> x = y" for x y by (simp add: ix_pid_def)
  have np32: "in32 np" using a(18,19) by (simp add: in32_def)
  have "{q. 0 < pins (ix_bpm s) q} = {?pid p}" using a(3) by auto
  then have S0: "0 < pins (ix_bpm s) (?pid p)" "card {q. 0 < pins (ix_bpm s) q} + 1 < pool_size (ix_bpm s)" "n_next b \<noteq> np"
    using a(3,4,13) by simp_all
  from Split_run [OF a(1,2) S0(1,2) a(5) a(6) [unfolded h_def] a(7,10,11,12) S0(3) [unfolded np_def fd_def]
      a(15-17,21,18) [unfolded np_def fd_def] np32 [unfolded np_def fd_def] a(20), folded fd_def, folded np_def h_def]
  obtain g b4 N where
    Q: "Split f s = (Inr g, after_new s b4)" "holds b4 g (?pid np)" "holds b4 f (?pid p)"
      "bp_ok (insert (?pid p) (insert (?pid np) {?pid p}) - {?pid (n_next b)}) b4" "pins b4 = (pins (ix_bpm s))(?pid np := 1)"
      "pool_size b4 = pool_size (ix_bpm s)" "fd2pageno (disk_manager b4) fd = wrap32 (np + 1)" "dm_open (disk_manager b4) fd"
      "dom (page_table b4) \<subseteq> insert (?pid (n_next b)) (insert (?pid np) (dom (page_table (ix_bpm s))))"
      "logical b4 (?pid p) = Some (wr 20 (le32 np) (wr 8 (le32 (int ?m)) b))"
      "logical b4 (?pid np) = Some (wr 16 (le32 p) (wr 20 (le32 (n_next b)) N))"
    and N: "node_sorted h N" "entries h N = drop ?m (entries h b)" "n_leaf N" "n_parent N = n_parent b" by blast
  let ?L = "wr 20 (le32 np) (wr 8 (le32 (int ?m)) b)" and ?N = "wr 16 (le32 p) (wr 20 (le32 (n_next b)) N)" and ?r = "np + 1"
  have lc: "length c = 4096" using logical_length [OF a(1)] a(10) by (simp add: ix_page_def PAGE_SIZE_def)
  have nx: "in32 (n_next b)" by (simp add: n_next_def in32_of_le32)
  have m: "int ?m \<le> n_num b" "0 < ?m" "?m < nat (n_num b)" using a(9) by auto
  note H = halves [OF a(6,7) N m(1) np32 a(20) nx lc]
  have eN: "entries h ?N = drop ?m (entries h b)" using H(1) H(2) m by (simp add: append_eq_conv_conj)
  have ne: "entries h ?L \<noteq> []" "entries h ?N \<noteq> []" "0 < n_num ?L" "0 < n_num ?N"
  proof -
    show l: "entries h ?N \<noteq> []" unfolding eN using m(3) by (simp only: drop_eq_Nil length_entries not_le)
    show "0 < n_num ?L" using H(2) m(2) by simp
    then show "entries h ?L \<noteq> []" by (metis length_entries list.size(3) zero_less_nat_eq less_irrefl)
    show "0 < n_num ?N" using l by (metis length_entries length_greater_0_conv zero_less_nat_eq)
  qed
  note okL = node_sortedD(1) [OF H(3)] and okN = node_sortedD(1) [OF H(4)]
  have ll: "length ?L = 4096" "length ?N = 4096" using node_okD(2) [OF okL] node_okD(2) [OF okN] .
  have new: "?pid ?r = \<lparr>pid_fd = fd, pid_page_no = fd2pageno (disk_manager b4) fd\<rparr>"
    using Q(7) a(19) by (simp add: ix_pid_def fd_def)
  have "{q. 0 < pins b4 q} = {?pid p, ?pid np}" using Q(5) a(3) by auto
  then have room: "card {q. 0 < pins b4 q} < pool_size b4" using a(4,14) Q(6) by simp
  have fresh: "page_table b4 (?pid ?r) = None" "0 \<le> pid_page_no (?pid ?r)" using Q(9) a(13,18,22) by (auto simp: ix_pid_def simp flip: domIff)
  let ?X = "insert (?pid p) (insert (?pid np) {?pid p}) - {?pid (n_next b)}"
  from NewPage_ok [OF Q(4) room Q(8) a(16,17), folded new, OF fresh] obtain k b5 where
    K: "NewPage fd b4 = (Inr (Some (k, ?pid ?r)), b5)" "bp_ok (insert (?pid ?r) ?X) b5" "holds b5 k (?pid ?r)" "logical b5 (?pid ?r) = Some zero_page"
      "pool_size b5 = pool_size b4" "\<forall>q d. q \<noteq> ?pid ?r \<longrightarrow> logical b4 q = Some d \<longrightarrow> logical b5 q = Some d"
      "pins b5 = (pins b4)(?pid ?r := 1)" "\<forall>j q. holds b4 j q \<longrightarrow> 0 < pins b4 q \<longrightarrow> holds b5 j q" by blast
  have h5: "holds b5 f (?pid p)" "holds b5 g (?pid np)" using K(8) Q(2,3,5) a(3) a(14) by simp_all
  have l5: "logical b5 (?pid p) = Some ?L" "logical b5 (?pid np) = Some ?N" using K(6) Q(10,11) a(14) by simp_all
  note df = held_data [OF K(2) h5(1) l5(1)] and dg = held_data [OF K(2) h5(2) l5(2)] and dk = held_data [OF K(2,3,4)]
    and d4 = held_data [OF Q(4,3,10)] and e4 = held_data [OF Q(4,2,11)]
  have dist: "distinct [f, g, k]" using df(2) dg(2) dk(2) a(14) by auto
  have key: "length (fst (entries h ?N ! 0)) = klen h" "int 0 < n_num ?N"
    using node_sortedD(3) [OF H(4), of 0] ne(4) by (simp_all add: valid_key_def)
  have P: "pid_page_no (pg_id (pages b5 f)) = p" "pid_page_no (pg_id (pages b5 g)) = np" "pid_page_no (pg_id (pages b5 k)) = ?r"
    using df(2) dg(2) dk(2) by (simp_all add: ix_pid_def)
  have gk: "on_node g (\<lambda>h. get_key h 0) (after_new s b4) = (Inr (fst (entries h ?N ! 0)), after_new s b4)"
    using get_key_ok(1) [of "ix_hdr (after_new s b4)" ?N 0] okN key(2) e4(1) by (intro on_node_read) (simp add: h_def)
  have I: "node_ok (ix_hdr (after_new s b4)) ?L" "length (fst (entries h ?N ! 0)) = klen (ix_hdr (after_new s b4))" "n_parent ?L = INVALID_PAGE_ID"
    using okL key(1) H(7) a(8) by (simp_all add: h_def)
  have K1: "NewPage (ixh_fd (ix_fh (after_new s b4))) (ix_bpm (after_new s b4)) = (Inr (Some (k, ?pid ?r)), b5)" using K(1) by (simp add: fd_def)
  have d4': "page_data f (ix_bpm (after_new s b4)) = ?L" using d4(1) by simp
  from InsertIntoParent_root [OF K1 dist d4' df(1) dg(1) dk(1) I(1) ne(3) I(3) ll(2) I(2), unfolded P, OF a(20) np32, of n] obtain R where
    R: "InsertIntoParent (Suc n) f (fst (entries h ?N ! 0)) g (after_new s b4) =
        node_unpin k True (three f g k (rooted ?r (after_new (after_new s b4) b5)) b5 (wr 4 (le32 ?r) ?L) (wr 4 (le32 ?r) ?N) R)"
      "node_ok h R" "entries h R = [(fst (entries h ?L ! 0), \<lparr>rid_page_no = p, rid_slot_no = -1\<rparr>), (fst (entries h ?N ! 0), \<lparr>rid_page_no = np, rid_slot_no = -1\<rparr>)]"
      "\<not> n_leaf R" "n_parent R = IX_NO_PAGE" by (auto simp: h_def)
  note sL = set_parent [OF H(3) a(19)] and sN = set_parent [OF H(4) a(19)]
  let ?L' = "wr 4 (le32 ?r) ?L" and ?N' = "wr 4 (le32 ?r) ?N"
  have lR: "length R = PAGE_SIZE" using node_okD(2) [OF R(2)] by (simp add: PAGE_SIZE_def)
  have pn: "pins b5 = (\<lambda>_. 0)(?pid p := 1, ?pid np := 1, ?pid ?r := 1)" using K(7) Q(5) a(3) by simp
  have dp: "distinct [?pid p, ?pid np, ?pid ?r]" using a(14) by simp
  have X: "insert (?pid ?r) ?X \<subseteq> {?pid p, ?pid np, ?pid ?r}" by auto
  from release_three [OF K(2) h5 K(3) pn dp X sL(7) sN(7) lR] obtain c1 c2 c3 where
    C: "UnpinPage (?pid ?r) True (poke f ?L' (poke g ?N' (poke k R b5))) = (True, c1)" "UnpinPage (?pid np) True c1 = (True, c2)"
      "UnpinPage (?pid p) True c2 = (True, c3)" "pg_id (pages (poke f ?L' (poke g ?N' (poke k R b5))) k) = ?pid ?r" "pg_id (pages c1 g) = ?pid np"
      "pg_id (pages c2 f) = ?pid p" "bp_ok {} c3" "pins c3 = (\<lambda>_. 0)" "pool_size c3 = pool_size b5"
      "logical c3 = (logical b5)(?pid ?r \<mapsto> R, ?pid np \<mapsto> ?N', ?pid p \<mapsto> ?L')" by blast
  have "node_unpin k True (three f g k (rooted ?r (after_new (after_new s b4) b5)) b5 ?L' ?N' R) = (Inr (), grown s ?r c1)"
    using node_unpin_eq [of "three f g k (rooted ?r (after_new (after_new s b4) b5)) b5 ?L' ?N' R" k "?pid ?r" True True c1] C(1,4)
    by (simp add: grown_eq)
  then have run: "InsertIntoParent (Suc n) f (fst (entries h ?N ! 0)) g (after_new s b4) = (Inr (), grown s ?r c1)" using R(1) by simp
  have q: "quiet c3" using C(7-9) K(5) Q(6) a(4) by (simp add: quiet_def)
  have lg: "logical c3 (?pid ?r) = Some R" "logical c3 (?pid p) = Some ?L'" "logical c3 (?pid np) = Some ?N'" using C(10) a(14) by simp_all
  have ent: "entries h ?L' @ entries h ?N' = entries h b" "entries h ?L' \<noteq> []" "entries h ?N' \<noteq> []"
    using H(1) ne(1,2) sL(2) sN(2) by simp_all
  have eR: "entries h R = [(fst (entries h ?L' ! 0), \<lparr>rid_page_no = p, rid_slot_no = -1\<rparr>), (fst (entries h ?N' ! 0), \<lparr>rid_page_no = np, rid_slot_no = -1\<rparr>)]"
    using R(3) sL(2) sN(2) by simp
  have fl: "n_leaf ?L'" "n_leaf ?N'" "n_next ?L' = np" "n_prev ?N' = p" "n_next ?N' = n_next b" using sL(4,6) sN(4-6) H(5,6,10-12) by simp_all
  show ?thesis
    by (intro exI conjI) (rule Q(1) gk run C(5) C(2) C(6) C(3) q lg sL(1,3) sN(1,3) fl ent R(2,4,5) eR)+
qed

section \<open>An insertion into a full root\<close>

text \<open>
  An index of one leaf whose next entry fills it, in an environment in which a split can be carried out:
  three frames, the page that follows the root in the list of leaves, and two fresh page numbers.
\<close>

definition next_page :: "ix_state \<Rightarrow> int" where
  "next_page s = fd2pageno (disk_manager (ix_bpm s)) (ixh_fd (ix_fh s))"

definition about_to_grow :: "ix_state \<Rightarrow> bool" where
  "about_to_grow s \<longleftrightarrow> (let fd = ixh_fd (ix_fh s); np = next_page s; p = root_page (ix_hdr s); nx = n_next (root_bytes s) in
     leaf_index s \<and> n_num (root_bytes s) + 1 = GetMaxSize (ix_hdr s) \<and> 3 \<le> pool_size (ix_bpm s) \<and>
     ix_page s nx \<noteq> None \<and> nx \<notin> {IX_NO_PAGE, p} \<and> nx < np \<and> p < np \<and> in32 p \<and> 0 \<le> np \<and> in32 (np + 1) \<and>
     dm_open (disk_manager (ix_bpm s)) fd \<and> 0 \<le> fd \<and> fd < MAX_FD \<and>
     page_table (ix_bpm s) (ix_pid s np) = None \<and> page_table (ix_bpm s) (ix_pid s (np + 1)) = None)"

text \<open>The file header after the split.\<close>

definition grown_hdr :: "ix_state \<Rightarrow> IxFileHdr" where
  "grown_hdr s = (ix_hdr s)\<lparr>root_page := next_page s + 1, ix_num_pages := ix_num_pages (ix_hdr s) + 2,
     last_leaf := if last_leaf (ix_hdr s) = root_page (ix_hdr s) then next_page s else last_leaf (ix_hdr s)\<rparr>"

lemma grown_hdr_layout [simp]:
  "klen (grown_hdr s) = klen (ix_hdr s)" "slots (grown_hdr s) = slots (ix_hdr s)" "entries (grown_hdr s) b = entries (ix_hdr s) b"
  "valid_key (grown_hdr s) k = valid_key (ix_hdr s) k" "rank (grown_hdr s) k = rank (ix_hdr s) k" "ranked (grown_hdr s) b = ranked (ix_hdr s) b"
  "node_map (grown_hdr s) b = node_map (ix_hdr s) b"
  "node_sorted (grown_hdr s) b = node_sorted (ix_hdr s) b" "root_page (grown_hdr s) = next_page s + 1"
  by (simp_all add: grown_hdr_def klen_def slots_def entries_def kreg_def rreg_def node_sorted_def node_ok_def ix_hdr_ok_def ranked_def valid_key_def node_map_def)

lemma insert_grows:
  assumes "about_to_grow s" "valid_key (ix_hdr s) key" "rid_in32 v" "ix_contents s (rank (ix_hdr s) key) = None"
  defines "h \<equiv> ix_hdr s" and "np \<equiv> next_page s" and "p \<equiv> root_page (ix_hdr s)"
  shows "\<exists>s' b' L N R. insert_entry (Suc n) key v s = (Inr True, s') \<and> quiet (ix_bpm s') \<and> ix_hdr s' = grown_hdr s \<and>
    ix_page s' (np + 1) = Some R \<and> ix_page s' p = Some L \<and> ix_page s' np = Some N \<and>
    node_sorted h L \<and> node_sorted h N \<and> n_leaf L \<and> n_leaf N \<and> n_parent L = np + 1 \<and> n_parent N = np + 1 \<and>
    n_next L = np \<and> n_prev N = p \<and> n_next N = n_next (root_bytes s) \<and> node_sorted h b' \<and> node_map h b' = (ix_contents s)(rank h key \<mapsto> v) \<and>
    entries h L @ entries h N = entries h b' \<and> entries h L \<noteq> [] \<and> entries h N \<noteq> [] \<and>
    node_ok h R \<and> \<not> n_leaf R \<and> n_parent R = IX_NO_PAGE \<and> entries h R =
      [(fst (entries h L ! 0), \<lparr>rid_page_no = p, rid_slot_no = -1\<rparr>), (fst (entries h N ! 0), \<lparr>rid_page_no = np, rid_slot_no = -1\<rparr>)]"
proof -
  have g: "leaf_index s" "n_num (root_bytes s) + 1 = GetMaxSize h" "3 \<le> pool_size (ix_bpm s)" "ix_page s (n_next (root_bytes s)) \<noteq> None"
    "n_next (root_bytes s) \<noteq> IX_NO_PAGE" "n_next (root_bytes s) \<noteq> p" "n_next (root_bytes s) < np" "p < np" "in32 p" "0 \<le> np" "in32 (np + 1)"
    "dm_open (disk_manager (ix_bpm s)) (ixh_fd (ix_fh s))" "0 \<le> ixh_fd (ix_fh s)" "ixh_fd (ix_fh s) < MAX_FD"
    "page_table (ix_bpm s) (ix_pid s np) = None" "page_table (ix_bpm s) (ix_pid s (np + 1)) = None"
    using assms(1) by (simp_all add: about_to_grow_def Let_def h_def np_def p_def)
  note i = leaf_indexD [OF g(1), folded h_def p_def]
  let ?pid = "ix_pid s" and ?b = "root_bytes s"
  from Insert_ok [OF i(4) assms(2) [folded h_def] assms(3) i(8)] assms(4) obtain b' where
    I: "node_Insert h key v ?b = (Inr (n_num b'), b')" "node_sorted h b'" "links b' = links ?b"
      "node_map h b' = (ix_contents s)(rank h key \<mapsto> v)" "n_num b' = n_num ?b + 1" by (auto simp: ix_contents_def h_def)
  note lf = links_fields [OF I(3)]
  have lb: "length b' = PAGE_SIZE" using I(2) by (simp add: node_sorted_def node_ok_def)
  have two: "2 \<le> n_num b'" using I(5) g(2) ix_layout(3,4) [OF node_okD(1) [OF node_sortedD(1) [OF I(2)]]] by (simp add: GetMaxSize_def)
  from bp.fetch_ok [OF quiet_ok [OF i(1)] i(2)] quiet_room [OF i(1)] obtain f b1 where
    F: "FetchPage (?pid p) (ix_bpm s) = (Inr (Some f), b1)" "bp_ok {} b1" "holds b1 f (?pid p)" "pool_size b1 = pool_size (ix_bpm s)"
      "disk_env b1 = disk_env (ix_bpm s)" "dom (page_table b1) \<subseteq> insert (?pid p) (dom (page_table (ix_bpm s)))"
      "\<forall>q d. logical (ix_bpm s) q = Some d \<longrightarrow> logical b1 q = Some d" "pins b1 = (pins (ix_bpm s))(?pid p := pins (ix_bpm s) (?pid p) + 1)" by blast
  have lr: "logical b1 (?pid p) = Some ?b" using F(7) i(2) by blast
  note hd = held_data [OF F(2,3) lr]
  have pn: "pins b1 = (\<lambda>_. 0)(?pid p := 1)" using F(8) i(1) by (simp add: quiet_def)
  have pos: "0 < pins b1 (?pid p)" using pn by simp
  note pk = bp.poke_ok [OF F(2,3) pos lb]
  let ?s1 = "s\<lparr>ix_bpm := poke f b' b1\<rparr>"
  have env: "fd2pageno (disk_manager (ix_bpm ?s1)) (ixh_fd (ix_fh ?s1)) = np" "dm_open (disk_manager (ix_bpm ?s1)) (ixh_fd (ix_fh ?s1))"
    using pk F(5) g(12) by (simp_all add: disk_env_def np_def next_page_def)
  have dom: "dom (page_table (ix_bpm ?s1)) \<subseteq> insert (?pid p) (dom (page_table (ix_bpm s)))" using pk F(6) by simp
  have nt: "page_table (ix_bpm ?s1) (ix_pid ?s1 q) = None" if "page_table (ix_bpm s) (?pid q) = None" "p < q" for q
    using dom that by (auto simp: ix_pid_def simp flip: domIff)
  have pg: "ix_page ?s1 p = Some b'" "ix_page ?s1 (n_next b') = Some (the (ix_page s (n_next ?b)))"
    using pk F(7) g(4,6) lf(4) by (auto simp: ix_page_def ix_pid_def)
  have "node_sorted (ix_hdr ?s1) b'" "n_leaf b'" "n_parent b' = INVALID_PAGE_ID" "n_next b' \<noteq> IX_NO_PAGE" "n_next b' \<noteq> p" "n_next b' < np"
    using I(2) lf i(6,7) g(5-7) by (simp_all add: h_def)
  moreover have "bp_ok {ix_pid ?s1 p} (ix_bpm ?s1)" "holds (ix_bpm ?s1) f (ix_pid ?s1 p)" "pins (ix_bpm ?s1) = (\<lambda>_. 0)(ix_pid ?s1 p := 1)"
    "3 \<le> pool_size (ix_bpm ?s1)" using pk F(3,4) pn g(3) by simp_all
  ultimately obtain gf s2 k c1 c2 c3 L N R where
    S: "Split f ?s1 = (Inr gf, s2)" "on_node gf (\<lambda>h. get_key h 0) s2 = (Inr k, s2)" "InsertIntoParent (Suc n) f k gf s2 = (Inr (), grown ?s1 (np + 1) c1)"
      "pg_id (pages c1 gf) = ?pid np" "UnpinPage (?pid np) True c1 = (True, c2)" "pg_id (pages c2 f) = ?pid p" "UnpinPage (?pid p) True c2 = (True, c3)"
    and T: "quiet c3" "logical c3 (?pid (np + 1)) = Some R" "logical c3 (?pid p) = Some L" "logical c3 (?pid np) = Some N"
      "node_sorted h L" "node_sorted h N" "n_leaf L" "n_leaf N" "n_parent L = np + 1" "n_parent N = np + 1"
      "n_next L = np" "n_prev N = p" "n_next N = n_next ?b" "entries h L @ entries h N = entries h b'" "entries h L \<noteq> []" "entries h N \<noteq> []"
      "node_ok h R" "\<not> n_leaf R" "n_parent R = IX_NO_PAGE" "entries h R =
        [(fst (entries h L ! 0), \<lparr>rid_page_no = p, rid_slot_no = -1\<rparr>), (fst (entries h N ! 0), \<lparr>rid_page_no = np, rid_slot_no = -1\<rparr>)]"
    using split_root [of ?s1 p f b' "the (ix_page s (n_next ?b))" n, unfolded env(1)] pg two g(8-11,13-16) env(2) nt lf(4) by (auto simp: h_def)
  let ?fin = "\<lambda>c. s\<lparr>ix_bpm := c, ix_fh := (ix_fh s)\<lparr>ixh_hdr := grown_hdr s\<rparr>\<rparr>" and ?s3 = "grown ?s1 (np + 1) c1"
  have fin: "ix_pid (?fin c) = ?pid" "ix_hdr (?fin c) = grown_hdr s" for c by (simp_all add: ix_pid_def fun_eq_iff ix_hdr_def)
  have ins: "on_node f (\<lambda>h. node_Insert h key v) (s\<lparr>ix_bpm := b1\<rparr>) = (Inr (n_num b'), ?s1)"
    using on_node_write [of "\<lambda>h. node_Insert h key v" "s\<lparr>ix_bpm := b1\<rparr>" f "Inr (n_num b')" b'] I(1) hd(1) by (simp add: h_def)
  have sz: "n_num b' = GetMaxSize (ix_hdr ?s1)" using I(5) g(2) by (simp add: h_def)
  have pf: "GetPageNo f ?s1 = (Inr p, ?s1)" using hd(2) by (simp add: GetPageNo_def query_def) (simp add: ix_pid_def)
  have pg3: "GetPageNo gf ?s3 = (Inr np, ?s3)" using S(4) by (simp add: GetPageNo_def query_def) (simp add: ix_pid_def)
  have ll: "(if p = last_leaf (ix_hdr ?s1) then upd_ix_hdr (\<lambda>h. h\<lparr>last_leaf := np\<rparr>) else ret ()) ?s3 = (Inr (), ?fin c1)"
    by (simp add: upd_ix_hdr_def ret_def grown_def grown_hdr_def h_def p_def np_def)
  have un: "node_unpin gf True (?fin c1) = (Inr (), ?fin c2)" "node_unpin f True (?fin c2) = (Inr (), ?fin c3)"
    using node_unpin_eq [of "?fin c1" gf "?pid np" True True c2] node_unpin_eq [of "?fin c2" f "?pid p" True True c3] S(4-7) by simp_all
  have "insert_entry (Suc n) key v s = (Inr True, ?fin c3)"
    unfolding insert_entry_def
    by (simp only: bind_Inr FindLeafPage_ok [OF g(1) F(1) [unfolded p_def] hd(1)] ins sz if_True refl bind_assoc pf Let_def S(1-3) pg3 ll un ret_def)
  moreover have "ix_page (?fin c3) (np + 1) = Some R" "ix_page (?fin c3) p = Some L" "ix_page (?fin c3) np = Some N"
    using T(2-4) by (simp_all add: ix_page_def fin)
  moreover have "quiet (ix_bpm (?fin c3))" using T(1) by simp
  ultimately show ?thesis using fin(2) T(5-20) I(2,4) by blast
qed

section \<open>Lookups in a tree of two levels\<close>

text \<open>A read of one page of a quiet index.\<close>

lemma fetch_node_quiet:
  assumes "quiet (ix_bpm s)" "ix_page s q = Some b"
  shows "\<exists>f b1 b2. FetchNode q s = (Inr f, s\<lparr>ix_bpm := b1\<rparr>) \<and> page_data f b1 = b \<and>
    node_unpin f False (s\<lparr>ix_bpm := b1\<rparr>) = (Inr (), s\<lparr>ix_bpm := b2\<rparr>) \<and> quiet b2 \<and>
    (\<forall>r c. ix_page s r = Some c \<longrightarrow> ix_page (s\<lparr>ix_bpm := b2\<rparr>) r = Some c)"
proof -
  from visit_read [OF assms(1) assms(2) [unfolded ix_page_def]] obtain f b1 b2 where
    F: "FetchPage (ix_pid s q) (ix_bpm s) = (Inr (Some f), b1)" "page_data f b1 = b" "pg_id (pages b1 f) = ix_pid s q"
      "UnpinPage (ix_pid s q) False b1 = (True, b2)" "quiet b2" "\<forall>p c. logical (ix_bpm s) p = Some c \<longrightarrow> logical b2 p = Some c" by blast
  have "node_unpin f False (s\<lparr>ix_bpm := b1\<rparr>) = (Inr (), s\<lparr>ix_bpm := b2\<rparr>)"
    using node_unpin_eq [of "s\<lparr>ix_bpm := b1\<rparr>" f "ix_pid s q" False True b2] F by simp
  moreover have "\<forall>r c. ix_page s r = Some c \<longrightarrow> ix_page (s\<lparr>ix_bpm := b2\<rparr>) r = Some c" using F(6) by (simp add: ix_page_def)
  ultimately show ?thesis using FetchNode_eq [OF F(1)] F(2,5) by blast
qed

lemma GetValue_two_levels:
  assumes "quiet (ix_bpm s)" "ix_page s (root_page (ix_hdr s)) = Some R" "node_sorted (ix_hdr s) R" "\<not> n_leaf R" "valid_key (ix_hdr s) k"
  defines "i \<equiv> upper (ranked (ix_hdr s) R) (rank (ix_hdr s) k)"
  assumes "i < nat (n_num R)" "ix_page s (rid_page_no (snd (entries (ix_hdr s) R ! i))) = Some N" "node_sorted (ix_hdr s) N" "n_leaf N"
  shows "\<exists>s'. GetValue (Suc (Suc n)) k s = (Inr (node_map (ix_hdr s) N (rank (ix_hdr s) k)), s')"
proof -
  let ?h = "ix_hdr s" and ?q = "rid_page_no (snd (entries (ix_hdr s) R ! i))"
  have len: "length R = 4096" "length N = 4096" using node_okD(2) [OF node_sortedD(1)] assms(3,9) by blast+
  from fetch_node_quiet [OF assms(1,2)] obtain f b1 b2 where
    F: "FetchNode (root_page ?h) s = (Inr f, s\<lparr>ix_bpm := b1\<rparr>)" "page_data f b1 = R"
      "node_unpin f False (s\<lparr>ix_bpm := b1\<rparr>) = (Inr (), s\<lparr>ix_bpm := b2\<rparr>)" "quiet b2" "ix_page (s\<lparr>ix_bpm := b2\<rparr>) ?q = Some N"
    using assms(8) by blast
  from fetch_node_quiet [of "s\<lparr>ix_bpm := b2\<rparr>", OF _ F(5)] F(4) obtain g b3 b4 where
    G: "FetchNode ?q (s\<lparr>ix_bpm := b2\<rparr>) = (Inr g, s\<lparr>ix_bpm := b3\<rparr>)" "page_data g b3 = N"
      "node_unpin g False (s\<lparr>ix_bpm := b3\<rparr>) = (Inr (), s\<lparr>ix_bpm := b4\<rparr>)" by auto
  have lf: "on_node f (\<lambda>h. IsLeafPage) (s\<lparr>ix_bpm := b1\<rparr>) = (Inr False, s\<lparr>ix_bpm := b1\<rparr>)"
    using field_reads(1) [OF len(1)] F(2) assms(4) by (intro on_node_read) simp
  have lg: "on_node g (\<lambda>h. IsLeafPage) (s\<lparr>ix_bpm := b3\<rparr>) = (Inr True, s\<lparr>ix_bpm := b3\<rparr>)"
    using field_reads(1) [OF len(2)] G(2) assms(10) by (intro on_node_read) simp
  have il: "on_node f (\<lambda>h. InternalLookup h k) (s\<lparr>ix_bpm := b1\<rparr>) = (Inr ?q, s\<lparr>ix_bpm := b1\<rparr>)"
    using InternalLookup_ok [OF assms(3,5) assms(7) [unfolded i_def]] F(2) by (intro on_node_read) (simp add: i_def)
  have ll: "on_node g (\<lambda>h. LeafLookup h k) (s\<lparr>ix_bpm := b3\<rparr>) = (Inr (node_map ?h N (rank ?h k)), s\<lparr>ix_bpm := b3\<rparr>)"
    using LeafLookup_ok [OF assms(9,5)] G(2) by (intro on_node_read) simp
  have "GetValue (Suc (Suc n)) k s = (Inr (node_map ?h N (rank ?h k)), s\<lparr>ix_bpm := b4\<rparr>)"
    by (simp add: GetValue_def FindLeafPage_def F(1) lf il F(3) G(1) lg ll G(3) ret_def)
  then show ?thesis by blast
qed

text \<open>The two halves against the keys of the root.\<close>

lemma halves_and_root:
  assumes "node_sorted h b" "entries h L @ entries h N = entries h b" "entries h L \<noteq> []" "entries h N \<noteq> []" "node_ok h R"
    and "entries h R = [(fst (entries h L ! 0), rl), (fst (entries h N ! 0), rn)]"
  shows "node_sorted h R" "strict (ranked h L @ ranked h N)" "map_of (ranked h L @ ranked h N) = node_map h b"
    "e \<in> set (entries h L) \<Longrightarrow> valid_key h (fst e)"
    "e \<in> set (entries h L) \<Longrightarrow> node_map h b (rank h (fst e)) = Some (snd e)"
    "e \<in> set (entries h L) \<Longrightarrow> node_map h N (rank h (fst e)) = None"
    "e \<in> set (entries h L) \<Longrightarrow> upper (ranked h R) (rank h (fst e)) = 1"
proof -
  note n = node_sortedD [OF assms(1)]
  have rk: "ranked h L @ ranked h N = ranked h b" unfolding ranked_def assms(2) [symmetric] by simp
  show st: "strict (ranked h L @ ranked h N)" and "map_of (ranked h L @ ranked h N) = node_map h b"
    unfolding rk node_map_def using n(2) by simp_all
  obtain l ls where L: "entries h L = l # ls" using assms(3) by (cases "entries h L") auto
  obtain m ms where N: "entries h N = m # ms" using assms(4) by (cases "entries h N") auto
  have val: "valid_key h (fst e)" if "e \<in> set (entries h L) \<union> set (entries h N)" for e
    using that assms(1) by (auto simp: node_sorted_def assms(2) [symmetric])
  have rR: "ranked h R = [(rank h (fst l), rl), (rank h (fst m), rn)]" by (simp add: ranked_def assms(6) L N)
  have sep: "\<forall>x \<in> set (ranked h L). \<forall>y \<in> set (ranked h N). fst x < fst y" and stL: "sorted_wrt (\<lambda>x y. fst x < fst y) (ranked h L)"
    using st by (simp_all add: strict_def sorted_wrt_append)
  have mem: "(rank h (fst e), snd e) \<in> set (ranked h b')" if "e \<in> set (entries h b')" for e b'
    using that by (auto simp: ranked_def intro: rev_image_eqI)
  have lt: "rank h (fst e) < rank h (fst e')" if "e \<in> set (entries h L)" "e' \<in> set (entries h N)" for e e'
    using bspec [OF bspec [OF sep mem [OF that(1)]] mem [OF that(2)]] by simp
  have le: "rank h (fst l) \<le> rank h (fst e)" if "e \<in> set (entries h L)" for e
    using stL that by (auto simp: ranked_def L case_prod_unfold)
  have "rank h (fst l) < rank h (fst m)" using lt L N by simp
  then show "node_sorted h R" using assms(5,6) rR val L N by (auto simp: node_sorted_def strict_def)
  assume e: "e \<in> set (entries h L)"
  show "valid_key h (fst e)" using val e by blast
  have "(rank h (fst e), snd e) \<in> set (ranked h b)" using e mem [of e b] by (simp add: assms(2) [symmetric])
  moreover have "distinct (map fst (ranked h b))" using n(2) by (simp add: strict_def sorted_wrt_map [symmetric] strict_sorted_iff)
  ultimately show "node_map h b (rank h (fst e)) = Some (snd e)" by (simp add: node_map_def)
  show "node_map h N (rank h (fst e)) = None"
    unfolding node_map_def by (rule map_of_None) (use lt [OF e] in \<open>fastforce simp: ranked_def\<close>)
  show "upper (ranked h R) (rank h (fst e)) = 1" using le [OF e] lt [OF e, of m] N by (simp add: rR upper_def not_le [symmetric])
qed

section \<open>An example\<close>

text \<open>A tree of order 2 whose root leaf, page 1, has two entries.\<close>

definition demo_small_hdr :: IxFileHdr where
  "demo_small_hdr = (new_index_hdr TYPE_INT 4 2)\<lparr>root_page := 1\<rparr>"

lemma demo_about_to_grow:
  "\<exists>s. about_to_grow s \<and> ix_hdr s = demo_small_hdr \<and> next_page s = 2 \<and> ix_contents s (rank demo_small_hdr (le32 5)) = None"
proof -
  have h: "ix_hdr_ok demo_small_hdr" "col_type demo_small_hdr = TYPE_INT" "col_len demo_small_hdr = 4" "slots demo_small_hdr = 3"
    "GetMaxSize demo_small_hdr = 3" "root_page demo_small_hdr = 1"
    by (simp_all add: demo_small_hdr_def new_index_hdr_def ix_hdr_ok_def PAGE_SIZE_def sizeof_IxPageHdr_def sizeof_Rid_def slots_def GetMaxSize_def)
  from demo_leaf [OF h(1-3)] obtain b v where b: "node_sorted demo_small_hdr b" "n_leaf b" "n_num b = 2" "n_next b = 0" "n_parent b = INVALID_PAGE_ID"
    "node_map demo_small_hdr b = [rank demo_small_hdr (le32 7) \<mapsto> v, rank demo_small_hdr (le32 9) \<mapsto> v]" by blast
  have "length b = PAGE_SIZE" "length zero_page = PAGE_SIZE" using node_okD(2) [OF node_sortedD(1) [OF b(1)]] by (simp_all add: PAGE_SIZE_def)
  from demo_pages [OF this(2,1)] obtain s where d: "quiet s" "pool_size s = 3" "logical s (demo_pid 1) = Some b" "logical s (demo_pid 0) = Some zero_page"
    "dm_open (disk_manager s) 3" "fd2pageno (disk_manager s) 3 = 2" "dom (page_table s) \<subseteq> {demo_pid 0, demo_pid 1}" by blast
  let ?s = "\<lparr>ix_bpm = s, ix_fh = \<lparr>ixh_fd = 3, ixh_hdr = demo_small_hdr\<rparr>\<rparr>"
  have hd: "ix_hdr ?s = demo_small_hdr" "next_page ?s = 2" using d(6) by (simp_all add: ix_hdr_def next_page_def)
  have pid: "ix_pid ?s k = demo_pid k" for k by (simp add: ix_pid_def demo_pid_def)
  have pg: "ix_page ?s 1 = Some b" "ix_page ?s 0 = Some zero_page" using d(3,4) by (simp_all add: ix_page_def pid)
  have rb: "root_bytes ?s = b" using pg(1) hd(1) h(6) by (simp add: root_bytes_def)
  have li: "leaf_index ?s" using d(1) pg(1) rb hd(1) h(4,6) b(1-3,5) by (simp add: leaf_index_def root_leaf_def)
  have "demo_pid 2 \<notin> dom (page_table s)" "demo_pid 3 \<notin> dom (page_table s)" using d(7) by (auto simp: demo_pid_def simp del: domIff)
  then have none: "page_table s (demo_pid 2) = None" "page_table s (demo_pid 3) = None" by (simp_all add: domIff)
  have "about_to_grow ?s"
    unfolding about_to_grow_def Let_def hd rb b(4) h(6) using li b(3) h(5) pg(2) d(2,5) none
    by (simp add: pid IX_NO_PAGE_def in32_def MAX_FD_def)
  moreover have "ix_contents ?s (rank demo_small_hdr (le32 5)) = None" using h(2) by (simp add: ix_contents_def hd(1) rb b(6) in32_def)
  ultimately show ?thesis using hd by blast
qed

section \<open>Properties\<close>

text \<open>
  C5. The tree grows without losing an entry, in the process that created the index. The index is a single leaf, one entry short
  of full, in a pool of at least three frames without pinned pages; the page that follows the leaf in the list of leaves (the leaf header page) exists;
  and the next two page numbers of the descriptor are fresh, that is above the root and that next page, within 32 bits,
  and not in the pool. (An index that was opened without having been created in the same process does not meet the last condition: its counter
  starts at 1, and the split writes over live pages.) Then inserting a new key that fits the key width, \<open>insert_entry\<close>
  returns true and leaves a tree of two levels: the new root is an inner node without parent that holds, in
  order, the first key and the page number of each of the two leaves below it; the leaves name it as their parent,
  are linked to each other, and hold between them, in strictly ascending order, exactly the old contents and the new
  entry. No page stays pinned.
\<close>

theorem full_root_grows:
  assumes "about_to_grow s" "valid_key (ix_hdr s) key" "rid_in32 v" "ix_contents s (rank (ix_hdr s) key) = None"
  defines "h \<equiv> ix_hdr s" and "np \<equiv> next_page s" and "p \<equiv> root_page (ix_hdr s)"
  shows "\<exists>s' L N R. insert_entry (Suc n) key v s = (Inr True, s') \<and> quiet (ix_bpm s') \<and> ix_hdr s' = grown_hdr s \<and>
    ix_page s' (np + 1) = Some R \<and> ix_page s' p = Some L \<and> ix_page s' np = Some N \<and>
    node_sorted h R \<and> \<not> n_leaf R \<and> n_parent R = IX_NO_PAGE \<and> entries h R =
      [(fst (entries h L ! 0), \<lparr>rid_page_no = p, rid_slot_no = -1\<rparr>), (fst (entries h N ! 0), \<lparr>rid_page_no = np, rid_slot_no = -1\<rparr>)] \<and>
    node_sorted h L \<and> node_sorted h N \<and> n_leaf L \<and> n_leaf N \<and> entries h L \<noteq> [] \<and> entries h N \<noteq> [] \<and>
    n_parent L = np + 1 \<and> n_parent N = np + 1 \<and> n_next L = np \<and> n_prev N = p \<and> n_next N = n_next (root_bytes s) \<and>
    strict (ranked h L @ ranked h N) \<and> map_of (ranked h L @ ranked h N) = (ix_contents s)(rank h key \<mapsto> v)"
proof -
  from insert_grows [OF assms(1-4), of n, folded h_def np_def p_def] obtain s' b' L N R where
    A: "insert_entry (Suc n) key v s = (Inr True, s')" "quiet (ix_bpm s')" "ix_hdr s' = grown_hdr s"
      "ix_page s' (np + 1) = Some R" "ix_page s' p = Some L" "ix_page s' np = Some N"
      "node_sorted h L" "node_sorted h N" "n_leaf L" "n_leaf N" "n_parent L = np + 1" "n_parent N = np + 1"
      "n_next L = np" "n_prev N = p" "n_next N = n_next (root_bytes s)" "\<not> n_leaf R" "n_parent R = IX_NO_PAGE" and
    B: "node_sorted h b'" "entries h L @ entries h N = entries h b'" "entries h L \<noteq> []" "entries h N \<noteq> []" "node_ok h R" "entries h R =
      [(fst (entries h L ! 0), \<lparr>rid_page_no = p, rid_slot_no = -1\<rparr>), (fst (entries h N ! 0), \<lparr>rid_page_no = np, rid_slot_no = -1\<rparr>)]" and
    C: "node_map h b' = (ix_contents s)(rank h key \<mapsto> v)" by blast
  note r = halves_and_root [OF B]
  show ?thesis by (intro exI conjI) (rule A r(1,2) B(3,4,6) trans [OF r(3) C])+
qed

theorem full_root_grows_witness:
  "\<exists>s s' L N R. ix_hdr s = demo_small_hdr \<and> insert_entry 1 (le32 5) \<lparr>rid_page_no = 4, rid_slot_no = 0\<rparr> s = (Inr True, s') \<and>
     ix_page s' 3 = Some R \<and> ix_page s' 1 = Some L \<and> ix_page s' 2 = Some N \<and> \<not> n_leaf R \<and> length (entries demo_small_hdr R) = 2 \<and>
     map_of (ranked demo_small_hdr L @ ranked demo_small_hdr N) (rank demo_small_hdr (le32 5)) = Some \<lparr>rid_page_no = 4, rid_slot_no = 0\<rparr>"
proof -
  from demo_about_to_grow obtain s where s: "about_to_grow s" "ix_hdr s = demo_small_hdr" "next_page s = 2" "ix_contents s (rank demo_small_hdr (le32 5)) = None" by blast
  have "valid_key demo_small_hdr (le32 5)" "rid_in32 \<lparr>rid_page_no = 4, rid_slot_no = 0\<rparr>" "root_page demo_small_hdr = 1"
    by (simp_all add: valid_key_def klen_def rid_in32_def in32_def demo_small_hdr_def new_index_hdr_def)
  with full_root_grows [of s "le32 5" "\<lparr>rid_page_no = 4, rid_slot_no = 0\<rparr>" 0] s obtain s' L N R where
    "insert_entry 1 (le32 5) \<lparr>rid_page_no = 4, rid_slot_no = 0\<rparr> s = (Inr True, s')" "ix_page s' 3 = Some R" "ix_page s' 1 = Some L" "ix_page s' 2 = Some N"
    "\<not> n_leaf R" "entries demo_small_hdr R = [(fst (entries demo_small_hdr L ! 0), \<lparr>rid_page_no = 1, rid_slot_no = -1\<rparr>),
        (fst (entries demo_small_hdr N ! 0), \<lparr>rid_page_no = 2, rid_slot_no = -1\<rparr>)]"
    "map_of (ranked demo_small_hdr L @ ranked demo_small_hdr N) = (ix_contents s)(rank demo_small_hdr (le32 5) \<mapsto> \<lparr>rid_page_no = 4, rid_slot_no = 0\<rparr>)"
    by (auto simp: One_nat_def [symmetric] simp del: One_nat_def)
  with s(2) show ?thesis by (intro exI [of _ s] exI [of _ s'] exI [of _ L] exI [of _ N] exI [of _ R]) (simp del: map_of_append)
qed

text \<open>
  C21. The first half of a tree that has grown is lost to searches. After the insertion of a new key that fills the root of an
  index, where the split succeeds (under the conditions of C5: a single leaf one entry short of full, three frames, no pinned page,
  an existing next page, and two fresh page numbers), the left leaf holds entries of the index, but a lookup of any of their keys answers that there is no such key:
  \<open>InternalLookup\<close> sends the search to the right leaf.
\<close>

theorem grown_tree_hides_left_half:
  assumes "about_to_grow s" "valid_key (ix_hdr s) key" "rid_in32 v" "ix_contents s (rank (ix_hdr s) key) = None"
  defines "h \<equiv> ix_hdr s"
  shows "\<exists>s' L. insert_entry (Suc n) key v s = (Inr True, s') \<and> ix_page s' (root_page h) = Some L \<and> entries h L \<noteq> [] \<and>
    (\<forall>e \<in> set (entries h L). ((ix_contents s)(rank h key \<mapsto> v)) (rank h (fst e)) = Some (snd e) \<and>
      (\<exists>s''. GetValue (Suc (Suc m)) (fst e) s' = (Inr None, s'')))"
proof -
  let ?np = "next_page s" and ?p = "root_page h"
  from insert_grows [OF assms(1-4), of n, folded h_def] obtain s' b' L N R where
    A: "insert_entry (Suc n) key v s = (Inr True, s')" "quiet (ix_bpm s')" "ix_hdr s' = grown_hdr s"
      "ix_page s' (?np + 1) = Some R" "ix_page s' ?p = Some L" "ix_page s' ?np = Some N" "node_sorted h N" "n_leaf N" "\<not> n_leaf R" and
    B: "node_sorted h b'" "entries h L @ entries h N = entries h b'" "entries h L \<noteq> []" "entries h N \<noteq> []" "node_ok h R" "entries h R =
      [(fst (entries h L ! 0), \<lparr>rid_page_no = ?p, rid_slot_no = -1\<rparr>), (fst (entries h N ! 0), \<lparr>rid_page_no = ?np, rid_slot_no = -1\<rparr>)]" and
    C: "node_map h b' = (ix_contents s)(rank h key \<mapsto> v)" by blast
  note r = halves_and_root [OF B]
  have num: "nat (n_num R) = 2" using length_entries [of h R] B(6) by (simp del: length_entries)
  have "node_map h b' (rank h (fst e)) = Some (snd e) \<and> (\<exists>s''. GetValue (Suc (Suc m)) (fst e) s' = (Inr None, s''))" if e: "e \<in> set (entries h L)" for e
  proof -
    from GetValue_two_levels [of s' R "fst e" N m] A B(6) r(1) r(4,6,7) [OF e] num
    show ?thesis using r(5) [OF e] by (simp add: h_def)
  qed
  then show ?thesis unfolding C using A(1,5) B(3) by blast
qed

theorem grown_tree_hides_left_half_witness:
  "\<exists>s s' L. insert_entry 1 (le32 5) \<lparr>rid_page_no = 4, rid_slot_no = 0\<rparr> s = (Inr True, s') \<and> ix_page s' 1 = Some L \<and> entries demo_small_hdr L \<noteq> [] \<and>
     (\<exists>s''. GetValue 2 (fst (hd (entries demo_small_hdr L))) s' = (Inr None, s''))"
proof -
  from demo_about_to_grow obtain s where s: "about_to_grow s" "ix_hdr s = demo_small_hdr" "next_page s = 2" "ix_contents s (rank demo_small_hdr (le32 5)) = None" by blast
  have "valid_key demo_small_hdr (le32 5)" "rid_in32 \<lparr>rid_page_no = 4, rid_slot_no = 0\<rparr>" "root_page demo_small_hdr = 1"
    by (simp_all add: valid_key_def klen_def rid_in32_def in32_def demo_small_hdr_def new_index_hdr_def)
  with grown_tree_hides_left_half [of s "le32 5" "\<lparr>rid_page_no = 4, rid_slot_no = 0\<rparr>" 0 0, unfolded s(2)] s(1,4) obtain s' L where
    g: "insert_entry (Suc 0) (le32 5) \<lparr>rid_page_no = 4, rid_slot_no = 0\<rparr> s = (Inr True, s')" "ix_page s' 1 = Some L" "entries demo_small_hdr L \<noteq> []"
      "\<forall>e \<in> set (entries demo_small_hdr L). \<exists>s''. GetValue (Suc (Suc 0)) (fst e) s' = (Inr None, s'')" by metis
  from g(3,4) have "\<exists>s''. GetValue (Suc (Suc 0)) (fst (hd (entries demo_small_hdr L))) s' = (Inr None, s'')" by simp
  with g(1-3) show ?thesis unfolding One_nat_def numeral_2_eq_2 by blast
qed

end
