(* ===== verification/Rwlatch.thy ===== *)
theory Rwlatch
  imports Defs
begin

text \<open>
  \<open>common/rwlatch.*\<close>: the reader-writer latch built from a mutex and two condition variables.

  Each stretch of code between two waits runs under the mutex and is one function on the fields of the
  latch; its result says whether the call returns or waits, and on which condition variable, or which
  threads are notified. \<open>latch_step\<close> interleaves the calls of \<open>n\<close> threads: a thread that waits is
  \<open>Blocked\<close> until a notification or a spurious wake-up makes it \<open>Ready\<close> to look at its loop condition
  again. Threads release what they hold and nothing else.
\<close>

section \<open>The latch\<close>

record ReaderWriterLatch =
  reader_count :: "32 word"
  writer_entered :: bool

definition MAX_READERS :: "32 word" where "MAX_READERS = - 1"

definition ReaderWriterLatch_init :: ReaderWriterLatch where
  "ReaderWriterLatch_init = \<lparr>reader_count = 0, writer_entered = False\<rparr>"

datatype cond_var = writer_cv | reader_cv
datatype lock_out = Acquired | Wait cond_var
datatype notify = No_notify | Notify_one cond_var | Notify_all cond_var

text \<open>\<open>WLock\<close> from the check of its second loop on, and from its beginning.\<close>

definition WLock_second :: "ReaderWriterLatch \<Rightarrow> lock_out \<times> ReaderWriterLatch" where
  "WLock_second l = (if reader_count l > 0 then (Wait writer_cv, l) else (Acquired, l))"

text \<open>The result says too whether the first loop is left.\<close>

definition WLock :: "ReaderWriterLatch \<Rightarrow> bool \<times> lock_out \<times> ReaderWriterLatch" where
  "WLock l = (if writer_entered l then (False, Wait reader_cv, l)
     else (True, WLock_second (l\<lparr>writer_entered := True\<rparr>)))"

definition WUnlock :: "ReaderWriterLatch \<Rightarrow> notify \<times> ReaderWriterLatch" where
  "WUnlock l = (Notify_all reader_cv, l\<lparr>writer_entered := False\<rparr>)"

definition RLock :: "ReaderWriterLatch \<Rightarrow> lock_out \<times> ReaderWriterLatch" where
  "RLock l = (if writer_entered l \<or> reader_count l = MAX_READERS then (Wait reader_cv, l)
     else (Acquired, l\<lparr>reader_count := reader_count l + 1\<rparr>))"

definition RUnlock :: "ReaderWriterLatch \<Rightarrow> notify \<times> ReaderWriterLatch" where
  "RUnlock l =
     (let l1 = l\<lparr>reader_count := reader_count l - 1\<rparr>
      in if writer_entered l1 then (if reader_count l1 = 0 then Notify_one writer_cv else No_notify, l1)
         else (if reader_count l1 = MAX_READERS - 1 then Notify_one reader_cv else No_notify, l1))"

section \<open>Threads\<close>

text \<open>\<open>W1\<close> is the first loop of \<open>WLock\<close>, \<open>W2\<close> the second one and \<open>R\<close> the loop of \<open>RLock\<close>.\<close>

datatype loop = W1 | W2 | R
datatype pc = Outside | Ready loop | Blocked loop | Reading | Writing

fun waits_on :: "loop \<Rightarrow> cond_var" where
  "waits_on W1 = reader_cv"
| "waits_on W2 = writer_cv"
| "waits_on R = reader_cv"

record latch_state =
  latch :: ReaderWriterLatch
  pcs :: "nat \<Rightarrow> pc"

definition latch_init :: latch_state where
  "latch_init = \<lparr>latch = ReaderWriterLatch_init, pcs = (\<lambda>_. Outside)\<rparr>"

definition wake_all :: "cond_var \<Rightarrow> (nat \<Rightarrow> pc) \<Rightarrow> nat \<Rightarrow> pc" where
  "wake_all cv p t = (case p t of Blocked k \<Rightarrow> if waits_on k = cv then Ready k else p t | _ \<Rightarrow> p t)"

text \<open>What a notification may do; \<open>notify_one\<close> wakes one of the threads that wait, if there is one.\<close>

inductive notified :: "notify \<Rightarrow> (nat \<Rightarrow> pc) \<Rightarrow> (nat \<Rightarrow> pc) \<Rightarrow> bool" where
  none: "notified No_notify p p"
| all: "notified (Notify_all cv) p (wake_all cv p)"
| one: "p t = Blocked k \<Longrightarrow> waits_on k = cv \<Longrightarrow> notified (Notify_one cv) p (p(t := Ready k))"
| nobody: "(\<And>t k. p t = Blocked k \<Longrightarrow> waits_on k \<noteq> cv) \<Longrightarrow> notified (Notify_one cv) p p"

inductive latch_step :: "nat \<Rightarrow> latch_state \<Rightarrow> latch_state \<Rightarrow> bool" for n where
  call_WLock: "t < n \<Longrightarrow> pcs s t = Outside \<Longrightarrow> latch_step n s (s\<lparr>pcs := (pcs s)(t := Ready W1)\<rparr>)"
| call_RLock: "t < n \<Longrightarrow> pcs s t = Outside \<Longrightarrow> latch_step n s (s\<lparr>pcs := (pcs s)(t := Ready R)\<rparr>)"
| wakes: "t < n \<Longrightarrow> pcs s t = Blocked k \<Longrightarrow> latch_step n s (s\<lparr>pcs := (pcs s)(t := Ready k)\<rparr>)"
| runs_W1: "t < n \<Longrightarrow> pcs s t = Ready W1 \<Longrightarrow> WLock (latch s) = (entered, out, l) \<Longrightarrow>
     latch_step n s \<lparr>latch = l, pcs = (pcs s)(t := if out = Acquired then Writing else if entered then Blocked W2 else Blocked W1)\<rparr>"
| runs_W2: "t < n \<Longrightarrow> pcs s t = Ready W2 \<Longrightarrow> WLock_second (latch s) = (out, l) \<Longrightarrow>
     latch_step n s \<lparr>latch = l, pcs = (pcs s)(t := if out = Acquired then Writing else Blocked W2)\<rparr>"
| runs_R: "t < n \<Longrightarrow> pcs s t = Ready R \<Longrightarrow> RLock (latch s) = (out, l) \<Longrightarrow>
     latch_step n s \<lparr>latch = l, pcs = (pcs s)(t := if out = Acquired then Reading else Blocked R)\<rparr>"
| leaves_W: "t < n \<Longrightarrow> pcs s t = Writing \<Longrightarrow> WUnlock (latch s) = (nt, l) \<Longrightarrow> notified nt ((pcs s)(t := Outside)) p \<Longrightarrow>
     latch_step n s \<lparr>latch = l, pcs = p\<rparr>"
| leaves_R: "t < n \<Longrightarrow> pcs s t = Reading \<Longrightarrow> RUnlock (latch s) = (nt, l) \<Longrightarrow> notified nt ((pcs s)(t := Outside)) p \<Longrightarrow>
     latch_step n s \<lparr>latch = l, pcs = p\<rparr>"

inductive latch_reachable :: "nat \<Rightarrow> latch_state \<Rightarrow> bool" for n where
  init: "latch_reachable n latch_init"
| step: "latch_reachable n s \<Longrightarrow> latch_step n s s' \<Longrightarrow> latch_reachable n s'"

inductive_cases latch_stepE: "latch_step n s s'"
inductive_cases notifiedE: "notified nt p p'"

section \<open>The invariant\<close>

text \<open>The threads that have set \<open>writer_entered_\<close>, the readers, and those that wait on \<open>reader_\<close>.\<close>

definition owners :: "latch_state \<Rightarrow> nat set" where
  "owners s = {t. pcs s t \<in> {Ready W2, Blocked W2, Writing}}"

definition readers :: "latch_state \<Rightarrow> nat set" where
  "readers s = {t. pcs s t = Reading}"

text \<open>Fewer threads than the latch admits readers.\<close>

definition few_threads :: "nat \<Rightarrow> bool" where
  "few_threads n \<longleftrightarrow> n < 2 ^ 32 - 1"

definition latch_inv :: "nat \<Rightarrow> latch_state \<Rightarrow> bool" where
  "latch_inv n s \<longleftrightarrow>
     (\<forall>t \<ge> n. pcs s t = Outside) \<and>
     unat (reader_count (latch s)) = card (readers s) \<and>
     (if writer_entered (latch s) then \<exists>t. owners s = {t} else owners s = {}) \<and>
     (\<forall>t. pcs s t = Writing \<longrightarrow> readers s = {}) \<and>
     (\<forall>t. pcs s t = Blocked W2 \<longrightarrow> readers s \<noteq> {}) \<and>
     (few_threads n \<longrightarrow> (\<forall>t. pcs s t \<in> {Blocked W1, Blocked R} \<longrightarrow> writer_entered (latch s)))"

lemma latch_invD:
  assumes "latch_inv n s"
  shows "n \<le> t \<Longrightarrow> pcs s t = Outside" "unat (reader_count (latch s)) = card (readers s)"
    "writer_entered (latch s) \<Longrightarrow> \<exists>t. owners s = {t}" "\<not> writer_entered (latch s) \<Longrightarrow> owners s = {}"
    "pcs s t = Writing \<Longrightarrow> readers s = {}" "pcs s t = Blocked W2 \<Longrightarrow> readers s \<noteq> {}"
    "few_threads n \<Longrightarrow> pcs s t \<in> {Blocked W1, Blocked R} \<Longrightarrow> writer_entered (latch s)"
  using assms unfolding latch_inv_def by meson+

lemma latch_invI:
  assumes "\<And>t. n \<le> t \<Longrightarrow> pcs s t = Outside" "unat (reader_count (latch s)) = card (readers s)"
    "if writer_entered (latch s) then \<exists>t. owners s = {t} else owners s = {}"
    "\<And>t. pcs s t = Writing \<Longrightarrow> readers s = {}" "\<And>t. pcs s t = Blocked W2 \<Longrightarrow> readers s \<noteq> {}"
    "\<And>t. few_threads n \<Longrightarrow> pcs s t \<in> {Blocked W1, Blocked R} \<Longrightarrow> writer_entered (latch s)"
  shows "latch_inv n s"
  using assms unfolding latch_inv_def by meson

lemma owner_unique: "latch_inv n s \<Longrightarrow> t \<in> owners s \<Longrightarrow> writer_entered (latch s) \<and> owners s = {t}"
  by (metis empty_iff latch_invD(3,4) singletonD)

lemma owners_if: "latch_inv n s \<Longrightarrow> if writer_entered (latch s) then \<exists>t. owners s = {t} else owners s = {}"
  using latch_invD(3,4) by simp

lemma readers_bounded: "latch_inv n s \<Longrightarrow> readers s \<subseteq> {..<n}"
  using latch_invD(1) by (fastforce simp: readers_def not_le [symmetric])

lemma readers_finite [simp]: "latch_inv n s \<Longrightarrow> finite (readers s)"
  using readers_bounded finite_subset by blast


text \<open>Moving one thread.\<close>

lemma readers_move:
  "readers \<lparr>latch = l, pcs = p(t := x)\<rparr> = (if x = Reading then insert t {u. p u = Reading} else {u. p u = Reading} - {t})"
  by (auto simp: readers_def)

lemma owners_move:
  "owners \<lparr>latch = l, pcs = p(t := x)\<rparr> =
     (if x \<in> {Ready W2, Blocked W2, Writing} then insert t {u. p u \<in> {Ready W2, Blocked W2, Writing}}
      else {u. p u \<in> {Ready W2, Blocked W2, Writing}} - {t})"
  by (auto simp: owners_def)

lemma notified_same:
  assumes "notified nt p p'"
  shows "p' t = Reading \<longleftrightarrow> p t = Reading" "p' t = Writing \<longleftrightarrow> p t = Writing" "p' t = Outside \<longleftrightarrow> p t = Outside"
    "p' t \<in> {Ready W2, Blocked W2, Writing} \<longleftrightarrow> p t \<in> {Ready W2, Blocked W2, Writing}"
    "p' t = Blocked k \<Longrightarrow> p t = Blocked k"
  using assms by (auto elim!: notifiedE simp: wake_all_def split: pc.splits if_splits)

lemma notified_all: "notified (Notify_all cv) p p' \<Longrightarrow> p' t = Blocked k \<Longrightarrow> waits_on k \<noteq> cv"
  by (auto elim!: notifiedE simp: wake_all_def split: pc.splits if_splits)

lemma waits_on_iff [simp]: "waits_on k = writer_cv \<longleftrightarrow> k = W2" "writer_cv = waits_on k \<longleftrightarrow> k = W2" "waits_on k = reader_cv \<longleftrightarrow> k \<noteq> W2"
  by (cases k; simp)+

lemma notified_only:
  assumes "notified (Notify_one writer_cv) p p'" "\<And>u v. p u = Blocked W2 \<Longrightarrow> p v = Blocked W2 \<Longrightarrow> u = v"
  shows "p' t \<noteq> Blocked W2"
proof
  assume "p' t = Blocked W2"
  with notified_same(5) [OF assms(1)] have "p t = Blocked W2" by blast
  from assms(1) show False
  proof cases
    case (one u k)
    then show False using \<open>p t = Blocked W2\<close> \<open>p' t = Blocked W2\<close> assms(2) [of t u] by (auto split: if_splits)
  qed (use \<open>p t = Blocked W2\<close> in auto)
qed

lemma latch_inv_init: "latch_inv n latch_init"
  by (rule latch_invI) (simp_all add: latch_init_def ReaderWriterLatch_init_def readers_def owners_def)

text \<open>The steps that leave the latch as it is: a call, a wake-up and a wait.\<close>

lemma latch_inv_quiet:
  assumes inv: "latch_inv n s" and "t < n" "pcs s t \<notin> {Reading, Writing}" "x \<notin> {Reading, Writing}"
    and "x \<in> {Ready W2, Blocked W2} \<longleftrightarrow> pcs s t \<in> {Ready W2, Blocked W2}"
    and "x = Blocked W2 \<Longrightarrow> readers s \<noteq> {}"
    and "few_threads n \<Longrightarrow> x \<in> {Blocked W1, Blocked R} \<Longrightarrow> writer_entered (latch s)"
  shows "latch_inv n \<lparr>latch = latch s, pcs = (pcs s)(t := x)\<rparr>"
proof -
  let ?s = "\<lparr>latch = latch s, pcs = (pcs s)(t := x)\<rparr>"
  have r: "readers ?s = readers s" using assms(3,4) by (auto simp: readers_def)
  have o: "owners ?s = owners s" using assms(3-5) by (auto simp: owners_def)
  show ?thesis
    by (rule latch_invI, unfold r o) (use assms latch_invD [OF inv] owners_if [OF inv] in \<open>auto split: if_splits\<close>)
qed

lemma latch_inv_reader_count:
  assumes "latch_inv n s"
  shows "reader_count (latch s) > 0 \<longleftrightarrow> readers s \<noteq> {}" "reader_count (latch s) = MAX_READERS \<longleftrightarrow> card (readers s) = 2 ^ 32 - 1"
proof -
  note c = latch_invD(2) [OF assms]
  have "reader_count (latch s) > 0 \<longleftrightarrow> unat (reader_count (latch s)) \<noteq> 0" by (simp add: word_less_nat_alt)
  then show "reader_count (latch s) > 0 \<longleftrightarrow> readers s \<noteq> {}" using c assms by (simp add: card_eq_0_iff)
  show "reader_count (latch s) = MAX_READERS \<longleftrightarrow> card (readers s) = 2 ^ 32 - 1"
    unfolding MAX_READERS_def word_unat_eq_iff c by (simp add: unsigned_minus_1_eq_mask mask_eq_exp_minus_1)
qed

text \<open>The steps that take and release the latch.\<close>

lemma latch_inv_enter_W:
  assumes inv: "latch_inv n s" and "t < n" "pcs s t = Ready W2" "readers s = {}"
  shows "latch_inv n \<lparr>latch = latch s, pcs = (pcs s)(t := Writing)\<rparr>"
proof -
  let ?s = "\<lparr>latch = latch s, pcs = (pcs s)(t := Writing)\<rparr>"
  have r: "readers ?s = readers s" using assms(3) by (auto simp: readers_def)
  have o: "owners ?s = owners s" using assms(3) by (auto simp: owners_def)
  show ?thesis
    by (rule latch_invI, unfold r o) (use assms latch_invD [OF inv] owners_if [OF inv] in \<open>auto split: if_splits\<close>)
qed

text \<open>A thread that leaves the first loop of \<open>WLock\<close> is where the check of the second loop finds it.\<close>

lemma latch_inv_claim:
  assumes inv: "latch_inv n s" and "t < n" "pcs s t = Ready W1" "\<not> writer_entered (latch s)"
  shows "latch_inv n \<lparr>latch = (latch s)\<lparr>writer_entered := True\<rparr>, pcs = (pcs s)(t := Ready W2)\<rparr>"
proof -
  let ?s = "\<lparr>latch = (latch s)\<lparr>writer_entered := True\<rparr>, pcs = (pcs s)(t := Ready W2)\<rparr>"
  have r: "readers ?s = readers s" using assms(3) by (auto simp: readers_def)
  have "owners s = {}" using assms(4) latch_invD(4) [OF inv] by blast
  then have o: "owners ?s = {t}" by (auto simp: owners_def)
  show ?thesis
    by (rule latch_invI, unfold r o) (use assms latch_invD [OF inv] in \<open>auto split: if_splits\<close>)
qed

lemma latch_inv_W2:
  assumes "latch_inv n s" "t < n" "pcs s t = Ready W2" "WLock_second (latch s) = (out, l)"
  shows "latch_inv n \<lparr>latch = l, pcs = (pcs s)(t := if out = Acquired then Writing else Blocked W2)\<rparr>"
proof (cases "readers s = {}")
  case True
  then have "out = Acquired" "l = latch s" using assms(4) latch_inv_reader_count(1) [OF assms(1)] by (simp_all add: WLock_second_def)
  with latch_inv_enter_W [OF assms(1-3) True] show ?thesis by simp
next
  case False
  then have "out = Wait writer_cv" "l = latch s"
    using assms(4) latch_inv_reader_count(1) [OF assms(1)] by (simp_all add: WLock_second_def)
  with latch_inv_quiet [OF assms(1,2), of "Blocked W2"] assms(3) False show ?thesis by simp
qed

lemma latch_inv_W1:
  assumes "latch_inv n s" "t < n" "pcs s t = Ready W1" "WLock (latch s) = (entered, out, l)"
  shows "latch_inv n \<lparr>latch = l, pcs = (pcs s)(t := if out = Acquired then Writing else if entered then Blocked W2 else Blocked W1)\<rparr>"
proof (cases "writer_entered (latch s)")
  case True
  then show ?thesis using assms latch_inv_quiet [OF assms(1,2), of "Blocked W1"] by (auto simp: WLock_def)
next
  case False
  then have w: "WLock_second ((latch s)\<lparr>writer_entered := True\<rparr>) = (out, l)" "entered" using assms(4) by (auto simp: WLock_def)
  from latch_inv_W2 [OF latch_inv_claim [OF assms(1-3) False] assms(2)] w show ?thesis by (simp split: if_splits)
qed

lemma latch_inv_R:
  assumes inv: "latch_inv n s" and "t < n" "pcs s t = Ready R" "RLock (latch s) = (out, l)"
  shows "latch_inv n \<lparr>latch = l, pcs = (pcs s)(t := if out = Acquired then Reading else Blocked R)\<rparr>"
proof (cases "writer_entered (latch s) \<or> reader_count (latch s) = MAX_READERS")
  case True
  have "card (readers s) \<le> n" using card_mono [OF _ readers_bounded [OF inv]] by simp
  with True latch_inv_reader_count(2) [OF inv] have "few_threads n \<Longrightarrow> writer_entered (latch s)"
    by (auto simp: few_threads_def)
  then show ?thesis using True assms latch_inv_quiet [OF assms(1,2), of "Blocked R"] by (auto simp: RLock_def)
next
  case False
  let ?c = "reader_count (latch s)"
  let ?s = "\<lparr>latch = (latch s)\<lparr>reader_count := ?c + 1\<rparr>, pcs = (pcs s)(t := Reading)\<rparr>"
  have "1 + ?c \<noteq> 0" using False by (auto simp: MAX_READERS_def add_eq_0_iff)
  then have c: "unat (?c + 1) = Suc (unat ?c)" using unatSuc [of ?c] by (simp add: add.commute)
  have r: "readers ?s = insert t (readers s)" "t \<notin> readers s" using assms(3) by (auto simp: readers_def)
  have o: "owners ?s = owners s" using assms(3) by (auto simp: owners_def)
  have none: "owners s = {}" using False latch_invD(4) [OF inv] by blast
  then have "\<forall>u. pcs s u \<notin> {Ready W2, Blocked W2, Writing}" by (simp add: owners_def)
  then have "latch_inv n ?s"
    by (intro latch_invI, unfold r(1) o none)
      (use assms(2) False c r(2) latch_invD [OF inv] readers_finite [OF inv] in \<open>auto split: if_splits\<close>)
  then show ?thesis using False assms(4) by (auto simp: RLock_def)
qed

lemma latch_inv_leave_W:
  assumes inv: "latch_inv n s" and "t < n" "pcs s t = Writing" "WUnlock (latch s) = (nt, l)" "notified nt ((pcs s)(t := Outside)) p"
  shows "latch_inv n \<lparr>latch = l, pcs = p\<rparr>"
proof -
  let ?s = "\<lparr>latch = l, pcs = p\<rparr>"
  note same = notified_same [OF assms(5)]
  have l: "l = (latch s)\<lparr>writer_entered := False\<rparr>" "nt = Notify_all reader_cv" using assms(4) by (simp_all add: WUnlock_def)
  have r: "readers ?s = readers s" using assms(3) same(1) by (auto simp: readers_def)
  have "owners s = {t}" using owner_unique [OF inv, of t] assms(3) by (simp add: owners_def)
  then have o: "owners ?s = {}" using same(4) by (auto simp: owners_def split: if_splits)
  then have "\<forall>u. p u \<notin> {Ready W2, Blocked W2, Writing}" by (auto simp: owners_def)
  moreover have "p u \<notin> {Blocked W1, Blocked R}" for u using notified_all assms(5) l(2) by fastforce
  moreover have "n \<le> u \<Longrightarrow> p u = Outside" for u using latch_invD(1) [OF inv] same(3) by simp
  ultimately show ?thesis
    by (intro latch_invI, unfold r o) (use l(1) latch_invD(2) [OF inv] in auto)
qed

lemma latch_inv_leave_R:
  assumes inv: "latch_inv n s" and "t < n" "pcs s t = Reading" "RUnlock (latch s) = (nt, l)" "notified nt ((pcs s)(t := Outside)) p"
  shows "latch_inv n \<lparr>latch = l, pcs = p\<rparr>"
proof -
  let ?s = "\<lparr>latch = l, pcs = p\<rparr>" and ?c = "reader_count (latch s)"
  note same = notified_same [OF assms(5)]
  have l: "l = (latch s)\<lparr>reader_count := ?c - 1\<rparr>" using assms(4) by (auto simp: RUnlock_def Let_def split: if_splits)
  have r: "readers ?s = readers s - {t}" "t \<in> readers s" using assms(3) same(1) by (auto simp: readers_def)
  then have "?c > 0" unfolding latch_inv_reader_count(1) [OF inv] by blast
  then have "?c \<noteq> 0" by (simp add: word_gt_0)
  then have cnt: "unat (?c - 1) = card (readers ?s)"
    using r readers_finite [OF inv] latch_invD(2) [OF inv] by (simp add: unat_minus_one)
  have o: "owners ?s = owners s" using assms(3) same(4) by (auto simp: owners_def)
  have waits: "readers ?s \<noteq> {}" if u: "p u = Blocked W2" for u
  proof
    assume none: "readers ?s = {}"
    have "u \<in> owners s" using u same(5) [of u W2] by (auto simp: owners_def split: if_splits)
    then have w: "writer_entered (latch s)" "owners s = {u}" using owner_unique [OF inv] by blast+
    have "?c - 1 = 0" using cnt none by (metis card.empty unat_eq_0)
    then have "nt = Notify_one writer_cv" using w(1) assms(4) by (simp add: RUnlock_def Let_def)
    moreover have "v = u" if "((pcs s)(t := Outside)) v = Blocked W2" for v
      using that w(2) by (auto simp: owners_def split: if_splits)
    ultimately show False using notified_only [of _ p u] assms(5) u by metis
  qed
  have "p u = Writing \<Longrightarrow> readers ?s = {}" for u
    using latch_invD(5) [OF inv, of u] same(2) [of u] r(1) by (auto split: if_splits)
  moreover have "n \<le> u \<Longrightarrow> p u = Outside" for u using latch_invD(1) [OF inv] same(3) by simp
  moreover have "few_threads n \<Longrightarrow> p u \<in> {Blocked W1, Blocked R} \<Longrightarrow> writer_entered (latch s)" for u
    using same(5) [of u W1] same(5) [of u R] latch_invD(7) [OF inv, of u] by (auto split: if_splits)
  ultimately show ?thesis
    by (intro latch_invI, unfold o) (use l cnt waits owners_if [OF inv] in auto)
qed

lemma latch_inv_step:
  assumes "latch_inv n s" "latch_step n s s'"
  shows "latch_inv n s'"
  using assms(2)
proof cases
  case (call_WLock t)
  then show ?thesis using latch_inv_quiet [OF assms(1), of t "Ready W1"] by (cases s) simp
next
  case (call_RLock t)
  then show ?thesis using latch_inv_quiet [OF assms(1), of t "Ready R"] by (cases s) simp
next
  case (wakes t k)
  then show ?thesis using latch_inv_quiet [OF assms(1), of t "Ready k"] by (cases s) simp
next
  case (runs_W1 t entered out l)
  then show ?thesis using latch_inv_W1 [OF assms(1)] by simp
next
  case (runs_W2 t out l)
  then show ?thesis using latch_inv_W2 [OF assms(1)] by simp
next
  case (runs_R t out l)
  then show ?thesis using latch_inv_R [OF assms(1)] by simp
next
  case (leaves_W t nt l p)
  then show ?thesis using latch_inv_leave_W [OF assms(1)] by simp
next
  case (leaves_R t nt l p)
  then show ?thesis using latch_inv_leave_R [OF assms(1)] by simp
qed

lemma latch_reachable_inv: "latch_reachable n s \<Longrightarrow> latch_inv n s"
  by (induction rule: latch_reachable.induct) (auto intro: latch_inv_init latch_inv_step)

text \<open>A thread that waits, waits for another one that is in the latch or about to run.\<close>

lemma waits_for:
  assumes inv: "latch_inv n s" and "pcs s t = Blocked W2 \<or> few_threads n \<and> pcs s t \<in> {Blocked W1, Blocked R}"
  shows "\<exists>u < n. pcs s u \<in> {Reading, Writing, Ready W2}"
proof -
  have reader: ?thesis if "readers s \<noteq> {}"
    using that readers_bounded [OF inv] by (force simp: readers_def)
  show ?thesis
  proof (cases "pcs s t = Blocked W2")
    case True
    then show ?thesis using latch_invD(6) [OF inv] reader by blast
  next
    case False
    then have "writer_entered (latch s)" using assms(2) latch_invD(7) [OF inv] by blast
    then obtain u where u: "u \<in> owners s" using latch_invD(3) [OF inv] by blast
    have "u < n" using u latch_invD(1) [OF inv, of u] by (force simp: owners_def not_le [symmetric])
    with u latch_invD(6) [OF inv, of u] reader show ?thesis by (auto simp: owners_def)
  qed
qed

text \<open>A thread that is in the latch can leave it, and one that is ready can run.\<close>

lemma notified_total: "\<exists>p'. notified nt p p'"
proof (cases nt)
  case (Notify_one cv)
  then show ?thesis by (cases "\<exists>t k. p t = Blocked k \<and> waits_on k = cv") (blast intro: notified.intros)+
qed (blast intro: notified.intros)+

lemma can_step:
  assumes "t < n" "pcs s t \<in> {Reading, Writing, Ready W1, Ready W2, Ready R}"
  shows "\<exists>s'. latch_step n s s' \<and> pcs s' t \<noteq> pcs s t"
proof -
  consider "pcs s t = Reading" | "pcs s t = Writing" | "pcs s t = Ready W1" | "pcs s t = Ready W2" | "pcs s t = Ready R"
    using assms(2) by auto
  then show ?thesis
  proof cases
    case 1
    obtain nt l where l: "RUnlock (latch s) = (nt, l)" by (metis surj_pair)
    obtain p where p: "notified nt ((pcs s)(t := Outside)) p" using notified_total by blast
    show ?thesis using latch_step.leaves_R [OF assms(1) 1 l p] notified_same(1) [OF p, of t] 1 by force
  next
    case 2
    obtain nt l where l: "WUnlock (latch s) = (nt, l)" by (metis surj_pair)
    obtain p where p: "notified nt ((pcs s)(t := Outside)) p" using notified_total by blast
    show ?thesis using latch_step.leaves_W [OF assms(1) 2 l p] notified_same(2) [OF p, of t] 2 by force
  next
    case 3
    obtain e out l where "WLock (latch s) = (e, out, l)" by (metis surj_pair)
    from latch_step.runs_W1 [OF assms(1) 3 this] 3 show ?thesis by (intro exI conjI) (auto split: if_splits)
  next
    case 4
    obtain out l where "WLock_second (latch s) = (out, l)" by (metis surj_pair)
    from latch_step.runs_W2 [OF assms(1) 4 this] 4 show ?thesis by (intro exI conjI) (auto split: if_splits)
  next
    case 5
    obtain out l where "RLock (latch s) = (out, l)" by (metis surj_pair)
    from latch_step.runs_R [OF assms(1) 5 this] 5 show ?thesis by (intro exI conjI) (auto split: if_splits)
  qed
qed

section \<open>Properties\<close>

text \<open>
  C9. Mutual exclusion. In every reachable state of any number of threads, a thread that holds the write
  latch is alone: no other thread holds it for writing or reading; and the counter equals the number of
  readers, so that it neither overflows nor wraps around below zero.
\<close>

theorem latch_mutual_exclusion:
  assumes "latch_reachable n s"
  shows "(pcs s t = Writing \<longrightarrow> (\<forall>u. u \<noteq> t \<longrightarrow> pcs s u \<noteq> Writing \<and> pcs s u \<noteq> Reading)) \<and>
    unat (reader_count (latch s)) = card {u. pcs s u = Reading} \<and> finite {u. pcs s u = Reading}"
proof -
  note inv = latch_reachable_inv [OF assms]
  have "u = t" if "pcs s u = Writing" "pcs s t = Writing" for u
    using that owner_unique [OF inv, of t] by (auto simp: owners_def)
  moreover have "pcs s u \<noteq> Reading" if "pcs s t = Writing" for u
    using that latch_invD(5) [OF inv, of t] by (auto simp: readers_def)
  ultimately show ?thesis
    using latch_invD(2) [OF inv] readers_finite [OF inv] unfolding readers_def by blast
qed

text \<open>Thread 0 enters for writing.\<close>

lemma one_writer:
  "latch_reachable 2 \<lparr>latch = \<lparr>reader_count = 0, writer_entered = True\<rparr>, pcs = (\<lambda>_. Outside)(0 := Writing)\<rparr>"
proof -
  let ?s = "latch_init\<lparr>pcs := (pcs latch_init)(0 := Ready W1)\<rparr>"
  have 1: "latch_reachable 2 ?s"
    by (rule latch_reachable.step [OF latch_reachable.init latch_step.call_WLock]) (simp_all add: latch_init_def)
  have "latch_step 2 ?s \<lparr>latch = \<lparr>reader_count = 0, writer_entered = True\<rparr>, pcs = (pcs ?s)(0 := if Acquired = Acquired then Writing else if True then Blocked W2 else Blocked W1)\<rparr>"
    by (rule latch_step.runs_W1) (simp_all add: latch_init_def WLock_def WLock_second_def ReaderWriterLatch_init_def)
  from latch_reachable.step [OF 1 this] show ?thesis by (simp add: latch_init_def)
qed

theorem latch_mutual_exclusion_witness:
  "\<exists>s. latch_reachable 2 s \<and> pcs s 0 = Writing \<and> pcs s 1 \<noteq> Writing \<and> pcs s 1 \<noteq> Reading"
proof -
  let ?s = "\<lparr>latch = \<lparr>reader_count = 0, writer_entered = True\<rparr>, pcs = (\<lambda>_. Outside)(0 := Writing)\<rparr>"
  from latch_mutual_exclusion [OF one_writer, of 0] have "pcs ?s 1 \<noteq> Writing \<and> pcs ?s 1 \<noteq> Reading" by simp
  with one_writer show ?thesis by (intro exI [of _ ?s]) simp
qed

text \<open>
  C20. The latch never gets stuck. With fewer than 2^32 - 1 threads, whenever some thread waits on a condition
  variable there is a thread that holds the latch or is ready to run, and that thread has a step of its
  own: no wake-up is lost. A thread in the second loop of \<open>WLock\<close> waits only while there are readers.
\<close>

theorem latch_never_stuck:
  assumes "latch_reachable n s" "n < 2 ^ 32 - 1" "pcs s t = Blocked k"
  shows "(\<exists>u s'. u \<noteq> t \<and> pcs s u \<in> {Reading, Writing, Ready W2} \<and> latch_step n s s' \<and> pcs s' u \<noteq> pcs s u) \<and>
    (k = W2 \<longrightarrow> (\<exists>u. pcs s u = Reading))"
proof -
  note inv = latch_reachable_inv [OF assms(1)]
  have "pcs s t = Blocked W2 \<or> few_threads n \<and> pcs s t \<in> {Blocked W1, Blocked R}"
    using assms(2,3) by (cases k) (simp_all add: few_threads_def)
  from waits_for [OF inv this] obtain u where u: "u < n" "pcs s u \<in> {Reading, Writing, Ready W2}" by blast
  moreover have "\<exists>s'. latch_step n s s' \<and> pcs s' u \<noteq> pcs s u" by (rule can_step) (use u in auto)
  moreover have "u \<noteq> t" using u(2) assms(3) by auto
  ultimately show ?thesis using latch_invD(6) [OF inv, of t] assms(3) by (auto simp: readers_def)
qed

theorem latch_never_stuck_witness:
  "\<exists>s s'. latch_reachable 2 s \<and> pcs s 1 = Blocked R \<and> latch_step 2 s s' \<and> pcs s' 0 \<noteq> pcs s 0"
proof -
  let ?s = "\<lparr>latch = \<lparr>reader_count = 0, writer_entered = True\<rparr>, pcs = (\<lambda>_. Outside)(0 := Writing)\<rparr>"
  let ?s1 = "?s\<lparr>pcs := (pcs ?s)(1 := Ready R)\<rparr>"
  let ?s2 = "\<lparr>latch = latch ?s, pcs = (pcs ?s1)(1 := if Wait reader_cv = Acquired then Reading else Blocked R)\<rparr>"
  have 1: "latch_reachable 2 ?s1"
    by (rule latch_reachable.step [OF one_writer latch_step.call_RLock]) simp_all
  have "latch_step 2 ?s1 ?s2" by (rule latch_step.runs_R) (simp_all add: RLock_def)
  from latch_reachable.step [OF 1 this] have r: "latch_reachable 2 ?s2" .
  from latch_never_stuck [OF r, of 1 R] obtain u s' where
    u: "u \<noteq> 1" "pcs ?s2 u \<in> {Reading, Writing, Ready W2}" "latch_step 2 ?s2 s'" "pcs s' u \<noteq> pcs ?s2 u" by auto
  then have "u = 0" by (auto split: if_splits)
  with u r show ?thesis by (intro exI [of _ ?s2] exI [of _ s']) simp
qed

end
