(* ===== verification/Bitmap.thy ===== *)
theory Bitmap
  imports Defs
begin

text \<open>
  \<open>record/bitmap.h\<close>: a bitmap in a byte array, most significant bit of a byte first.

  Positions are C \<open>int\<close>s. The functions are used at positions from 0 up to eight times the
  length of the array, which is what the callers guarantee. \<open>next_bit\<close> is the loop of the
  source; \<open>next_bit_spec\<close> says what it finds.
\<close>

unbundle bit_operations_syntax

definition BITMAP_WIDTH :: int where "BITMAP_WIDTH = 8"

definition BITMAP_HIGHEST_BIT :: byte where "BITMAP_HIGHEST_BIT = 0x80"

definition get_bucket :: "int \<Rightarrow> nat" where
  "get_bucket pos = nat (pos div BITMAP_WIDTH)"

definition get_bit :: "int \<Rightarrow> byte" where
  "get_bit pos = drop_bit (nat (pos mod BITMAP_WIDTH)) BITMAP_HIGHEST_BIT"

text \<open>\<open>memset(bm, 0, size)\<close> on the start of the array.\<close>

definition bitmap_init :: "bytes \<Rightarrow> int \<Rightarrow> bytes" where
  "bitmap_init bm sz = wr 0 (replicate (nat sz) 0) bm"

definition bitmap_set :: "bytes \<Rightarrow> int \<Rightarrow> bytes" where
  "bitmap_set bm pos = bm[get_bucket pos := (bm ! get_bucket pos) OR get_bit pos]"

definition bitmap_reset :: "bytes \<Rightarrow> int \<Rightarrow> bytes" where
  "bitmap_reset bm pos = bm[get_bucket pos := (bm ! get_bucket pos) AND NOT (get_bit pos)]"

definition is_set :: "bytes \<Rightarrow> int \<Rightarrow> bool" where
  "is_set bm pos \<longleftrightarrow> (bm ! get_bucket pos) AND get_bit pos \<noteq> 0"

text \<open>The loop \<open>for (int i = curr + 1; i < max_n; i++)\<close>, from \<open>i\<close> on.\<close>

function next_from :: "bool \<Rightarrow> bytes \<Rightarrow> int \<Rightarrow> int \<Rightarrow> int" where
  "next_from b bm max_n i =
     (if i < max_n then if is_set bm i = b then i else next_from b bm max_n (i + 1) else max_n)"
  by pat_completeness auto
termination by (relation "measure (\<lambda>(b, bm, max_n, i). nat (max_n - i))") auto

declare next_from.simps [simp del]

definition next_bit :: "bool \<Rightarrow> bytes \<Rightarrow> int \<Rightarrow> int \<Rightarrow> int" where
  "next_bit b bm max_n cur = next_from b bm max_n (cur + 1)"

definition first_bit :: "bool \<Rightarrow> bytes \<Rightarrow> int \<Rightarrow> int" where
  "first_bit b bm max_n = next_bit b bm max_n (-1)"

section \<open>Laws\<close>

text \<open>A position is in range when its byte is.\<close>

definition in_bitmap :: "bytes \<Rightarrow> int \<Rightarrow> bool" where
  "in_bitmap bm pos \<longleftrightarrow> 0 \<le> pos \<and> get_bucket pos < length bm"

lemma get_bucket_lt: "0 \<le> pos \<Longrightarrow> pos < 8 * int n \<Longrightarrow> get_bucket pos < n"
  by (auto simp: get_bucket_def BITMAP_WIDTH_def)

lemma drop_highest_bit: "k < 8 \<Longrightarrow> drop_bit k (0x80 :: byte) = 2 ^ (7 - k)"
proof -
  assume "k < 8"
  then have "k = 0 \<or> k = 1 \<or> k = 2 \<or> k = 3 \<or> k = 4 \<or> k = 5 \<or> k = 6 \<or> k = 7" by auto
  then show ?thesis by (elim disjE) simp_all
qed

lemma bit_get_bit: "0 \<le> pos \<Longrightarrow> bit (get_bit pos) i \<longleftrightarrow> i = 7 - nat (pos mod 8)"
proof -
  assume "0 \<le> pos"
  then have "nat (pos mod 8) < 8" by simp
  then show ?thesis
    by (auto simp: get_bit_def BITMAP_WIDTH_def BITMAP_HIGHEST_BIT_def drop_highest_bit bit_exp_iff)
qed

lemma byte_zero_iff: "(w :: byte) = 0 \<longleftrightarrow> (\<forall>n. \<not> bit w n)"
  using bit_eqI [of w 0] by auto

lemma is_set_bit: "0 \<le> pos \<Longrightarrow> is_set bm pos \<longleftrightarrow> bit (bm ! get_bucket pos) (7 - nat (pos mod 8))"
  unfolding is_set_def byte_zero_iff by (simp add: bit_and_iff bit_get_bit)

lemma length_bitmap [simp]: "length (bitmap_set bm pos) = length bm" "length (bitmap_reset bm pos) = length bm"
  by (simp_all add: bitmap_set_def bitmap_reset_def)

lemma bit_index_inj:
  assumes "0 \<le> p" "0 \<le> q" "get_bucket p = get_bucket q" "7 - nat (p mod 8) = 7 - nat (q mod 8)"
  shows "p = q"
proof -
  have "nat (p mod 8) < 8" "nat (q mod 8) < 8" by simp_all
  with assms(4) have "nat (p mod 8) = nat (q mod 8)" by linarith
  then have m: "p mod 8 = q mod 8" by simp
  from assms(1,2,3) have d: "p div 8 = q div 8"
    by (simp add: get_bucket_def BITMAP_WIDTH_def)
  have "p = 8 * (p div 8) + p mod 8" by simp
  also have "\<dots> = 8 * (q div 8) + q mod 8" by (simp only: m d)
  finally show ?thesis by simp
qed

lemma is_set_bitmap_set:
  assumes "in_bitmap bm p" "0 \<le> q"
  shows "is_set (bitmap_set bm p) q \<longleftrightarrow> q = p \<or> is_set bm q"
proof (cases "get_bucket q = get_bucket p")
  case True
  have "0 \<le> p" using assms(1) by (simp add: in_bitmap_def)
  moreover have "get_bucket p < length bm" using assms(1) by (simp add: in_bitmap_def)
  ultimately show ?thesis
    using True assms(2) bit_index_inj [of q p]
    by (auto simp: is_set_bit bitmap_set_def bit_or_iff bit_get_bit)
next
  case False
  then show ?thesis using assms by (auto simp: is_set_bit bitmap_set_def)
qed

lemma is_set_bitmap_reset:
  assumes "in_bitmap bm p" "0 \<le> q"
  shows "is_set (bitmap_reset bm p) q \<longleftrightarrow> q \<noteq> p \<and> is_set bm q"
proof (cases "get_bucket q = get_bucket p")
  case True
  have "0 \<le> p" using assms(1) by (simp add: in_bitmap_def)
  moreover have "get_bucket p < length bm" using assms(1) by (simp add: in_bitmap_def)
  moreover have "7 - nat (q mod 8) < LENGTH(8)" by simp
  ultimately show ?thesis
    using True assms(2) bit_index_inj [of q p]
    by (auto simp: is_set_bit bitmap_reset_def bit_and_iff bit_not_iff bit_get_bit)
next
  case False
  then show ?thesis using assms by (auto simp: is_set_bit bitmap_reset_def)
qed

lemma is_set_bitmap_init:
  assumes "0 \<le> q" "q < 8 * sz" "nat sz \<le> length bm"
  shows "\<not> is_set (bitmap_init bm sz) q"
proof -
  have "get_bucket q < nat sz" using assms by (intro get_bucket_lt) auto
  then have "bitmap_init bm sz ! get_bucket q = 0"
    using assms(3) by (simp add: bitmap_init_def nth_wr)
  then show ?thesis by (simp add: is_set_def)
qed

lemma next_from_spec:
  "i \<le> max_n \<Longrightarrow> i \<le> next_from b bm max_n i \<and> next_from b bm max_n i \<le> max_n \<and>
     (next_from b bm max_n i < max_n \<longrightarrow> is_set bm (next_from b bm max_n i) = b) \<and>
     (\<forall>j. i \<le> j \<longrightarrow> j < next_from b bm max_n i \<longrightarrow> is_set bm j \<noteq> b)"
proof (induction b bm max_n i rule: next_from.induct)
  case (1 b bm max_n i)
  show ?case
  proof (cases "i < max_n \<and> is_set bm i \<noteq> b")
    case True
    then have n: "next_from b bm max_n i = next_from b bm max_n (i + 1)"
      by (subst next_from.simps) simp
    from 1 True have IH: "i + 1 \<le> next_from b bm max_n (i + 1) \<and> next_from b bm max_n (i + 1) \<le> max_n \<and>
       (next_from b bm max_n (i + 1) < max_n \<longrightarrow> is_set bm (next_from b bm max_n (i + 1)) = b) \<and>
       (\<forall>j. i + 1 \<le> j \<longrightarrow> j < next_from b bm max_n (i + 1) \<longrightarrow> is_set bm j \<noteq> b)" by simp
    have "is_set bm j \<noteq> b" if "i \<le> j" "j < next_from b bm max_n (i + 1)" for j
      using that True IH by (cases "j = i") auto
    with IH show ?thesis unfolding n by auto
  next
    case False
    then show ?thesis using "1.prems" by (subst (1 2 3 4 5) next_from.simps) auto
  qed
qed

text \<open>\<open>next_bit\<close> returns the least position after \<open>curr\<close> with the wanted value, or \<open>max_n\<close>.\<close>

lemma next_bit_spec:
  assumes "cur < max_n"
  shows "cur < next_bit b bm max_n cur" "next_bit b bm max_n cur \<le> max_n"
    "next_bit b bm max_n cur < max_n \<Longrightarrow> is_set bm (next_bit b bm max_n cur) = b"
    "cur < j \<Longrightarrow> j < next_bit b bm max_n cur \<Longrightarrow> is_set bm j \<noteq> b"
  using next_from_spec [where i = "cur + 1" and max_n = max_n and b = b and bm = bm] assms unfolding next_bit_def by auto

lemma first_bit_spec:
  assumes "0 \<le> max_n"
  shows "0 \<le> first_bit b bm max_n" "first_bit b bm max_n \<le> max_n"
    "first_bit b bm max_n < max_n \<Longrightarrow> is_set bm (first_bit b bm max_n) = b"
    "0 \<le> j \<Longrightarrow> j < first_bit b bm max_n \<Longrightarrow> is_set bm j \<noteq> b"
  using next_bit_spec [where cur = "-1" and max_n = max_n and b = b and bm = bm] assms unfolding first_bit_def by auto

text \<open>The positions of the ones below \<open>n\<close>.\<close>

definition ones :: "bytes \<Rightarrow> int \<Rightarrow> int set" where
  "ones bm n = {p. 0 \<le> p \<and> p < n \<and> is_set bm p}"

lemma finite_ones [simp]: "finite (ones bm n)"
  by (rule finite_subset [of _ "{0..<n}"]) (auto simp: ones_def)

lemma card_ones_le: "0 \<le> n \<Longrightarrow> card (ones bm n) \<le> nat n"
proof -
  assume "0 \<le> n"
  have "card (ones bm n) \<le> card {0..<n}" by (rule card_mono) (auto simp: ones_def)
  then show ?thesis by simp
qed

lemma ones_full: "0 \<le> n \<Longrightarrow> card (ones bm n) = nat n \<Longrightarrow> ones bm n = {0..<n}"
  by (rule card_subset_eq) (auto simp: ones_def)

lemma ones_set: "in_bitmap bm p \<Longrightarrow> p < n \<Longrightarrow> ones (bitmap_set bm p) n = insert p (ones bm n)"
  by (auto simp: ones_def is_set_bitmap_set in_bitmap_def)

lemma ones_reset: "in_bitmap bm p \<Longrightarrow> ones (bitmap_reset bm p) n = ones bm n - {p}"
  by (auto simp: ones_def is_set_bitmap_reset)

lemma first_zero_free:
  assumes "0 \<le> n" "card (ones bm n) < nat n"
  shows "0 \<le> first_bit False bm n" "first_bit False bm n < n" "\<not> is_set bm (first_bit False bm n)"
proof -
  have "ones bm n \<noteq> {0..<n}" using assms(2) by auto
  then have "\<exists>j. 0 \<le> j \<and> j < n \<and> \<not> is_set bm j" by (auto simp: ones_def)
  then obtain j where j: "0 \<le> j" "j < n" "\<not> is_set bm j" by blast
  then have "first_bit False bm n \<noteq> n" using first_bit_spec(4) [OF assms(1), of j False bm] by auto
  then show "0 \<le> first_bit False bm n" "first_bit False bm n < n" "\<not> is_set bm (first_bit False bm n)"
    using first_bit_spec [OF assms(1), where b = False and bm = bm] by auto
qed

section \<open>Properties\<close>

text \<open>
  C33. The bitmap behaves like a set of positions: \<open>set\<close> and \<open>reset\<close> change exactly the position they
  are given, also when other positions share its byte, and \<open>init\<close> clears.
\<close>

theorem bitmap_is_a_set:
  assumes "0 \<le> p" "p < 8 * int (length bm)" "0 \<le> q" "q < 8 * int (length bm)"
  shows "(is_set (bitmap_set bm p) q \<longleftrightarrow> q = p \<or> is_set bm q) \<and>
         (is_set (bitmap_reset bm p) q \<longleftrightarrow> q \<noteq> p \<and> is_set bm q) \<and>
         \<not> is_set (bitmap_init bm (int (length bm))) q"
proof -
  have "in_bitmap bm p" using assms by (simp add: in_bitmap_def get_bucket_lt)
  with assms show ?thesis
    using is_set_bitmap_set [of bm p q] is_set_bitmap_reset [of bm p q] is_set_bitmap_init [of q "int (length bm)" bm]
    by simp
qed

theorem bitmap_is_a_set_witness:
  "\<not> is_set (bitmap_reset [0xFF, 0x0F] 3) 3 \<and> is_set (bitmap_set [0xF0, 0x0F] 4) 4"
  using bitmap_is_a_set [of 3 "[0xFF, 0x0F]" 3] bitmap_is_a_set [of 4 "[0xF0, 0x0F]" 4] by simp

text \<open>
  \<open>next_bit\<close> and \<open>first_bit\<close> return the first position after the current one that has the wanted
  value, and \<open>max_n\<close> exactly when there is none.
\<close>

theorem next_bit_finds_first:
  assumes "cur < max_n"
  shows "let r = next_bit b bm max_n cur in
    cur < r \<and> r \<le> max_n \<and> (\<forall>j. cur < j \<and> j < r \<longrightarrow> is_set bm j \<noteq> b) \<and>
    (r = max_n \<longleftrightarrow> (\<forall>j. cur < j \<and> j < max_n \<longrightarrow> is_set bm j \<noteq> b)) \<and>
    (r < max_n \<longrightarrow> is_set bm r = b)"
  using next_bit_spec [OF assms, where b = b and bm = bm] unfolding Let_def by (metis order_le_less)

theorem next_bit_finds_first_witness: "2 < next_bit True [0x2F] 8 2 \<and> next_bit True [0x2F] 8 2 \<le> 8"
  using next_bit_finds_first [of 2 8 True "[0x2F]"] by (simp add: Let_def)

end
