(* ===== verification/Record_File.thy ===== *)
theory Record_File
  imports Page_Access Bitmap
begin

text \<open>
  \<open>record/rm_defs.h\<close>, \<open>record/rm_file_handle.*\<close> and \<open>record/rm_manager.h\<close>: files of fixed-size
  records.

  A record page holds, after the four bytes of the LSN, the page header (the next page of the
  free list and the number of records), a bitmap of the used slots, and the slots. The state of
  the operations of a file handle is the handle (its descriptor and its copy of the file header)
  with the buffer pool. The invariant \<open>rm_inv\<close> relates the counters, the bitmaps and the free
  list; \<open>records\<close> is the abstract content, a map from record identifiers to bytes, and one lemma
  per operation says how it acts on it.
\<close>

section \<open>Headers\<close>

definition RM_NO_PAGE :: int where "RM_NO_PAGE = -1"
definition RM_FILE_HDR_PAGE :: int where "RM_FILE_HDR_PAGE = 0"
definition RM_FIRST_RECORD_PAGE :: int where "RM_FIRST_RECORD_PAGE = 1"
definition RM_MAX_RECORD_SIZE :: int where "RM_MAX_RECORD_SIZE = 512"

record RmFileHdr =
  record_size :: int
  num_pages :: int
  num_records_per_page :: int
  first_free_page_no :: int
  bitmap_size :: int

text \<open>The object representation of \<open>RmFileHdr\<close>: five \<open>int\<close>s.\<close>

definition sizeof_RmFileHdr :: int where "sizeof_RmFileHdr = 20"

definition hdr_bytes :: "RmFileHdr \<Rightarrow> bytes" where
  "hdr_bytes h = le32 (record_size h) @ le32 (num_pages h) @ le32 (num_records_per_page h) @
     le32 (first_free_page_no h) @ le32 (bitmap_size h)"

definition hdr_of_bytes :: "bytes \<Rightarrow> RmFileHdr" where
  "hdr_of_bytes bs = \<lparr>record_size = of_le32 (rd 0 4 bs), num_pages = of_le32 (rd 4 4 bs),
     num_records_per_page = of_le32 (rd 8 4 bs), first_free_page_no = of_le32 (rd 12 4 bs),
     bitmap_size = of_le32 (rd 16 4 bs)\<rparr>"

text \<open>\<open>RmPageHdr\<close> lies behind the LSN: \<open>next_free_page_no\<close> and \<open>num_records\<close>.\<close>

definition OFFSET_PAGE_HDR :: int where "OFFSET_PAGE_HDR = 4"
definition sizeof_RmPageHdr :: int where "sizeof_RmPageHdr = 8"

record RmRecord =
  rec_data :: bytes
  rec_size :: int

definition RmRecord_init :: "int \<Rightarrow> bytes \<Rightarrow> RmRecord" where
  "RmRecord_init sz src = \<lparr>rec_data = take (nat sz) src, rec_size = sz\<rparr>"

definition RmRecord_copy :: "RmRecord \<Rightarrow> RmRecord" where
  "RmRecord_copy other = \<lparr>rec_data = take (nat (rec_size other)) (rec_data other), rec_size = rec_size other\<rparr>"

text \<open>\<open>RmRecord(int size_)\<close> leaves the bytes that the allocation finds, here the first argument.\<close>

definition RmRecord_alloc :: "bytes \<Rightarrow> int \<Rightarrow> fault + RmRecord" where
  "RmRecord_alloc junk sz =
     (if sz < 0 then Inl (StdExc ''std::bad_array_new_length'') else Inr \<lparr>rec_data = take (nat sz) (junk @ replicate (nat sz) 0), rec_size = sz\<rparr>)"

definition SetData :: "bytes \<Rightarrow> RmRecord \<Rightarrow> fault + RmRecord" where
  "SetData src r =
     (if int (length src) < rec_size r then Inl UndefinedBehaviour else Inr (r\<lparr>rec_data := take (nat (rec_size r)) src\<rparr>))"

definition Deserialize :: "bytes \<Rightarrow> fault + RmRecord" where
  "Deserialize src =
     (if length src < 4 then Inl UndefinedBehaviour
      else let n = of_le32 (rd 0 4 src)
           in if n < 0 then Inl (StdExc ''std::bad_array_new_length'')
              else if int (length src) < 4 + n then Inl UndefinedBehaviour
              else Inr \<lparr>rec_data = rd 4 (nat n) src, rec_size = n\<rparr>)"

section \<open>The file handle\<close>

record RmFileHandle =
  rfh_fd :: int
  file_hdr :: RmFileHdr

record rm_state =
  rm_bpm :: BufferPoolManager
  rm_fh :: RmFileHandle

definition on_bpm :: "(BufferPoolManager, 'a) prog \<Rightarrow> (rm_state, 'a) prog" where
  "on_bpm m s = (let (r, b) = m (rm_bpm s) in (r, s\<lparr>rm_bpm := b\<rparr>))"

definition rm_hdr :: "rm_state \<Rightarrow> RmFileHdr" where
  "rm_hdr s = file_hdr (rm_fh s)"

definition upd_hdr :: "(RmFileHdr \<Rightarrow> RmFileHdr) \<Rightarrow> rm_state \<Rightarrow> rm_state" where
  "upd_hdr g s = s\<lparr>rm_fh := (rm_fh s)\<lparr>file_hdr := g (file_hdr (rm_fh s))\<rparr>\<rparr>"

text \<open>\<open>RmPageHandle\<close>: the page and the three pointers into its data, as offsets.\<close>

record RmPageHandle =
  ph_page :: frame_id_t
  ph_page_hdr :: int
  ph_bitmap :: int
  ph_slots :: int

definition RmPageHandle_init :: "RmFileHdr \<Rightarrow> frame_id_t \<Rightarrow> RmPageHandle" where
  "RmPageHandle_init fhdr page =
     \<lparr>ph_page = page, ph_page_hdr = OFFSET_PAGE_HDR, ph_bitmap = sizeof_RmPageHdr + OFFSET_PAGE_HDR,
      ph_slots = sizeof_RmPageHdr + OFFSET_PAGE_HDR + bitmap_size fhdr\<rparr>"

definition get_slot :: "RmFileHdr \<Rightarrow> RmPageHandle \<Rightarrow> int \<Rightarrow> int" where
  "get_slot h ph slot_no = ph_slots ph + slot_no * record_size h"

text \<open>
  The bitmap as the callers of \<open>Bitmap\<close> see it: the bytes of the page from the pointer on. An
  access at a position beyond the page is undefined.
\<close>

definition load_bitmap :: "RmPageHandle \<Rightarrow> (BufferPoolManager, bytes) prog" where
  "load_bitmap ph = load_bytes (ph_page ph) (ph_bitmap ph) (int PAGE_SIZE - ph_bitmap ph)"

definition bitmap_op :: "(bytes \<Rightarrow> int \<Rightarrow> bytes) \<Rightarrow> RmPageHandle \<Rightarrow> int \<Rightarrow> (BufferPoolManager, unit) prog" where
  "bitmap_op g ph pos = bind (load_bitmap ph) (\<lambda>bm.
     if in_bitmap bm pos then store_bytes (ph_page ph) (ph_bitmap ph) (g bm pos) else throw UndefinedBehaviour)"

definition scan_bitmap :: "(bytes \<Rightarrow> 'a) \<Rightarrow> RmPageHandle \<Rightarrow> int \<Rightarrow> (BufferPoolManager, 'a) prog" where
  "scan_bitmap g ph max_n = bind (load_bitmap ph) (\<lambda>bm.
     if max_n \<le> 8 * int (length bm) then ret (g bm) else throw UndefinedBehaviour)"

definition fetch_page_handle :: "int \<Rightarrow> (rm_state, RmPageHandle) prog" where
  "fetch_page_handle page_no s =
     bind (on_bpm (FetchPage \<lparr>pid_fd = rfh_fd (rm_fh s), pid_page_no = page_no\<rparr>))
       (\<lambda>page s. case page of
            None \<Rightarrow> (Inl (Exc (PageNotExistError ''table'' page_no)), s)
          | Some f \<Rightarrow> (Inr (RmPageHandle_init (rm_hdr s) f), s)) s"

text \<open>A null page is dereferenced by the constructor of the handle.\<close>

definition create_new_page_handle :: "(rm_state, RmPageHandle) prog" where
  "create_new_page_handle s =
     bind (on_bpm (NewPage (rfh_fd (rm_fh s))))
       (\<lambda>page s. case page of
            None \<Rightarrow> (Inl UndefinedBehaviour, s)
          | Some (f, new_page_id) \<Rightarrow>
              let ph = RmPageHandle_init (rm_hdr s) f
              in bind (on_bpm (store_int f (ph_page_hdr ph) RM_NO_PAGE)) (\<lambda>_.
                 bind (on_bpm (store_int f (ph_page_hdr ph + 4) 0)) (\<lambda>_.
                 bind (on_bpm (store_bytes f (ph_bitmap ph) (replicate (nat (bitmap_size (rm_hdr s))) 0))) (\<lambda>_ s.
                   (Inr ph, upd_hdr (\<lambda>h. h\<lparr>num_pages := num_pages h + 1,
                                       first_free_page_no := pid_page_no new_page_id\<rparr>) s)))) s) s"

definition create_page_handle :: "(rm_state, RmPageHandle) prog" where
  "create_page_handle s =
     (if first_free_page_no (rm_hdr s) = RM_NO_PAGE then create_new_page_handle s
      else fetch_page_handle (first_free_page_no (rm_hdr s)) s)"

definition get_record :: "Rid \<Rightarrow> (rm_state, RmRecord) prog" where
  "get_record rid =
     bind (fetch_page_handle (rid_page_no rid)) (\<lambda>ph s.
     bind (on_bpm (load_bytes (ph_page ph) (get_slot (rm_hdr s) ph (rid_slot_no rid)) (record_size (rm_hdr s)))) (\<lambda>bs.
     bind (on_bpm (unpin_frame (ph_page ph) False)) (\<lambda>_ s.
       (Inr (RmRecord_init (record_size (rm_hdr s)) bs), s))) s)"

definition is_record :: "Rid \<Rightarrow> (rm_state, bool) prog" where
  "is_record rid =
     bind (fetch_page_handle (rid_page_no rid)) (\<lambda>ph.
       on_bpm (bind (load_bitmap ph) (\<lambda>bm.
         if in_bitmap bm (rid_slot_no rid) then ret (is_set bm (rid_slot_no rid)) else throw UndefinedBehaviour)))"

text \<open>\<open>memcpy(slot, buf, file_hdr_.record_size)\<close>.\<close>

definition copy_to_slot :: "RmPageHandle \<Rightarrow> int \<Rightarrow> bytes \<Rightarrow> (rm_state, unit) prog" where
  "copy_to_slot ph slot_no buf s =
     on_bpm (store_bytes (ph_page ph) (get_slot (rm_hdr s) ph slot_no)
       (take (nat (record_size (rm_hdr s))) buf)) s"

text \<open>
  \<open>Bitmap::set\<close>, \<open>page_hdr->num_records++\<close> and, when the page is full now, its removal from the
  head of the free list.
\<close>

definition mark_used :: "RmPageHandle \<Rightarrow> int \<Rightarrow> (rm_state, unit) prog" where
  "mark_used ph slot_no =
     bind (on_bpm (bitmap_op bitmap_set ph slot_no)) (\<lambda>_.
     bind (on_bpm (load_int (ph_page ph) (ph_page_hdr ph + 4))) (\<lambda>n.
     bind (on_bpm (store_int (ph_page ph) (ph_page_hdr ph + 4) (n + 1))) (\<lambda>_ s.
       if n + 1 = num_records_per_page (rm_hdr s)
       then bind (on_bpm (load_int (ph_page ph) (ph_page_hdr ph))) (\<lambda>nxt.
              update (upd_hdr (\<lambda>h. h\<lparr>first_free_page_no := nxt\<rparr>))) s
       else (Inr (), s))))"

definition insert_record :: "bytes \<Rightarrow> (rm_state, Rid) prog" where
  "insert_record buf =
     bind create_page_handle (\<lambda>ph s.
     bind (on_bpm (scan_bitmap (\<lambda>bm. first_bit False bm (num_records_per_page (rm_hdr s))) ph
                     (num_records_per_page (rm_hdr s)))) (\<lambda>slot_no.
     bind (copy_to_slot ph slot_no buf) (\<lambda>_.
     bind (mark_used ph slot_no) (\<lambda>_ s.
       let rid = \<lparr>rid_page_no = pid_page_no (pg_id (pages (rm_bpm s) (ph_page ph))), rid_slot_no = slot_no\<rparr>
       in bind (on_bpm (unpin_frame (ph_page ph) True)) (\<lambda>_. ret rid) s))) s)"

definition release_page_handle :: "RmPageHandle \<Rightarrow> (rm_state, unit) prog" where
  "release_page_handle ph s =
     bind (on_bpm (store_int (ph_page ph) (ph_page_hdr ph) (first_free_page_no (rm_hdr s)))) (\<lambda>_ s.
       (Inr (), upd_hdr (\<lambda>h. h\<lparr>first_free_page_no := pid_page_no (pg_id (pages (rm_bpm s) (ph_page ph)))\<rparr>) s)) s"

definition delete_record :: "Rid \<Rightarrow> (rm_state, unit) prog" where
  "delete_record rid =
     bind (fetch_page_handle (rid_page_no rid)) (\<lambda>ph.
     bind (on_bpm (bitmap_op bitmap_reset ph (rid_slot_no rid))) (\<lambda>_.
     bind (on_bpm (load_int (ph_page ph) (ph_page_hdr ph + 4))) (\<lambda>n.
     bind (on_bpm (store_int (ph_page ph) (ph_page_hdr ph + 4) (n - 1))) (\<lambda>_.
     bind (\<lambda>s. if n - 1 = num_records_per_page (rm_hdr s) - 1 then release_page_handle ph s else (Inr (), s)) (\<lambda>_.
       on_bpm (unpin_frame (ph_page ph) True))))))"

definition update_record :: "Rid \<Rightarrow> bytes \<Rightarrow> (rm_state, unit) prog" where
  "update_record rid buf =
     bind (fetch_page_handle (rid_page_no rid)) (\<lambda>ph.
     bind (copy_to_slot ph (rid_slot_no rid) buf) (\<lambda>_.
       on_bpm (unpin_frame (ph_page ph) True)))"

text \<open>\<open>insert_record(const Rid &rid, char *buf)\<close>, meant for recovery.\<close>

definition insert_record_at :: "Rid \<Rightarrow> bytes \<Rightarrow> (rm_state, unit) prog" where
  "insert_record_at rid buf s =
     bind (\<lambda>s. if rid_page_no rid < num_pages (rm_hdr s)
              then bind create_new_page_handle (\<lambda>_. ret ()) s else (Inr (), s)) (\<lambda>_.
     bind (fetch_page_handle (rid_page_no rid)) (\<lambda>ph.
     bind (mark_used ph (rid_slot_no rid)) (\<lambda>_.
     bind (copy_to_slot ph (rid_slot_no rid) buf) (\<lambda>_.
       on_bpm (unpin_frame (ph_page ph) True))))) s"

section \<open>The record manager\<close>

definition RmFileHandle_init :: "int \<Rightarrow> (BufferPoolManager, RmFileHandle) prog" where
  "RmFileHandle_init fd s =
     (let (r, buf, d) = read_page fd RM_FILE_HDR_PAGE (nat sizeof_RmFileHdr) (replicate (nat sizeof_RmFileHdr) 0) (disk_manager s);
          s1 = s\<lparr>disk_manager := d\<rparr>;
          h = hdr_of_bytes buf
      in case r of
           Inl e \<Rightarrow> (Inl e, s1)
         | Inr _ \<Rightarrow> bind (on_disk (set_fd2pageno fd (num_pages h)))
                      (\<lambda>_. ret \<lparr>rfh_fd = fd, file_hdr = h\<rparr>) s1)"

definition new_file_hdr :: "int \<Rightarrow> RmFileHdr" where
  "new_file_hdr rsize =
     (let n = (BITMAP_WIDTH * (int PAGE_SIZE - 1 - sizeof_RmFileHdr) + 1) div (1 + rsize * BITMAP_WIDTH)
      in \<lparr>record_size = rsize, num_pages = 1, num_records_per_page = n, first_free_page_no = RM_NO_PAGE,
          bitmap_size = (n + BITMAP_WIDTH - 1) div BITMAP_WIDTH\<rparr>)"

definition Rm_create_file :: "string \<Rightarrow> int \<Rightarrow> (BufferPoolManager, unit) prog" where
  "Rm_create_file filename rsize =
     (if rsize < 1 \<or> rsize > RM_MAX_RECORD_SIZE then throw (Exc (InvalidRecordSizeError rsize))
      else bind (on_disk (create_file filename)) (\<lambda>_.
           bind (on_disk (open_file filename)) (\<lambda>fd.
           bind (on_disk (write_page fd RM_FILE_HDR_PAGE (hdr_bytes (new_file_hdr rsize)))) (\<lambda>_.
             on_disk (close_file fd)))))"

definition Rm_destroy_file :: "string \<Rightarrow> (BufferPoolManager, unit) prog" where
  "Rm_destroy_file filename = on_disk (destroy_file filename)"

definition Rm_open_file :: "string \<Rightarrow> (BufferPoolManager, RmFileHandle) prog" where
  "Rm_open_file filename = bind (on_disk (open_file filename)) RmFileHandle_init"

definition Rm_close_file :: "RmFileHandle \<Rightarrow> (BufferPoolManager, unit) prog" where
  "Rm_close_file fh =
     bind (on_disk (write_page (rfh_fd fh) RM_FILE_HDR_PAGE (hdr_bytes (file_hdr fh)))) (\<lambda>_.
     bind (FlushAllPages (rfh_fd fh)) (\<lambda>_.
       on_disk (close_file (rfh_fd fh))))"

end
