(* ===== verification/Txn.thy ===== *)
theory Txn
  imports Record_File
begin

text \<open>
  \<open>transaction/\<close>: transactions, their write and lock sets, the lock manager and the transaction manager.

  Transactions are objects behind pointers: the manager's state holds a heap of them, and a pointer is
  an address or null. The lock manager and most of the transaction manager are stubs in the code: they
  grant every lock and keep no record of it, and begin, commit and abort do nothing.
\<close>

unbundle bit_operations_syntax

section \<open>Definitions of transactions\<close>

datatype TransactionState = DEFAULT | GROWING | SHRINKING | COMMITTED | ABORTED
datatype IsolationLevel = READ_UNCOMMITTED | REPEATABLE_READ | READ_COMMITTED | SERIALIZABLE
datatype WType = INSERT_TUPLE | DELETE_TUPLE | UPDATE_TUPLE

text \<open>The record identifier and the record that a constructor does not set are left open.\<close>

record WriteRecord =
  wr_wtype :: WType
  wr_tab_name :: string
  wr_rid :: "Rid option"
  wr_record :: "RmRecord option"

definition WriteRecord_insert :: "WType \<Rightarrow> string \<Rightarrow> Rid \<Rightarrow> WriteRecord" where
  "WriteRecord_insert wtype tab_name rid = \<lparr>wr_wtype = wtype, wr_tab_name = tab_name, wr_rid = Some rid, wr_record = None\<rparr>"

definition WriteRecord_delete :: "WType \<Rightarrow> string \<Rightarrow> RmRecord \<Rightarrow> WriteRecord" where
  "WriteRecord_delete wtype tab_name r = \<lparr>wr_wtype = wtype, wr_tab_name = tab_name, wr_rid = None, wr_record = Some r\<rparr>"

definition WriteRecord_update :: "WType \<Rightarrow> string \<Rightarrow> Rid \<Rightarrow> RmRecord \<Rightarrow> WriteRecord" where
  "WriteRecord_update wtype tab_name rid r = \<lparr>wr_wtype = wtype, wr_tab_name = tab_name, wr_rid = Some rid, wr_record = Some r\<rparr>"

datatype LockDataType = TABLE | RECORD

record LockDataId =
  lid_fd :: int
  lid_rid :: Rid
  lid_type :: LockDataType

definition LockDataId_table :: "int \<Rightarrow> LockDataType \<Rightarrow> fault + LockDataId" where
  "LockDataId_table fd type =
     (if type = TABLE then Inr \<lparr>lid_fd = fd, lid_rid = \<lparr>rid_page_no = -1, rid_slot_no = -1\<rparr>, lid_type = type\<rparr> else Inl AssertFail)"

definition LockDataId_record :: "int \<Rightarrow> Rid \<Rightarrow> LockDataType \<Rightarrow> fault + LockDataId" where
  "LockDataId_record fd rid type = (if type = RECORD then Inr \<lparr>lid_fd = fd, lid_rid = rid, lid_type = type\<rparr> else Inl AssertFail)"

fun lock_data_type_int :: "LockDataType \<Rightarrow> int" where
  "lock_data_type_int TABLE = 0"
| "lock_data_type_int RECORD = 1"

text \<open>\<open>LockDataId::Get\<close>: the conversions to \<open>int64_t\<close> extend the sign, the shifts drop what leaves the word.\<close>

definition LockDataId_Get :: "LockDataId \<Rightarrow> 64 word" where
  "LockDataId_Get d =
     (if lid_type d = TABLE then word_of_int (lid_fd d)
      else push_bit 63 (word_of_int (lock_data_type_int (lid_type d))) OR push_bit 31 (word_of_int (lid_fd d)) OR
           push_bit 16 (word_of_int (rid_page_no (lid_rid d))) OR word_of_int (rid_slot_no (lid_rid d)))"

definition LockDataId_eq :: "LockDataId \<Rightarrow> LockDataId \<Rightarrow> bool" where
  "LockDataId_eq x y =
     (if lid_type x \<noteq> lid_type y then False else if lid_fd x \<noteq> lid_fd y then False else Rid_eq (lid_rid x) (lid_rid y))"

datatype AbortReason = LOCK_ON_SHIRINKING | UPGRADE_CONFLICT | DEADLOCK_PREVENTION

record TransactionAbortException =
  tae_txn_id :: txn_id_t
  tae_abort_reason :: AbortReason

definition GetInfo :: "TransactionAbortException \<Rightarrow> string" where
  "GetInfo e = (case tae_abort_reason e of
       LOCK_ON_SHIRINKING \<Rightarrow> ''Transaction '' @ to_string (tae_txn_id e) @ '' aborted because it cannot request locks on SHRINKING phase'' @ [CHR 0x0A]
     | UPGRADE_CONFLICT \<Rightarrow> ''Transaction '' @ to_string (tae_txn_id e) @ '' aborted because another transaction is waiting for upgrading'' @ [CHR 0x0A]
     | DEADLOCK_PREVENTION \<Rightarrow> ''Transaction '' @ to_string (tae_txn_id e) @ '' aborted for deadlock prevention'' @ [CHR 0x0A])"

section \<open>Transactions\<close>

text \<open>\<open>txn_mode_\<close> and \<open>start_ts_\<close> have no value until they are set. Pages are the frames of the pool.\<close>

record Transaction =
  txn_mode :: "bool option"
  txn_state :: TransactionState
  isolation_level :: IsolationLevel
  thread_id :: nat
  prev_lsn :: lsn_t
  txn_id :: txn_id_t
  start_ts :: "int option"
  write_set :: "WriteRecord list"
  lock_set :: "LockDataId set"
  page_set :: "frame_id_t list"
  deleted_page_set :: "frame_id_t list"

definition Transaction_init :: "nat \<Rightarrow> txn_id_t \<Rightarrow> IsolationLevel \<Rightarrow> Transaction" where
  "Transaction_init this_thread tid level =
     \<lparr>txn_mode = None, txn_state = DEFAULT, isolation_level = level, thread_id = this_thread, prev_lsn = INVALID_LSN,
      txn_id = tid, start_ts = None, write_set = [], lock_set = {}, page_set = [], deleted_page_set = []\<rparr>"

definition SetTxnMode :: "bool \<Rightarrow> Transaction \<Rightarrow> Transaction" where "SetTxnMode b t = t\<lparr>txn_mode := Some b\<rparr>"
definition SetStartTs :: "int \<Rightarrow> Transaction \<Rightarrow> Transaction" where "SetStartTs ts t = t\<lparr>start_ts := Some ts\<rparr>"
definition SetState :: "TransactionState \<Rightarrow> Transaction \<Rightarrow> Transaction" where "SetState st t = t\<lparr>txn_state := st\<rparr>"
definition SetPrevLsn :: "lsn_t \<Rightarrow> Transaction \<Rightarrow> Transaction" where "SetPrevLsn l t = t\<lparr>prev_lsn := l\<rparr>"
definition AppendWriteRecord :: "WriteRecord \<Rightarrow> Transaction \<Rightarrow> Transaction" where
  "AppendWriteRecord w t = t\<lparr>write_set := write_set t @ [w]\<rparr>"
definition AddIntoPageSet :: "frame_id_t \<Rightarrow> Transaction \<Rightarrow> Transaction" where
  "AddIntoPageSet f t = t\<lparr>page_set := page_set t @ [f]\<rparr>"
definition AddIntoDeletedPageSet :: "frame_id_t \<Rightarrow> Transaction \<Rightarrow> Transaction" where
  "AddIntoDeletedPageSet f t = t\<lparr>deleted_page_set := deleted_page_set t @ [f]\<rparr>"

section \<open>The lock manager\<close>

datatype LockMode = SHARED | EXLUCSIVE | INTENTION_SHARED | INTENTION_EXCLUSIVE | S_IX
datatype GroupLockMode = NON_LOCK | IS | IX | S | X | SIX

record LockRequest =
  lr_txn_id :: txn_id_t
  lr_lock_mode :: LockMode
  lr_granted :: bool

definition LockRequest_init :: "txn_id_t \<Rightarrow> LockMode \<Rightarrow> LockRequest" where
  "LockRequest_init tid m = \<lparr>lr_txn_id = tid, lr_lock_mode = m, lr_granted = False\<rparr>"

record LockRequestQueue =
  request_queue :: "LockRequest list"
  group_lock_mode :: GroupLockMode
  is_waiting :: bool
  upgrading :: bool
  shared_lock_num :: int
  IX_lock_num :: int

record LockManager =
  lock_table :: "LockDataId \<Rightarrow> LockRequestQueue option"

type_synonym txn_ptr = "nat option"

definition LockSharedOnRecord :: "txn_ptr \<Rightarrow> Rid \<Rightarrow> int \<Rightarrow> (LockManager, bool) prog" where
  "LockSharedOnRecord txn rid tab_fd = ret True"
definition LockExclusiveOnRecord :: "txn_ptr \<Rightarrow> Rid \<Rightarrow> int \<Rightarrow> (LockManager, bool) prog" where
  "LockExclusiveOnRecord txn rid tab_fd = ret True"
definition LockSharedOnTable :: "txn_ptr \<Rightarrow> int \<Rightarrow> (LockManager, bool) prog" where
  "LockSharedOnTable txn tab_fd = ret True"
definition LockExclusiveOnTable :: "txn_ptr \<Rightarrow> int \<Rightarrow> (LockManager, bool) prog" where
  "LockExclusiveOnTable txn tab_fd = ret True"
definition LockISOnTable :: "txn_ptr \<Rightarrow> int \<Rightarrow> (LockManager, bool) prog" where
  "LockISOnTable txn tab_fd = ret True"
definition LockIXOnTable :: "txn_ptr \<Rightarrow> int \<Rightarrow> (LockManager, bool) prog" where
  "LockIXOnTable txn tab_fd = ret True"
definition Unlock :: "txn_ptr \<Rightarrow> LockDataId \<Rightarrow> (LockManager, bool) prog" where
  "Unlock txn lock_data_id = ret True"

section \<open>The transaction manager\<close>

datatype ConcurrencyMode = TWO_PHASE_LOCKING | BASIC_TO

record TransactionManager =
  concurrency_mode :: ConcurrencyMode
  next_txn_id :: txn_id_t
  next_timestamp :: int
  txn_map :: "txn_id_t \<Rightarrow> txn_ptr option"
  txn_heap :: "nat \<Rightarrow> Transaction option"

definition TransactionManager_init :: "ConcurrencyMode \<Rightarrow> TransactionManager" where
  "TransactionManager_init mode =
     \<lparr>concurrency_mode = mode, next_txn_id = 0, next_timestamp = 0, txn_map = Map.empty, txn_heap = Map.empty\<rparr>"

text \<open>A method of the transaction behind a pointer.\<close>

definition on_txn :: "txn_ptr \<Rightarrow> (Transaction \<Rightarrow> 'a \<times> Transaction) \<Rightarrow> (TransactionManager, 'a) prog" where
  "on_txn p m s =
     (case p of
        None \<Rightarrow> (Inl UndefinedBehaviour, s)
      | Some a \<Rightarrow> (case txn_heap s a of
            None \<Rightarrow> (Inl UndefinedBehaviour, s)
          | Some t \<Rightarrow> let (x, t') = m t in (Inr x, s\<lparr>txn_heap := (txn_heap s)(a \<mapsto> t')\<rparr>)))"

definition Begin :: "txn_ptr \<Rightarrow> (TransactionManager, txn_ptr) prog" where "Begin txn = ret txn"
definition Commit :: "txn_ptr \<Rightarrow> (TransactionManager, unit) prog" where "Commit txn = ret ()"
definition Abort :: "txn_ptr \<Rightarrow> (TransactionManager, unit) prog" where "Abort txn = ret ()"
definition BlockAllTransactions :: "(TransactionManager, unit) prog" where "BlockAllTransactions = ret ()"
definition ResumeAllTransactions :: "(TransactionManager, unit) prog" where "ResumeAllTransactions = ret ()"

definition SetConcurrencyMode :: "ConcurrencyMode \<Rightarrow> (TransactionManager, unit) prog" where
  "SetConcurrencyMode m = update (\<lambda>s. s\<lparr>concurrency_mode := m\<rparr>)"

definition GetTransaction :: "nat \<Rightarrow> txn_id_t \<Rightarrow> (TransactionManager, txn_ptr) prog" where
  "GetTransaction this_thread tid =
     (if tid = INVALID_TXN_ID then ret None
      else bind (query (\<lambda>s. txn_map s tid)) (\<lambda>pos.
           bind (guard (pos \<noteq> None) AssertFail) (\<lambda>_.
           bind (guard (the pos \<noteq> None) AssertFail) (\<lambda>_.
           bind (on_txn (the pos) (\<lambda>t. (thread_id t, t))) (\<lambda>th.
           bind (guard (th = this_thread) AssertFail) (\<lambda>_. ret (the pos)))))))"

section \<open>Identifiers of lockable data\<close>

text \<open>The identifiers whose parts fit into the bits that \<open>Get\<close> gives them.\<close>

definition lock_id_fits :: "LockDataId \<Rightarrow> bool" where
  "lock_id_fits d \<longleftrightarrow> 0 \<le> lid_fd d \<and> lid_fd d < 2 ^ 31 \<and>
     (if lid_type d = TABLE then lid_rid d = \<lparr>rid_page_no = -1, rid_slot_no = -1\<rparr>
      else 0 \<le> rid_page_no (lid_rid d) \<and> rid_page_no (lid_rid d) < 2 ^ 15 \<and>
           0 \<le> rid_slot_no (lid_rid d) \<and> rid_slot_no (lid_rid d) < 2 ^ 16)"

lemma LockDataId_eq_iff: "LockDataId_eq x y \<longleftrightarrow> x = y"
  by (auto simp: LockDataId_eq_def Rid_eq_iff intro: LockDataId.equality)

text \<open>A non-negative number below \<open>2 ^ n\<close> has no bit from \<open>n\<close> on.\<close>

lemma bit_small: "0 \<le> i \<Longrightarrow> i < 2 ^ n \<Longrightarrow> n \<le> k \<Longrightarrow> \<not> bit (i :: int) k"
  by (metis bit_take_bit_iff not_le take_bit_int_eq_self)

lemma bit_Get_record:
  assumes "lid_type d = RECORD" "k < 64"
  shows "bit (LockDataId_Get d) k \<longleftrightarrow> k = 63 \<or> 31 \<le> k \<and> bit (lid_fd d) (k - 31) \<or>
    16 \<le> k \<and> bit (rid_page_no (lid_rid d)) (k - 16) \<or> bit (rid_slot_no (lid_rid d)) k"
proof -
  have "bit (push_bit 63 (word_of_int 1 :: 64 word)) k \<longleftrightarrow> k = 63"
    unfolding bit_push_bit_iff using assms(2) by (auto simp: bit_1_iff)
  then show ?thesis
    using assms by (simp only: LockDataId_Get_def lock_data_type_int.simps bit_or_iff LockDataType.distinct if_False)
      (auto simp: bit_push_bit_iff bit_word_of_int_iff)
qed

lemma bit_Get_table: "lid_type d = TABLE \<Longrightarrow> k < 64 \<Longrightarrow> bit (LockDataId_Get d) k \<longleftrightarrow> bit (lid_fd d) k"
  by (simp add: LockDataId_Get_def bit_word_of_int_iff)

lemma small_eqI:
  assumes "0 \<le> i" "i < 2 ^ n" "0 \<le> j" "j < 2 ^ n" "\<And>k. k < n \<Longrightarrow> bit i k \<longleftrightarrow> bit (j :: int) k"
  shows "i = j"
  by (rule bit_eqI) (metis assms bit_small not_le)


lemma Get_record_parts:
  assumes "lid_type d = RECORD" "lock_id_fits d"
  shows "k < 16 \<Longrightarrow> bit (rid_slot_no (lid_rid d)) k \<longleftrightarrow> bit (LockDataId_Get d) k"
    and "k < 15 \<Longrightarrow> bit (rid_page_no (lid_rid d)) k \<longleftrightarrow> bit (LockDataId_Get d) (k + 16)"
    and "k < 31 \<Longrightarrow> bit (lid_fd d) k \<longleftrightarrow> bit (LockDataId_Get d) (k + 31)"
    and "bit (LockDataId_Get d) 63"
proof -
  have fits: "0 \<le> rid_page_no (lid_rid d)" "rid_page_no (lid_rid d) < 2 ^ 15" "0 \<le> rid_slot_no (lid_rid d)" "rid_slot_no (lid_rid d) < 2 ^ 16"
    using assms by (auto simp: lock_id_fits_def)
  note high = bit_small [OF fits(1,2)] bit_small [OF fits(3,4)]
  note B = bit_Get_record [OF assms(1)]
  show "k < 16 \<Longrightarrow> bit (rid_slot_no (lid_rid d)) k \<longleftrightarrow> bit (LockDataId_Get d) k" by (simp add: B)
  show "k < 15 \<Longrightarrow> bit (rid_page_no (lid_rid d)) k \<longleftrightarrow> bit (LockDataId_Get d) (k + 16)" by (auto simp: B high)
  show "k < 31 \<Longrightarrow> bit (lid_fd d) k \<longleftrightarrow> bit (LockDataId_Get d) (k + 31)" by (auto simp: B high)
  show "bit (LockDataId_Get d) 63" by (simp add: B)
qed

lemma Get_record_inj:
  assumes "lid_type x = RECORD" "lid_type y = RECORD" "lock_id_fits x" "lock_id_fits y" "LockDataId_Get x = LockDataId_Get y"
  shows "x = y"
proof -
  note px = Get_record_parts [OF assms(1,3)] and py = Get_record_parts [OF assms(2,4)]
  have "lid_fd x = lid_fd y"
    by (rule small_eqI [where n = 31]) (use assms px(3) py(3) in \<open>auto simp: lock_id_fits_def\<close>)
  moreover have "rid_page_no (lid_rid x) = rid_page_no (lid_rid y)"
    by (rule small_eqI [where n = 15]) (use assms px(2) py(2) in \<open>auto simp: lock_id_fits_def\<close>)
  moreover have "rid_slot_no (lid_rid x) = rid_slot_no (lid_rid y)"
    by (rule small_eqI [where n = 16]) (use assms px(1) py(1) in \<open>auto simp: lock_id_fits_def\<close>)
  ultimately show ?thesis using assms(1,2) by (auto intro!: LockDataId.equality Rid.equality)
qed

lemma Get_table_small:
  assumes "lid_type d = TABLE" "lock_id_fits d"
  shows "\<not> bit (LockDataId_Get d) 63"
  using assms bit_small [of "lid_fd d" 31 63] by (simp add: bit_Get_table lock_id_fits_def)

lemma Get_table_inj:
  assumes "lid_type x = TABLE" "lid_type y = TABLE" "lock_id_fits x" "lock_id_fits y" "LockDataId_Get x = LockDataId_Get y"
  shows "x = y"
proof -
  have "lid_fd x = lid_fd y"
    by (rule small_eqI [where n = 31])
      (use assms bit_Get_table [OF assms(1)] bit_Get_table [OF assms(2)] in \<open>auto simp: lock_id_fits_def\<close>)
  with assms show ?thesis by (auto simp: lock_id_fits_def intro!: LockDataId.equality)
qed

section \<open>Properties\<close>

text \<open>Bit 31 of the number is the lowest bit of the descriptor, and it is where page 2^15 goes.\<close>

lemma Get_page_overlap:
  "LockDataId_Get \<lparr>lid_fd = fd, lid_rid = \<lparr>rid_page_no = 2 ^ 15, rid_slot_no = sl\<rparr>, lid_type = RECORD\<rparr> =
   LockDataId_Get \<lparr>lid_fd = (if even fd then fd + 1 else fd), lid_rid = \<lparr>rid_page_no = 0, rid_slot_no = sl\<rparr>, lid_type = RECORD\<rparr>"
proof -
  have ev: "even (word_of_int fd :: 64 word) \<longleftrightarrow> even fd" using bit_word_of_int_iff [where ?'a = 64, of fd 0] by (simp add: bit_0)
  have "push_bit 16 (word_of_int (2 ^ 15) :: 64 word) = push_bit 31 1" by (simp add: push_bit_eq_mult)
  then have "push_bit 31 (word_of_int fd) OR push_bit 16 (word_of_int (2 ^ 15)) = (push_bit 31 (word_of_int fd OR 1) :: 64 word)"
    by simp
  also have "word_of_int fd OR (1 :: 64 word) = word_of_int (if even fd then fd + 1 else fd)" using ev by (simp add: or_one_eq)
  finally show ?thesis by (simp add: LockDataId_Get_def ac_simps)
qed

text \<open>
  C34. The number \<open>LockDataId::Get\<close> under which the lock table hashes an item identifies it, as the
  comparison of identifiers does, as long as the page number is below 2^15 and the slot number below
  2^16, whatever the descriptors; table identifiers never meet record identifiers. From page 2^15 on
  the fields overlap: a slot of page 2^15 of a file with an even descriptor and the same slot of page 0 of the file with the next
  descriptor get one number, and for a file with an odd descriptor the same slots of pages 2^15 and 0 of that file do.
\<close>

theorem lock_id_get_identifies:
  assumes "lock_id_fits x" "lock_id_fits y"
  shows "(LockDataId_Get x = LockDataId_Get y \<longleftrightarrow> LockDataId_eq x y) \<and>
    (\<forall>fd sl. LockDataId_Get \<lparr>lid_fd = fd, lid_rid = \<lparr>rid_page_no = 2 ^ 15, rid_slot_no = sl\<rparr>, lid_type = RECORD\<rparr> =
      LockDataId_Get \<lparr>lid_fd = (if even fd then fd + 1 else fd), lid_rid = \<lparr>rid_page_no = 0, rid_slot_no = sl\<rparr>, lid_type = RECORD\<rparr>)"
proof
  have "x = y" if eq: "LockDataId_Get x = LockDataId_Get y"
  proof (cases "lid_type x"; cases "lid_type y")
    assume "lid_type x = TABLE" "lid_type y = RECORD"
    then show ?thesis using Get_table_small [of x] Get_record_parts(4) [of y] assms eq by simp
  next
    assume "lid_type x = RECORD" "lid_type y = TABLE"
    then show ?thesis using Get_table_small [of y] Get_record_parts(4) [of x] assms eq by simp
  qed (use assms eq Get_table_inj Get_record_inj in blast)+
  then show "LockDataId_Get x = LockDataId_Get y \<longleftrightarrow> LockDataId_eq x y" unfolding LockDataId_eq_iff by blast
qed (blast intro: Get_page_overlap)

theorem lock_id_get_identifies_witness:
  "\<exists>x y. LockDataId_record 3 \<lparr>rid_page_no = 1, rid_slot_no = 0\<rparr> RECORD = Inr x \<and> LockDataId_table 3 TABLE = Inr y \<and>
     LockDataId_Get x \<noteq> LockDataId_Get y"
proof -
  let ?x = "\<lparr>lid_fd = 3, lid_rid = \<lparr>rid_page_no = 1, rid_slot_no = 0\<rparr>, lid_type = RECORD\<rparr>"
  let ?y = "\<lparr>lid_fd = 3, lid_rid = \<lparr>rid_page_no = -1, rid_slot_no = -1\<rparr>, lid_type = TABLE\<rparr>"
  have "LockDataId_Get ?x \<noteq> LockDataId_Get ?y"
    using lock_id_get_identifies [of ?x ?y] by (simp add: lock_id_fits_def LockDataId_eq_def)
  then show ?thesis by (intro exI [of _ ?x] exI [of _ ?y]) (simp add: LockDataId_record_def LockDataId_table_def)
qed

end
