(* ===== verification/Sm_Meta.thy ===== *)
theory Sm_Meta
  imports Defs "HOL-Library.Char_ord" "HOL-Library.List_Lexorder"
begin

text \<open>
  \<open>system/sm_meta.h\<close> and the stream operators of \<open>defs.h\<close>: the metadata of a database and its text form,
  the contents of \<open>db.meta\<close>.

  An output stream is the text written; an input stream is the text left to read with its fail flag.
  Extraction skips white space; an extraction from a failed or exhausted stream leaves its variable as
  it was. The integers that are read into are uninitialised, and using one that was left so is
  undefined behaviour.
\<close>

section \<open>Input streams\<close>

record istream =
  is_rest :: string
  is_failed :: bool

definition is_ws :: "char \<Rightarrow> bool" where
  "is_ws c \<longleftrightarrow> c \<in> {CHR '' '', CHR 0x09, CHR 0x0A, CHR 0x0B, CHR 0x0C, CHR 0x0D}"

definition get_word :: "(istream, string option) prog" where
  "get_word st =
     (if is_failed st then (Inr None, st)
      else let r = dropWhile is_ws (is_rest st)
           in if r = [] then (Inr None, \<lparr>is_rest = [], is_failed = True\<rparr>)
              else (Inr (Some (takeWhile (\<lambda>c. \<not> is_ws c) r)), st\<lparr>is_rest := dropWhile (\<lambda>c. \<not> is_ws c) r\<rparr>))"

text \<open>
  Extraction of an integer: an optional sign and digits; no digit gives 0 and sets the fail flag.
  \<open>conv\<close> is the conversion to the type, with the nearest bound and a failure for a value out of range.
\<close>

definition get_num :: "(int \<Rightarrow> int \<times> bool) \<Rightarrow> (istream, int option) prog" where
  "get_num conv st =
     (if is_failed st then (Inr None, st)
      else let r = dropWhile is_ws (is_rest st)
           in if r = [] then (Inr None, \<lparr>is_rest = [], is_failed = True\<rparr>)
              else let neg = (hd r = CHR ''-'');
                       ds = (if neg \<or> hd r = CHR ''+'' then tl r else r);
                       d = takeWhile is_digit ds;
                       (v, ok) = conv (if neg then - int (digits_value d) else int (digits_value d))
                   in if d = [] then (Inr (Some 0), \<lparr>is_rest = ds, is_failed = True\<rparr>)
                      else (Inr (Some v), \<lparr>is_rest = dropWhile is_digit ds, is_failed = \<not> ok\<rparr>))"

definition get_int :: "(istream, int option) prog" where
  "get_int = get_num (\<lambda>v. if v < - (2 ^ 31) then (- (2 ^ 31), False) else if v > 2 ^ 31 - 1 then (2 ^ 31 - 1, False) else (v, True))"

text \<open>\<open>size_t\<close>: a negative numeral wraps around.\<close>

definition get_size :: "(istream, int option) prog" where
  "get_size = get_num (\<lambda>v. if \<bar>v\<bar> > 2 ^ 64 - 1 then (2 ^ 64 - 1, False) else (v mod 2 ^ 64, True))"

text \<open>\<open>bool\<close>: 0 and 1; another value counts as true and sets the fail flag.\<close>

definition get_bool :: "(istream, bool option) prog" where
  "get_bool = bind get_int (\<lambda>v. case v of
       None \<Rightarrow> ret None
     | Some i \<Rightarrow> if i = 0 \<or> i = 1 then ret (Some (i = 1))
                else bind (update (\<lambda>st. st\<lparr>is_failed := True\<rparr>)) (\<lambda>_. ret (Some True)))"

text \<open>A variable of an enumeration is read as an \<open>int\<close> and converted.\<close>

definition get_coltype :: "(istream, ColType option) prog" where
  "get_coltype = bind get_int (\<lambda>v. case v of
       None \<Rightarrow> ret None
     | Some i \<Rightarrow> if i = 0 then ret (Some TYPE_INT) else if i = 1 then ret (Some TYPE_FLOAT)
                else if i = 2 then ret (Some TYPE_STRING) else throw UndefinedBehaviour)"

text \<open>The value of a variable that the code goes on to use.\<close>

definition used_value :: "'a option \<Rightarrow> (istream, 'a) prog" where
  "used_value v = (case v of None \<Rightarrow> throw UndefinedBehaviour | Some x \<Rightarrow> ret x)"

section \<open>Metadata\<close>

record ColMeta =
  cm_tab_name :: string
  cm_name :: string
  cm_type :: ColType
  cm_len :: int
  cm_offset :: int
  cm_index :: bool

record TabMeta =
  tm_name :: string
  tm_cols :: "ColMeta list"

text \<open>\<open>std::map\<close> keeps its entries in the order of the keys.\<close>

type_synonym 'v string_map = "(string \<times> 'v) list"

fun map_put :: "string \<Rightarrow> 'v \<Rightarrow> 'v string_map \<Rightarrow> 'v string_map" where
  "map_put k v [] = [(k, v)]"
| "map_put k v ((k', v') # m) =
     (if k < k' then (k, v) # (k', v') # m else if k = k' then (k, v) # m else (k', v') # map_put k v m)"

record DbMeta =
  db_name :: string
  db_tabs :: "TabMeta string_map"

definition is_col :: "TabMeta \<Rightarrow> string \<Rightarrow> bool" where
  "is_col tab col_name = False"

text \<open>\<open>get_col\<close> returns an iterator that was never assigned: it designates no column.\<close>

definition get_col :: "TabMeta \<Rightarrow> string \<Rightarrow> nat option" where
  "get_col tab col_name = None"

definition is_table :: "DbMeta \<Rightarrow> string \<Rightarrow> bool" where
  "is_table db tab_name \<longleftrightarrow> map_of (db_tabs db) tab_name \<noteq> None"

definition get_table :: "DbMeta \<Rightarrow> string \<Rightarrow> fault + TabMeta" where
  "get_table db tab_name =
     (case map_of (db_tabs db) tab_name of None \<Rightarrow> Inl (Exc (TableNotFoundError tab_name)) | Some tab \<Rightarrow> Inr tab)"

section \<open>Writing\<close>

abbreviation "NL \<equiv> CHR 0x0A"

definition put_coltype :: "ColType \<Rightarrow> string" where
  "put_coltype t = to_string (case t of TYPE_INT \<Rightarrow> 0 | TYPE_FLOAT \<Rightarrow> 1 | TYPE_STRING \<Rightarrow> 2)"

definition put_col :: "ColMeta \<Rightarrow> string" where
  "put_col col = cm_tab_name col @ '' '' @ cm_name col @ '' '' @ put_coltype (cm_type col) @ '' '' @ to_string (cm_len col) @
     '' '' @ to_string (cm_offset col) @ '' '' @ to_string (if cm_index col then 1 else 0)"

definition put_tab :: "TabMeta \<Rightarrow> string" where
  "put_tab tab = tm_name tab @ [NL] @ to_string (int (length (tm_cols tab))) @ [NL] @
     concat (map (\<lambda>col. put_col col @ [NL]) (tm_cols tab))"

definition put_db :: "DbMeta \<Rightarrow> string" where
  "put_db db = db_name db @ [NL] @ to_string (int (length (db_tabs db))) @ [NL] @
     concat (map (\<lambda>(k, tab). put_tab tab @ [NL]) (db_tabs db))"

section \<open>Reading\<close>

definition read_col :: "(istream, ColMeta) prog" where
  "read_col =
     bind get_word (\<lambda>tn. bind get_word (\<lambda>nm.
     bind (bind get_coltype used_value) (\<lambda>ty.
     bind (bind get_int used_value) (\<lambda>ln.
     bind (bind get_int used_value) (\<lambda>off.
     bind (bind get_bool used_value) (\<lambda>ix.
       ret \<lparr>cm_tab_name = (case tn of None \<Rightarrow> [] | Some s \<Rightarrow> s), cm_name = (case nm of None \<Rightarrow> [] | Some s \<Rightarrow> s), cm_type = ty,
            cm_len = ln, cm_offset = off, cm_index = ix\<rparr>))))))"

primrec read_cols :: "nat \<Rightarrow> ColMeta list \<Rightarrow> (istream, ColMeta list) prog" where
  "read_cols 0 cols = ret cols"
| "read_cols (Suc n) cols = bind read_col (\<lambda>col. read_cols n (cols @ [col]))"

definition read_tab :: "(istream, TabMeta) prog" where
  "read_tab =
     bind get_word (\<lambda>nm. bind (bind get_size used_value) (\<lambda>n.
     bind (read_cols (nat n) []) (\<lambda>cols.
       ret \<lparr>tm_name = (case nm of None \<Rightarrow> [] | Some s \<Rightarrow> s), tm_cols = cols\<rparr>)))"

primrec read_tabs :: "nat \<Rightarrow> TabMeta string_map \<Rightarrow> (istream, TabMeta string_map) prog" where
  "read_tabs 0 tabs = ret tabs"
| "read_tabs (Suc n) tabs = bind read_tab (\<lambda>tab. read_tabs n (map_put (tm_name tab) tab tabs))"

definition read_db :: "DbMeta \<Rightarrow> (istream, DbMeta) prog" where
  "read_db db =
     bind get_word (\<lambda>nm. bind (bind get_size used_value) (\<lambda>n.
     bind (read_tabs (nat n) (db_tabs db)) (\<lambda>tabs.
       ret \<lparr>db_name = (case nm of None \<Rightarrow> db_name db | Some s \<Rightarrow> s), db_tabs = tabs\<rparr>)))"


section \<open>Tokens\<close>

abbreviation "input r \<equiv> \<lparr>is_rest = r, is_failed = False\<rparr>"

definition word :: "string \<Rightarrow> bool" where
  "word w \<longleftrightarrow> w \<noteq> [] \<and> (\<forall>c \<in> set w. \<not> is_ws c)"

definition blanks :: "string \<Rightarrow> bool" where
  "blanks l \<longleftrightarrow> (\<forall>c \<in> set l. is_ws c)"

lemma is_ws_simps [simp]: "is_ws CHR '' ''" "is_ws NL"
  by (simp_all add: is_ws_def)

lemma blanks_simps [simp]: "blanks []" "blanks (c # l) \<longleftrightarrow> is_ws c \<and> blanks l"
  by (simp_all add: blanks_def)

lemma skip_blanks: "blanks l \<Longrightarrow> word w \<Longrightarrow> dropWhile is_ws (l @ w @ r) = w @ r"
  by (cases w) (auto simp: blanks_def word_def dropWhile_append2)

lemma get_word_ok:
  assumes "blanks l" "word w" "is_ws d"
  shows "get_word (input (l @ w @ d # r)) = (Inr (Some w), input (d # r))"
proof -
  have "takeWhile (\<lambda>c. \<not> is_ws c) (w @ d # r) = w" "dropWhile (\<lambda>c. \<not> is_ws c) (w @ d # r) = d # r"
    using assms(2,3) by (auto simp: word_def takeWhile_append2 dropWhile_append2)
  then show ?thesis using skip_blanks [OF assms(1,2), of "d # r"] assms(2) by (simp add: get_word_def word_def)
qed

lemma digit_not_ws: "is_digit c \<Longrightarrow> \<not> is_ws c" "is_digit c \<Longrightarrow> c \<noteq> CHR ''-'' \<and> c \<noteq> CHR ''+''" "is_ws c \<Longrightarrow> \<not> is_digit c"
  by (auto simp: is_digit_def is_ws_def)

lemma word_to_string: "word (to_string i)"
  using digits_nat_to_string [of "nat i"] digits_nat_to_string [of "nat (- i)"] digit_not_ws(1)
  by (auto simp: to_string_def word_def list_all_iff is_ws_def [of "CHR ''-''"])

lemma get_num_ok:
  assumes "blanks l" "is_ws d" "conv i = (v, True)"
  shows "get_num conv (input (l @ to_string i @ d # r)) = (Inr (Some v), input (d # r))"
proof -
  let ?n = "nat_to_string (nat \<bar>i\<bar>)"
  have n: "list_all is_digit ?n" "digits_value ?n = nat \<bar>i\<bar>" using digits_nat_to_string by simp_all
  have t: "takeWhile is_digit (?n @ d # r) = ?n" "dropWhile is_digit (?n @ d # r) = d # r"
    using n(1) digit_not_ws(3) [OF assms(2)] by (auto simp: list_all_iff takeWhile_append2 dropWhile_append2)
  have h: "hd ?n \<noteq> CHR ''-''" "hd ?n \<noteq> CHR ''+''"
    using n(1) digit_not_ws(2) by (metis list_all_iff hd_in_set nat_to_string_neq_Nil(1))+
  have s: "to_string i = (if i < 0 then CHR ''-'' # ?n else ?n)" by (simp add: to_string_def)
  have ne: "to_string i \<noteq> []" by (simp add: s)
  show ?thesis
  proof (cases "i < 0")
    case True
    then have "- int (digits_value ?n) = i" using n(2) by simp
    with True t assms(3) show ?thesis
      using skip_blanks [OF assms(1) word_to_string [of i], of "d # r"] by (simp add: get_num_def s Let_def)
  next
    case False
    then have "int (digits_value (nat_to_string (nat i))) = i" using digits_nat_to_string [of "nat i"] by simp
    with False t h assms(3) show ?thesis
      using skip_blanks [OF assms(1) word_to_string [of i], of "d # r"] by (simp add: get_num_def s Let_def)
  qed
qed


section \<open>Reading what was written\<close>

lemma get_int_ok:
  assumes "blanks l" "is_ws d" "in32 i"
  shows "get_int (input (l @ to_string i @ d # r)) = (Inr (Some i), input (d # r))"
  unfolding get_int_def by (rule get_num_ok [OF assms(1,2)]) (use assms(3) in \<open>simp add: in32_def\<close>)

lemma get_size_ok:
  assumes "blanks l" "is_ws d" "n < 2 ^ 64"
  shows "get_size (input (l @ to_string (int n) @ d # r)) = (Inr (Some (int n)), input (d # r))"
proof -
  have "int n < 2 ^ 64" using assms(3) by (metis of_nat_less_iff of_nat_numeral of_nat_power)
  then show ?thesis unfolding get_size_def by (intro get_num_ok [OF assms(1,2)]) simp
qed

lemma get_bool_ok:
  assumes "blanks l" "is_ws d"
  shows "get_bool (input (l @ to_string (if b then 1 else 0) @ d # r)) = (Inr (Some b), input (d # r))"
  using get_int_ok [OF assms, of "if b then 1 else 0" r] by (cases b) (simp_all add: get_bool_def in32_def ret_def)

lemma get_coltype_ok:
  assumes "blanks l" "is_ws d"
  shows "get_coltype (input (l @ put_coltype t @ d # r)) = (Inr (Some t), input (d # r))"
  using get_int_ok [OF assms, of "case t of TYPE_INT \<Rightarrow> 0 | TYPE_FLOAT \<Rightarrow> 1 | TYPE_STRING \<Rightarrow> 2" r]
  by (cases t) (simp_all add: get_coltype_def put_coltype_def in32_def ret_def)

lemma bind_used [simp]: "m st = (Inr (Some x), st') \<Longrightarrow> bind m used_value st = (Inr x, st')"
  by (simp add: used_value_def ret_def)

definition col_ok :: "ColMeta \<Rightarrow> bool" where
  "col_ok col \<longleftrightarrow> word (cm_tab_name col) \<and> word (cm_name col) \<and> in32 (cm_len col) \<and> in32 (cm_offset col)"

definition tab_ok :: "TabMeta \<Rightarrow> bool" where
  "tab_ok tab \<longleftrightarrow> word (tm_name tab) \<and> length (tm_cols tab) < 2 ^ 64 \<and> (\<forall>col \<in> set (tm_cols tab). col_ok col)"

definition tabs_sorted :: "TabMeta string_map \<Rightarrow> bool" where
  "tabs_sorted m \<longleftrightarrow> sorted_wrt (\<lambda>a b. fst a < fst b) m"

definition db_ok :: "DbMeta \<Rightarrow> bool" where
  "db_ok db \<longleftrightarrow> word (db_name db) \<and> length (db_tabs db) < 2 ^ 64 \<and> tabs_sorted (db_tabs db) \<and>
     (\<forall>(k, tab) \<in> set (db_tabs db). k = tm_name tab \<and> tab_ok tab)"

lemma read_col_ok:
  assumes "blanks l" "col_ok col" "is_ws d"
  shows "read_col (input (l @ put_col col @ d # r)) = (Inr col, input (d # r))"
proof -
  let ?b = "\<lambda>x y. CHR '' '' # x @ y"
  define ix where "ix = to_string (if cm_index col then 1 else 0)"
  let ?r5 = "?b ix (d # r)" let ?r4 = "?b (to_string (cm_offset col)) ?r5" let ?r3 = "?b (to_string (cm_len col)) ?r4"
  let ?r2 = "?b (put_coltype (cm_type col)) ?r3" let ?r1 = "?b (cm_name col) ?r2"
  have c: "word (cm_tab_name col)" "word (cm_name col)" "in32 (cm_len col)" "in32 (cm_offset col)"
    using assms(2) by (simp_all add: col_ok_def)
  have p: "l @ put_col col @ d # r = l @ cm_tab_name col @ ?r1" by (simp add: put_col_def ix_def)
  have 1: "get_word (input (l @ cm_tab_name col @ ?r1)) = (Inr (Some (cm_tab_name col)), input ?r1)"
    by (rule get_word_ok [OF assms(1) c(1)]) simp
  have 2: "get_word (input ?r1) = (Inr (Some (cm_name col)), input ?r2)"
    using get_word_ok [of "'' ''" "cm_name col"] c(2) by simp
  have 3: "bind get_coltype used_value (input ?r2) = (Inr (cm_type col), input ?r3)" using get_coltype_ok [of "'' ''"] by (intro bind_used) simp
  have 4: "bind get_int used_value (input ?r3) = (Inr (cm_len col), input ?r4)" using get_int_ok [of "'' ''"] c(3) by (intro bind_used) simp
  have 5: "bind get_int used_value (input ?r4) = (Inr (cm_offset col), input ?r5)" using get_int_ok [of "'' ''"] c(4) by (intro bind_used) simp
  have 6: "bind get_bool used_value (input ?r5) = (Inr (cm_index col), input (d # r))"
    using get_bool_ok [of "'' ''" d "cm_index col" r] assms(3) by (intro bind_used) (simp add: ix_def)
  show ?thesis unfolding p read_col_def by (simp add: 1 2 3 4 5 6 bind_Inr [where m = "bind get_bool used_value"] ret_def)
qed

lemma read_cols_ok:
  assumes "\<forall>col \<in> set cols. col_ok col" "blanks l" "l \<noteq> []"
  shows "\<exists>l'. read_cols (length cols) acc (input (l @ concat (map (\<lambda>col. put_col col @ [NL]) cols) @ r)) = (Inr (acc @ cols), input (l' @ r)) \<and>
    blanks l' \<and> l' \<noteq> []"
  using assms
proof (induction cols arbitrary: acc l)
  case Nil
  then show ?case by (auto simp: ret_def)
next
  case (Cons col cols)
  let ?t = "concat (map (\<lambda>col. put_col col @ [NL]) cols) @ r"
  have "read_col (input (l @ put_col col @ NL # ?t)) = (Inr col, input (NL # ?t))"
    using Cons.prems by (intro read_col_ok) simp_all
  moreover from Cons.IH [of "[NL]" "acc @ [col]"] Cons.prems obtain l' where
    "read_cols (length cols) (acc @ [col]) (input ([NL] @ ?t)) = (Inr ((acc @ [col]) @ cols), input (l' @ r))" "blanks l'" "l' \<noteq> []" by auto
  ultimately show ?case by (intro exI [of _ l']) simp
qed

lemma read_tab_ok:
  assumes "tab_ok tab" "blanks l"
  shows "\<exists>l'. read_tab (input (l @ put_tab tab @ NL # r)) = (Inr tab, input (l' @ r)) \<and> blanks l' \<and> l' \<noteq> []"
proof -
  let ?cs = "concat (map (\<lambda>col. put_col col @ [NL]) (tm_cols tab))"
  let ?n = "to_string (int (length (tm_cols tab)))"
  have t: "word (tm_name tab)" "length (tm_cols tab) < 2 ^ 64" "\<forall>col \<in> set (tm_cols tab). col_ok col"
    using assms(1) by (simp_all add: tab_ok_def)
  have p: "l @ put_tab tab @ NL # r = l @ tm_name tab @ NL # ?n @ NL # ?cs @ NL # r" by (simp add: put_tab_def)
  have 1: "get_word (input (l @ tm_name tab @ NL # ?n @ NL # ?cs @ NL # r)) = (Inr (Some (tm_name tab)), input (NL # ?n @ NL # ?cs @ NL # r))"
    by (rule get_word_ok [OF assms(2) t(1)]) simp
  have 2: "bind get_size used_value (input (NL # ?n @ NL # ?cs @ NL # r)) = (Inr (int (length (tm_cols tab))), input (NL # ?cs @ NL # r))"
    using get_size_ok [of "[NL]" NL "length (tm_cols tab)"] t(2) by (intro bind_used) simp
  from read_cols_ok [OF t(3), of "[NL]" "[]" "NL # r"] obtain l' where
    3: "read_cols (length (tm_cols tab)) [] (input (NL # ?cs @ NL # r)) = (Inr (tm_cols tab), input (l' @ NL # r))" "blanks l'" by auto
  have "read_tab (input (l @ put_tab tab @ NL # r)) = (Inr tab, input ((l' @ [NL]) @ r))"
    unfolding p read_tab_def by (simp only: bind_Inr 1 2 nat_int 3(1) ret_def) simp
  moreover have "blanks (l' @ [NL])" using 3(2) by (simp add: blanks_def)
  ultimately show ?thesis by blast
qed

lemma map_put_last: "\<forall>e \<in> set m. fst e < k \<Longrightarrow> map_put k v m = m @ [(k, v)]"
  by (induction m) (auto simp: not_less_iff_gr_or_eq)

lemma read_tabs_ok:
  assumes "tabs_sorted (acc @ tabs)" "\<forall>(k, tab) \<in> set tabs. k = tm_name tab \<and> tab_ok tab" "blanks l"
  shows "\<exists>st. read_tabs (length tabs) acc (input (l @ concat (map (\<lambda>(k, tab). put_tab tab @ [NL]) tabs))) = (Inr (acc @ tabs), st)"
  using assms
proof (induction tabs arbitrary: acc l)
  case Nil
  then show ?case by (simp add: ret_def)
next
  case (Cons e tabs)
  obtain tab where e: "e = (tm_name tab, tab)" "tab_ok tab" using Cons.prems(2) by (cases e) auto
  let ?t = "concat (map (\<lambda>(k, tab). put_tab tab @ [NL]) tabs)"
  from read_tab_ok [OF e(2) Cons.prems(3), of ?t] obtain l' where
    1: "read_tab (input (l @ put_tab tab @ NL # ?t)) = (Inr tab, input (l' @ ?t))" "blanks l'" by blast
  have "map_put (tm_name tab) tab acc = acc @ [e]"
    using Cons.prems(1) e by (intro map_put_last [of acc "tm_name tab" tab, folded e(1)]) (auto simp: tabs_sorted_def sorted_wrt_append)
  moreover from Cons.IH [of "acc @ [e]" l'] Cons.prems 1(2) obtain st where
    "read_tabs (length tabs) (acc @ [e]) (input (l' @ ?t)) = (Inr ((acc @ [e]) @ tabs), st)" by auto
  ultimately show ?case using 1(1) by (intro exI [of _ st]) (simp add: e(1))
qed

section \<open>Properties\<close>

text \<open>
  C13. The text form of the metadata of a database is read back as it was: for every database whose
  names are words (not empty, no white space) and whose numbers are \<open>int\<close>s, with any number of tables
  and columns, reading the output of \<open>operator<<\<close> with \<open>operator>>\<close> gives the same metadata.
\<close>

theorem db_meta_roundtrip:
  assumes "db_ok db"
  shows "\<exists>st. read_db \<lparr>db_name = [], db_tabs = []\<rparr> (input (put_db db)) = (Inr db, st)"
proof -
  let ?ts = "concat (map (\<lambda>(k, tab). put_tab tab @ [NL]) (db_tabs db))"
  let ?n = "to_string (int (length (db_tabs db)))"
  have d: "word (db_name db)" "length (db_tabs db) < 2 ^ 64" "tabs_sorted (db_tabs db)"
    "\<forall>(k, tab) \<in> set (db_tabs db). k = tm_name tab \<and> tab_ok tab" using assms by (simp_all add: db_ok_def)
  have 1: "get_word (input (db_name db @ NL # ?n @ NL # ?ts)) = (Inr (Some (db_name db)), input (NL # ?n @ NL # ?ts))"
    using get_word_ok [of "[]" "db_name db" NL] d(1) by simp
  have 2: "bind get_size used_value (input (NL # ?n @ NL # ?ts)) = (Inr (int (length (db_tabs db))), input (NL # ?ts))"
    using get_size_ok [of "[NL]" NL "length (db_tabs db)"] d(2) by (intro bind_used) simp
  from read_tabs_ok [of "[]" "db_tabs db" "[NL]"] d obtain st where
    "read_tabs (length (db_tabs db)) [] (input (NL # ?ts)) = (Inr (db_tabs db), st)" by auto
  then show ?thesis by (auto simp: read_db_def put_db_def 1 2 ret_def)
qed


definition demo_db :: DbMeta where
  "demo_db = \<lparr>db_name = ''db'', db_tabs = [(''grade'', \<lparr>tm_name = ''grade'', tm_cols =
     [\<lparr>cm_tab_name = ''grade'', cm_name = ''score'', cm_type = TYPE_FLOAT, cm_len = 4, cm_offset = 0, cm_index = True\<rparr>]\<rparr>)]\<rparr>"

theorem db_meta_roundtrip_witness:
  "\<exists>st. read_db \<lparr>db_name = [], db_tabs = []\<rparr> (input (put_db demo_db)) = (Inr demo_db, st)"
proof -
  have "db_ok demo_db"
    by (simp add: demo_db_def db_ok_def tabs_sorted_def tab_ok_def col_ok_def word_def is_ws_def in32_def)
  then show ?thesis by (rule db_meta_roundtrip)
qed

end
