(* ===== verification/Log_Manager.thy ===== *)
theory Log_Manager
  imports Txn Sm_Meta
begin

text \<open>
  \<open>recovery/\<close>: log records, the log manager, recovery and checkpoints.

  A log record has a value for each of its fields that a constructor sets; the others are \<open>None\<close>. The
  flushing thread, appending to the log, redo, undo and checkpoints have no body in the code; what is
  there, is here.
\<close>

section \<open>Log records\<close>

datatype LogRecordType = INVALID | CREATE_TABLE | MARK_DROP_TABLE | APPLY_DROP_TABLE | CREATE_INDEX | MARK_DROP_INDEX
  | APPLY_DROP_INDEX | INSERT | UPDATE | DELETE | BEGIN | COMMIT | ABORT | NEW_PAGE

fun log_record_type :: "LogRecordType \<Rightarrow> string" where
  "log_record_type INVALID = ''INVALID''"
| "log_record_type CREATE_TABLE = ''CREATE_TABLE''"
| "log_record_type MARK_DROP_TABLE = ''MARK_DROP_TABLE''"
| "log_record_type APPLY_DROP_TABLE = ''APPLY_DROP_TABLE''"
| "log_record_type CREATE_INDEX = ''CREATE_INDEX''"
| "log_record_type MARK_DROP_INDEX = ''MARK_DROP_INDEX''"
| "log_record_type APPLY_DROP_INDEX = ''APPLY_DROP_INDEX''"
| "log_record_type INSERT = ''INSERT''"
| "log_record_type UPDATE = ''UPDATE''"
| "log_record_type DELETE = ''DELETE''"
| "log_record_type BEGIN = ''BEGIN''"
| "log_record_type COMMIT = ''COMMIT''"
| "log_record_type ABORT = ''ABORT''"
| "log_record_type NEW_PAGE = ''NEW_PAGE''"

record LogRecord =
  lg_size :: int
  lg_lsn :: lsn_t
  lg_txn_id :: txn_id_t
  lg_prev_lsn :: lsn_t
  lg_log_type :: LogRecordType
  lg_tab_name :: "(int \<times> bytes) option"
  lg_update :: "(Rid \<times> RmRecord \<times> RmRecord) option"
  lg_insert :: "(Rid \<times> RmRecord) option"
  lg_delete :: "(Rid \<times> RmRecord) option"
  lg_new_page_no :: "int option"

definition HEADER_SIZE :: int where "HEADER_SIZE = 20"

definition LogRecord_default :: LogRecord where
  "LogRecord_default = \<lparr>lg_size = 0, lg_lsn = INVALID_LSN, lg_txn_id = INVALID_TXN_ID, lg_prev_lsn = INVALID_LSN,
     lg_log_type = INVALID, lg_tab_name = None, lg_update = None, lg_insert = None, lg_delete = None, lg_new_page_no = None\<rparr>"

definition LogRecord_txn :: "txn_id_t \<Rightarrow> lsn_t \<Rightarrow> LogRecordType \<Rightarrow> fault + LogRecord" where
  "LogRecord_txn tid plsn ty =
     (if ty \<in> {BEGIN, COMMIT, ABORT}
      then Inr (LogRecord_default\<lparr>lg_size := HEADER_SIZE, lg_txn_id := tid, lg_prev_lsn := plsn, lg_log_type := ty\<rparr>)
      else Inl AssertFail)"

text \<open>The table name that the other constructors copy, with its length.\<close>

definition copied_name :: "bytes \<Rightarrow> (int \<times> bytes) option" where
  "copied_name table_name = Some (int (length table_name), table_name)"

definition LogRecord_table :: "txn_id_t \<Rightarrow> lsn_t \<Rightarrow> LogRecordType \<Rightarrow> bytes \<Rightarrow> LogRecord" where
  "LogRecord_table tid plsn ty table_name =
     LogRecord_default\<lparr>lg_txn_id := tid, lg_prev_lsn := plsn, lg_log_type := ty, lg_tab_name := copied_name table_name,
       lg_size := HEADER_SIZE + 4 + int (length table_name)\<rparr>"

definition LogRecord_update :: "txn_id_t \<Rightarrow> lsn_t \<Rightarrow> LogRecordType \<Rightarrow> Rid \<Rightarrow> RmRecord \<Rightarrow> RmRecord \<Rightarrow> bytes \<Rightarrow> LogRecord" where
  "LogRecord_update tid plsn ty rid old_tuple new_tuple table_name =
     LogRecord_default\<lparr>lg_txn_id := tid, lg_prev_lsn := plsn, lg_log_type := ty,
       lg_update := Some (rid, RmRecord_copy old_tuple, RmRecord_copy new_tuple), lg_tab_name := copied_name table_name,
       lg_size := HEADER_SIZE + 8 + 4 * 3 + rec_size old_tuple + rec_size new_tuple + int (length table_name)\<rparr>"

definition LogRecord_insert :: "txn_id_t \<Rightarrow> lsn_t \<Rightarrow> LogRecordType \<Rightarrow> Rid \<Rightarrow> RmRecord \<Rightarrow> bytes \<Rightarrow> fault + LogRecord" where
  "LogRecord_insert tid plsn ty rid r table_name =
     (let l = LogRecord_default\<lparr>lg_txn_id := tid, lg_prev_lsn := plsn, lg_log_type := ty, lg_tab_name := copied_name table_name,
          lg_size := HEADER_SIZE + 8 + 4 * 2 + rec_size r + int (length table_name)\<rparr>
      in if ty = INSERT then Inr (l\<lparr>lg_insert := Some (rid, RmRecord_copy r)\<rparr>)
         else if ty = DELETE then Inr (l\<lparr>lg_delete := Some (rid, RmRecord_copy r)\<rparr>)
         else Inl AssertFail)"

definition LogRecord_new_page :: "txn_id_t \<Rightarrow> lsn_t \<Rightarrow> LogRecordType \<Rightarrow> int \<Rightarrow> bytes \<Rightarrow> LogRecord" where
  "LogRecord_new_page tid plsn ty page_no table_name =
     LogRecord_default\<lparr>lg_txn_id := tid, lg_prev_lsn := plsn, lg_log_type := ty, lg_new_page_no := Some page_no,
       lg_tab_name := copied_name table_name, lg_size := HEADER_SIZE + 4 * 2 + int (length table_name)\<rparr>"

definition GetTableName :: "LogRecord \<Rightarrow> fault + bytes" where
  "GetTableName l = (case lg_tab_name l of None \<Rightarrow> Inl UndefinedBehaviour | Some (n, name) \<Rightarrow>
     if 0 \<le> n \<and> n \<le> int (length name) then Inr (take (nat n) name) else Inl UndefinedBehaviour)"

definition DeserializeTableName :: "bytes \<Rightarrow> LogRecord \<Rightarrow> fault + LogRecord" where
  "DeserializeTableName bs l =
     (if length bs < 4 then Inl UndefinedBehaviour
      else let n = of_le32 (rd 0 4 bs)
           in if n < 0 then Inl (StdExc ''std::bad_array_new_length'')
              else if int (length bs) < 4 + n then Inl UndefinedBehaviour
              else Inr (l\<lparr>lg_tab_name := Some (n, rd 4 (nat n) bs)\<rparr>))"

text \<open>
  The state is the buffer with the position. The last line of the code adds the size of the field
  \<open>tab_name_size_\<close>, which is 4, and not its value.
\<close>

definition buf_write :: "int \<Rightarrow> bytes \<Rightarrow> bytes \<Rightarrow> fault + bytes" where
  "buf_write pos bs buf =
     (if 0 \<le> pos \<and> pos + int (length bs) \<le> int (length buf) then Inr (wr (nat pos) bs buf) else Inl UndefinedBehaviour)"

definition SerializeTableName :: "LogRecord \<Rightarrow> (bytes \<times> int, unit) prog" where
  "SerializeTableName l s =
     (let (buf, pos) = s in
      case lg_tab_name l of None \<Rightarrow> (Inl UndefinedBehaviour, s)
      | Some (n, name) \<Rightarrow>
          (case buf_write pos (le32 n) buf of Inl e \<Rightarrow> (Inl e, s)
           | Inr buf1 \<Rightarrow>
               if n < 0 \<or> int (length name) < n then (Inl UndefinedBehaviour, (buf1, pos + 4))
               else (case buf_write (pos + 4) (take (nat n) name) buf1 of Inl e \<Rightarrow> (Inl e, (buf1, pos + 4))
                     | Inr buf2 \<Rightarrow> (Inr (), (buf2, pos + 4 + 4)))))"

definition PrintLogRecord :: "LogRecord \<Rightarrow> string" where
  "PrintLogRecord l = ''lsn: '' @ to_string (lg_lsn l) @ '', log type: '' @ log_record_type (lg_log_type l) @
     '', txn id: '' @ to_string (lg_txn_id l) @ [NL]"

section \<open>The log manager\<close>

definition BUFFER_POOL_SIZE :: nat where "BUFFER_POOL_SIZE = 65536"
definition LOG_BUFFER_SIZE :: nat where "LOG_BUFFER_SIZE = (BUFFER_POOL_SIZE + 1) * PAGE_SIZE"

text \<open>\<open>flush_thread_\<close> and \<open>promise\<close> are pointers; the first is never assigned by the code.\<close>

record LogManager =
  log_mode :: bool
  log_buffer :: bytes
  flush_buffer :: bytes
  next_lsn :: lsn_t
  persistent_lsn :: lsn_t
  flush_lsn :: lsn_t
  log_buffer_write_offset :: nat
  flush_buffer_write_offset :: nat
  flush_thread :: "nat option"
  promise :: "nat option"

definition LogManager_init :: LogManager where
  "LogManager_init = \<lparr>log_mode = False, log_buffer = replicate LOG_BUFFER_SIZE 0, flush_buffer = replicate LOG_BUFFER_SIZE 0,
     next_lsn = 0, persistent_lsn = INVALID_LSN, flush_lsn = INVALID_LSN, log_buffer_write_offset = 0,
     flush_buffer_write_offset = 0, flush_thread = None, promise = None\<rparr>"

definition RunFlushThread :: "(LogManager, unit) prog" where "RunFlushThread = ret ()"

definition StopFlushThread :: "(LogManager, unit) prog" where
  "StopFlushThread = bind (update (\<lambda>m. m\<lparr>log_mode := False\<rparr>)) (\<lambda>_.
     bind (query flush_thread) (\<lambda>t. guard (t \<noteq> None) UndefinedBehaviour))"

definition SwapBuffer :: "LogManager \<Rightarrow> LogManager" where
  "SwapBuffer m = m\<lparr>log_buffer := flush_buffer m, flush_buffer := log_buffer m,
     log_buffer_write_offset := flush_buffer_write_offset m, flush_buffer_write_offset := log_buffer_write_offset m,
     flush_lsn := next_lsn m - 1\<rparr>"

definition SetPromise :: "nat option \<Rightarrow> LogManager \<Rightarrow> LogManager" where
  "SetPromise p m = m\<lparr>promise := p\<rparr>"

text \<open>\<open>fulfilled\<close> says which promises another thread sets; waiting for one that nobody sets does not return.\<close>

definition WakeUpFlushThread :: "(nat \<Rightarrow> bool) \<Rightarrow> nat option \<Rightarrow> (LogManager, unit) prog" where
  "WakeUpFlushThread fulfilled p =
     bind (update SwapBuffer) (\<lambda>_. bind (update (SetPromise p)) (\<lambda>_.
     bind (query promise) (\<lambda>q.
     bind (guard (case q of None \<Rightarrow> True | Some a \<Rightarrow> fulfilled a) OutOfFuel) (\<lambda>_. update (SetPromise None)))))"

definition AppendLogRecord :: "LogRecord \<Rightarrow> (LogManager, lsn_t) prog" where
  "AppendLogRecord l = ret (lg_lsn l)"

definition GetLogMode :: "LogManager \<Rightarrow> bool" where "GetLogMode m = log_mode m"
definition SetLogMode :: "bool \<Rightarrow> LogManager \<Rightarrow> LogManager" where "SetLogMode b m = m\<lparr>log_mode := b\<rparr>"
definition GetNextLsn :: "LogManager \<Rightarrow> lsn_t" where "GetNextLsn m = next_lsn m"
definition GetFlushLsn :: "LogManager \<Rightarrow> lsn_t" where "GetFlushLsn m = flush_lsn m"
definition GetPersistentLsn :: "LogManager \<Rightarrow> lsn_t" where "GetPersistentLsn m = persistent_lsn m"

section \<open>Recovery and checkpoints\<close>

record LogRecovery =
  active_txns :: "txn_id_t \<Rightarrow> lsn_t option"
  lsn_mapping :: "lsn_t \<Rightarrow> int option"
  log_offset :: int
  recovery_mode :: bool

definition LogRecovery_init :: LogRecovery where
  "LogRecovery_init = \<lparr>active_txns = Map.empty, lsn_mapping = Map.empty, log_offset = 0, recovery_mode = False\<rparr>"

definition Redo :: "(LogRecovery, unit) prog" where "Redo = ret ()"
definition Undo :: "(LogRecovery, unit) prog" where "Undo = ret ()"
definition GetRecoveryMode :: "LogRecovery \<Rightarrow> bool" where "GetRecoveryMode r = recovery_mode r"
definition BeginCheckpoint :: "(LogManager, unit) prog" where "BeginCheckpoint = ret ()"
definition EndCheckpoint :: "(LogManager, unit) prog" where "EndCheckpoint = ret ()"

section \<open>Serialised names\<close>

lemma SerializeTableName_ok:
  assumes "lg_tab_name l = copied_name name" "pos + 4 + length name \<le> length buf"
  shows "SerializeTableName l (buf, int pos) =
    (Inr (), (take pos buf @ le32 (int (length name)) @ name @ drop (pos + 4 + length name) buf, int pos + 8))"
proof -
  let ?n = "int (length name)"
  let ?buf1 = "wr pos (le32 ?n) buf"
  have "buf_write (int pos) (le32 ?n) buf = Inr ?buf1" using assms(2) by (simp add: buf_write_def)
  moreover have "buf_write (int pos + 4) name ?buf1 = Inr (wr (pos + 4) name ?buf1)"
    using assms(2) by (simp add: buf_write_def nat_add_distrib length_wr)
  moreover have "wr (pos + 4) name ?buf1 = take pos buf @ le32 ?n @ name @ drop (pos + 4 + length name) buf"
    using assms(2) by (simp add: wr_def add.commute)
  ultimately show ?thesis using assms(1) by (simp add: SerializeTableName_def copied_name_def)
qed

lemma DeserializeTableName_ok:
  assumes "in32 (int n)" "n \<le> length bs"
  shows "DeserializeTableName (le32 (int n) @ bs) l = Inr (l\<lparr>lg_tab_name := copied_name (take n bs)\<rparr>)"
  using assms by (simp add: DeserializeTableName_def rd_def Let_def copied_name_def)

lemma GetTableName_copied [simp]: "lg_tab_name l = copied_name name \<Longrightarrow> GetTableName l = Inr name"
  by (simp add: GetTableName_def copied_name_def)

section \<open>Properties\<close>

text \<open>
  C38. A table name that is serialised into a log buffer with room for it can be read back from where it
  was written, and no other byte of the buffer changes. But the position that the caller goes on with
  is always 8 further, whatever the length of the name: when another name is serialised there, a name
  of 8 bytes or more is read back with its bytes 4 to 7 replaced by the length of the second one.
\<close>

theorem table_name_roundtrip:
  assumes "lg_tab_name l = copied_name name" "in32 (int (length name))" "pos + 4 + length name \<le> length buf"
  shows "\<exists>buf'. SerializeTableName l (buf, int pos) = (Inr (), (buf', int (pos + 8))) \<and>
    length buf' = length buf \<and> take pos buf' = take pos buf \<and>
    drop (pos + 4 + length name) buf' = drop (pos + 4 + length name) buf \<and>
    (\<exists>l'. DeserializeTableName (drop pos buf') l0 = Inr l' \<and> GetTableName l' = Inr name) \<and>
    (lg_tab_name l2 = copied_name name2 \<and> 8 \<le> length name \<and> pos + 12 + length name2 \<le> length buf \<longrightarrow>
      (\<exists>buf'' l' bad. SerializeTableName l2 (buf', int (pos + 8)) = (Inr (), (buf'', int (pos + 16))) \<and>
        DeserializeTableName (drop pos buf'') l0 = Inr l' \<and> GetTableName l' = Inr bad \<and>
        rd 4 4 bad = le32 (int (length name2))))"
proof -
  let ?n = "int (length name)"
  let ?buf = "take pos buf @ le32 ?n @ name @ drop (pos + 4 + length name) buf"
  have len: "length ?buf = length buf" using assms(3) by simp
  have d: "drop pos ?buf = le32 ?n @ name @ drop (pos + 4 + length name) buf" using assms(3) by simp
  have again: "\<exists>l'. DeserializeTableName (drop pos ?buf) l0 = Inr l' \<and> GetTableName l' = Inr name"
    unfolding d using DeserializeTableName_ok [OF assms(2)] by simp
  have bad: "\<exists>buf'' l' bad. SerializeTableName l2 (?buf, int (pos + 8)) = (Inr (), (buf'', int (pos + 16))) \<and>
      DeserializeTableName (drop pos buf'') l0 = Inr l' \<and> GetTableName l' = Inr bad \<and> rd 4 4 bad = le32 (int (length name2))"
    if l2: "lg_tab_name l2 = copied_name name2" "8 \<le> length name" "pos + 12 + length name2 \<le> length buf"
  proof -
    let ?rest = "drop (pos + 8 + 4 + length name2) ?buf"
    let ?buf2 = "take (pos + 8) ?buf @ le32 (int (length name2)) @ name2 @ ?rest"
    let ?bs = "take 4 name @ le32 (int (length name2)) @ name2 @ ?rest"
    let ?l = "l0\<lparr>lg_tab_name := copied_name (take (length name) ?bs)\<rparr>"
    have "SerializeTableName l2 (?buf, int (pos + 8)) = (Inr (), (?buf2, int (pos + 8) + 8))"
      by (rule SerializeTableName_ok [OF l2(1)]) (use l2(3) len in simp)
    moreover have "int (pos + 8) + 8 = int (pos + 16)" by simp
    ultimately have s2: "SerializeTableName l2 (?buf, int (pos + 8)) = (Inr (), (?buf2, int (pos + 16)))" by (simp only:)
    have eq: "drop pos ?buf2 = le32 ?n @ ?bs" using assms(3) l2(2) by simp
    have "length name \<le> length ?bs" using assms(3) l2(2,3) by simp
    then have d2: "DeserializeTableName (drop pos ?buf2) l0 = Inr ?l"
      unfolding eq by (rule DeserializeTableName_ok [OF assms(2)])
    have g2: "GetTableName ?l = Inr (take (length name) ?bs)" by (rule GetTableName_copied) simp
    have "rd 4 4 (take (length name) ?bs) = le32 (int (length name2))" using l2(2) by (simp add: rd_def)
    with s2 d2 g2 show ?thesis by blast
  qed
  show ?thesis
    by (rule exI [of _ ?buf], intro conjI impI)
      (use SerializeTableName_ok [OF assms(1,3)] len assms(3) again bad in simp_all)
qed

theorem table_name_roundtrip_witness:
  "\<exists>buf'. SerializeTableName (LogRecord_table 1 0 CREATE_TABLE [116, 49]) (replicate 10 0, 2) = (Inr (), (buf', 10)) \<and>
     (\<exists>l'. DeserializeTableName (drop 2 buf') LogRecord_default = Inr l' \<and> GetTableName l' = Inr [116, 49])"
proof -
  have "lg_tab_name (LogRecord_table 1 0 CREATE_TABLE [116, 49]) = copied_name [116, 49]" by (simp add: LogRecord_table_def)
  from table_name_roundtrip [OF this, of 2 "replicate 10 0" LogRecord_default] show ?thesis by (auto simp: in32_def)
qed

end
