(* ===== verification/Record_Spec.thy ===== *)
theory Record_Spec
  imports Record_File
begin

text \<open>
  The correctness of record files. \<open>hdr_ok\<close> is the layout that \<open>RmManager::create_file\<close> computes;
  the page-level functions \<open>pg_*\<close> are what the operations do to the bytes of one page, and the
  lemmas say what each of them changes: the used slots, the record counter, the link of the free
  list, the slots. The invariant and the refinement to a map of records rest on them.
\<close>

section \<open>Layout\<close>

definition hdr_ok :: "RmFileHdr \<Rightarrow> bool" where
  "hdr_ok h \<longleftrightarrow> 1 \<le> record_size h \<and> record_size h \<le> RM_MAX_RECORD_SIZE \<and>
     num_records_per_page h = num_records_per_page (new_file_hdr (record_size h)) \<and>
     bitmap_size h = bitmap_size (new_file_hdr (record_size h))"

lemma layout_bounds:
  fixes rs :: int
  assumes "1 \<le> rs" "rs \<le> 512"
  defines "n \<equiv> 32601 div (1 + rs * 8)" and "bs \<equiv> (32601 div (1 + rs * 8) + 7) div 8"
  shows "1 \<le> n" "n \<le> 8 * bs" "12 + bs + n * rs \<le> 4096" "0 \<le> bs"
proof -
  have d: "n * (1 + rs * 8) \<le> 32601" unfolding n_def using assms(1) pos_mod_sign [of "1 + rs * 8" 32601]
    by (simp add: minus_mod_eq_div_mult [symmetric])
  have "1 + rs * 8 \<le> 32601" using assms(2) by simp
  then show "1 \<le> n" unfolding n_def using assms(1) by (simp add: pos_imp_zdiv_pos_iff int_one_le_iff_zero_less)
  show "n \<le> 8 * bs" unfolding n_def bs_def by simp
  show "0 \<le> bs" using \<open>1 \<le> n\<close> unfolding n_def bs_def by simp
  have "8 * bs \<le> n + 7" unfolding n_def bs_def by simp
  moreover have "n + 8 * (n * rs) \<le> 32601" using d by (simp add: algebra_simps)
  ultimately show "12 + bs + n * rs \<le> 4096" by linarith
qed

lemma new_file_hdr_eqs:
  "record_size (new_file_hdr rs) = rs" "num_pages (new_file_hdr rs) = 1"
  "num_records_per_page (new_file_hdr rs) = 32601 div (1 + rs * 8)"
  "bitmap_size (new_file_hdr rs) = (32601 div (1 + rs * 8) + 7) div 8"
  "first_free_page_no (new_file_hdr rs) = RM_NO_PAGE"
  by (simp_all add: new_file_hdr_def Let_def BITMAP_WIDTH_def PAGE_SIZE_def sizeof_RmFileHdr_def)

lemma hdr_okD:
  assumes "hdr_ok h"
  shows "1 \<le> record_size h" "1 \<le> num_records_per_page h" "num_records_per_page h \<le> 8 * bitmap_size h"
    "12 + bitmap_size h + num_records_per_page h * record_size h \<le> 4096" "0 \<le> bitmap_size h"
    "bitmap_size h \<le> 4084" "num_records_per_page h < 2 ^ 31"
proof -
  from assms have r: "1 \<le> record_size h" "record_size h \<le> 512"
    and n: "num_records_per_page h = 32601 div (1 + record_size h * 8)"
    and b: "bitmap_size h = (32601 div (1 + record_size h * 8) + 7) div 8"
    by (simp_all add: hdr_ok_def RM_MAX_RECORD_SIZE_def new_file_hdr_eqs)
  note l = layout_bounds [OF r]
  show "1 \<le> record_size h" by (rule r)
  show "1 \<le> num_records_per_page h" "num_records_per_page h \<le> 8 * bitmap_size h"
    "12 + bitmap_size h + num_records_per_page h * record_size h \<le> 4096" "0 \<le> bitmap_size h"
    using l unfolding n b by simp_all
  moreover from this have "0 \<le> num_records_per_page h * record_size h" using r by simp
  ultimately show "bitmap_size h \<le> 4084" by linarith
  then show "num_records_per_page h < 2 ^ 31" using \<open>num_records_per_page h \<le> 8 * bitmap_size h\<close> by simp
qed

section \<open>Pages as bytes\<close>

definition p_next :: "bytes \<Rightarrow> int" where "p_next b = of_le32 (rd 4 4 b)"
definition p_num :: "bytes \<Rightarrow> int" where "p_num b = of_le32 (rd 8 4 b)"
definition p_bm :: "bytes \<Rightarrow> bytes" where "p_bm b = rd 12 4084 b"
definition slot_off :: "RmFileHdr \<Rightarrow> int \<Rightarrow> int" where "slot_off h i = 12 + bitmap_size h + i * record_size h"
definition p_slot :: "RmFileHdr \<Rightarrow> bytes \<Rightarrow> int \<Rightarrow> bytes" where
  "p_slot h b i = rd (nat (slot_off h i)) (nat (record_size h)) b"
definition used :: "RmFileHdr \<Rightarrow> bytes \<Rightarrow> int set" where "used h b = ones (p_bm b) (num_records_per_page h)"

definition pg_slot :: "RmFileHdr \<Rightarrow> int \<Rightarrow> bytes \<Rightarrow> bytes \<Rightarrow> bytes" where
  "pg_slot h i buf b = wr (nat (slot_off h i)) buf b"
definition pg_bit :: "(bytes \<Rightarrow> int \<Rightarrow> bytes) \<Rightarrow> int \<Rightarrow> bytes \<Rightarrow> bytes" where
  "pg_bit g i b = wr 12 (g (p_bm b) i) b"
definition pg_num :: "int \<Rightarrow> bytes \<Rightarrow> bytes" where "pg_num k b = wr 8 (le32 k) b"
definition pg_next :: "int \<Rightarrow> bytes \<Rightarrow> bytes" where "pg_next k b = wr 4 (le32 k) b"

text \<open>A slot number of the page.\<close>

definition slot_ok :: "RmFileHdr \<Rightarrow> int \<Rightarrow> bool" where
  "slot_ok h i \<longleftrightarrow> 0 \<le> i \<and> i < num_records_per_page h"

lemma slot_off_bounds:
  assumes "hdr_ok h" "slot_ok h i"
  shows "12 + bitmap_size h \<le> slot_off h i" "slot_off h i + record_size h \<le> 4096" "0 \<le> slot_off h i"
proof -
  note l = hdr_okD [OF assms(1)]
  have i: "0 \<le> i" "i + 1 \<le> num_records_per_page h" using assms(2) by (simp_all add: slot_ok_def)
  have "0 \<le> i * record_size h" using i l(1) by simp
  then show "12 + bitmap_size h \<le> slot_off h i" by (simp add: slot_off_def)
  then show "0 \<le> slot_off h i" using l(5) by simp
  have "(i + 1) * record_size h \<le> num_records_per_page h * record_size h" using i l(1) by (intro mult_right_mono) simp_all
  then show "slot_off h i + record_size h \<le> 4096" using l(4) by (simp add: slot_off_def algebra_simps)
qed

lemma slot_off_nat:
  assumes "hdr_ok h" "slot_ok h i"
  shows "12 + nat (bitmap_size h) \<le> nat (slot_off h i)" "nat (slot_off h i) + nat (record_size h) \<le> 4096"
    "12 \<le> nat (slot_off h i)"
  using slot_off_bounds [OF assms] hdr_okD(1,5) [OF assms(1)] by linarith+

lemma slots_disjoint:
  assumes "hdr_ok h" "slot_ok h i" "slot_ok h j" "i \<noteq> j"
  shows "slot_off h i + record_size h \<le> slot_off h j \<or> slot_off h j + record_size h \<le> slot_off h i"
proof -
  have *: "(a + 1) * record_size h \<le> b * record_size h" if "a < b" for a b :: int
    using that hdr_okD(1) [OF assms(1)] by (intro mult_right_mono) simp_all
  from assms(4) have "i < j \<or> j < i" by auto
  then show ?thesis using * [of i j] * [of j i] by (auto simp: slot_off_def algebra_simps)
qed

lemma rd_list_update: "k < off \<Longrightarrow> rd off n (xs[k := v]) = rd off n xs"
  by (simp add: rd_def)

lemma slot_in_bitmap:
  assumes "hdr_ok h" "slot_ok h i" "length b = 4096"
  shows "in_bitmap (p_bm b) i" "get_bucket i < nat (bitmap_size h)"
proof -
  note l = hdr_okD [OF assms(1)]
  have "0 \<le> i" "i < 8 * int (nat (bitmap_size h))" using assms(2) l by (auto simp: slot_ok_def)
  then show g: "get_bucket i < nat (bitmap_size h)" by (rule get_bucket_lt)
  have "length (p_bm b) = 4084" using assms(3) by (simp add: p_bm_def buf_simps)
  with g l(6) \<open>0 \<le> i\<close> show "in_bitmap (p_bm b) i" by (simp add: in_bitmap_def)
qed

text \<open>The effect of each page update on each part of the page.\<close>

lemma pg_lengths:
  assumes "length b = 4096"
  shows "hdr_ok h \<Longrightarrow> slot_ok h i \<Longrightarrow> length buf = nat (record_size h) \<Longrightarrow> length (pg_slot h i buf b) = 4096"
    "length (pg_num k b) = 4096" "length (pg_next k b) = 4096" "length (p_bm b) = 4084"
    "length (pg_bit bitmap_set i b) = 4096" "length (pg_bit bitmap_reset i b) = 4096"
  using assms slot_off_nat [of h i]
  by (simp_all add: pg_slot_def pg_bit_def pg_num_def pg_next_def p_bm_def length_wr length_rd)

lemma header_fields:
  assumes len: "length b = 4096"
  shows "p_next (pg_next k b) = wrap32 k" "p_num (pg_next k b) = p_num b" "p_bm (pg_next k b) = p_bm b"
  "p_num (pg_num k b) = wrap32 k" "p_next (pg_num k b) = p_next b" "p_bm (pg_num k b) = p_bm b"
  using len by (simp_all add: p_next_def p_num_def p_bm_def pg_next_def pg_num_def buf_simps rd_wr_disjoint of_le32_le32)

lemma header_slots:
  assumes hdr: "hdr_ok h" and len: "length b = 4096" and j: "slot_ok h j"
  shows "p_slot h (pg_next k b) j = p_slot h b j" "p_slot h (pg_num k b) j = p_slot h b j"
  using slot_off_nat [OF hdr j] len
  by (simp_all add: p_slot_def pg_next_def pg_num_def rd_wr_disjoint)

lemma slot_fields:
  assumes hdr: "hdr_ok h" and len: "length b = 4096" and i: "slot_ok h i" and buf: "length buf = nat (record_size h)"
  shows "p_next (pg_slot h i buf b) = p_next b" "p_num (pg_slot h i buf b) = p_num b"
    "used h (pg_slot h i buf b) = used h b" "p_slot h (pg_slot h i buf b) i = buf"
    "slot_ok h j \<Longrightarrow> j \<noteq> i \<Longrightarrow> p_slot h (pg_slot h i buf b) j = p_slot h b j"
proof -
  note so = slot_off_nat [OF hdr i] and l = hdr_okD [OF hdr]
  have o: "nat (slot_off h i) + length buf \<le> length b" using so len buf by simp
  show "p_next (pg_slot h i buf b) = p_next b" "p_num (pg_slot h i buf b) = p_num b"
    using so o len by (simp_all add: p_next_def p_num_def pg_slot_def rd_wr_disjoint)
  show "p_slot h (pg_slot h i buf b) i = buf"
    using o buf by (simp add: p_slot_def pg_slot_def buf_simps)
  show "p_slot h (pg_slot h i buf b) j = p_slot h b j" if "slot_ok h j" "j \<noteq> i"
  proof -
    from slots_disjoint [OF hdr i that(1)] that(2) slot_off_bounds [OF hdr i] slot_off_bounds [OF hdr that(1)]
    have "nat (slot_off h j) + nat (record_size h) \<le> nat (slot_off h i) \<or> nat (slot_off h i) + length buf \<le> nat (slot_off h j)"
      using buf l(1) by auto
    then show ?thesis unfolding p_slot_def pg_slot_def
      using o len slot_off_nat(2) [OF hdr that(1)] by (intro rd_wr_disjoint) auto
  qed
  have "is_set (p_bm (pg_slot h i buf b)) k = is_set (p_bm b) k" if "slot_ok h k" for k
  proof -
    note g = slot_in_bitmap(2) [OF hdr that len]
    have "get_bucket k < 4084" using g l(6) by simp
    moreover have "get_bucket k + 12 < nat (slot_off h i)" using g so(1) by linarith
    ultimately show ?thesis
      using o len by (simp add: is_set_def p_bm_def pg_slot_def nth_rd length_wr nth_wr)
  qed
  then show "used h (pg_slot h i buf b) = used h b" by (auto simp: used_def ones_def slot_ok_def)
qed

lemma bit_fields:
  assumes hdr: "hdr_ok h" and len: "length b = 4096" and i: "slot_ok h i" and g: "g = bitmap_set \<or> g = bitmap_reset"
  shows "p_next (pg_bit g i b) = p_next b" "p_num (pg_bit g i b) = p_num b"
    "p_bm (pg_bit g i b) = g (p_bm b) i" "slot_ok h j \<Longrightarrow> p_slot h (pg_bit g i b) j = p_slot h b j"
    "length (pg_bit g i b) = 4096"
proof -
  have lg: "length (g (p_bm b) i) = 4084" using g pg_lengths(4) [OF len] by auto
  show "length (pg_bit g i b) = 4096" using g pg_lengths [OF len] by auto
  show "p_next (pg_bit g i b) = p_next b" "p_num (pg_bit g i b) = p_num b"
    using lg len by (simp_all add: p_next_def p_num_def pg_bit_def rd_wr_disjoint)
  show "p_bm (pg_bit g i b) = g (p_bm b) i" 
    using rd_wr_same [of 12 b 4084 "g (p_bm b) i"] lg len by (simp add: pg_bit_def p_bm_def [of "wr _ _ _"])
  assume j: "slot_ok h j"
  note so = slot_off_nat [OF hdr j] and gb = slot_in_bitmap(2) [OF hdr i len]
  have "get_bucket i < nat (slot_off h j) - 12" using gb so by linarith
  then have "rd (nat (slot_off h j) - 12) (nat (record_size h)) (g (p_bm b) i) =
      rd (nat (slot_off h j) - 12) (nat (record_size h)) (p_bm b)"
    using g by (auto simp: bitmap_set_def bitmap_reset_def rd_list_update)
  moreover have "p_slot h (pg_bit g i b) j = rd (nat (slot_off h j) - 12) (nat (record_size h)) (g (p_bm b) i)"
    unfolding p_slot_def pg_bit_def using so lg len by (intro rd_wr_inside) auto
  moreover have "p_slot h b j = rd (nat (slot_off h j) - 12) (nat (record_size h)) (p_bm b)"
    unfolding p_slot_def p_bm_def using so by (subst rd_rd) auto
  ultimately show "p_slot h (pg_bit g i b) j = p_slot h b j" by simp
qed

lemma used_bit:
  assumes hdr: "hdr_ok h" and len: "length b = 4096" and i: "slot_ok h i"
  shows "used h (pg_bit bitmap_set i b) = insert i (used h b)" "used h (pg_bit bitmap_reset i b) = used h b - {i}"
  using bit_fields(3) [OF hdr len i] slot_in_bitmap(1) [OF hdr i len] i
  by (simp_all add: used_def ones_set ones_reset slot_ok_def)

section \<open>Record files as maps\<close>

text \<open>
  \<open>P\<close> gives the bytes of each page. The counter of a page is the number of its used slots, and the
  pages with a free slot are exactly those on the free list.
\<close>

fun chain :: "(int \<Rightarrow> int) \<Rightarrow> int \<Rightarrow> int list \<Rightarrow> bool" where
  "chain nx p [] \<longleftrightarrow> p = RM_NO_PAGE"
| "chain nx p (q # qs) \<longleftrightarrow> p = q \<and> chain nx (nx q) qs"

definition data_page :: "RmFileHdr \<Rightarrow> int \<Rightarrow> bool" where
  "data_page h p \<longleftrightarrow> RM_FIRST_RECORD_PAGE \<le> p \<and> p < num_pages h"

definition has_space :: "RmFileHdr \<Rightarrow> bytes \<Rightarrow> bool" where
  "has_space h b \<longleftrightarrow> int (card (used h b)) < num_records_per_page h"

definition file_ok :: "RmFileHdr \<Rightarrow> (int \<Rightarrow> bytes) \<Rightarrow> bool" where
  "file_ok h P \<longleftrightarrow> hdr_ok h \<and> 1 \<le> num_pages h \<and> num_pages h < 2 ^ 31 \<and>
     (\<forall>p. data_page h p \<longrightarrow> length (P p) = 4096 \<and> p_num (P p) = int (card (used h (P p)))) \<and>
     (\<exists>L. distinct L \<and> chain (\<lambda>p. p_next (P p)) (first_free_page_no h) L \<and>
          set L = {p. data_page h p \<and> has_space h (P p)})"

definition recs :: "RmFileHdr \<Rightarrow> (int \<Rightarrow> bytes) \<Rightarrow> Rid \<Rightarrow> bytes option" where
  "recs h P rid =
     (if data_page h (rid_page_no rid) \<and> rid_slot_no rid \<in> used h (P (rid_page_no rid))
      then Some (p_slot h (P (rid_page_no rid)) (rid_slot_no rid)) else None)"

lemma chain_cong: "(\<And>p. p \<in> set L \<Longrightarrow> f p = g p) \<Longrightarrow> chain f q L = chain g q L"
  by (induction L arbitrary: q) auto

lemma hdr_upd_simps [simp]:
  "hdr_ok (h\<lparr>first_free_page_no := x\<rparr>) = hdr_ok h" "hdr_ok (h\<lparr>num_pages := y\<rparr>) = hdr_ok h"
  "used (h\<lparr>first_free_page_no := x\<rparr>) = used h" "used (h\<lparr>num_pages := y\<rparr>) = used h"
  "has_space (h\<lparr>first_free_page_no := x\<rparr>) = has_space h" "has_space (h\<lparr>num_pages := y\<rparr>) = has_space h"
  "p_slot (h\<lparr>first_free_page_no := x\<rparr>) = p_slot h" "p_slot (h\<lparr>num_pages := y\<rparr>) = p_slot h"
  "slot_ok (h\<lparr>first_free_page_no := x\<rparr>) = slot_ok h" "slot_ok (h\<lparr>num_pages := y\<rparr>) = slot_ok h"
  "data_page (h\<lparr>first_free_page_no := x\<rparr>) = data_page h"
  by (auto simp: fun_eq_iff hdr_ok_def used_def has_space_def p_slot_def slot_off_def slot_ok_def data_page_def)

lemma used_slot_ok: "i \<in> used h b \<longleftrightarrow> slot_ok h i \<and> is_set (p_bm b) i"
  by (auto simp: used_def ones_def slot_ok_def)

lemma finite_used [simp]: "finite (used h b)"
  by (simp add: used_def)

lemma card_used_le: "hdr_ok h \<Longrightarrow> int (card (used h b)) \<le> num_records_per_page h"
  using card_ones_le [of "num_records_per_page h" "p_bm b"] hdr_okD(2) [of h] by (simp add: used_def)

text \<open>The slot that \<open>insert_record\<close> chooses on a page with space.\<close>

lemma free_slot:
  assumes "hdr_ok h" "has_space h b"
  defines "i \<equiv> first_bit False (p_bm b) (num_records_per_page h)"
  shows "slot_ok h i" "i \<notin> used h b"
proof -
  have "0 \<le> num_records_per_page h" "card (ones (p_bm b) (num_records_per_page h)) < nat (num_records_per_page h)"
    using hdr_okD(2) [OF assms(1)] assms(2) by (simp_all add: has_space_def used_def)
  from first_zero_free [OF this] show "slot_ok h i" "i \<notin> used h b"
    by (simp_all add: slot_ok_def i_def used_slot_ok)
qed

text \<open>What inserting, updating and deleting do to a page.\<close>

definition ins_page :: "RmFileHdr \<Rightarrow> int \<Rightarrow> bytes \<Rightarrow> bytes \<Rightarrow> bytes" where
  "ins_page h i buf b = pg_num (p_num b + 1) (pg_bit bitmap_set i (pg_slot h i buf b))"

definition del_page :: "int \<Rightarrow> bytes \<Rightarrow> bytes" where
  "del_page i b = pg_num (p_num b - 1) (pg_bit bitmap_reset i b)"

lemma ins_page_fields:
  assumes "hdr_ok h" "length b = 4096" "slot_ok h i" "length buf = nat (record_size h)"
  shows "length (ins_page h i buf b) = 4096" "p_next (ins_page h i buf b) = p_next b"
    "used h (ins_page h i buf b) = insert i (used h b)" "p_slot h (ins_page h i buf b) i = buf"
    "slot_ok h j \<Longrightarrow> j \<noteq> i \<Longrightarrow> p_slot h (ins_page h i buf b) j = p_slot h b j"
    "p_num (ins_page h i buf b) = wrap32 (p_num b + 1)"
proof -
  let ?b1 = "pg_slot h i buf b" and ?b2 = "pg_bit bitmap_set i (pg_slot h i buf b)"
  note sf = slot_fields [OF assms]
  have l1: "length ?b1 = 4096" using pg_lengths(1) [OF assms(2,1,3,4)] .
  have l2: "length ?b2 = 4096" using pg_lengths(5) [OF l1] .
  note bf = bit_fields [OF assms(1) l1 assms(3), of bitmap_set, simplified]
  note hf = header_fields [OF l2] and hs = header_slots [OF assms(1) l2] and ub = used_bit [OF assms(1) l1 assms(3)]
  show "length (ins_page h i buf b) = 4096" unfolding ins_page_def by (rule pg_lengths(2) [OF l2])
  show "p_next (ins_page h i buf b) = p_next b" "p_num (ins_page h i buf b) = wrap32 (p_num b + 1)"
    "used h (ins_page h i buf b) = insert i (used h b)"
    using sf bf hf ub by (simp_all add: ins_page_def used_def)
  show "p_slot h (ins_page h i buf b) i = buf" using sf bf(4) hs(2) assms(3) by (simp add: ins_page_def)
  show "slot_ok h j \<Longrightarrow> j \<noteq> i \<Longrightarrow> p_slot h (ins_page h i buf b) j = p_slot h b j"
    using sf bf(4) hs(2) by (simp add: ins_page_def)
qed

lemma del_page_fields:
  assumes "hdr_ok h" "length b = 4096" "slot_ok h i"
  shows "length (del_page i b) = 4096" "p_next (del_page i b) = p_next b"
    "used h (del_page i b) = used h b - {i}" "slot_ok h j \<Longrightarrow> p_slot h (del_page i b) j = p_slot h b j"
    "p_num (del_page i b) = wrap32 (p_num b - 1)"
proof -
  let ?b2 = "pg_bit bitmap_reset i b"
  have l2: "length ?b2 = 4096" using pg_lengths(6) [OF assms(2)] .
  note bf = bit_fields [OF assms(1,2,3), of bitmap_reset, simplified]
  note hf = header_fields [OF l2] and hs = header_slots [OF assms(1) l2] and ub = used_bit [OF assms(1,2,3)]
  show "length (del_page i b) = 4096" unfolding del_page_def by (rule pg_lengths(2) [OF l2])
  show "p_next (del_page i b) = p_next b" "p_num (del_page i b) = wrap32 (p_num b - 1)"
    "used h (del_page i b) = used h b - {i}"
    using bf hf ub by (simp_all add: del_page_def used_def)
  show "slot_ok h j \<Longrightarrow> p_slot h (del_page i b) j = p_slot h b j"
    using bf(4) hs(2) by (simp add: del_page_def)
qed

lemma file_okD:
  assumes "file_ok h P"
  shows "hdr_ok h" "1 \<le> num_pages h" "num_pages h < 2 ^ 31"
    "data_page h p \<Longrightarrow> length (P p) = 4096" "data_page h p \<Longrightarrow> p_num (P p) = int (card (used h (P p)))"
    "\<exists>L. distinct L \<and> chain (\<lambda>p. p_next (P p)) (first_free_page_no h) L \<and> set L = {p. data_page h p \<and> has_space h (P p)}"
  using assms unfolding file_ok_def by blast+

lemma first_free_page:
  assumes "file_ok h P" "first_free_page_no h \<noteq> RM_NO_PAGE"
  shows "data_page h (first_free_page_no h)" "has_space h (P (first_free_page_no h))"
proof -
  obtain L where L: "chain (\<lambda>p. p_next (P p)) (first_free_page_no h) L" "set L = {p. data_page h p \<and> has_space h (P p)}"
    using file_okD(6) [OF assms(1)] by blast
  with assms(2) have "first_free_page_no h \<in> set L" by (cases L) auto
  with L(2) show "data_page h (first_free_page_no h)" "has_space h (P (first_free_page_no h))" by simp_all
qed

lemma in32_small: "0 \<le> x \<Longrightarrow> x < 2 ^ 31 \<Longrightarrow> wrap32 x = x"
  by (rule wrap32_id) (simp add: in32_def)

lemma file_ok_insert:
  assumes ok: "file_ok h P" and ff: "first_free_page_no h = p" "p \<noteq> RM_NO_PAGE" and buf: "length buf = nat (record_size h)"
  defines "i \<equiv> first_bit False (p_bm (P p)) (num_records_per_page h)"
  defines "b' \<equiv> ins_page h i buf (P p)"
  defines "h' \<equiv> (if p_num (P p) + 1 = num_records_per_page h then h\<lparr>first_free_page_no := p_next (P p)\<rparr> else h)"
  shows "file_ok h' (P(p := b'))" "slot_ok h i" "i \<notin> used h (P p)"
    "recs h' (P(p := b')) = (recs h P)(\<lparr>rid_page_no = p, rid_slot_no = i\<rparr> \<mapsto> buf)"
proof -
  have dp: "data_page h p" "has_space h (P p)" using first_free_page [OF ok] ff by auto
  note hdr = file_okD(1) [OF ok] and len = file_okD(4) [OF ok dp(1)] and num = file_okD(5) [OF ok dp(1)]
  show i: "slot_ok h i" "i \<notin> used h (P p)" using free_slot [OF hdr dp(2)] by (simp_all add: i_def)
  note f = ins_page_fields [OF hdr len i(1) buf, folded b'_def]
  have card: "card (used h b') = card (used h (P p)) + 1" using i f(3) by simp
  have lt: "int (card (used h (P p))) < num_records_per_page h" using dp(2) by (simp add: has_space_def)
  have numb: "p_num b' = int (card (used h b'))"
    using f(6) num lt hdr_okD(7) [OF hdr] card in32_small [of "p_num (P p) + 1"] by simp
  have full: "has_space h b' \<longleftrightarrow> p_num (P p) + 1 \<noteq> num_records_per_page h"
    using card num lt by (auto simp: has_space_def)
  obtain L where L: "distinct L" "chain (\<lambda>q. p_next (P q)) p L" "set L = {q. data_page h q \<and> has_space h (P q)}"
    using file_okD(6) [OF ok] ff by blast
  then obtain qs where qs: "L = p # qs" "p \<notin> set qs" "chain (\<lambda>q. p_next (P q)) (p_next (P p)) qs"
    using dp by (cases L) auto
  have same: "h' = h \<or> h' = h\<lparr>first_free_page_no := p_next (P p)\<rparr>" by (simp add: h'_def)
  have H: "hdr_ok h' = hdr_ok h" "used h' = used h" "has_space h' = has_space h" "data_page h' = data_page h"
    "num_pages h' = num_pages h" "p_slot h' = p_slot h" using same by auto
  have C: "chain (\<lambda>q. p_next ((P(p := b')) q)) r qs = chain (\<lambda>q. p_next (P q)) r qs" for r
    using qs(2) by (intro chain_cong) auto
  have "\<exists>L'. distinct L' \<and> chain (\<lambda>q. p_next ((P(p := b')) q)) (first_free_page_no h') L' \<and>
      set L' = {q. data_page h q \<and> has_space h ((P(p := b')) q)}"
  proof (cases "has_space h b'")
    case True
    then have "h' = h" using full by (simp add: h'_def)
    with True L qs C f(2) dp ff show ?thesis by (intro exI [of _ L]) auto
  next
    case False
    then have "h' = h\<lparr>first_free_page_no := p_next (P p)\<rparr>" using full by (simp add: h'_def)
    with False L qs C show ?thesis by (intro exI [of _ qs]) auto
  qed
  then show "file_ok h' (P(p := b'))"
    unfolding file_ok_def H using file_okD(1-5) [OF ok] f(1) numb by auto
  show "recs h' (P(p := b')) = (recs h P)(\<lparr>rid_page_no = p, rid_slot_no = i\<rparr> \<mapsto> buf)"
  proof (rule ext)
    fix rid
    show "recs h' (P(p := b')) rid = ((recs h P)(\<lparr>rid_page_no = p, rid_slot_no = i\<rparr> \<mapsto> buf)) rid"
      using dp(1) f(3,4,5) i by (cases rid) (auto simp: recs_def H used_slot_ok)
  qed
qed

lemma file_ok_delete:
  assumes ok: "file_ok h P" and dp: "data_page h p" and i: "i \<in> used h (P p)"
  defines "was_full \<equiv> p_num (P p) - 1 = num_records_per_page h - 1"
  defines "b' \<equiv> (if was_full then pg_next (first_free_page_no h) (del_page i (P p)) else del_page i (P p))"
  defines "h' \<equiv> (if was_full then h\<lparr>first_free_page_no := p\<rparr> else h)"
  shows "file_ok h' (P(p := b'))" "recs h' (P(p := b')) = (recs h P)(\<lparr>rid_page_no = p, rid_slot_no = i\<rparr> := None)"
proof -
  note hdr = file_okD(1) [OF ok] and len = file_okD(4) [OF ok dp] and num = file_okD(5) [OF ok dp]
  have si: "slot_ok h i" using i by (simp add: used_slot_ok)
  note f = del_page_fields [OF hdr len si]
  have cpos: "0 < card (used h (P p))" using i card_gt_0_iff by force
  have card: "card (used h (del_page i (P p))) = card (used h (P p)) - 1" using i f(3) by simp
  have le: "int (card (used h (P p))) \<le> num_records_per_page h" by (rule card_used_le [OF hdr])
  have numd: "p_num (del_page i (P p)) = int (card (used h (del_page i (P p))))"
    using f(5) num cpos card le hdr_okD(7) [OF hdr] in32_small [of "p_num (P p) - 1"] by simp
  note hf = header_fields [OF f(1)] and hs = header_slots [OF hdr f(1)]
  have b': "length b' = 4096" "used h b' = used h (P p) - {i}" "p_num b' = int (card (used h b'))"
    "slot_ok h j \<Longrightarrow> p_slot h b' j = p_slot h (P p) j" for j
    using f numd hf hs pg_lengths(3) [OF f(1)] by (auto simp: b'_def used_def)
  have space: "has_space h b'" using b'(2) card f(3) cpos le by (auto simp: has_space_def)
  have full: "was_full \<longleftrightarrow> \<not> has_space h (P p)" using num le by (auto simp: was_full_def has_space_def)
  have in32: "in32 (first_free_page_no h)"
  proof (cases "first_free_page_no h = RM_NO_PAGE")
    case False
    from first_free_page(1) [OF ok this] file_okD(3) [OF ok] show ?thesis
      by (simp add: data_page_def RM_FIRST_RECORD_PAGE_def in32_def)
  qed (simp add: RM_NO_PAGE_def in32_def)
  obtain L where L: "distinct L" "chain (\<lambda>q. p_next (P q)) (first_free_page_no h) L"
    "set L = {q. data_page h q \<and> has_space h (P q)}" using file_okD(6) [OF ok] by blast
  have same: "h' = h \<or> h' = h\<lparr>first_free_page_no := p\<rparr>" by (simp add: h'_def)
  have H: "hdr_ok h' = hdr_ok h" "used h' = used h" "has_space h' = has_space h" "data_page h' = data_page h"
    "num_pages h' = num_pages h" "p_slot h' = p_slot h" using same by auto
  have "\<exists>L'. distinct L' \<and> chain (\<lambda>q. p_next ((P(p := b')) q)) (first_free_page_no h') L' \<and>
      set L' = {q. data_page h q \<and> has_space h ((P(p := b')) q)}"
  proof (cases was_full)
    case True
    then have np: "p \<notin> set L" using full L(3) by simp
    have "chain (\<lambda>q. p_next ((P(p := b')) q)) (first_free_page_no h) L"
      using np by (subst chain_cong [where g = "\<lambda>q. p_next (P q)"]) (auto simp: L(2))
    moreover have "p_next b' = first_free_page_no h" using True hf(1) in32 by (simp add: b'_def)
    ultimately show ?thesis using True np L dp space by (intro exI [of _ "p # L"]) (auto simp: h'_def)
  next
    case False
    have "p_next b' = p_next (P p)" using False f(2) by (simp add: b'_def)
    then have "chain (\<lambda>q. p_next ((P(p := b')) q)) (first_free_page_no h) L"
      using L(2) chain_cong [of L "\<lambda>q. p_next ((P(p := b')) q)" "\<lambda>q. p_next (P q)"] by auto
    with False L dp space full show ?thesis by (intro exI [of _ L]) (auto simp: h'_def)
  qed
  then show "file_ok h' (P(p := b'))"
    unfolding file_ok_def H using file_okD(1-5) [OF ok] b'(1,3) by auto
  show "recs h' (P(p := b')) = (recs h P)(\<lparr>rid_page_no = p, rid_slot_no = i\<rparr> := None)"
  proof (rule ext)
    fix rid
    have "j \<in> used h (P p) \<Longrightarrow> p_slot h b' j = p_slot h (P p) j" for j using b'(4) by (simp add: used_slot_ok)
    then show "recs h' (P(p := b')) rid = ((recs h P)(\<lparr>rid_page_no = p, rid_slot_no = i\<rparr> := None)) rid"
      using b'(2) by (cases rid) (auto simp: recs_def H)
  qed
qed

lemma file_ok_update:
  assumes ok: "file_ok h P" and dp: "data_page h p" and i: "i \<in> used h (P p)" and buf: "length buf = nat (record_size h)"
  shows "file_ok h (P(p := pg_slot h i buf (P p)))"
    "recs h (P(p := pg_slot h i buf (P p))) = (recs h P)(\<lparr>rid_page_no = p, rid_slot_no = i\<rparr> \<mapsto> buf)"
proof -
  note hdr = file_okD(1) [OF ok] and len = file_okD(4) [OF ok dp] and num = file_okD(5) [OF ok dp]
  have si: "slot_ok h i" using i by (simp add: used_slot_ok)
  note f = slot_fields [OF hdr len si buf] and l = pg_lengths(1) [OF len hdr si buf]
  obtain L where L: "distinct L" "chain (\<lambda>q. p_next (P q)) (first_free_page_no h) L"
    "set L = {q. data_page h q \<and> has_space h (P q)}" using file_okD(6) [OF ok] by blast
  let ?P = "P(p := pg_slot h i buf (P p))"
  have "chain (\<lambda>q. p_next (?P q)) (first_free_page_no h) L"
    using L(2) f(1) chain_cong [of L "\<lambda>q. p_next (?P q)" "\<lambda>q. p_next (P q)"] by auto
  moreover have "has_space h (?P q) = has_space h (P q)" for q using f(3) by (simp add: has_space_def)
  ultimately show "file_ok h ?P"
    unfolding file_ok_def using file_okD(1-5) [OF ok] L f l num by auto
  show "recs h ?P = (recs h P)(\<lparr>rid_page_no = p, rid_slot_no = i\<rparr> \<mapsto> buf)"
  proof (rule ext)
    fix rid
    show "recs h ?P rid = ((recs h P)(\<lparr>rid_page_no = p, rid_slot_no = i\<rparr> \<mapsto> buf)) rid"
      using f dp i by (cases rid) (auto simp: recs_def used_slot_ok)
  qed
qed

lemma file_ok_cong:
  assumes "file_ok h P" "\<And>q. data_page h q \<Longrightarrow> Q q = P q"
  shows "file_ok h Q"
proof -
  obtain L where L: "distinct L" "chain (\<lambda>q. p_next (P q)) (first_free_page_no h) L"
    "set L = {q. data_page h q \<and> has_space h (P q)}" using file_okD(6) [OF assms(1)] by blast
  have "chain (\<lambda>q. p_next (Q q)) (first_free_page_no h) L"
    using assms(2) L(3) by (subst chain_cong [where g = "\<lambda>q. p_next (P q)"]) (auto simp: L(2))
  moreover have "set L = {q. data_page h q \<and> has_space h (Q q)}" using assms(2) L(3) by auto
  ultimately show ?thesis
    unfolding file_ok_def using L(1) file_okD(1-5) [OF assms(1)] assms(2) by auto
qed

lemma recs_cong: "(\<And>q. data_page h q \<Longrightarrow> Q q = P q) \<Longrightarrow> recs h Q = recs h P"
  by (auto simp: fun_eq_iff recs_def)

text \<open>A fresh page: \<open>create_new_page_handle\<close>.\<close>

definition fresh_page :: "RmFileHdr \<Rightarrow> bytes" where
  "fresh_page h = wr 12 (replicate (nat (bitmap_size h)) 0) (pg_num 0 (pg_next RM_NO_PAGE zero_page))"

lemma zero_page_length: "length zero_page = 4096"
  by (simp add: PAGE_SIZE_def)

lemma fresh_page_fields:
  assumes "hdr_ok h"
  shows "length (fresh_page h) = 4096" "used h (fresh_page h) = {}" "p_num (fresh_page h) = 0" "p_next (fresh_page h) = RM_NO_PAGE"
proof -
  note l = hdr_okD [OF assms]
  have n: "nat (bitmap_size h) \<le> 4084" using l by simp
  note z1 = pg_lengths(3) [OF zero_page_length, of RM_NO_PAGE]
  note z2 = pg_lengths(2) [OF z1, of 0]
  note f1 = header_fields [OF zero_page_length] and f2 = header_fields [OF z1]
  show "length (fresh_page h) = 4096" using z2 n by (simp add: fresh_page_def length_wr)
  show "p_num (fresh_page h) = 0" "p_next (fresh_page h) = RM_NO_PAGE"
    using f1 f2 z2 n
    by (simp_all add: fresh_page_def p_num_def p_next_def rd_wr_disjoint RM_NO_PAGE_def in32_def)
  have "\<not> is_set (p_bm (fresh_page h)) i" if "slot_ok h i" for i
  proof -
    note g = slot_in_bitmap(2) [OF assms that z2]
    then have "fresh_page h ! (12 + get_bucket i) = 0"
      using z2 n by (simp add: fresh_page_def nth_wr)
    then have "p_bm (fresh_page h) ! get_bucket i = 0"
      using \<open>length (fresh_page h) = 4096\<close> g n by (simp add: p_bm_def nth_rd)
    then show ?thesis by (simp add: is_set_def)
  qed
  then show "used h (fresh_page h) = {}" by (auto simp: used_slot_ok)
qed

lemma file_ok_new_page:
  assumes ok: "file_ok h P" and ff: "first_free_page_no h = RM_NO_PAGE" and np: "num_pages h + 1 < 2 ^ 31"
  defines "h' \<equiv> h\<lparr>num_pages := num_pages h + 1, first_free_page_no := num_pages h\<rparr>"
  shows "file_ok h' (P(num_pages h := fresh_page h))" "recs h' (P(num_pages h := fresh_page h)) = recs h P"
proof -
  note hdr = file_okD(1) [OF ok] and f = fresh_page_fields [OF file_okD(1) [OF ok]]
  let ?P = "P(num_pages h := fresh_page h)"
  have dp: "data_page h' q \<longleftrightarrow> q = num_pages h \<or> data_page h q" for q
    using file_okD(2) [OF ok] by (auto simp: h'_def data_page_def RM_FIRST_RECORD_PAGE_def)
  have nd: "\<not> data_page h (num_pages h)" by (simp add: data_page_def)
  have H: "hdr_ok h' = hdr_ok h" "used h' = used h" "has_space h' = has_space h" "p_slot h' = p_slot h"
    by (simp_all add: h'_def)
  have none: "{q. data_page h q \<and> has_space h (P q)} = {}"
  proof -
    obtain L where L: "chain (\<lambda>q. p_next (P q)) RM_NO_PAGE L" "set L = {q. data_page h q \<and> has_space h (P q)}"
      using file_okD(6) [OF ok] ff by auto
    have "\<not> data_page h RM_NO_PAGE" by (simp add: data_page_def RM_NO_PAGE_def RM_FIRST_RECORD_PAGE_def)
    then have "RM_NO_PAGE \<notin> set L" using L(2) by simp
    with L(1) have "L = []" by (cases L) auto
    with L(2) show ?thesis by simp
  qed
  have sp: "has_space h (fresh_page h)" using f(2) hdr_okD(2) [OF hdr] by (simp add: has_space_def)
  have "set [num_pages h] = {q. data_page h' q \<and> has_space h (?P q)}" using dp nd none sp by auto
  moreover have "chain (\<lambda>q. p_next (?P q)) (first_free_page_no h') [num_pages h]" using f(4) by (simp add: h'_def)
  ultimately have "\<exists>L. distinct L \<and> chain (\<lambda>q. p_next (?P q)) (first_free_page_no h') L \<and>
      set L = {q. data_page h' q \<and> has_space h (?P q)}" by (metis distinct_singleton)
  moreover have "1 \<le> num_pages h'" "num_pages h' < 2 ^ 31" using np file_okD(2) [OF ok] by (simp_all add: h'_def)
  ultimately show "file_ok h' ?P"
    unfolding file_ok_def H using hdr f dp nd file_okD(4,5) [OF ok] by auto
  show "recs h' ?P = recs h P"
    using dp nd f(2) by (auto simp: fun_eq_iff recs_def H)
qed

section \<open>The operations on a record file\<close>

definition rm_pid :: "rm_state \<Rightarrow> int \<Rightarrow> PageId" where
  "rm_pid s p = \<lparr>pid_fd = rfh_fd (rm_fh s), pid_page_no = p\<rparr>"

definition rm_pages :: "rm_state \<Rightarrow> int \<Rightarrow> bytes" where
  "rm_pages s p = the (logical (rm_bpm s) (rm_pid s p))"

definition records :: "rm_state \<Rightarrow> Rid \<Rightarrow> bytes option" where
  "records s = recs (rm_hdr s) (rm_pages s)"

definition rm_inv :: "rm_state \<Rightarrow> bool" where
  "rm_inv s \<longleftrightarrow> quiet (rm_bpm s) \<and> 0 \<le> rfh_fd (rm_fh s) \<and> rfh_fd (rm_fh s) < MAX_FD \<and>
     dm_open (disk_manager (rm_bpm s)) (rfh_fd (rm_fh s)) \<and>
     fd2pageno (disk_manager (rm_bpm s)) (rfh_fd (rm_fh s)) = num_pages (rm_hdr s) \<and>
     (\<forall>p. num_pages (rm_hdr s) \<le> p \<longrightarrow> page_table (rm_bpm s) (rm_pid s p) = None) \<and>
     (\<forall>p. data_page (rm_hdr s) p \<longrightarrow> logical (rm_bpm s) (rm_pid s p) \<noteq> None) \<and>
     file_ok (rm_hdr s) (rm_pages s)"

lemma rm_invD:
  assumes "rm_inv s"
  shows "quiet (rm_bpm s)" "file_ok (rm_hdr s) (rm_pages s)" "0 \<le> rfh_fd (rm_fh s)" "rfh_fd (rm_fh s) < MAX_FD"
    "dm_open (disk_manager (rm_bpm s)) (rfh_fd (rm_fh s))"
    "fd2pageno (disk_manager (rm_bpm s)) (rfh_fd (rm_fh s)) = num_pages (rm_hdr s)"
    "num_pages (rm_hdr s) \<le> p \<Longrightarrow> page_table (rm_bpm s) (rm_pid s p) = None"
    "data_page (rm_hdr s) p \<Longrightarrow> logical (rm_bpm s) (rm_pid s p) = Some (rm_pages s p)"
  using assms unfolding rm_inv_def rm_pages_def by auto

text \<open>The state after a visit to page \<open>p\<close> that leaves \<open>b'\<close> there and the header \<open>h'\<close>.\<close>

lemma rm_visit:
  assumes "rm_inv s" "quiet b2" "disk_env b2 = disk_env (rm_bpm s)"
    and "dom (page_table b2) \<subseteq> insert (rm_pid s p) (dom (page_table (rm_bpm s)))"
    and "logical b2 (rm_pid s p) = Some b'"
    and "\<forall>q c. q \<noteq> rm_pid s p \<longrightarrow> logical (rm_bpm s) q = Some c \<longrightarrow> logical b2 q = Some c"
    and "data_page (rm_hdr s) p" "num_pages h' = num_pages (rm_hdr s)" "file_ok h' ((rm_pages s)(p := b'))"
  defines "s' \<equiv> s\<lparr>rm_bpm := b2, rm_fh := (rm_fh s)\<lparr>file_hdr := h'\<rparr>\<rparr>"
  shows "rm_inv s'" "records s' = recs h' ((rm_pages s)(p := b'))"
proof -
  note inv = rm_invD [OF assms(1)]
  have [simp]: "rm_hdr s' = h'" "rm_bpm s' = b2" "rfh_fd (rm_fh s') = rfh_fd (rm_fh s)" "rm_pid s' = rm_pid s"
    by (auto simp: s'_def rm_hdr_def rm_pid_def fun_eq_iff)
  have dp: "data_page h' q = data_page (rm_hdr s) q" for q using assms(8) by (simp add: data_page_def)
  have pid: "rm_pid s q = rm_pid s p \<longleftrightarrow> q = p" for q by (simp add: rm_pid_def)
  have lg: "logical b2 (rm_pid s q) = Some (((rm_pages s)(p := b')) q)" if "data_page (rm_hdr s) q" for q
    using that assms(5,6) inv(8) pid [of q] by auto
  have pg: "data_page (rm_hdr s) q \<Longrightarrow> rm_pages s' q = ((rm_pages s)(p := b')) q" for q
    using lg [of q] by (simp add: rm_pages_def)
  have fo: "file_ok h' (rm_pages s')" by (rule file_ok_cong [OF assms(9)]) (use pg dp in simp)
  have res: "page_table b2 (rm_pid s q) = None" if "num_pages h' \<le> q" for q
  proof -
    have "q \<noteq> p" using that assms(7,8) by (auto simp: data_page_def)
    then have "rm_pid s q \<notin> insert (rm_pid s p) (dom (page_table (rm_bpm s)))"
      using that inv(7) [of q] assms(8) pid [of q] by (simp add: domIff)
    with assms(4) show ?thesis by (auto simp: domIff)
  qed
  have e: "fd2pageno (disk_manager b2) = fd2pageno (disk_manager (rm_bpm s))" "dm_open (disk_manager b2) = dm_open (disk_manager (rm_bpm s))"
    using assms(3) by (simp_all add: disk_env_def)
  show "rm_inv s'" unfolding rm_inv_def using assms(2,8) inv(3-6) fo res e lg dp by simp
  show "records s' = recs h' ((rm_pages s)(p := b'))"
    unfolding records_def by (simp, rule recs_cong) (use pg dp in simp)
qed

lemma rid_collapse [simp]: "\<lparr>rid_page_no = rid_page_no r, rid_slot_no = rid_slot_no r\<rparr> = r"
  by (rule Rid.equality) simp_all

lemma on_bpm_eq [simp]: "m (rm_bpm s) = (r, b) \<Longrightarrow> on_bpm m s = (r, s\<lparr>rm_bpm := b\<rparr>)"
  by (simp add: on_bpm_def)

lemma rm_hdr_bpm [simp]: "rm_hdr (s\<lparr>rm_bpm := b\<rparr>) = rm_hdr s" "rm_pid (s\<lparr>rm_bpm := b\<rparr>) = rm_pid s"
  by (simp_all add: rm_hdr_def rm_pid_def fun_eq_iff)

lemma upd_hdr_simps [simp]:
  "rm_bpm (upd_hdr g s) = rm_bpm s" "rm_hdr (upd_hdr g s) = g (rm_hdr s)"
  "(upd_hdr g s)\<lparr>rm_bpm := b\<rparr> = s\<lparr>rm_bpm := b, rm_fh := (rm_fh s)\<lparr>file_hdr := g (rm_hdr s)\<rparr>\<rparr>"
  by (simp_all add: upd_hdr_def rm_hdr_def)

lemma same_hdr: "s\<lparr>rm_bpm := b\<rparr> = s\<lparr>rm_bpm := b, rm_fh := (rm_fh s)\<lparr>file_hdr := rm_hdr s\<rparr>\<rparr>"
  by (simp add: rm_hdr_def)

lemma fetch_page_handle_eq:
  "FetchPage (rm_pid s p) (rm_bpm s) = (Inr (Some f), b1) \<Longrightarrow>
   fetch_page_handle p s = (Inr (RmPageHandle_init (rm_hdr s) f), s\<lparr>rm_bpm := b1\<rparr>)"
  by (simp add: fetch_page_handle_def rm_pid_def)

lemma handle_simps [simp]:
  "ph_page (RmPageHandle_init h f) = f" "ph_page_hdr (RmPageHandle_init h f) = 4"
  "ph_bitmap (RmPageHandle_init h f) = 12" "get_slot h (RmPageHandle_init h f) i = slot_off h i"
  by (simp_all add: RmPageHandle_init_def OFFSET_PAGE_HDR_def sizeof_RmPageHdr_def get_slot_def slot_off_def)

lemma unpin_frame_eq [simp]:
  "pg_id (pages s f) = pid \<Longrightarrow> UnpinPage pid d s = (r, s') \<Longrightarrow> unpin_frame f d s = (Inr (), s')"
  by (simp add: unpin_frame_def)

lemma load_bitmap_eq: "page_data f s = b \<Longrightarrow> load_bitmap (RmPageHandle_init h f) s = (Inr (p_bm b), s)"
  by (simp add: load_bitmap_def p_bm_def PAGE_SIZE_def)

lemma bitmap_op_eq:
  assumes "page_data f s = b" "length b = 4096" "hdr_ok h" "slot_ok h i" "g = bitmap_set \<or> g = bitmap_reset"
  shows "bitmap_op g (RmPageHandle_init h f) i s = (Inr (), poke f (pg_bit g i b) s)"
proof -
  have "length (g (p_bm b) i) = 4084" using assms(5) pg_lengths(4) [OF assms(2)] by auto
  then show ?thesis
    using assms slot_in_bitmap(1) [OF assms(3,4,2)]
    by (simp add: bitmap_op_def load_bitmap_eq pg_bit_def PAGE_SIZE_def)
qed

lemma slot_access:
  assumes "hdr_ok h" "slot_ok h i"
  shows "load_bytes f (slot_off h i) (record_size h) s = (Inr (p_slot h (page_data f s) i), s)"
    and "length buf = nat (record_size h) \<Longrightarrow> store_bytes f (slot_off h i) buf s = (Inr (), poke f (pg_slot h i buf (page_data f s)) s)"
  using slot_off_bounds [OF assms] hdr_okD(1) [OF assms(1)]
  by (simp_all add: p_slot_def pg_slot_def PAGE_SIZE_def)

lemma records_page:
  assumes "rm_inv s" "records s rid = Some bs"
  shows "data_page (rm_hdr s) (rid_page_no rid)" "rid_slot_no rid \<in> used (rm_hdr s) (rm_pages s (rid_page_no rid))"
    "slot_ok (rm_hdr s) (rid_slot_no rid)" "bs = p_slot (rm_hdr s) (rm_pages s (rid_page_no rid)) (rid_slot_no rid)"
    "length (rm_pages s (rid_page_no rid)) = 4096" "length bs = nat (record_size (rm_hdr s))"
proof -
  from assms(2) show dp: "data_page (rm_hdr s) (rid_page_no rid)"
    and u: "rid_slot_no rid \<in> used (rm_hdr s) (rm_pages s (rid_page_no rid))"
    and bs: "bs = p_slot (rm_hdr s) (rm_pages s (rid_page_no rid)) (rid_slot_no rid)"
    by (simp_all add: records_def recs_def split: if_splits)
  then show so: "slot_ok (rm_hdr s) (rid_slot_no rid)" by (simp add: used_slot_ok)
  show len: "length (rm_pages s (rid_page_no rid)) = 4096" using file_okD(4) [OF rm_invD(2) [OF assms(1)] dp] .
  show "length bs = nat (record_size (rm_hdr s))"
    unfolding bs p_slot_def using slot_off_nat(2) [OF file_okD(1) [OF rm_invD(2) [OF assms(1)]] so] len by (intro length_rd) simp
qed

lemma get_record_ok:
  assumes "rm_inv s" "records s rid = Some bs"
  shows "\<exists>s'. get_record rid s = (Inr \<lparr>rec_data = bs, rec_size = record_size (rm_hdr s)\<rparr>, s') \<and> rm_inv s' \<and>
    records s' = records s \<and> rm_fh s' = rm_fh s \<and> (\<forall>q. data_page (rm_hdr s) q \<longrightarrow> rm_pages s' q = rm_pages s q)"
proof -
  note inv = rm_invD [OF assms(1)] and r = records_page [OF assms]
  let ?p = "rid_page_no rid" and ?h = "rm_hdr s"
  note hdr = file_okD(1) [OF inv(2)]
  from visit_read [OF inv(1) inv(8) [OF r(1)]] obtain f b1 b2 where
    F: "FetchPage (rm_pid s ?p) (rm_bpm s) = (Inr (Some f), b1)" "page_data f b1 = rm_pages s ?p" "pg_id (pages b1 f) = rm_pid s ?p"
    "UnpinPage (rm_pid s ?p) False b1 = (True, b2)" and v: "quiet b2" "disk_env b2 = disk_env (rm_bpm s)"
    "dom (page_table b2) \<subseteq> insert (rm_pid s ?p) (dom (page_table (rm_bpm s)))"
    "\<forall>q c. logical (rm_bpm s) q = Some c \<longrightarrow> logical b2 q = Some c" by blast
  have "get_record rid s = (Inr \<lparr>rec_data = bs, rec_size = record_size ?h\<rparr>, s\<lparr>rm_bpm := b2\<rparr>)"
    using r hdr by (simp add: get_record_def fetch_page_handle_eq [OF F(1)] slot_access(1) F(2) unpin_frame_eq [OF F(3,4)] RmRecord_init_def)
  moreover have "logical b2 (rm_pid s ?p) = Some (rm_pages s ?p)" using v(4) inv(8) [OF r(1)] by blast
  moreover have "file_ok ?h ((rm_pages s)(?p := rm_pages s ?p))" using inv(2) by simp
  moreover have "rm_pages (s\<lparr>rm_bpm := b2\<rparr>) q = rm_pages s q" if "data_page ?h q" for q
    using inv(8) [OF that] v(4) by (simp add: rm_pages_def)
  ultimately show ?thesis
    using rm_visit [OF assms(1) v(1-3) _ _ r(1), of "rm_pages s ?p" ?h] v(4)
    by (intro exI [of _ "s\<lparr>rm_bpm := b2\<rparr>"]) (simp add: same_hdr [symmetric] records_def)
qed

lemma copy_to_slot_eq:
  assumes "hdr_ok (rm_hdr s)" "slot_ok (rm_hdr s) i" "length buf = nat (record_size (rm_hdr s))"
  shows "copy_to_slot (RmPageHandle_init (rm_hdr s) f) i buf s =
    (Inr (), s\<lparr>rm_bpm := poke f (pg_slot (rm_hdr s) i buf (page_data f (rm_bpm s))) (rm_bpm s)\<rparr>)"
  using assms by (simp add: copy_to_slot_def slot_access(2))

lemma update_record_ok:
  assumes "rm_inv s" "records s rid = Some bs" "length buf = nat (record_size (rm_hdr s))"
  shows "\<exists>s'. update_record rid buf s = (Inr (), s') \<and> rm_inv s' \<and> records s' = (records s)(rid \<mapsto> buf) \<and>
    rm_hdr s' = rm_hdr s \<and> rfh_fd (rm_fh s') = rfh_fd (rm_fh s)"
proof -
  note inv = rm_invD [OF assms(1)] and r = records_page [OF assms(1,2)]
  let ?p = "rid_page_no rid" and ?h = "rm_hdr s"
  let ?b' = "pg_slot ?h (rid_slot_no rid) buf (rm_pages s ?p)"
  note hdr = file_okD(1) [OF inv(2)]
  have len: "length ?b' = PAGE_SIZE" using pg_lengths(1) [OF r(5) hdr r(3) assms(3)] by (simp add: PAGE_SIZE_def)
  from visit_write [OF inv(1) inv(8) [OF r(1)] len] obtain f b1 b2 where
    F: "FetchPage (rm_pid s ?p) (rm_bpm s) = (Inr (Some f), b1)" "page_data f b1 = rm_pages s ?p" "pg_id (pages b1 f) = rm_pid s ?p"
    "UnpinPage (rm_pid s ?p) True (poke f ?b' b1) = (True, b2)" and v: "quiet b2" "disk_env b2 = disk_env (rm_bpm s)"
    "dom (page_table b2) \<subseteq> insert (rm_pid s ?p) (dom (page_table (rm_bpm s)))" "logical b2 (rm_pid s ?p) = Some ?b'"
    "\<forall>q c. q \<noteq> rm_pid s ?p \<longrightarrow> logical (rm_bpm s) q = Some c \<longrightarrow> logical b2 q = Some c" by blast
  have F3: "pg_id (pages (poke f ?b' b1) f) = rm_pid s ?p" using F(3) by simp
  have "update_record rid buf s = (Inr (), s\<lparr>rm_bpm := b2\<rparr>)"
    using r(3) hdr assms(3) copy_to_slot_eq [of "s\<lparr>rm_bpm := b1\<rparr>" "rid_slot_no rid" buf f]
    by (simp add: update_record_def fetch_page_handle_eq [OF F(1)] F(2) unpin_frame_eq [OF F3 F(4)])
  moreover note fo = file_ok_update [OF inv(2) r(1,2) assms(3)]
  ultimately show ?thesis
    using rm_visit [OF assms(1) v r(1) _ fo(1)] fo(2)
    by (intro exI [of _ "s\<lparr>rm_bpm := b2\<rparr>"]) (simp add: same_hdr [symmetric] records_def)
qed

lemma num_access:
  "load_int f 8 s = (Inr (p_num (page_data f s)), s)" "load_int f 4 s = (Inr (p_next (page_data f s)), s)"
  "store_int f 8 k s = (Inr (), poke f (pg_num k (page_data f s)) s)"
  "store_int f 4 k s = (Inr (), poke f (pg_next k (page_data f s)) s)"
  by (simp_all add: p_num_def p_next_def pg_num_def pg_next_def PAGE_SIZE_def)

lemma delete_record_ok:
  assumes "rm_inv s" "records s rid = Some bs"
  shows "\<exists>s'. delete_record rid s = (Inr (), s') \<and> rm_inv s' \<and> records s' = (records s)(rid := None) \<and>
    rfh_fd (rm_fh s') = rfh_fd (rm_fh s) \<and> record_size (rm_hdr s') = record_size (rm_hdr s)"
proof -
  note inv = rm_invD [OF assms(1)] and r = records_page [OF assms]
  let ?p = "rid_page_no rid" and ?i = "rid_slot_no rid" and ?h = "rm_hdr s"
  let ?b = "rm_pages s ?p"
  define full where "full \<longleftrightarrow> p_num ?b - 1 = num_records_per_page ?h - 1"
  define b' where "b' = (if full then pg_next (first_free_page_no ?h) (del_page ?i ?b) else del_page ?i ?b)"
  define h' where "h' = (if full then ?h\<lparr>first_free_page_no := ?p\<rparr> else ?h)"
  note hdr = file_okD(1) [OF inv(2)]
  note d = del_page_fields [OF hdr r(5,3)] and fo = file_ok_delete [OF inv(2) r(1,2), folded full_def, folded b'_def h'_def]
  have len: "length b' = PAGE_SIZE" using d(1) pg_lengths(3) [OF d(1)] by (simp add: b'_def PAGE_SIZE_def)
  from visit_write [OF inv(1) inv(8) [OF r(1)] len] obtain f b1 b2 where
    F: "FetchPage (rm_pid s ?p) (rm_bpm s) = (Inr (Some f), b1)" "page_data f b1 = ?b" "pg_id (pages b1 f) = rm_pid s ?p"
    "UnpinPage (rm_pid s ?p) True (poke f b' b1) = (True, b2)" and v: "quiet b2" "disk_env b2 = disk_env (rm_bpm s)"
    "dom (page_table b2) \<subseteq> insert (rm_pid s ?p) (dom (page_table (rm_bpm s)))" "logical b2 (rm_pid s ?p) = Some b'"
    "\<forall>q c. q \<noteq> rm_pid s ?p \<longrightarrow> logical (rm_bpm s) q = Some c \<longrightarrow> logical b2 q = Some c" by blast
  have F3: "pg_id (pages (poke f c b1) f) = rm_pid s ?p" for c using F(3) by simp
  have pn: "p_num (pg_bit bitmap_reset ?i ?b) = p_num ?b" using bit_fields(2) [OF hdr r(5,3)] by simp
  note bo = bitmap_op_eq [OF F(2) r(5) hdr r(3), of bitmap_reset, simplified]
  let ?s' = "s\<lparr>rm_bpm := b2, rm_fh := (rm_fh s)\<lparr>file_hdr := h'\<rparr>\<rparr>"
  have "delete_record rid s = (Inr (), ?s')"
  proof (cases full)
    case True
    then have "pg_next (first_free_page_no ?h) (del_page ?i ?b) = b'" by (simp add: b'_def)
    moreover have "pid_page_no (rm_pid s ?p) = ?p" by (simp add: rm_pid_def)
    ultimately show ?thesis
      using True F(4) unfolding full_def h'_def
      by (simp add: delete_record_def fetch_page_handle_eq [OF F(1)] bo num_access pn release_page_handle_def F(3) del_page_def unpin_frame_def)
  next
    case False
    then have "del_page ?i ?b = b'" by (simp add: b'_def)
    then show ?thesis
      using False F(4) unfolding full_def h'_def
      by (simp add: delete_record_def fetch_page_handle_eq [OF F(1)] bo num_access pn F(3) del_page_def [symmetric] unpin_frame_def)
        (simp add: rm_hdr_def)
  qed
  moreover have "num_pages h' = num_pages ?h" "record_size h' = record_size ?h" by (simp_all add: h'_def)
  ultimately show ?thesis
    using rm_visit [OF assms(1) v r(1) _ fo(1)] fo(2)
    by (intro exI [of _ ?s']) (simp add: records_def rm_hdr_def)
qed

text \<open>The part of \<open>insert_record\<close> behind \<open>create_page_handle\<close>.\<close>

definition insert_rest :: "bytes \<Rightarrow> RmPageHandle \<Rightarrow> (rm_state, Rid) prog" where
  "insert_rest buf ph s =
     bind (on_bpm (scan_bitmap (\<lambda>bm. first_bit False bm (num_records_per_page (rm_hdr s))) ph
                     (num_records_per_page (rm_hdr s)))) (\<lambda>slot_no.
     bind (copy_to_slot ph slot_no buf) (\<lambda>_.
     bind (mark_used ph slot_no) (\<lambda>_ s.
       let rid = \<lparr>rid_page_no = pid_page_no (pg_id (pages (rm_bpm s) (ph_page ph))), rid_slot_no = slot_no\<rparr>
       in bind (on_bpm (unpin_frame (ph_page ph) True)) (\<lambda>_. ret rid) s))) s"

lemma insert_record_rest: "insert_record buf = bind create_page_handle (insert_rest buf)"
  by (simp add: insert_record_def insert_rest_def [abs_def])

lemma insert_rest_eq:
  assumes "hdr_ok (rm_hdr t)" "page_data f (rm_bpm t) = b" "length b = 4096" "has_space (rm_hdr t) b"
    and "length buf = nat (record_size (rm_hdr t))" "pg_id (pages (rm_bpm t) f) = pid"
  defines "i \<equiv> first_bit False (p_bm b) (num_records_per_page (rm_hdr t))"
  assumes "UnpinPage pid True (poke f (ins_page (rm_hdr t) i buf b) (rm_bpm t)) = (True, b2)"
  shows "insert_rest buf (RmPageHandle_init (rm_hdr t) f) t =
    (Inr \<lparr>rid_page_no = pid_page_no pid, rid_slot_no = i\<rparr>,
     t\<lparr>rm_bpm := b2, rm_fh := (rm_fh t)\<lparr>file_hdr :=
       if p_num b + 1 = num_records_per_page (rm_hdr t) then (rm_hdr t)\<lparr>first_free_page_no := p_next b\<rparr> else rm_hdr t\<rparr>\<rparr>)"
proof -
  let ?h = "rm_hdr t"
  note hdr = assms(1)
  have so: "slot_ok ?h i" using free_slot [OF hdr assms(4)] by (simp add: i_def)
  let ?b1 = "pg_slot ?h i buf b" let ?b2 = "pg_bit bitmap_set i ?b1"
  note l1 = pg_lengths(1) [OF assms(3) hdr so assms(5)]
  note l2 = pg_lengths(5) [OF l1, of i]
  have n: "p_num ?b2 = p_num b" "p_next ?b2 = p_next b"
    using bit_fields(1,2) [OF hdr l1 so, of bitmap_set] slot_fields(1,2) [OF hdr assms(3) so assms(5)] by simp_all
  have sc: "on_bpm (scan_bitmap (\<lambda>bm. first_bit False bm (num_records_per_page ?h)) (RmPageHandle_init ?h f) (num_records_per_page ?h)) t
      = (Inr i, t)"
    using hdr_okD(3,6) [OF hdr] pg_lengths(4) [OF assms(3)]
    by (simp add: scan_bitmap_def load_bitmap_eq [OF assms(2)] i_def on_bpm_def ret_def)
  note cp = copy_to_slot_eq [OF hdr so assms(5), of f, unfolded assms(2)]
  have bo: "bitmap_op bitmap_set (RmPageHandle_init ?h f) i (poke f ?b1 (rm_bpm t)) = (Inr (), poke f ?b2 (rm_bpm t))"
    using bitmap_op_eq [of f "poke f ?b1 (rm_bpm t)" ?b1 ?h i bitmap_set] l1 hdr so by simp
  have nx: "p_next (pg_num k ?b2) = p_next b" for k using header_fields(5) [OF l2] n(2) by simp
  have mk: "mark_used (RmPageHandle_init ?h f) i (t\<lparr>rm_bpm := poke f ?b1 (rm_bpm t)\<rparr>) =
     (Inr (), t\<lparr>rm_bpm := poke f (ins_page ?h i buf b) (rm_bpm t), rm_fh := (rm_fh t)\<lparr>file_hdr :=
       if p_num b + 1 = num_records_per_page ?h then ?h\<lparr>first_free_page_no := p_next b\<rparr> else ?h\<rparr>\<rparr>)"
    by (simp add: mark_used_def bo num_access n nx ins_page_def update_def upd_hdr_def) (simp add: rm_hdr_def)
  show ?thesis
    using assms(6,8) by (simp add: insert_rest_def sc cp mk Let_def unpin_frame_def ret_def)
qed

lemma insert_existing:
  assumes "rm_inv s" "first_free_page_no (rm_hdr s) \<noteq> RM_NO_PAGE" "length buf = nat (record_size (rm_hdr s))"
  shows "\<exists>rid s'. insert_record buf s = (Inr rid, s') \<and> rm_inv s' \<and> records s rid = None \<and> records s' = (records s)(rid \<mapsto> buf) \<and>
    rfh_fd (rm_fh s') = rfh_fd (rm_fh s) \<and> record_size (rm_hdr s') = record_size (rm_hdr s) \<and> num_pages (rm_hdr s') = num_pages (rm_hdr s)"
proof -
  note inv = rm_invD [OF assms(1)]
  let ?h = "rm_hdr s" let ?p = "first_free_page_no ?h" let ?b = "rm_pages s ?p"
  note hdr = file_okD(1) [OF inv(2)] and ff = first_free_page [OF inv(2) assms(2)]
  note len = file_okD(4) [OF inv(2) ff(1)]
  define i where "i = first_bit False (p_bm ?b) (num_records_per_page ?h)"
  define h' where "h' = (if p_num ?b + 1 = num_records_per_page ?h then ?h\<lparr>first_free_page_no := p_next ?b\<rparr> else ?h)"
  note fo = file_ok_insert [OF inv(2) refl assms(2,3), folded i_def, folded h'_def]
  note ip = ins_page_fields [OF hdr len fo(2) assms(3)]
  have l': "length (ins_page ?h i buf ?b) = PAGE_SIZE" using ip(1) by (simp add: PAGE_SIZE_def)
  from visit_write [OF inv(1) inv(8) [OF ff(1)] l'] obtain f b1 b2 where
    F: "FetchPage (rm_pid s ?p) (rm_bpm s) = (Inr (Some f), b1)" "page_data f b1 = ?b" "pg_id (pages b1 f) = rm_pid s ?p"
    "UnpinPage (rm_pid s ?p) True (poke f (ins_page ?h i buf ?b) b1) = (True, b2)" and v: "quiet b2" "disk_env b2 = disk_env (rm_bpm s)"
    "dom (page_table b2) \<subseteq> insert (rm_pid s ?p) (dom (page_table (rm_bpm s)))" "logical b2 (rm_pid s ?p) = Some (ins_page ?h i buf ?b)"
    "\<forall>q c. q \<noteq> rm_pid s ?p \<longrightarrow> logical (rm_bpm s) q = Some c \<longrightarrow> logical b2 q = Some c" by blast
  let ?s' = "s\<lparr>rm_bpm := b2, rm_fh := (rm_fh s)\<lparr>file_hdr := h'\<rparr>\<rparr>" and ?rid = "\<lparr>rid_page_no = ?p, rid_slot_no = i\<rparr>"
  have "create_page_handle s = (Inr (RmPageHandle_init ?h f), s\<lparr>rm_bpm := b1\<rparr>)"
    using assms(2) fetch_page_handle_eq [OF F(1)] by (simp add: create_page_handle_def)
  moreover have "insert_rest buf (RmPageHandle_init ?h f) (s\<lparr>rm_bpm := b1\<rparr>) = (Inr ?rid, ?s')"
    using insert_rest_eq [of "s\<lparr>rm_bpm := b1\<rparr>" f ?b buf "rm_pid s ?p" b2] hdr F len ff(2) assms(3)
    by (simp add: i_def h'_def rm_pid_def)
  ultimately have "insert_record buf s = (Inr ?rid, ?s')" by (simp add: insert_record_rest)
  moreover have "records s ?rid = None" using fo(3) by (simp add: records_def recs_def)
  moreover have "num_pages h' = num_pages ?h" "record_size h' = record_size ?h" by (simp_all add: h'_def)
  ultimately show ?thesis
    using rm_visit [OF assms(1) v ff(1) _ fo(1)] fo(4)
    by (intro exI [of _ ?rid] exI [of _ ?s']) (simp add: records_def rm_hdr_def)
qed

lemma insert_new:
  assumes "rm_inv s" "first_free_page_no (rm_hdr s) = RM_NO_PAGE" "length buf = nat (record_size (rm_hdr s))"
    and "num_pages (rm_hdr s) + 1 < 2 ^ 31"
  shows "\<exists>rid s'. insert_record buf s = (Inr rid, s') \<and> rm_inv s' \<and> records s rid = None \<and> records s' = (records s)(rid \<mapsto> buf) \<and>
    rfh_fd (rm_fh s') = rfh_fd (rm_fh s) \<and> record_size (rm_hdr s') = record_size (rm_hdr s) \<and> num_pages (rm_hdr s') = num_pages (rm_hdr s) + 1"
proof -
  note inv = rm_invD [OF assms(1)]
  let ?h = "rm_hdr s" let ?p = "num_pages ?h" let ?b = "fresh_page ?h" let ?fd = "rfh_fd (rm_fh s)"
  define h1 where "h1 = ?h\<lparr>num_pages := ?p + 1, first_free_page_no := ?p\<rparr>"
  let ?P1 = "(rm_pages s)(?p := ?b)"
  note fn = file_ok_new_page [OF inv(2) assms(2,4), folded h1_def]
  note hdr = file_okD(1) [OF inv(2)] and hdr1 = file_okD(1) [OF fn(1)]
  have p1: "1 \<le> ?p" using file_okD(2) [OF inv(2)] .
  have ff1: "first_free_page_no h1 = ?p" "?p \<noteq> RM_NO_PAGE" using p1 by (simp_all add: h1_def RM_NO_PAGE_def)
  have h1s: "record_size h1 = record_size ?h" "num_records_per_page h1 = num_records_per_page ?h" "bitmap_size h1 = bitmap_size ?h"
    "num_pages h1 = ?p + 1" by (simp_all add: h1_def)
  note len = fresh_page_fields(1) [OF hdr]
  have sp: "has_space h1 ?b" using first_free_page(2) [OF fn(1)] ff1 by simp
  define i where "i = first_bit False (p_bm ?b) (num_records_per_page h1)"
  define h' where "h' = (if p_num ?b + 1 = num_records_per_page h1 then h1\<lparr>first_free_page_no := p_next ?b\<rparr> else h1)"
  have buf1: "length buf = nat (record_size h1)" using assms(3) h1s by simp
  note fo = file_ok_insert [OF fn(1) ff1 buf1, simplified fun_upd_same fun_upd_upd, folded i_def, folded h'_def]
  note ip = ins_page_fields [OF hdr1 len fo(2) buf1]
  have l': "length (ins_page h1 i buf ?b) = PAGE_SIZE" using ip(1) by (simp add: PAGE_SIZE_def)
  have pid: "\<lparr>pid_fd = ?fd, pid_page_no = fd2pageno (disk_manager (rm_bpm s)) ?fd\<rparr> = rm_pid s ?p"
    using inv(6) by (simp add: rm_pid_def)
  have none: "page_table (rm_bpm s) (rm_pid s ?p) = None" using inv(7) by simp
  have p0: "0 \<le> pid_page_no (rm_pid s ?p)" using p1 by (simp add: rm_pid_def)
  from visit_new [OF inv(1,5,3,4) l', unfolded pid, OF none p0] obtain f b1 b2 where
    F: "NewPage ?fd (rm_bpm s) = (Inr (Some (f, rm_pid s ?p)), b1)" "page_data f b1 = zero_page" "pg_id (pages b1 f) = rm_pid s ?p"
    "UnpinPage (rm_pid s ?p) True (poke f (ins_page h1 i buf ?b) b1) = (True, b2)" and v: "quiet b2"
    "disk_env b2 = ((fd2pageno (disk_manager (rm_bpm s)))(?fd := wrap32 (?p + 1)), dm_open (disk_manager (rm_bpm s)))"
    "dom (page_table b2) \<subseteq> insert (rm_pid s ?p) (dom (page_table (rm_bpm s)))" "logical b2 (rm_pid s ?p) = Some (ins_page h1 i buf ?b)"
    "\<forall>q c. q \<noteq> rm_pid s ?p \<longrightarrow> logical (rm_bpm s) q = Some c \<longrightarrow> logical b2 q = Some c" unfolding inv(6) by blast
  let ?t = "s\<lparr>rm_bpm := poke f ?b b1, rm_fh := (rm_fh s)\<lparr>file_hdr := h1\<rparr>\<rparr>"
  have ph: "RmPageHandle_init ?h f = RmPageHandle_init h1 f" using h1s by (simp add: RmPageHandle_init_def)
  have bs: "12 + int (nat (bitmap_size ?h)) \<le> int PAGE_SIZE" using hdr_okD(5,6) [OF hdr] by (simp add: PAGE_SIZE_def)
  have pz: "pg_num 0 (pg_next RM_NO_PAGE zero_page) = pg_num 0 (pg_next RM_NO_PAGE (page_data f b1))" by (simp add: F(2))
  have "create_page_handle s = (Inr (RmPageHandle_init h1 f), ?t)"
    using assms(2) bs ph
    by (simp add: create_page_handle_def create_new_page_handle_def F(1,2) Let_def num_access fresh_page_def upd_hdr_def)
      (simp add: rm_hdr_def h1_def rm_pid_def)
  moreover have "insert_rest buf (RmPageHandle_init h1 f) ?t =
      (Inr \<lparr>rid_page_no = ?p, rid_slot_no = i\<rparr>, s\<lparr>rm_bpm := b2, rm_fh := (rm_fh s)\<lparr>file_hdr := h'\<rparr>\<rparr>)"
  proof -
    have [simp]: "rm_hdr ?t = h1" "rm_bpm ?t = poke f ?b b1" by (simp_all add: rm_hdr_def)
    show ?thesis
      using insert_rest_eq [of ?t f ?b buf "rm_pid s ?p" b2] hdr1 F(3,4) len sp buf1
      by (simp add: i_def h'_def rm_pid_def)
  qed
  ultimately have run: "insert_record buf s = (Inr \<lparr>rid_page_no = ?p, rid_slot_no = i\<rparr>, s\<lparr>rm_bpm := b2, rm_fh := (rm_fh s)\<lparr>file_hdr := h'\<rparr>\<rparr>)"
    by (simp add: insert_record_rest)
  let ?s' = "s\<lparr>rm_bpm := b2, rm_fh := (rm_fh s)\<lparr>file_hdr := h'\<rparr>\<rparr>"
  have [simp]: "rm_hdr ?s' = h'" "rm_bpm ?s' = b2" "rm_pid ?s' = rm_pid s" "rfh_fd (rm_fh ?s') = ?fd"
    by (auto simp: rm_hdr_def rm_pid_def fun_eq_iff)
  have np: "num_pages h' = ?p + 1" "record_size h' = record_size ?h" using h1s by (simp_all add: h'_def)
  have pne: "rm_pid s q = rm_pid s ?p \<longleftrightarrow> q = ?p" for q by (simp add: rm_pid_def)
  have lg: "logical b2 (rm_pid s q) = Some (((rm_pages s)(?p := ins_page h1 i buf ?b)) q)" if "data_page h' q" for q
  proof (cases "q = ?p")
    case False
    then have "data_page ?h q" using that np by (auto simp: data_page_def)
    with False v(5) inv(8) pne [of q] show ?thesis by auto
  qed (use v(4) in simp)
  then have pg: "data_page h' q \<Longrightarrow> rm_pages ?s' q = ((rm_pages s)(?p := ins_page h1 i buf ?b)) q" for q
    by (simp add: rm_pages_def)
  have res: "page_table b2 (rm_pid s q) = None" if "num_pages h' \<le> q" for q
  proof -
    have "rm_pid s q \<notin> insert (rm_pid s ?p) (dom (page_table (rm_bpm s)))"
      using that inv(7) [of q] np pne [of q] by (simp add: domIff)
    with v(3) show ?thesis by (auto simp: domIff)
  qed
  have env: "fd2pageno (disk_manager b2) ?fd = ?p + 1" "dm_open (disk_manager b2) ?fd"
    using v(2) inv(5) assms(4) p1 in32_small [of "?p + 1"] by (simp_all add: disk_env_def)
  have "rm_inv ?s'"
    unfolding rm_inv_def using v(1) inv(3,4) env res lg np file_ok_cong [OF fo(1), of "rm_pages ?s'"] pg by simp
  moreover have "records ?s' = (records s)(\<lparr>rid_page_no = ?p, rid_slot_no = i\<rparr> \<mapsto> buf)"
  proof -
    have "records ?s' = recs h' ((rm_pages s)(?p := ins_page h1 i buf ?b))"
      unfolding records_def by (simp, rule recs_cong) (use pg in simp)
    with fo(4) fn(2) show ?thesis by (simp add: records_def)
  qed
  moreover have "records s \<lparr>rid_page_no = ?p, rid_slot_no = i\<rparr> = None" by (simp add: records_def recs_def data_page_def)
  ultimately show ?thesis using run np by (intro exI [of _ "\<lparr>rid_page_no = ?p, rid_slot_no = i\<rparr>"] exI [of _ ?s']) simp
qed

lemma insert_record_ok:
  assumes "rm_inv s" "length buf = nat (record_size (rm_hdr s))" "num_pages (rm_hdr s) + 1 < 2 ^ 31"
  shows "\<exists>rid s'. insert_record buf s = (Inr rid, s') \<and> rm_inv s' \<and> records s rid = None \<and> records s' = (records s)(rid \<mapsto> buf) \<and>
    rfh_fd (rm_fh s') = rfh_fd (rm_fh s) \<and> record_size (rm_hdr s') = record_size (rm_hdr s) \<and>
    num_pages (rm_hdr s') \<le> num_pages (rm_hdr s) + 1"
proof (cases "first_free_page_no (rm_hdr s) = RM_NO_PAGE")
  case True
  from insert_new [OF assms(1) True assms(2,3)] show ?thesis by force
next
  case False
  from insert_existing [OF assms(1) False assms(2)] show ?thesis by force
qed

section \<open>The record store interface\<close>

text \<open>
  What the executors rely on: a finite map from record identifiers to byte strings of one length.
  \<open>full\<close> is the situation in which the file cannot grow.
\<close>

locale record_store =
  fixes ins :: "bytes \<Rightarrow> ('s, Rid) prog" and get :: "Rid \<Rightarrow> ('s, RmRecord) prog"
    and del :: "Rid \<Rightarrow> ('s, unit) prog" and upd :: "Rid \<Rightarrow> bytes \<Rightarrow> ('s, unit) prog"
    and contents :: "'s \<Rightarrow> Rid \<Rightarrow> bytes option" and width :: "'s \<Rightarrow> nat"
    and full :: "'s \<Rightarrow> bool" and inv :: "'s \<Rightarrow> bool"
  assumes ins_ok: "inv s \<Longrightarrow> \<not> full s \<Longrightarrow> length buf = width s \<Longrightarrow>
      \<exists>rid s'. ins buf s = (Inr rid, s') \<and> inv s' \<and> contents s rid = None \<and> contents s' = (contents s)(rid \<mapsto> buf) \<and> width s' = width s"
    and get_ok: "inv s \<Longrightarrow> contents s rid = Some bs \<Longrightarrow>
      \<exists>r s'. get rid s = (Inr r, s') \<and> rec_data r = bs \<and> inv s' \<and> contents s' = contents s \<and> width s' = width s"
    and del_ok: "inv s \<Longrightarrow> contents s rid = Some bs \<Longrightarrow>
      \<exists>s'. del rid s = (Inr (), s') \<and> inv s' \<and> contents s' = (contents s)(rid := None) \<and> width s' = width s"
    and upd_ok: "inv s \<Longrightarrow> contents s rid = Some bs \<Longrightarrow> length buf = width s \<Longrightarrow>
      \<exists>s'. upd rid buf s = (Inr (), s') \<and> inv s' \<and> contents s' = (contents s)(rid \<mapsto> buf) \<and> width s' = width s"
begin

lemma get_after_ins:
  assumes "inv s" "\<not> full s" "length buf = width s"
  shows "\<exists>rid s' r s''. ins buf s = (Inr rid, s') \<and> get rid s' = (Inr r, s'') \<and> rec_data r = buf"
proof -
  from ins_ok [OF assms] obtain rid s' where i: "ins buf s = (Inr rid, s')" "inv s'" "contents s' = (contents s)(rid \<mapsto> buf)" by blast
  then have "contents s' rid = Some buf" by simp
  from get_ok [OF i(2) this] i(1) show ?thesis by blast
qed

text \<open>Deleting and updating a list of records, as the executors do, one after the other.\<close>

lemma del_all:
  assumes "inv s" "distinct rids" "set rids \<subseteq> dom (contents s)"
  shows "\<exists>s'. inv s' \<and> contents s' = (contents s) |` (- set rids) \<and> width s' = width s \<and>
    fold (\<lambda>rid x. snd (del rid x)) rids s = s'"
  using assms
proof (induction rids arbitrary: s)
  case Nil
  then show ?case by simp
next
  case (Cons rid rids)
  then obtain bs where "contents s rid = Some bs" by auto
  from del_ok [OF Cons.prems(1) this] obtain s1 where
    s1: "del rid s = (Inr (), s1)" "inv s1" "contents s1 = (contents s)(rid := None)" "width s1 = width s" by blast
  have "set rids \<subseteq> dom (contents s1)" using Cons.prems s1(3) by auto
  with Cons.IH [OF s1(2)] Cons.prems(2) obtain s' where
    "inv s'" "contents s' = (contents s1) |` (- set rids)" "width s' = width s1"
    "fold (\<lambda>rid x. snd (del rid x)) rids s1 = s'" by auto
  moreover have "(contents s1) |` (- set rids) = (contents s) |` (- set (rid # rids))"
    by (auto simp: s1(3) fun_eq_iff restrict_map_def)
  ultimately show ?case using s1 by auto
qed

end

interpretation rm: record_store insert_record get_record delete_record update_record records
  "\<lambda>s. nat (record_size (rm_hdr s))" "\<lambda>s. \<not> num_pages (rm_hdr s) + 1 < 2 ^ 31" rm_inv
proof (unfold_locales, goal_cases)
  case (1 s buf)
  then have "num_pages (rm_hdr s) + 1 < 2 ^ 31" by simp
  from insert_record_ok [OF 1(1,3) this] show ?case by metis
next
  case (2 s rid bs)
  from get_record_ok [OF this] show ?case by (force simp: rm_hdr_def)
next
  case (3 s rid bs)
  from delete_record_ok [OF this] show ?case by metis
next
  case (4 s rid bs buf)
  from update_record_ok [OF this] show ?case by metis
qed

section \<open>Creating and opening\<close>

lemma hdr_bytes_length: "length (hdr_bytes h) = 20"
  by (simp add: hdr_bytes_def)

lemma hdr_of_bytes_hdr_bytes:
  assumes "in32 (record_size h)" "in32 (num_pages h)" "in32 (num_records_per_page h)" "in32 (first_free_page_no h)" "in32 (bitmap_size h)"
  shows "hdr_of_bytes (hdr_bytes h) = h"
proof -
  have "rd 0 4 (hdr_bytes h) = le32 (record_size h)" "rd 4 4 (hdr_bytes h) = le32 (num_pages h)"
    "rd 8 4 (hdr_bytes h) = le32 (num_records_per_page h)" "rd 12 4 (hdr_bytes h) = le32 (first_free_page_no h)"
    "rd 16 4 (hdr_bytes h) = le32 (bitmap_size h)"
    by (simp_all add: hdr_bytes_def rd_def)
  with assms show ?thesis by (simp add: hdr_of_bytes_def)
qed

lemma hdr_ok_new: "1 \<le> rs \<Longrightarrow> rs \<le> 512 \<Longrightarrow> hdr_ok (new_file_hdr rs)"
  by (simp add: hdr_ok_def new_file_hdr_eqs RM_MAX_RECORD_SIZE_def)

lemma new_hdr_in32:
  assumes "1 \<le> rs" "rs \<le> 512"
  shows "hdr_of_bytes (hdr_bytes (new_file_hdr rs)) = new_file_hdr rs"
proof -
  note l = hdr_okD [OF hdr_ok_new [OF assms]]
  show ?thesis
    using l assms by (intro hdr_of_bytes_hdr_bytes) (simp_all add: in32_def new_file_hdr_eqs RM_NO_PAGE_def)
qed

lemma bp_ok_disk:
  assumes "bp_ok X s" "disk_inv d"
    and "\<And>pid. pid \<in> dom (page_table s) \<Longrightarrow> dm_open d (pid_fd pid) = dm_open (disk_manager s) (pid_fd pid) \<and>
      page_content d (pid_fd pid) (pid_page_no pid) = page_content (disk_manager s) (pid_fd pid) (pid_page_no pid)"
  shows "bp_ok X (s\<lparr>disk_manager := d\<rparr>)"
proof (rule bp_okI)
  show "bp_inv (s\<lparr>disk_manager := d\<rparr>)" using bp_inv_disk [OF bp_okD(1) [OF assms(1)] assms(2)] .
next
  fix pid assume "pid \<in> X"
  then show "0 < pins (s\<lparr>disk_manager := d\<rparr>) pid" using bp_okD(5) [OF assms(1), of pid]
    by (simp add: pins_def split: option.splits)
qed (use bp_okD(2-4) [OF assms(1)] assms(3) in \<open>auto simp: domI\<close>)

lemma overwrite_empty: "overwrite 0 bs [] = bs"
  by (simp add: overwrite_def wr_def)

text \<open>Creating a file leaves the system as it was, with the file and its header added.\<close>

definition add_file :: "string \<Rightarrow> bytes \<Rightarrow> DiskManager \<Rightarrow> DiskManager" where
  "add_file name bs d = d\<lparr>dm_os := (dm_os d)\<lparr>os_files := (os_files (dm_os d))(name \<mapsto> bs)\<rparr>\<rparr>"

lemma Rm_create_file_eq:
  assumes "disk_inv (disk_manager s)" "1 \<le> rs" "rs \<le> 512" "os_files (dm_os (disk_manager s)) name = None"
    and "name \<notin> os_dirs (dm_os (disk_manager s))" "os_new_fd (dm_os (disk_manager s)) = Some fd"
  shows "Rm_create_file name rs s =
    (Inr (), s\<lparr>disk_manager := add_file name (hdr_bytes (new_file_hdr rs)) (disk_manager s)\<rparr>)"
proof -
  let ?d = "disk_manager s" and ?H = "hdr_bytes (new_file_hdr rs)"
  let ?o = "dm_os ?d"
  have fd: "os_fds ?o fd = None" "0 \<le> fd" using os_new_fd_None [OF assms(6)] by auto
  have tab: "fd2path ?d fd = None" "path2fd ?d name = None"
    using fd(1) os_fds_None_iff [OF assms(1)] disk_invD(3) [OF assms(1), of name] assms(4)
    by (simp, cases "path2fd ?d name") auto
  have c: "create_file name ?d = (Inr (), add_file name [] ?d)"
    using assms(4-6) fd
    by (simp add: create_file_def is_file_def os_is_file_def os_creat_def os_close_def add_file_def fun_upd_idem)
  have nf: "os_new_fd (dm_os (add_file name bs ?d)) = Some fd" for bs using assms(6) by (simp add: os_new_fd_def add_file_def)
  let ?d2 = "(add_file name [] ?d)\<lparr>dm_os := (dm_os (add_file name [] ?d))\<lparr>os_fds := (os_fds ?o)(fd \<mapsto> \<lparr>fd_path = name, fd_pos = 0\<rparr>)\<rparr>,
      path2fd := (path2fd ?d)(name \<mapsto> fd), fd2path := (fd2path ?d)(fd \<mapsto> name)\<rparr>"
  have o: "open_file name (add_file name [] ?d) = (Inr fd, ?d2)"
    using nf [of "[]"] tab fd by (simp add: open_file_def is_file_def os_is_file_def os_open_def) (simp add: add_file_def)
  have w: "write_page fd 0 ?H ?d2 = (Inr (), ?d2\<lparr>dm_os := (dm_os ?d2)\<lparr>os_fds := (os_fds (dm_os ?d2))(fd \<mapsto> \<lparr>fd_path = name, fd_pos = 20\<rparr>),
      os_files := (os_files (dm_os ?d2))(name \<mapsto> ?H)\<rparr>\<rparr>)"
    using write_page_open [of ?d2 fd "\<lparr>fd_path = name, fd_pos = 0\<rparr>" "[]" 0 ?H] by (simp add: overwrite_empty hdr_bytes_length add_file_def)
  have "close_file fd (?d2\<lparr>dm_os := (dm_os ?d2)\<lparr>os_fds := (os_fds (dm_os ?d2))(fd \<mapsto> \<lparr>fd_path = name, fd_pos = 20\<rparr>),
      os_files := (os_files (dm_os ?d2))(name \<mapsto> ?H)\<rparr>\<rparr>) = (Inr (), add_file name ?H ?d)"
    using tab fd by (simp add: close_file_def os_close_def add_file_def fun_upd_idem)
  with c o w assms(2,3) show ?thesis
    by (simp add: Rm_create_file_def RM_MAX_RECORD_SIZE_def RM_FILE_HDR_PAGE_def on_disk_def)
qed

text \<open>Opening a file that nobody has open leaves the pages of the other files alone.\<close>

lemma page_content_other:
  assumes "os_fds (dm_os d') fd = os_fds (dm_os d) fd"
    and "\<And>h. os_fds (dm_os d) fd = Some h \<Longrightarrow> os_files (dm_os d') (fd_path h) = os_files (dm_os d) (fd_path h)"
  shows "page_content d' fd no = page_content d fd no"
  using assms by (cases "os_fds (dm_os d) fd") (simp_all add: page_content_def os_contents_def)

lemma Rm_open_file_eq:
  assumes "disk_inv (disk_manager s)" "os_files (dm_os (disk_manager s)) name = Some bs" "20 \<le> length bs"
    and "path2fd (disk_manager s) name = None" "os_new_fd (dm_os (disk_manager s)) = Some fd" "fd < MAX_FD"
  defines "h \<equiv> hdr_of_bytes (rd 0 20 bs)"
  shows "\<exists>s'. Rm_open_file name s = (Inr \<lparr>rfh_fd = fd, file_hdr = h\<rparr>, s') \<and>
    (\<exists>d'. s' = s\<lparr>disk_manager := d'\<rparr> \<and> disk_inv d' \<and> dm_open d' fd \<and> fd2pageno d' fd = num_pages h \<and>
      os_files (dm_os d') = os_files (dm_os (disk_manager s)) \<and> fd2path d' fd = Some name \<and>
      (\<forall>fd'. fd' \<noteq> fd \<longrightarrow> dm_open d' fd' = dm_open (disk_manager s) fd' \<and>
         (\<forall>no. page_content d' fd' no = page_content (disk_manager s) fd' no)))"
proof -
  let ?d = "disk_manager s"
  have fd: "os_fds (dm_os ?d) fd = None" "0 \<le> fd" using os_new_fd_None [OF assms(5)] by auto
  let ?d1 = "?d\<lparr>dm_os := (dm_os ?d)\<lparr>os_fds := (os_fds (dm_os ?d))(fd \<mapsto> \<lparr>fd_path = name, fd_pos = 0\<rparr>)\<rparr>,
      path2fd := (path2fd ?d)(name \<mapsto> fd), fd2path := (fd2path ?d)(fd \<mapsto> name)\<rparr>"
  have o: "open_file name ?d = (Inr fd, ?d1)"
    using assms(2,4,5) fd by (simp add: open_file_def is_file_def os_is_file_def os_open_def)
  let ?d2 = "?d1\<lparr>dm_os := (dm_os ?d1)\<lparr>os_fds := (os_fds (dm_os ?d))(fd \<mapsto> \<lparr>fd_path = name, fd_pos = 20\<rparr>)\<rparr>\<rparr>"
  have l: "length (rd 0 20 bs) = 20" using assms(3) by (simp add: length_rd)
  have w: "wr 0 (rd 0 20 bs) (replicate 20 0) = rd 0 20 bs" using l by (simp add: wr_def)
  have r: "read_page fd 0 20 (replicate 20 0) ?d1 = (Inr (), rd 0 20 bs, ?d2)"
    using read_page_open [of ?d1 fd "\<lparr>fd_path = name, fd_pos = 0\<rparr>" bs 0 20 "replicate 20 0"] assms(2) l w by (simp add: Let_def)
  let ?d3 = "?d2\<lparr>fd2pageno := (fd2pageno ?d)(fd := num_pages h)\<rparr>"
  have run: "Rm_open_file name s = (Inr \<lparr>rfh_fd = fd, file_hdr = h\<rparr>, s\<lparr>disk_manager := ?d3\<rparr>)"
    using o r fd(2) assms(6)
    by (simp add: Rm_open_file_def on_disk_def RmFileHandle_init_def RM_FILE_HDR_PAGE_def sizeof_RmFileHdr_def h_def
        set_fd2pageno_def ret_def Let_def)
  have "disk_inv ?d1" by (rule open_file_inv [OF assms(1) o])
  then have inv: "disk_inv ?d3" using dm.read_state [OF _ r] by simp
  have oth: "page_content ?d3 fd' no = page_content ?d fd' no" "dm_open ?d3 fd' = dm_open ?d fd'" if "fd' \<noteq> fd" for fd' no
    using that by (auto simp: dm_open_def intro!: page_content_other)
  obtain d3 where d3: "d3 = ?d3" by simp
  have f: "dm_open d3 fd" "fd2pageno d3 fd = num_pages h" "fd2path d3 fd = Some name"
    "os_files (dm_os d3) = os_files (dm_os ?d)" by (simp_all add: d3 dm_open_def)
  have "Rm_open_file name s = (Inr \<lparr>rfh_fd = fd, file_hdr = h\<rparr>, s\<lparr>disk_manager := d3\<rparr>)" "disk_inv d3"
    unfolding d3 by (rule run, rule inv)
  moreover have "fd' \<noteq> fd \<longrightarrow> dm_open d3 fd' = dm_open ?d fd' \<and> (\<forall>no. page_content d3 fd' no = page_content ?d fd' no)" for fd'
    unfolding d3 using oth by blast
  ultimately show ?thesis using f by blast
qed

section \<open>Properties\<close>

text \<open>
  C32. The layout that \<open>create_file\<close> computes fits: for every record size from 1 to
  \<open>RM_MAX_RECORD_SIZE\<close> a page holds at least one record, the bitmap has a bit for every slot, and
  page header, bitmap and slots together stay within \<open>PAGE_SIZE\<close>, also with the four bytes of the LSN
  that the formula does not count; any other record size is refused.
\<close>

theorem record_layout_fits:
  assumes "hdr = new_file_hdr rs"
  shows "(1 \<le> rs \<and> rs \<le> RM_MAX_RECORD_SIZE \<longrightarrow>
            1 \<le> num_records_per_page hdr \<and> num_records_per_page hdr \<le> 8 * bitmap_size hdr \<and>
            OFFSET_PAGE_HDR + sizeof_RmPageHdr + bitmap_size hdr + num_records_per_page hdr * rs \<le> int PAGE_SIZE) \<and>
         (\<not> (1 \<le> rs \<and> rs \<le> RM_MAX_RECORD_SIZE) \<longrightarrow> Rm_create_file f rs s = (Inl (Exc (InvalidRecordSizeError rs)), s))"
proof (intro conjI impI)
  assume "1 \<le> rs \<and> rs \<le> RM_MAX_RECORD_SIZE"
  then have "hdr_ok hdr" unfolding assms by (intro hdr_ok_new) (simp_all add: RM_MAX_RECORD_SIZE_def)
  from hdr_okD [OF this] show "1 \<le> num_records_per_page hdr" "num_records_per_page hdr \<le> 8 * bitmap_size hdr"
    "OFFSET_PAGE_HDR + sizeof_RmPageHdr + bitmap_size hdr + num_records_per_page hdr * rs \<le> int PAGE_SIZE"
    by (simp_all add: OFFSET_PAGE_HDR_def sizeof_RmPageHdr_def PAGE_SIZE_def assms new_file_hdr_eqs(1))
qed (auto simp: Rm_create_file_def throw_def)

theorem record_layout_fits_witness:
  "Rm_create_file ''r'' 513 demo_pool = (Inl (Exc (InvalidRecordSizeError 513)), demo_pool) \<and>
   num_records_per_page (new_file_hdr 100) \<le> 8 * bitmap_size (new_file_hdr 100)"
  using record_layout_fits [of "new_file_hdr 513" 513 "''r''" demo_pool] record_layout_fits [of "new_file_hdr 100" 100 "''r''" demo_pool]
  by (simp add: RM_MAX_RECORD_SIZE_def)

end
