(* ===== verification/Record_Scan.thy ===== *)
theory Record_Scan
  imports Record_Spec Simulation
begin

text \<open>
  \<open>record/rm_scan.*\<close>: the scan over the records of a file.

  \<open>RmScan_next\<close> is the loop of \<open>next\<close>; \<open>scan_all\<close> is the loop in which every client uses the class,
  \<open>for (RmScan scan(fh); !scan.is_end(); scan.next())\<close>, with fuel for the number of turns. The
  theorems say that it returns every record once, in the order of pages and slots. The last part is about creating and closing
  files.
\<close>

section \<open>The scan\<close>

text \<open>The body of the loop up to \<open>UnpinPage\<close>: the next used slot of the page of \<open>rid\<close>.\<close>

definition scan_page :: "RmFileHdr \<Rightarrow> Rid \<Rightarrow> (rm_state, int) prog" where
  "scan_page hdr rid =
     bind (fetch_page_handle (rid_page_no rid)) (\<lambda>ph.
     bind (on_bpm (scan_bitmap (\<lambda>bm. next_bit True bm (num_records_per_page hdr) (rid_slot_no rid)) ph
                     (num_records_per_page hdr))) (\<lambda>slot_no.
     bind (on_bpm (unpin_frame (ph_page ph) False)) (\<lambda>_. ret slot_no)))"

definition RM_END :: Rid where
  "RM_END = \<lparr>rid_page_no = RM_NO_PAGE, rid_slot_no = -1\<rparr>"

function next_loop :: "RmFileHdr \<Rightarrow> Rid \<Rightarrow> (rm_state, Rid) prog" where
  "next_loop hdr rid s =
     (if rid_page_no rid < num_pages hdr
      then (case scan_page hdr rid s of
              (Inl e, s1) \<Rightarrow> (Inl e, s1)
            | (Inr slot_no, s1) \<Rightarrow>
                if slot_no < num_records_per_page hdr then (Inr (rid\<lparr>rid_slot_no := slot_no\<rparr>), s1)
                else next_loop hdr \<lparr>rid_page_no = rid_page_no rid + 1, rid_slot_no = -1\<rparr> s1)
      else (Inr RM_END, s))"
  by pat_completeness auto
termination by (relation "measure (\<lambda>(hdr, rid, s). nat (num_pages hdr - rid_page_no rid))") auto

declare next_loop.simps [simp del]

definition RmScan_next :: "Rid \<Rightarrow> (rm_state, Rid) prog" where
  "RmScan_next rid s = next_loop (rm_hdr s) rid s"

definition RmScan_init :: "(rm_state, Rid) prog" where
  "RmScan_init s =
     (if RM_FIRST_RECORD_PAGE \<ge> num_pages (rm_hdr s) then (Inr RM_END, s)
      else RmScan_next \<lparr>rid_page_no = RM_FIRST_RECORD_PAGE, rid_slot_no = -1\<rparr> s)"

definition RmScan_is_end :: "Rid \<Rightarrow> bool" where
  "RmScan_is_end rid \<longleftrightarrow> rid_page_no rid = RM_NO_PAGE"

text \<open>The loop of a client that visits every record; \<open>None\<close> when the fuel runs out.\<close>

fun scan_rest :: "nat \<Rightarrow> Rid \<Rightarrow> rm_state \<Rightarrow> ((fault + Rid list) \<times> rm_state) option" where
  "scan_rest 0 rid s = None"
| "scan_rest (Suc n) rid s =
     (if RmScan_is_end rid then Some (Inr [], s)
      else case RmScan_next rid s of
             (Inl e, s1) \<Rightarrow> Some (Inl e, s1)
           | (Inr rid1, s1) \<Rightarrow>
               (case scan_rest n rid1 s1 of
                  Some (Inr rids, s2) \<Rightarrow> Some (Inr (rid # rids), s2)
                | r \<Rightarrow> r))"

definition scan_all :: "nat \<Rightarrow> rm_state \<Rightarrow> ((fault + Rid list) \<times> rm_state) option" where
  "scan_all n s =
     (case RmScan_init s of
        (Inl e, s1) \<Rightarrow> Some (Inl e, s1)
      | (Inr rid, s1) \<Rightarrow> scan_rest n rid s1)"

section \<open>The order of a scan\<close>

definition bits_from :: "bytes \<Rightarrow> int \<Rightarrow> int \<Rightarrow> int list" where
  "bits_from bm n i = filter (is_set bm) [i..n - 1]"

definition slots_from :: "RmFileHdr \<Rightarrow> (int \<Rightarrow> bytes) \<Rightarrow> int \<Rightarrow> int \<Rightarrow> Rid list" where
  "slots_from h P p i = map (\<lambda>k. \<lparr>rid_page_no = p, rid_slot_no = k\<rparr>) (bits_from (p_bm (P p)) (num_records_per_page h) i)"

definition pages_from :: "RmFileHdr \<Rightarrow> (int \<Rightarrow> bytes) \<Rightarrow> int \<Rightarrow> Rid list" where
  "pages_from h P p = concat (map (\<lambda>q. slots_from h P q 0) [p..num_pages h - 1])"

definition rids_after :: "RmFileHdr \<Rightarrow> (int \<Rightarrow> bytes) \<Rightarrow> Rid \<Rightarrow> Rid list" where
  "rids_after h P rid = slots_from h P (rid_page_no rid) (rid_slot_no rid + 1) @ pages_from h P (rid_page_no rid + 1)"

lemma bits_from_next:
  "bits_from bm n i = (let k = next_from True bm n i in if k < n then k # bits_from bm n (k + 1) else [])"
proof (induction "True" bm n i rule: next_from.induct)
  case (1 bm n i)
  show ?case
  proof (cases "i < n")
    case True
    then have "bits_from bm n i = (if is_set bm i then i # bits_from bm n (i + 1) else bits_from bm n (i + 1))"
      by (simp add: bits_from_def upto_rec1 [of i "n - 1"])
    with 1 [OF True] True show ?thesis by (simp add: next_from.simps [of True bm n i])
  qed (simp add: next_from.simps bits_from_def)
qed

lemma pages_from_step: "p < num_pages h \<Longrightarrow> pages_from h P p = slots_from h P p 0 @ pages_from h P (p + 1)"
  by (simp add: pages_from_def upto_rec1 [of p "num_pages h - 1"])

lemma pages_from_empty: "num_pages h \<le> p \<Longrightarrow> pages_from h P p = []"
  by (simp add: pages_from_def)

lemma set_bits_from: "set (bits_from bm n i) = {k. i \<le> k \<and> k < n \<and> is_set bm k}"
  by (auto simp: bits_from_def)

lemma set_pages_from: "set (pages_from h P 1) = dom (recs h P)"
proof (intro set_eqI)
  fix x :: Rid
  have "x = \<lparr>rid_page_no = p, rid_slot_no = k\<rparr> \<longleftrightarrow> rid_page_no x = p \<and> rid_slot_no x = k" for p k
    by (metis Rid.select_convs rid_collapse)
  then show "x \<in> set (pages_from h P 1) \<longleftrightarrow> x \<in> dom (recs h P)"
    by (auto simp: pages_from_def slots_from_def set_bits_from recs_def data_page_def used_def ones_def image_iff dom_def
        RM_FIRST_RECORD_PAGE_def)
qed

text \<open>The order of record identifiers: by page, then by slot.\<close>

definition rid_less :: "Rid \<Rightarrow> Rid \<Rightarrow> bool" where
  "rid_less a b \<longleftrightarrow> rid_page_no a < rid_page_no b \<or> rid_page_no a = rid_page_no b \<and> rid_slot_no a < rid_slot_no b"

lemma sorted_pages_from: "sorted_wrt rid_less (pages_from h P p)"
proof (induction "nat (num_pages h - p)" arbitrary: p)
  case 0
  then show ?case by (simp add: pages_from_empty)
next
  case (Suc n)
  then have p: "p < num_pages h" and ih: "sorted_wrt rid_less (pages_from h P (p + 1))" by simp_all
  have "sorted_wrt (<) (bits_from bm m i)" for bm m i
    unfolding bits_from_def using sorted_wrt_upto [of i "m - 1"] by (rule sorted_wrt_filter)
  then have "sorted_wrt rid_less (slots_from h P p 0)"
    by (simp add: slots_from_def sorted_wrt_map rid_less_def)
  moreover have "rid_less a b" if "a \<in> set (slots_from h P p 0)" "b \<in> set (pages_from h P (p + 1))" for a b
    using that by (auto simp: slots_from_def pages_from_def rid_less_def)
  ultimately show ?case using ih by (simp add: pages_from_step [OF p] sorted_wrt_append)
qed

lemma distinct_pages_from: "distinct (pages_from h P p)"
proof -
  have "\<not> rid_less x x" for x by (simp add: rid_less_def)
  then show ?thesis using sorted_pages_from [of h P p]
    by (metis distinct_conv_nth linorder_neqE_nat sorted_wrt_iff_nth_less)
qed

definition rest_of :: "rm_state \<Rightarrow> Rid \<Rightarrow> Rid list" where
  "rest_of s rid = (if rid_page_no rid < num_pages (rm_hdr s) then rids_after (rm_hdr s) (rm_pages s) rid else [])"

lemma rest_of_next:
  assumes "rid_page_no rid < num_pages (rm_hdr s)"
  defines "k \<equiv> next_bit True (p_bm (rm_pages s (rid_page_no rid))) (num_records_per_page (rm_hdr s)) (rid_slot_no rid)"
  shows "rest_of s rid =
    (if k < num_records_per_page (rm_hdr s) then rid\<lparr>rid_slot_no := k\<rparr> # rest_of s (rid\<lparr>rid_slot_no := k\<rparr>)
     else rest_of s \<lparr>rid_page_no = rid_page_no rid + 1, rid_slot_no = -1\<rparr>)"
proof -
  have r: "\<lparr>rid_page_no = rid_page_no rid, rid_slot_no = k\<rparr> = rid\<lparr>rid_slot_no := k\<rparr>"
    by (rule Rid.equality) simp_all
  show ?thesis
    using assms(1) bits_from_next [of "p_bm (rm_pages s (rid_page_no rid))" "num_records_per_page (rm_hdr s)" "rid_slot_no rid + 1"]
    by (auto simp: rest_of_def rids_after_def slots_from_def Let_def k_def next_bit_def r [unfolded k_def next_bit_def]
        pages_from_step pages_from_empty)
qed

section \<open>The scan follows the order\<close>

text \<open>Reading a page changes nothing that the records depend on.\<close>

definition same_file :: "rm_state \<Rightarrow> rm_state \<Rightarrow> bool" where
  "same_file s s' \<longleftrightarrow> rm_inv s' \<and> rm_fh s' = rm_fh s \<and> (\<forall>q. data_page (rm_hdr s) q \<longrightarrow> rm_pages s' q = rm_pages s q)"

lemma same_fileD:
  assumes "same_file s s'"
  shows "rm_inv s'" "rm_hdr s' = rm_hdr s" "records s' = records s" "rm_fh s' = rm_fh s"
proof -
  from assms show h: "rm_hdr s' = rm_hdr s" "rm_inv s'" "rm_fh s' = rm_fh s" by (simp_all add: same_file_def rm_hdr_def)
  show "records s' = records s" unfolding records_def h using assms by (intro recs_cong) (simp add: same_file_def)
qed

lemma same_file_trans: "same_file s s1 \<Longrightarrow> same_file s1 s2 \<Longrightarrow> same_file s s2"
  by (simp add: same_file_def rm_hdr_def)

lemma rest_of_same:
  assumes "same_file s s'" "1 \<le> rid_page_no rid"
  shows "rest_of s' rid = rest_of s rid"
proof -
  have "rm_pages s' q = rm_pages s q" if "1 \<le> q" "q < num_pages (rm_hdr s)" for q
    using assms(1) that by (simp add: same_file_def data_page_def RM_FIRST_RECORD_PAGE_def)
  then have "slots_from (rm_hdr s) (rm_pages s') q i = slots_from (rm_hdr s) (rm_pages s) q i"
    if "1 \<le> q" "q < num_pages (rm_hdr s)" for q i using that by (simp add: slots_from_def)
  then show ?thesis
    using assms(2) same_fileD(2) [OF assms(1)]
    by (auto simp: rest_of_def rids_after_def pages_from_def intro!: arg_cong [where f = concat] map_cong)
qed

lemma scan_page_ok:
  assumes "rm_inv s" "data_page (rm_hdr s) (rid_page_no rid)"
  shows "\<exists>s'. scan_page (rm_hdr s) rid s =
      (Inr (next_bit True (p_bm (rm_pages s (rid_page_no rid))) (num_records_per_page (rm_hdr s)) (rid_slot_no rid)), s') \<and>
    same_file s s'"
proof -
  note inv = rm_invD [OF assms(1)]
  let ?p = "rid_page_no rid" and ?h = "rm_hdr s"
  note hdr = hdr_okD [OF file_okD(1) [OF inv(2)]]
  have len: "length (rm_pages s ?p) = 4096" using file_okD(4) [OF inv(2) assms(2)] .
  from visit_read [OF inv(1) inv(8) [OF assms(2)]] obtain f b1 b2 where
    F: "FetchPage (rm_pid s ?p) (rm_bpm s) = (Inr (Some f), b1)" "page_data f b1 = rm_pages s ?p" "pg_id (pages b1 f) = rm_pid s ?p"
    "UnpinPage (rm_pid s ?p) False b1 = (True, b2)" and v: "quiet b2" "disk_env b2 = disk_env (rm_bpm s)"
    "dom (page_table b2) \<subseteq> insert (rm_pid s ?p) (dom (page_table (rm_bpm s)))"
    "\<forall>q c. logical (rm_bpm s) q = Some c \<longrightarrow> logical b2 q = Some c" by blast
  have "num_records_per_page ?h \<le> 8 * int (length (p_bm (rm_pages s ?p)))"
    using hdr pg_lengths(4) [OF len] by simp
  then have "scan_page ?h rid s = (Inr (next_bit True (p_bm (rm_pages s ?p)) (num_records_per_page ?h) (rid_slot_no rid)), s\<lparr>rm_bpm := b2\<rparr>)"
    by (simp add: scan_page_def fetch_page_handle_eq [OF F(1)] scan_bitmap_def load_bitmap_eq [OF F(2)] unpin_frame_eq [OF F(3,4)] ret_def)
  moreover have "logical b2 (rm_pid s ?p) = Some (rm_pages s ?p)" using v(4) inv(8) [OF assms(2)] by blast
  moreover have "file_ok ?h ((rm_pages s)(?p := rm_pages s ?p))" using inv(2) by simp
  ultimately have i: "rm_inv (s\<lparr>rm_bpm := b2\<rparr>)"
    using rm_visit(1) [OF assms(1) v(1-3) _ _ assms(2), of "rm_pages s ?p" ?h] v(4) by (simp add: same_hdr [symmetric])
  have "rm_pages (s\<lparr>rm_bpm := b2\<rparr>) q = rm_pages s q" if "data_page ?h q" for q
    using inv(8) [OF that] v(4) by (simp add: rm_pages_def)
  then have "same_file s (s\<lparr>rm_bpm := b2\<rparr>)" using i by (simp add: same_file_def)
  with \<open>scan_page ?h rid s = _\<close> show ?thesis by blast
qed

lemma next_loop_ok:
  assumes "rm_inv s" "hdr = rm_hdr s" "1 \<le> rid_page_no rid"
  shows "\<exists>s'. next_loop hdr rid s = (Inr (case rest_of s rid of [] \<Rightarrow> RM_END | r # rs \<Rightarrow> r), s') \<and> same_file s s' \<and>
    (\<forall>r rs. rest_of s rid = r # rs \<longrightarrow> 1 \<le> rid_page_no r \<and> rest_of s r = rs)"
  using assms
proof (induction hdr rid s rule: next_loop.induct)
  case (1 hdr rid s)
  let ?k = "next_bit True (p_bm (rm_pages s (rid_page_no rid))) (num_records_per_page hdr) (rid_slot_no rid)"
  show ?case
  proof (cases "rid_page_no rid < num_pages hdr")
    case True
    note lt = True [unfolded 1(3)]
    have "data_page (rm_hdr s) (rid_page_no rid)" using 1(4) lt by (simp add: data_page_def RM_FIRST_RECORD_PAGE_def)
    from scan_page_ok [OF 1(2) this] obtain s1 where s1: "scan_page hdr rid s = (Inr ?k, s1)" "same_file s s1"
      unfolding 1(3) by blast
    show ?thesis
    proof (cases "?k < num_records_per_page hdr")
      case k: True
      then have "rest_of s rid = rid\<lparr>rid_slot_no := ?k\<rparr> # rest_of s (rid\<lparr>rid_slot_no := ?k\<rparr>)"
        using rest_of_next [OF lt] by (simp add: 1(3))
      moreover have "next_loop hdr rid s = (Inr (rid\<lparr>rid_slot_no := ?k\<rparr>), s1)"
        using s1(1) True k by (simp add: next_loop.simps [of hdr rid s])
      ultimately show ?thesis using s1(2) 1(4) by simp
    next
      case k: False
      let ?r = "\<lparr>rid_page_no = rid_page_no rid + 1, rid_slot_no = -1\<rparr>"
      have p: "hdr = rm_hdr s1" "1 \<le> rid_page_no ?r" using same_fileD(2) [OF s1(2)] 1(3,4) by simp_all
      have eq: "rest_of s1 ?r = rest_of s rid"
        using rest_of_same [OF s1(2) p(2)] rest_of_next [OF lt] k by (simp add: 1(3))
      from 1(1) [OF True s1(1) [symmetric] refl k same_fileD(1) [OF s1(2)] p] obtain s2 where
        s2: "next_loop hdr ?r s1 = (Inr (case rest_of s rid of [] \<Rightarrow> RM_END | r # rs \<Rightarrow> r), s2)" "same_file s1 s2"
        and rs: "\<forall>r rs. rest_of s rid = r # rs \<longrightarrow> 1 \<le> rid_page_no r \<and> rest_of s1 r = rs"
        unfolding eq by blast
      have "next_loop hdr rid s = next_loop hdr ?r s1"
        using s1(1) True k by (simp add: next_loop.simps [of hdr rid s])
      moreover have "\<forall>r rs. rest_of s rid = r # rs \<longrightarrow> 1 \<le> rid_page_no r \<and> rest_of s r = rs"
        using rs rest_of_same [OF s1(2)] by metis
      ultimately show ?thesis using s2(1) same_file_trans [OF s1(2) s2(2)] by metis
    qed
  next
    case False
    then show ?thesis using 1(2-4) by (auto simp: next_loop.simps [of "rm_hdr s" rid s] rest_of_def same_file_def)
  qed
qed

lemma next_position:
  assumes "\<forall>r rs. L = r # rs \<longrightarrow> 1 \<le> rid_page_no r \<and> rest_of s r = rs" "same_file s s1"
  shows "L = (if (case L of [] \<Rightarrow> RM_END | r # rs \<Rightarrow> r) = RM_END then []
              else (case L of [] \<Rightarrow> RM_END | r # rs \<Rightarrow> r) # rest_of s1 (case L of [] \<Rightarrow> RM_END | r # rs \<Rightarrow> r))"
    and "(case L of [] \<Rightarrow> RM_END | r # rs \<Rightarrow> r) = RM_END \<or> 1 \<le> rid_page_no (case L of [] \<Rightarrow> RM_END | r # rs \<Rightarrow> r)"
proof -
  have "r \<noteq> RM_END" if "1 \<le> rid_page_no r" for r using that by (auto simp: RM_END_def RM_NO_PAGE_def)
  moreover have "1 \<le> rid_page_no r \<and> rest_of s1 r = rs" if "L = r # rs" for r rs
    using that assms rest_of_same [OF assms(2)] by metis
  ultimately show "L = (if (case L of [] \<Rightarrow> RM_END | r # rs \<Rightarrow> r) = RM_END then []
              else (case L of [] \<Rightarrow> RM_END | r # rs \<Rightarrow> r) # rest_of s1 (case L of [] \<Rightarrow> RM_END | r # rs \<Rightarrow> r))"
    "(case L of [] \<Rightarrow> RM_END | r # rs \<Rightarrow> r) = RM_END \<or> 1 \<le> rid_page_no (case L of [] \<Rightarrow> RM_END | r # rs \<Rightarrow> r)"
    by (cases L; simp)+
qed

text \<open>From a position of the scan, the loop returns what is left from that position on.\<close>

lemma scan_rest_ok:
  assumes "rm_inv s" "L = (if rid = RM_END then [] else rid # rest_of s rid)" "rid = RM_END \<or> 1 \<le> rid_page_no rid" "length L < n"
  shows "\<exists>s'. scan_rest n rid s = Some (Inr L, s') \<and> same_file s s'"
  using assms
proof (induction n arbitrary: rid s L)
  case 0
  then show ?case by simp
next
  case (Suc n)
  show ?case
  proof (cases "rid = RM_END")
    case True
    then show ?thesis using Suc.prems by (simp add: RmScan_is_end_def RM_END_def same_file_def)
  next
    case False
    with Suc.prems have p: "1 \<le> rid_page_no rid" and L: "L = rid # rest_of s rid" by auto
    let ?r = "case rest_of s rid of [] \<Rightarrow> RM_END | r # rs \<Rightarrow> r"
    from next_loop_ok [OF Suc.prems(1) refl p] obtain s1 where
      s1: "next_loop (rm_hdr s) rid s = (Inr ?r, s1)" "same_file s s1"
      "\<forall>r rs. rest_of s rid = r # rs \<longrightarrow> 1 \<le> rid_page_no r \<and> rest_of s r = rs" by blast
    note eq = next_position [OF s1(3,2)]
    have "length (rest_of s rid) < n" using Suc.prems(4) L by simp
    from Suc.IH [OF same_fileD(1) [OF s1(2)] eq this] obtain s2 where
      s2: "scan_rest n ?r s1 = Some (Inr (rest_of s rid), s2)" "same_file s1 s2" by blast
    have "scan_rest (Suc n) rid s = Some (Inr L, s2)"
      using s1(1) s2(1) p L by (simp add: RmScan_is_end_def RmScan_next_def RM_NO_PAGE_def)
    with same_file_trans [OF s1(2) s2(2)] show ?thesis by blast
  qed
qed

lemma scan_all_ok:
  assumes "rm_inv s" "card (dom (records s)) < n"
  shows "\<exists>s'. scan_all n s = Some (Inr (pages_from (rm_hdr s) (rm_pages s) 1), s') \<and> same_file s s'"
proof -
  let ?L = "pages_from (rm_hdr s) (rm_pages s) 1"
  have card: "length ?L < n"
    using assms(2) distinct_card [OF distinct_pages_from, of "rm_hdr s" "rm_pages s" 1]
    by (simp add: set_pages_from records_def)
  let ?first = "\<lparr>rid_page_no = RM_FIRST_RECORD_PAGE, rid_slot_no = -1\<rparr>"
  show ?thesis
  proof (cases "RM_FIRST_RECORD_PAGE \<ge> num_pages (rm_hdr s)")
    case True
    then have "?L = []" by (intro pages_from_empty) (simp add: RM_FIRST_RECORD_PAGE_def)
    with scan_rest_ok [OF assms(1), of "[]" RM_END n] card True show ?thesis by (simp add: scan_all_def RmScan_init_def)
  next
    case False
    have L: "rest_of s ?first = ?L"
      using False by (simp add: rest_of_def rids_after_def RM_FIRST_RECORD_PAGE_def pages_from_step [of 1])
    let ?r = "case ?L of [] \<Rightarrow> RM_END | r # rs \<Rightarrow> r"
    have "1 \<le> rid_page_no ?first" by (simp add: RM_FIRST_RECORD_PAGE_def)
    from next_loop_ok [OF assms(1) refl this] obtain s1 where
      s1: "next_loop (rm_hdr s) ?first s = (Inr ?r, s1)" "same_file s s1"
      "\<forall>r rs. ?L = r # rs \<longrightarrow> 1 \<le> rid_page_no r \<and> rest_of s r = rs" unfolding L by blast
    from scan_rest_ok [OF same_fileD(1) [OF s1(2)] next_position [OF s1(3,2)] card] obtain s2 where
      s2: "scan_rest n ?r s1 = Some (Inr ?L, s2)" "same_file s1 s2" by blast
    have "scan_all n s = Some (Inr ?L, s2)" using s1(1) s2(1) False by (simp add: scan_all_def RmScan_init_def RmScan_next_def)
    with same_file_trans [OF s1(2) s2(2)] show ?thesis by blast
  qed
qed


section \<open>A fresh record file\<close>

text \<open>Creating a file and opening it: the handle, the invariant, and no record.\<close>

lemma create_open_ok:
  assumes q: "quiet b" and rs: "1 \<le> rs" "rs \<le> 512" and n: "os_files (dm_os (disk_manager b)) name = None"
    "name \<notin> os_dirs (dm_os (disk_manager b))" and fd: "os_new_fd (dm_os (disk_manager b)) = Some fd" "fd < MAX_FD"
    and nores: "\<And>pid. pid \<in> dom (page_table b) \<Longrightarrow> pid_fd pid \<noteq> fd"
  shows "\<exists>b'. bind (Rm_create_file name rs) (\<lambda>_. Rm_open_file name) b = (Inr \<lparr>rfh_fd = fd, file_hdr = new_file_hdr rs\<rparr>, b') \<and>
    rm_inv \<lparr>rm_bpm = b', rm_fh = \<lparr>rfh_fd = fd, file_hdr = new_file_hdr rs\<rparr>\<rparr> \<and>
    records \<lparr>rm_bpm = b', rm_fh = \<lparr>rfh_fd = fd, file_hdr = new_file_hdr rs\<rparr>\<rparr> = Map.empty"
proof -
  let ?d = "disk_manager b" and ?h = "new_file_hdr rs"
  let ?d1 = "add_file name (hdr_bytes ?h) ?d"
  have inv: "disk_inv ?d" using bp_invD(1) [OF bp_okD(1) [OF quiet_ok [OF q]]] .
  have pn: "path2fd ?d name = None" using disk_invD(3) [OF inv, of name] n(1) by (cases "path2fd ?d name") auto
  have inv1: "disk_inv ?d1" using inv by (auto simp: disk_inv_def add_file_def os_fd_path_def fun_eq_iff)
  have c: "Rm_create_file name rs b = (Inr (), b\<lparr>disk_manager := ?d1\<rparr>)" by (rule Rm_create_file_eq [OF inv rs n fd(1)])
  have hb: "hdr_of_bytes (rd 0 20 (hdr_bytes ?h)) = ?h"
    using new_hdr_in32 [OF rs] by (simp add: hdr_bytes_length)
  have p: "os_files (dm_os ?d1) name = Some (hdr_bytes ?h)" "path2fd ?d1 name = None" "os_new_fd (dm_os ?d1) = Some fd"
    using pn fd(1) by (simp_all add: add_file_def os_new_fd_def)
  note op = Rm_open_file_eq [of "b\<lparr>disk_manager := ?d1\<rparr>" name "hdr_bytes ?h" fd, simplified hb]
  have "disk_inv (disk_manager (b\<lparr>disk_manager := ?d1\<rparr>))" "20 \<le> length (hdr_bytes ?h)" using inv1 by (simp_all add: hdr_bytes_length)
  with op p fd(2) obtain d' where
    o: "Rm_open_file name (b\<lparr>disk_manager := ?d1\<rparr>) = (Inr \<lparr>rfh_fd = fd, file_hdr = ?h\<rparr>, b\<lparr>disk_manager := d'\<rparr>)"
    "disk_inv d'" "dm_open d' fd" "fd2pageno d' fd = num_pages ?h"
    "\<forall>fd'. fd' \<noteq> fd \<longrightarrow> dm_open d' fd' = dm_open ?d1 fd' \<and> (\<forall>no. page_content d' fd' no = page_content ?d1 fd' no)"
    by (force simp: hb)
  have oth: "page_content ?d1 fd' no = page_content ?d fd' no" for fd' no
  proof (rule page_content_other)
    fix k assume "os_fds (dm_os ?d) fd' = Some k"
    then have "path2fd ?d (fd_path k) = Some fd'" using disk_invD(1,2) [OF inv, of fd'] by (metis os_fd_path_def option.map(2))
    with pn have "fd_path k \<noteq> name" by auto
    then show "os_files (dm_os ?d1) (fd_path k) = os_files (dm_os ?d) (fd_path k)" by (simp add: add_file_def)
  qed (simp add: add_file_def)
  have "bp_ok {} (b\<lparr>disk_manager := d'\<rparr>)"
    using o(5) nores by (intro bp_ok_disk [OF quiet_ok [OF q] o(2)]) (simp add: oth, simp add: dm_open_def add_file_def)
  then have "quiet (b\<lparr>disk_manager := d'\<rparr>)"
    using q by (simp add: quiet_def pins_def fun_eq_iff cong: option.case_cong)
  moreover have "0 \<le> fd" using os_new_fd_None [OF fd(1)] by simp
  moreover have np: "num_pages ?h = 1" "first_free_page_no ?h = RM_NO_PAGE" by (simp_all add: new_file_hdr_def Let_def)
  then have nd: "\<not> data_page ?h p" for p by (simp add: data_page_def RM_FIRST_RECORD_PAGE_def)
  then have "file_ok ?h P" for P
    using hdr_ok_new [OF rs] np by (simp add: file_ok_def exI [of _ "[]"])
  moreover have "page_table b pid = None" if "pid_fd pid = fd" for pid using nores [of pid] that by (cases "page_table b pid") auto
  ultimately have "rm_inv \<lparr>rm_bpm = b\<lparr>disk_manager := d'\<rparr>, rm_fh = \<lparr>rfh_fd = fd, file_hdr = ?h\<rparr>\<rparr>"
    using o(3,4) fd(2) np nd by (simp add: rm_inv_def rm_hdr_def rm_pid_def)
  moreover have "records \<lparr>rm_bpm = b\<lparr>disk_manager := d'\<rparr>, rm_fh = \<lparr>rfh_fd = fd, file_hdr = ?h\<rparr>\<rparr> = Map.empty"
    using nd by (simp add: records_def recs_def rm_hdr_def fun_eq_iff)
  ultimately show ?thesis using c o(1) by (intro exI [of _ "b\<lparr>disk_manager := d'\<rparr>"]) simp
qed


section \<open>Sequences of operations\<close>

text \<open>
  The specification: a partial map from record identifiers to bytes. An insertion may choose any
  identifier that is not in use; the other operations are for identifiers in use.
\<close>

datatype rm_op = OpInsert bytes | OpGet Rid | OpDelete Rid | OpUpdate Rid bytes
datatype rm_out = OutRid Rid | OutRecord bytes | OutUnit

inductive spec_step :: "(Rid \<Rightarrow> bytes option) \<Rightarrow> rm_op \<Rightarrow> rm_out \<Rightarrow> (Rid \<Rightarrow> bytes option) \<Rightarrow> bool" where
  spec_insert: "m rid = None \<Longrightarrow> spec_step m (OpInsert bs) (OutRid rid) (m(rid \<mapsto> bs))"
| spec_get: "m rid = Some bs \<Longrightarrow> spec_step m (OpGet rid) (OutRecord bs) m"
| spec_delete: "m rid = Some bs \<Longrightarrow> spec_step m (OpDelete rid) OutUnit (m(rid := None))"
| spec_update: "m rid = Some bs0 \<Longrightarrow> spec_step m (OpUpdate rid bs) OutUnit (m(rid \<mapsto> bs))"

inductive_simps spec_step_simps:
  "spec_step m (OpInsert bs) out m'" "spec_step m (OpGet rid) out m'"
  "spec_step m (OpDelete rid) out m'" "spec_step m (OpUpdate rid bs) out m'"

text \<open>The program: one call, and the calls a client may make.\<close>

fun exec_op :: "rm_op \<Rightarrow> (rm_state, rm_out) prog" where
  "exec_op (OpInsert bs) = bind (insert_record bs) (\<lambda>rid. ret (OutRid rid))"
| "exec_op (OpGet rid) = bind (get_record rid) (\<lambda>r. ret (OutRecord (rec_data r)))"
| "exec_op (OpDelete rid) = bind (delete_record rid) (\<lambda>_. ret OutUnit)"
| "exec_op (OpUpdate rid bs) = bind (update_record rid bs) (\<lambda>_. ret OutUnit)"

fun op_allowed :: "rm_op \<Rightarrow> rm_state \<Rightarrow> bool" where
  "op_allowed (OpInsert bs) s \<longleftrightarrow> length bs = nat (record_size (rm_hdr s)) \<and> num_pages (rm_hdr s) + 1 < 2 ^ 31"
| "op_allowed (OpGet rid) s \<longleftrightarrow> rid \<in> dom (records s)"
| "op_allowed (OpDelete rid) s \<longleftrightarrow> rid \<in> dom (records s)"
| "op_allowed (OpUpdate rid bs) s \<longleftrightarrow> rid \<in> dom (records s) \<and> length bs = nat (record_size (rm_hdr s))"

lemma exec_op_refines:
  assumes "rm_inv s" "op_allowed op s"
  shows "\<exists>out s'. exec_op op s = (Inr out, s') \<and> rm_inv s' \<and> spec_step (records s) op out (records s')"
proof (cases op)
  case (OpInsert bs)
  with assms(2) rm.ins_ok [OF assms(1), of bs] obtain rid s' where "insert_record bs s = (Inr rid, s')" "rm_inv s'"
    "records s rid = None" "records s' = (records s)(rid \<mapsto> bs)" by auto
  then show ?thesis by (auto simp: OpInsert ret_def spec_step_simps)
next
  case (OpGet rid)
  with assms(2) obtain bs where bs: "records s rid = Some bs" by auto
  from rm.get_ok [OF assms(1) this] obtain r s' where "get_record rid s = (Inr r, s')" "rm_inv s'" "rec_data r = bs"
    "records s' = records s" by blast
  then show ?thesis using bs by (auto simp: OpGet ret_def spec_step_simps)
next
  case (OpDelete rid)
  with assms(2) obtain bs where bs: "records s rid = Some bs" by auto
  from rm.del_ok [OF assms(1) this] obtain s' where "delete_record rid s = (Inr (), s')" "rm_inv s'"
    "records s' = (records s)(rid := None)" by blast
  then show ?thesis using bs by (auto simp: OpDelete ret_def spec_step_simps)
next
  case (OpUpdate rid bs')
  with assms(2) obtain bs where bs: "records s rid = Some bs" and l: "length bs' = nat (record_size (rm_hdr s))" by auto
  from rm.upd_ok [OF assms(1) this] obtain s' where "update_record rid bs' s = (Inr (), s')" "rm_inv s'"
    "records s' = (records s)(rid \<mapsto> bs')" by blast
  then show ?thesis using bs by (auto simp: OpUpdate ret_def spec_step_simps)
qed

interpretation rm_sim: simulation exec_op op_allowed spec_step records rm_inv
  by unfold_locales (rule exec_op_refines)

section \<open>Properties\<close>

text \<open>A record file of four-byte records in the system of the examples.\<close>

lemma demo_records: "\<exists>s. rm_inv s \<and> records s = Map.empty \<and> record_size (rm_hdr s) = 4 \<and> num_pages (rm_hdr s) = 1"
proof -
  have "quiet demo_pool" using demo_pool_ok by (simp add: quiet_def)
  moreover have "os_files (dm_os (disk_manager demo_pool)) ''r'' = None" "''r'' \<notin> os_dirs (dm_os (disk_manager demo_pool))"
    "os_new_fd (dm_os (disk_manager demo_pool)) = Some 4" "page_table demo_pool = Map.empty"
    by (simp_all add: demo_pool_def BufferPoolManager_init_def demo_disk_def demo_os_def os_new_fd_def next_fd.simps LOG_FILE_NAME_def)
  ultimately show ?thesis
    using create_open_ok [of demo_pool 4 "''r''" 4] by (fastforce simp: rm_hdr_def new_file_hdr_eqs MAX_FD_def)
qed

text \<open>
  C2. A record file is a map from record identifiers to records. Take a file in good state and any
  sequence of inserts, reads, deletions and updates, each for a record that exists at that point (an
  insert for a record of the right size), through a buffer pool of any size: every call returns, no
  call throws, and the answers and the final content are those of the map, where an insert picks an
  identifier that is not in use. Every further call that is allowed returns too.
\<close>

theorem record_file_refines_map:
  assumes "rm_inv s" "runs exec_op op_allowed s tr s'"
  shows "rm_inv s' \<and> spec_runs spec_step (records s) tr (records s') \<and>
    (\<forall>op. op_allowed op s' \<longrightarrow> (\<exists>out s''. exec_op op s' = (Inr out, s'') \<and> spec_step (records s') op out (records s'')))"
  by (rule rm_sim.refines [OF assms])

theorem record_file_refines_map_witness:
  "\<exists>s rid s1 s2. rm_inv s \<and> runs exec_op op_allowed s [(OpInsert [1, 2, 3, 4], Inr (OutRid rid)), (OpGet rid, Inr (OutRecord [1, 2, 3, 4]))] s2 \<and>
     spec_runs spec_step (records s) [(OpInsert [1, 2, 3, 4], Inr (OutRid rid)), (OpGet rid, Inr (OutRecord [1, 2, 3, 4]))] (records s2) \<and>
     records s2 = [rid \<mapsto> [1, 2, 3, 4]]"
proof -
  from demo_records obtain s where s: "rm_inv s" "records s = Map.empty" "record_size (rm_hdr s) = 4" "num_pages (rm_hdr s) = 1" by blast
  then have a: "op_allowed (OpInsert [1, 2, 3, 4]) s" by simp
  from exec_op_refines [OF s(1) this] s(2) obtain rid s1 where
    1: "exec_op (OpInsert [1, 2, 3, 4]) s = (Inr (OutRid rid), s1)" "rm_inv s1" "records s1 = [rid \<mapsto> [1, 2, 3, 4]]"
    by (auto simp: spec_step_simps)
  then have b: "op_allowed (OpGet rid) s1" by simp
  from exec_op_refines [OF 1(2) this] 1(3) obtain s2 where
    2: "exec_op (OpGet rid) s1 = (Inr (OutRecord [1, 2, 3, 4]), s2)" "records s2 = [rid \<mapsto> [1, 2, 3, 4]]"
    by (auto simp: spec_step_simps)
  have "runs exec_op op_allowed s [(OpInsert [1, 2, 3, 4], Inr (OutRid rid)), (OpGet rid, Inr (OutRecord [1, 2, 3, 4]))] s2"
    by (rule runs_step [where exec = exec_op and allowed = op_allowed, OF a 1(1)], rule runs_step [where exec = exec_op and allowed = op_allowed, OF b 2(1)], rule runs_done)
  from record_file_refines_map [OF s(1) this] this s(1) 2(2) show ?thesis by blast
qed

text \<open>
  C10. A scan ends and misses nothing: with a turn for every record the loop over an \<open>RmScan\<close>
  returns the identifiers of all records, each once, ordered by page and slot, and leaves the records
  as they are.
\<close>

theorem scan_enumerates_records:
  assumes "rm_inv s" "card (dom (records s)) < n"
  shows "\<exists>rids s'. scan_all n s = Some (Inr rids, s') \<and> set rids = dom (records s) \<and> distinct rids \<and>
    sorted_wrt rid_less rids \<and> rm_inv s' \<and> records s' = records s"
proof -
  from scan_all_ok [OF assms] obtain s' where
    "scan_all n s = Some (Inr (pages_from (rm_hdr s) (rm_pages s) 1), s')" "same_file s s'" by blast
  then show ?thesis
    using same_fileD [of s s'] by (auto simp: set_pages_from records_def distinct_pages_from sorted_pages_from)
qed

theorem scan_enumerates_records_witness:
  "\<exists>s rid s'. rm_inv s \<and> scan_all 2 s = Some (Inr [rid], s') \<and> records s' = [rid \<mapsto> [1, 2, 3, 4]]"
proof -
  from demo_records obtain s where s: "rm_inv s" "records s = Map.empty" "record_size (rm_hdr s) = 4" "num_pages (rm_hdr s) = 1" by blast
  from rm.ins_ok [OF s(1), of "[1, 2, 3, 4]"] s obtain rid s1 where 1: "rm_inv s1" "records s1 = [rid \<mapsto> [1, 2, 3, 4]]" by auto
  then have "card (dom (records s1)) < 2" by simp
  from scan_enumerates_records [OF 1(1) this] obtain rids s' where
    2: "scan_all 2 s1 = Some (Inr rids, s')" "set rids = {rid}" "distinct rids" "records s' = records s1" using 1(2) by auto
  have "rids = [rid]" using 2(2,3) by (cases rids; cases "tl rids") auto
  with 1 2 show ?thesis by metis
qed

text \<open>
  When a file can be created and opened under the descriptor \<open>fd\<close>: no page is pinned, nothing has the name, \<open>fd\<close> is the descriptor the
  system will give, and the pool has no page left of a file that had this descriptor before.
\<close>

definition can_create :: "BufferPoolManager \<Rightarrow> string \<Rightarrow> int \<Rightarrow> bool" where
  "can_create b name fd \<longleftrightarrow> quiet b \<and> os_files (dm_os (disk_manager b)) name = None \<and> name \<notin> os_dirs (dm_os (disk_manager b)) \<and>
     os_new_fd (dm_os (disk_manager b)) = Some fd \<and> fd < MAX_FD \<and> (\<forall>pid \<in> dom (page_table b). pid_fd pid \<noteq> fd)"

lemma demo_can_create: "name \<notin> {''t'', LOG_FILE_NAME} \<Longrightarrow> can_create demo_pool name 4"
proof -
  assume n: "name \<notin> {''t'', LOG_FILE_NAME}"
  have "quiet demo_pool" using demo_pool_ok by (simp add: quiet_def)
  with n show ?thesis
    by (auto simp: can_create_def demo_pool_def BufferPoolManager_init_def demo_disk_def demo_os_def os_new_fd_def next_fd.simps MAX_FD_def)
qed

text \<open>
  C30. Creating a record file and opening it gives a handle on an empty record file in good state,
  with the layout the creation computed, for every legal record size, whatever other files are open. It takes
  a pool without pinned pages, a new name, a free descriptor, and that no page of a file
  that had this descriptor before is still in the pool; closing a file does not see to the last (C36).
\<close>

theorem create_then_open:
  assumes "can_create b name fd" "1 \<le> rs" "rs \<le> RM_MAX_RECORD_SIZE"
  shows "\<exists>fh b'. bind (Rm_create_file name rs) (\<lambda>_. Rm_open_file name) b = (Inr fh, b') \<and>
    fh = \<lparr>rfh_fd = fd, file_hdr = new_file_hdr rs\<rparr> \<and>
    rm_inv \<lparr>rm_bpm = b', rm_fh = fh\<rparr> \<and> records \<lparr>rm_bpm = b', rm_fh = fh\<rparr> = Map.empty"
  using create_open_ok [of b rs name fd] assms by (auto simp: can_create_def RM_MAX_RECORD_SIZE_def)

theorem create_then_open_witness:
  "\<exists>fh b'. bind (Rm_create_file ''r'' 4) (\<lambda>_. Rm_open_file ''r'') demo_pool = (Inr fh, b') \<and> rfh_fd fh = 4 \<and>
     records \<lparr>rm_bpm = b', rm_fh = fh\<rparr> = Map.empty"
proof -
  have "can_create demo_pool ''r'' 4" by (rule demo_can_create) (simp add: LOG_FILE_NAME_def)
  then show ?thesis using create_then_open [of demo_pool "''r''" 4 4] by (fastforce simp: RM_MAX_RECORD_SIZE_def)
qed

text \<open>
  C36. Closing a record file writes its pages to disk but does not take them out of the pool. When another file is then opened
  and gets the descriptor of the closed one, \<open>FetchPage\<close> serves the pages of the closed file for it: every page that was in the pool
  is handed out with the contents it had, without a call on the disk.
\<close>

theorem closed_file_pages_are_served:
  assumes "bp_reach b" "page_table b pid = Some f" "pid_fd pid = rfh_fd fh"
    and "Rm_close_file fh b = (Inr (), b1)" "open_file name (disk_manager b1) = (Inr (rfh_fd fh), d)"
  shows "\<exists>b2. FetchPage pid (b1\<lparr>disk_manager := d\<rparr>) = (Inr (Some f), b2) \<and> disk_manager b2 = d \<and>
    fd2path d (pid_fd pid) = Some name \<and> pg_data (pages b2 f) = pg_data (pages b f)"
proof -
  note inv = bp_reach_inv [OF assms(1)]
  obtain d1 b0 d2 where w: "write_page (rfh_fd fh) RM_FILE_HDR_PAGE (hdr_bytes (file_hdr fh)) (disk_manager b) = (Inr (), d1)"
    and fl: "FlushAllPages (rfh_fd fh) (b\<lparr>disk_manager := d1\<rparr>) = (Inr (), b0)" and b1: "b1 = b0\<lparr>disk_manager := d2\<rparr>"
    using assms(4) unfolding Rm_close_file_def bind_eq_Inr by (auto simp: on_disk_def split: prod.splits) (metis surj_pair)
  have "disk_inv d1" using dm.write_inv [OF bp_invD(1) [OF inv] w] by simp
  then have "bp_inv (b\<lparr>disk_manager := d1\<rparr>)" using inv by (simp add: bp_inv_disk)
  from FlushAllPages_flushed(1) [OF this fl] have k: "page_table b0 = page_table b" "pg_data (pages b0 f) = pg_data (pages b f)"
    using flushedD(2,8) by fastforce+
  moreover have "fd2path d (pid_fd pid) = Some name"
    using assms(3,5) by (auto simp: open_file_def Let_def split: if_splits prod.splits)
  ultimately show ?thesis using assms(2) b1 by (simp add: FetchPage_hit pin_frame_def upd_page_def)
qed

text \<open>A file with one page in the pool is closed, and the log file is opened. \<open>only_t\<close> is what the calls keep of the disk.\<close>

definition only_t :: "DiskManager \<Rightarrow> bool" where
  "only_t d \<longleftrightarrow> path2fd d = [''t'' \<mapsto> 3] \<and> fd2path d = [3 \<mapsto> ''t''] \<and> (\<exists>h. os_fds (dm_os d) 3 = Some h \<and> fd_path h = ''t'') \<and> (\<forall>fd. fd \<noteq> 3 \<longrightarrow> os_fds (dm_os d) fd = None) \<and>
     (\<exists>bs. os_files (dm_os d) ''t'' = Some bs) \<and> os_files (dm_os d) LOG_FILE_NAME = Some [] \<and> os_dirs (dm_os d) = {} \<and>
     os_reserved (dm_os d) = {0, 1, 2} \<and> os_fd_limit (dm_os d) = 1024"

lemma only_t_demo: "only_t demo_disk"
  by (simp add: only_t_def demo_disk_def demo_os_def LOG_FILE_NAME_def)

lemma only_t_write:
  assumes "only_t d" "0 \<le> no"
  shows "\<exists>d'. write_page 3 no bs d = (Inr (), d') \<and> only_t d'"
proof -
  have "''t'' \<noteq> LOG_FILE_NAME" by (simp add: LOG_FILE_NAME_def)
  moreover have "0 \<le> no * int PAGE_SIZE" using assms(2) by simp
  ultimately show ?thesis using assms(1)
    by (auto simp: only_t_def write_page_def os_lseek_def os_write_def not_less)
qed

lemma only_t_read: "only_t d \<Longrightarrow> read_page 3 no n buf d = (r, buf', d') \<Longrightarrow> only_t d'"
  by (auto simp: only_t_def read_page_def os_lseek_def os_read_def Let_def split: if_splits)

lemma only_t_reopen:
  assumes "only_t d"
  shows "\<exists>d1 d2. close_file 3 d = (Inr (), d1) \<and> open_file LOG_FILE_NAME d1 = (Inr 3, d2)"
proof -
  have e: "(os_fds (dm_os d))(3 := None) = Map.empty" using assms by (auto simp: only_t_def)
  have "os_new_fd ((dm_os d)\<lparr>os_fds := Map.empty\<rparr>) = Some 3"
    using assms by (simp add: only_t_def os_new_fd_def next_fd.simps)
  then show ?thesis using assms
    by (auto simp: e only_t_def close_file_def os_close_def open_file_def is_file_def os_is_file_def os_open_def)
qed

theorem closed_file_pages_are_served_witness:
  "\<exists>f b b1 d b2. FetchPage (demo_pid 0) demo_pool = (Inr (Some f), b) \<and> Rm_close_file \<lparr>rfh_fd = 3, file_hdr = new_file_hdr 4\<rparr> b = (Inr (), b1) \<and>
     open_file LOG_FILE_NAME (disk_manager b1) = (Inr 3, d) \<and> FetchPage (demo_pid 0) (b1\<lparr>disk_manager := d\<rparr>) = (Inr (Some f), b2) \<and>
     pg_data (pages b2 f) = zero_page"
proof -
  let ?pid = "demo_pid 0" and ?fh = "\<lparr>rfh_fd = 3, file_hdr = new_file_hdr 4\<rparr>"
  obtain f b where F: "FetchPage ?pid demo_pool = (Inr (Some f), b)" "bp_reach b" "page_table b ?pid = Some f" "bp_ok {} b"
    using demo_fetched by blast
  have "logical b ?pid = Some zero_page"
    using fetch_transparent [OF demo_pool_ok demo_pool_logical(1)] F(1) demo_pool_logical(1) by fastforce
  with F(3) have data: "pg_data (pages b f) = zero_page" by (simp add: logical_def)
  have inv: "bp_inv b" using bp_okD(1) [OF F(4)] .
  have fetch: "FetchPage ?pid demo_pool = bind (UpdatePage 0 ?pid 0) (\<lambda>_. bind (read_frame ?pid 0) (\<lambda>_ s.
      (Inr (Some 0), (upd_page 0 (\<lambda>p. p\<lparr>pg_pin_count := 1\<rparr>) s)\<lparr>bp_replacer := Pin 0 (bp_replacer s)\<rparr>))) (demo_pool\<lparr>free_list := []\<rparr>)"
    by (simp add: FetchPage_def FindVictimPage_def demo_pool_def BufferPoolManager_init_def)
  have "pid_fd ?pid = 3" by (simp add: demo_pid_def)
  then have fr: "f = 0" "pool_size b = 1" and d: "only_t (disk_manager b)"
    using F(1) only_t_demo unfolding fetch
    by (auto simp: bind_eq_Inr UpdatePage_def read_frame_def demo_pool_def BufferPoolManager_init_def Page_init_def upd_page_def ret_def
        split: prod.splits dest!: only_t_read [rotated])
  have id: "pg_id (pages b f) = ?pid" using bp_invD(4) [OF inv, THEN iffD1, OF F(3)] by simp
  obtain d1 where w1: "write_page 3 0 (hdr_bytes (new_file_hdr 4)) (disk_manager b) = (Inr (), d1)" "only_t d1"
    using only_t_write [OF d] by auto
  obtain d2 where w2: "write_page 3 0 zero_page d1 = (Inr (), d2)" "only_t d2" using only_t_write [OF w1(2)] by auto
  obtain d3 d4 where c: "close_file 3 d2 = (Inr (), d3)" "open_file LOG_FILE_NAME d3 = (Inr 3, d4)"
    using only_t_reopen [OF w2(2)] by auto
  obtain b1 where b1: "Rm_close_file ?fh b = (Inr (), b1)" "disk_manager b1 = d3"
    using w1(1) w2(1) c(1) fr id data by (simp add: Rm_close_file_def on_disk_def bind_def FlushAllPages_def write_frame_def
        RM_FILE_HDR_PAGE_def INVALID_PAGE_ID_def demo_pid_def upd_page_def)
  from closed_file_pages_are_served [OF F(2,3) _ b1(1), of LOG_FILE_NAME d4] c(2) b1 F(1) data show ?thesis
    by (fastforce simp: demo_pid_def)
qed

end
