(* ===== verification/Record_Printer.thy ===== *)
theory Record_Printer
  imports Defs
begin

text \<open>
  \<open>record_printer.h\<close> and the output side of \<open>common/context.h\<close>: tables of text for the client.

  A context points to a buffer of bytes to send and to the number of bytes in it; the printer copies
  text to the end of that, without looking at the size of the buffer. A copy past its end is
  undefined behaviour.
\<close>

section \<open>The context\<close>

record out_ctx =
  data_send :: string
  out_offset :: int

text \<open>\<open>memcpy(context->data_send_ + *offset_, str.c_str(), str.length())\<close> and the update of the offset.\<close>

definition send_str :: "string \<Rightarrow> (out_ctx, unit) prog" where
  "send_str str c =
     (if 0 \<le> out_offset c \<and> out_offset c + int (length str) \<le> int (length (data_send c))
      then (Inr (), c\<lparr>data_send := wr (nat (out_offset c)) str (data_send c), out_offset := out_offset c + int (length str)\<rparr>)
      else (Inl UndefinedBehaviour, c))"

section \<open>The printer\<close>

definition COL_WIDTH :: nat where "COL_WIDTH = 16"

definition RecordPrinter_init :: "nat \<Rightarrow> (out_ctx, nat) prog" where
  "RecordPrinter_init n_cols = bind (guard (n_cols > 0) AssertFail) (\<lambda>_. ret n_cols)"

primrec separator_cols :: "nat \<Rightarrow> (out_ctx, unit) prog" where
  "separator_cols 0 = ret ()"
| "separator_cols (Suc n) = bind (send_str (''+'' @ replicate (COL_WIDTH + 2) CHR ''-'')) (\<lambda>_. separator_cols n)"

definition print_separator :: "nat \<Rightarrow> (out_ctx, unit) prog" where
  "print_separator num_cols = bind (separator_cols num_cols) (\<lambda>_. send_str [CHR ''+'', char_of (10 :: nat)])"

text \<open>\<open>std::setw(COL_WIDTH)\<close> pads on the left with blanks.\<close>

definition setw :: "nat \<Rightarrow> string \<Rightarrow> string" where
  "setw w str = replicate (w - length str) CHR '' '' @ str"

definition print_col :: "string \<Rightarrow> string" where
  "print_col col =
     (let txt = if length col > COL_WIDTH then take (COL_WIDTH - 3) col @ ''...'' else col
      in ''| '' @ setw COL_WIDTH txt @ '' '')"

primrec row_cols :: "string list \<Rightarrow> (out_ctx, unit) prog" where
  "row_cols [] = ret ()"
| "row_cols (col # cols) = bind (send_str (print_col col)) (\<lambda>_. row_cols cols)"

definition print_rec :: "nat \<Rightarrow> string list \<Rightarrow> (out_ctx, unit) prog" where
  "print_rec num_cols rstrs =
     bind (guard (length rstrs = num_cols) AssertFail) (\<lambda>_.
     bind (row_cols rstrs) (\<lambda>_. send_str [CHR ''|'', char_of (10 :: nat)]))"

definition print_record_count :: "nat \<Rightarrow> (out_ctx, unit) prog" where
  "print_record_count num_rec = send_str (''Total record(s): '' @ to_string (int num_rec) @ [char_of (10 :: nat)])"

section \<open>The text that is sent\<close>

definition sent :: "out_ctx \<Rightarrow> string" where
  "sent c = take (nat (out_offset c)) (data_send c)"

definition ctx_ok :: "out_ctx \<Rightarrow> bool" where
  "ctx_ok c \<longleftrightarrow> 0 \<le> out_offset c \<and> out_offset c \<le> int (length (data_send c))"

definition room :: "out_ctx \<Rightarrow> nat" where
  "room c = length (data_send c) - nat (out_offset c)"

lemma send_str_ok:
  assumes "ctx_ok c"
  shows "if length str \<le> room c
    then \<exists>c'. send_str str c = (Inr (), c') \<and> ctx_ok c' \<and> sent c' = sent c @ str \<and> room c' = room c - length str
    else send_str str c = (Inl UndefinedBehaviour, c)"
proof -
  let ?o = "nat (out_offset c)"
  have o: "out_offset c = int ?o" "?o \<le> length (data_send c)" using assms by (auto simp: ctx_ok_def)
  show ?thesis
  proof (cases "length str \<le> room c")
    case True
    then have fits: "?o + length str \<le> length (data_send c)" using o(2) by (simp add: room_def)
    let ?c = "c\<lparr>data_send := wr ?o str (data_send c), out_offset := out_offset c + int (length str)\<rparr>"
    have o': "0 \<le> out_offset c" "out_offset c + int (length str) \<le> int (length (data_send c))" using fits o(1) by linarith+
    then have "send_str str c = (Inr (), ?c)" by (simp add: send_str_def)
    moreover have "ctx_ok ?c" using fits o' by (simp add: ctx_ok_def length_wr)
    moreover have "nat (out_offset c + int (length str)) = ?o + length str" using o(1) by linarith
    then have "sent ?c = sent c @ str" "room ?c = room c - length str"
      using fits o(2) by (simp_all add: sent_def wr_def room_def)
    ultimately show ?thesis using True by auto
  next
    case False
    then have "\<not> out_offset c + int (length str) \<le> int (length (data_send c))" using o unfolding room_def by linarith
    with False show ?thesis by (simp add: send_str_def)
  qed
qed

text \<open>A program that sends \<open>txt\<close> when there is room for it, and runs over the end of the buffer when not.\<close>

definition sends :: "(out_ctx, unit) prog \<Rightarrow> string \<Rightarrow> bool" where
  "sends m txt \<longleftrightarrow> (\<forall>c. ctx_ok c \<longrightarrow>
     (if length txt \<le> room c
      then \<exists>c'. m c = (Inr (), c') \<and> ctx_ok c' \<and> sent c' = sent c @ txt \<and> room c' = room c - length txt
      else \<exists>c'. m c = (Inl UndefinedBehaviour, c')))"

lemma sendsD:
  assumes "sends m txt" "ctx_ok c"
  shows "length txt \<le> room c \<Longrightarrow> \<exists>c'. m c = (Inr (), c') \<and> ctx_ok c' \<and> sent c' = sent c @ txt \<and> room c' = room c - length txt"
    "\<not> length txt \<le> room c \<Longrightarrow> \<exists>c'. m c = (Inl UndefinedBehaviour, c')"
  using assms unfolding sends_def by (metis (full_types))+

lemma sends_str: "sends (send_str str) str"
  unfolding sends_def using send_str_ok by (metis (full_types))

lemma sends_ret: "sends (ret ()) []"
  by (simp add: sends_def ret_def)

lemma sends_bind:
  assumes "sends m txt" "sends m' txt'"
  shows "sends (bind m (\<lambda>_. m')) (txt @ txt')"
  unfolding sends_def
proof (intro allI impI)
  fix c assume c: "ctx_ok c"
  show "if length (txt @ txt') \<le> room c
      then \<exists>c'. bind m (\<lambda>_. m') c = (Inr (), c') \<and> ctx_ok c' \<and> sent c' = sent c @ txt @ txt' \<and> room c' = room c - length (txt @ txt')
      else \<exists>c'. bind m (\<lambda>_. m') c = (Inl UndefinedBehaviour, c')"
  proof (cases "length txt \<le> room c")
    case True
    from sendsD(1) [OF assms(1) c True] obtain c1 where
      c1: "m c = (Inr (), c1)" "ctx_ok c1" "sent c1 = sent c @ txt" "room c1 = room c - length txt" by blast
    show ?thesis
    proof (cases "length txt' \<le> room c1")
      case t: True
      from sendsD(1) [OF assms(2) c1(2) t] c1 True t show ?thesis by auto
    next
      case t: False
      from sendsD(2) [OF assms(2) c1(2) t] c1 True t show ?thesis by auto
    qed
  next
    case False
    with sendsD(2) [OF assms(1) c] show ?thesis by auto
  qed
qed

definition sep_text :: "nat \<Rightarrow> string" where
  "sep_text n = concat (replicate n (''+'' @ replicate 18 CHR ''-'')) @ [CHR ''+'', char_of (10 :: nat)]"

definition row_text :: "string list \<Rightarrow> string" where
  "row_text cols = concat (map print_col cols) @ [CHR ''|'', char_of (10 :: nat)]"

lemma sends_separator: "sends (print_separator n) (sep_text n)"
proof -
  have "sends (separator_cols n) (concat (replicate n (''+'' @ replicate 18 CHR ''-'')))"
  proof (induction n)
    case (Suc n)
    from sends_bind [OF sends_str [of "''+'' @ replicate 18 CHR ''-''"] this] show ?case by (simp add: COL_WIDTH_def)
  qed (simp add: sends_ret)
  from sends_bind [OF this sends_str] show ?thesis by (simp add: print_separator_def sep_text_def)
qed

lemma sends_record: "sends (print_rec (length cols) cols) (row_text cols)"
proof -
  have "sends (row_cols cols) (concat (map print_col cols))"
  proof (induction cols)
    case (Cons col cols)
    from sends_bind [OF sends_str [of "print_col col"] this] show ?case by simp
  qed (simp add: sends_ret)
  from sends_bind [OF this sends_str] have "sends (bind (row_cols cols) (\<lambda>_. send_str [CHR ''|'', char_of (10 :: nat)])) (row_text cols)"
    by (simp add: row_text_def)
  moreover have "print_rec (length cols) cols = bind (row_cols cols) (\<lambda>_. send_str [CHR ''|'', char_of (10 :: nat)])"
    by (simp add: print_rec_def guard_def fun_eq_iff bind_def)
  ultimately show ?thesis by simp
qed

lemma length_print_col: "length (print_col col) = 19"
  by (simp add: print_col_def COL_WIDTH_def setw_def)

lemma length_sep_text: "length (sep_text n) = 19 * n + 2"
  by (induction n) (simp_all add: sep_text_def)

lemma length_row_text: "length (row_text cols) = 19 * length cols + 2"
  by (induction cols) (simp_all add: row_text_def length_print_col)

end
