(* ===== verification/Sm_Manager.thy ===== *)
theory Sm_Manager
  imports Sm_Meta Record_Scan Ix_Index Record_Printer
begin

text \<open>
  \<open>system/sm_manager.*\<close>: the catalogue of a database with the handles of its open files.

  The state is the metadata, the maps of file and index handles, the buffer pool and the context that
  results are sent to. \<open>chdir\<close> and \<open>system\<close> are functions of the environment. \<open>create_db\<close>, \<open>close_db\<close>
  and \<open>drop_table\<close> have empty bodies in the code.
\<close>

record sm_env =
  env_chdir :: "string \<Rightarrow> os \<Rightarrow> int \<times> os"
  env_system :: "string \<Rightarrow> os \<Rightarrow> int \<times> os"

record sm_state =
  sm_bpm :: BufferPoolManager
  sm_db :: DbMeta
  sm_fhs :: "string \<Rightarrow> RmFileHandle option"
  sm_ihs :: "string \<Rightarrow> IxIndexHandle option"
  sm_ctx :: out_ctx

record ColDef =
  cd_name :: string
  cd_type :: ColType
  cd_len :: int

section \<open>Access to the parts\<close>

definition on_sm_bpm :: "(BufferPoolManager, 'a) prog \<Rightarrow> (sm_state, 'a) prog" where
  "on_sm_bpm m s = (let (r, b) = m (sm_bpm s) in (r, s\<lparr>sm_bpm := b\<rparr>))"

definition on_ctx :: "(out_ctx, 'a) prog \<Rightarrow> (sm_state, 'a) prog" where
  "on_ctx m s = (let (r, c) = m (sm_ctx s) in (r, s\<lparr>sm_ctx := c\<rparr>))"

definition on_os :: "(os \<Rightarrow> int \<times> os) \<Rightarrow> (sm_state, int) prog" where
  "on_os m s =
     (let d = disk_manager (sm_bpm s); (r, os1) = m (dm_os d)
      in (Inr r, s\<lparr>sm_bpm := (sm_bpm s)\<lparr>disk_manager := d\<lparr>dm_os := os1\<rparr>\<rparr>\<rparr>))"

text \<open>A method of \<open>fhs_.at(name)\<close> and of \<open>ihs_.at(name)\<close>.\<close>

definition on_fh :: "string \<Rightarrow> (rm_state, 'a) prog \<Rightarrow> (sm_state, 'a) prog" where
  "on_fh name m s =
     (case sm_fhs s name of
        None \<Rightarrow> (Inl (StdExc ''std::out_of_range''), s)
      | Some fh \<Rightarrow>
          let (r, x) = m \<lparr>rm_bpm = sm_bpm s, rm_fh = fh\<rparr>
          in (r, s\<lparr>sm_bpm := rm_bpm x, sm_fhs := (sm_fhs s)(name \<mapsto> rm_fh x)\<rparr>))"

definition on_ih :: "string \<Rightarrow> (ix_state, 'a) prog \<Rightarrow> (sm_state, 'a) prog" where
  "on_ih name m s =
     (case sm_ihs s name of
        None \<Rightarrow> (Inl (StdExc ''std::out_of_range''), s)
      | Some ih \<Rightarrow>
          let (r, x) = m \<lparr>ix_bpm = sm_bpm s, ix_fh = ih\<rparr>
          in (r, s\<lparr>sm_bpm := ix_bpm x, sm_ihs := (sm_ihs s)(name \<mapsto> ix_fh x)\<rparr>))"

definition sm_get_table :: "string \<Rightarrow> (sm_state, TabMeta) prog" where
  "sm_get_table tab_name s = (get_table (sm_db s) tab_name, s)"

text \<open>\<open>emplace\<close> keeps an entry that is there.\<close>

definition emplace :: "string \<Rightarrow> 'v \<Rightarrow> (string \<Rightarrow> 'v option) \<Rightarrow> string \<Rightarrow> 'v option" where
  "emplace k v m = (if m k = None then m(k \<mapsto> v) else m)"

section \<open>Databases\<close>

definition sm_is_dir :: "string \<Rightarrow> sm_state \<Rightarrow> bool" where
  "sm_is_dir name s = is_dir name (disk_manager (sm_bpm s))"

definition create_db :: "string \<Rightarrow> (sm_state, unit) prog" where
  "create_db name = ret ()"

definition drop_db :: "sm_env \<Rightarrow> string \<Rightarrow> (sm_state, unit) prog" where
  "drop_db env name s =
     (if \<not> sm_is_dir name s then (Inl (Exc (DatabaseNotFoundError name)), s)
      else bind (on_os (env_system env (''rm -r '' @ name))) (\<lambda>r.
             if r < 0 then throw (Exc UnixError) else ret ()) s)"

text \<open>\<open>std::ifstream ifs(DB_META_NAME)\<close>: the bytes of the file, or a failed stream.\<close>

definition DB_META_NAME :: string where "DB_META_NAME = ''db.meta''"

definition open_ifstream :: "string \<Rightarrow> os \<Rightarrow> istream" where
  "open_ifstream name os1 =
     (case os_files os1 name of
        None \<Rightarrow> \<lparr>is_rest = [], is_failed = True\<rparr>
      | Some bs \<Rightarrow> \<lparr>is_rest = map (\<lambda>b. char_of (unat b)) bs, is_failed = False\<rparr>)"

definition load_meta :: "(sm_state, unit) prog" where
  "load_meta s =
     (let (r, st) = read_db (sm_db s) (open_ifstream DB_META_NAME (dm_os (disk_manager (sm_bpm s))))
      in case r of Inl e \<Rightarrow> (Inl e, s) | Inr db \<Rightarrow> (Inr (), s\<lparr>sm_db := db\<rparr>))"

primrec open_indexes :: "string \<Rightarrow> ColMeta list \<Rightarrow> nat \<Rightarrow> (sm_state, unit) prog" where
  "open_indexes tab_name [] i = ret ()"
| "open_indexes tab_name (col # cols) i =
     bind (if cm_index col
           then let index_name = get_index_name tab_name (int i) in
                bind (query (\<lambda>s. sm_ihs s index_name = None)) (\<lambda>ok.
                bind (guard ok AssertFail) (\<lambda>_.
                bind (on_sm_bpm (open_index tab_name (int i))) (\<lambda>ih.
                  update (\<lambda>s. s\<lparr>sm_ihs := emplace index_name ih (sm_ihs s)\<rparr>))))
           else ret ()) (\<lambda>_. open_indexes tab_name cols (i + 1))"

primrec open_tables :: "TabMeta string_map \<Rightarrow> (sm_state, unit) prog" where
  "open_tables [] = ret ()"
| "open_tables (e # es) =
     (let tab = snd e in
      bind (on_sm_bpm (Rm_open_file (tm_name tab))) (\<lambda>fh.
      bind (update (\<lambda>s. s\<lparr>sm_fhs := emplace (tm_name tab) fh (sm_fhs s)\<rparr>)) (\<lambda>_.
      bind (open_indexes (tm_name tab) (tm_cols tab) 0) (\<lambda>_. open_tables es))))"

definition open_db :: "sm_env \<Rightarrow> string \<Rightarrow> (sm_state, unit) prog" where
  "open_db env name s =
     (if \<not> sm_is_dir name s then (Inl (Exc (DatabaseNotFoundError name)), s)
      else bind (on_os (env_chdir env name)) (\<lambda>r.
           if r < 0 then throw (Exc UnixError)
           else bind load_meta (\<lambda>_ s. open_tables (db_tabs (sm_db s)) s)) s)"

definition close_db :: "(sm_state, unit) prog" where
  "close_db = ret ()"

section \<open>Tables\<close>

primrec print_rows :: "nat \<Rightarrow> string list list \<Rightarrow> (out_ctx, unit) prog" where
  "print_rows n [] = ret ()"
| "print_rows n (r # rs) = bind (print_rec n r) (\<lambda>_. print_rows n rs)"

definition show_tables :: "(sm_state, unit) prog" where
  "show_tables s =
     on_ctx (bind (RecordPrinter_init 1) (\<lambda>n.
             bind (print_separator n) (\<lambda>_.
             bind (print_rec n [''Tables'']) (\<lambda>_.
             bind (print_separator n) (\<lambda>_.
             bind (print_rows n (map (\<lambda>(k, tab). [tm_name tab]) (db_tabs (sm_db s)))) (\<lambda>_.
               print_separator n)))))) s"

definition desc_table :: "string \<Rightarrow> (sm_state, unit) prog" where
  "desc_table tab_name =
     bind (sm_get_table tab_name) (\<lambda>tab.
     on_ctx (bind (RecordPrinter_init 3) (\<lambda>n.
             bind (print_separator n) (\<lambda>_.
             bind (print_rec n [''Field'', ''Type'', ''Index'']) (\<lambda>_.
             bind (print_separator n) (\<lambda>_.
             bind (print_rows n (map (\<lambda>col. [cm_name col, coltype2str (cm_type col), if cm_index col then ''YES'' else ''NO'']) (tm_cols tab))) (\<lambda>_.
               print_separator n)))))))"

primrec table_cols :: "string \<Rightarrow> ColDef list \<Rightarrow> int \<Rightarrow> ColMeta list \<times> int" where
  "table_cols tab_name [] curr_offset = ([], curr_offset)"
| "table_cols tab_name (cd # cds) curr_offset =
     (let col = \<lparr>cm_tab_name = tab_name, cm_name = cd_name cd, cm_type = cd_type cd, cm_len = cd_len cd,
                 cm_offset = curr_offset, cm_index = False\<rparr>;
          (cols, rsize) = table_cols tab_name cds (wrap32 (curr_offset + cd_len cd))
      in (col # cols, rsize))"

definition create_table :: "string \<Rightarrow> ColDef list \<Rightarrow> (sm_state, unit) prog" where
  "create_table tab_name col_defs s =
     (if is_table (sm_db s) tab_name then (Inl (Exc (TableExistsError tab_name)), s)
      else let (cols, record_size) = table_cols tab_name col_defs 0;
               tab = \<lparr>tm_name = tab_name, tm_cols = cols\<rparr>
           in bind (on_sm_bpm (Rm_create_file tab_name record_size)) (\<lambda>_.
              bind (update (\<lambda>s. s\<lparr>sm_db := (sm_db s)\<lparr>db_tabs := map_put tab_name tab (db_tabs (sm_db s))\<rparr>\<rparr>)) (\<lambda>_.
              bind (on_sm_bpm (Rm_open_file tab_name)) (\<lambda>fh.
                update (\<lambda>s. s\<lparr>sm_fhs := emplace tab_name fh (sm_fhs s)\<rparr>)))) s)"

definition drop_table :: "string \<Rightarrow> (sm_state, unit) prog" where
  "drop_table tab_name = ret ()"

section \<open>Indexes\<close>

text \<open>The new index handle is a local variable while the records are put into it.\<close>

definition on_sm :: "(sm_state, 'a) prog \<Rightarrow> (sm_state \<times> IxIndexHandle, 'a) prog" where
  "on_sm m x = (let (r, s) = m (fst x) in (r, (s, snd x)))"

definition on_new_ih :: "(ix_state, 'a) prog \<Rightarrow> (sm_state \<times> IxIndexHandle, 'a) prog" where
  "on_new_ih m x =
     (let (r, y) = m \<lparr>ix_bpm = sm_bpm (fst x), ix_fh = snd x\<rparr> in (r, ((fst x)\<lparr>sm_bpm := ix_bpm y\<rparr>, ix_fh y)))"

primrec index_records :: "nat \<Rightarrow> string \<Rightarrow> ColMeta \<Rightarrow> Rid \<Rightarrow> (sm_state \<times> IxIndexHandle, unit) prog" where
  "index_records 0 tab_name col rid = throw OutOfFuel"
| "index_records (Suc n) tab_name col rid =
     (if RmScan_is_end rid then ret ()
      else bind (on_sm (on_fh tab_name (get_record rid))) (\<lambda>rec.
           bind (on_new_ih (insert_entry (Suc n) (rd (nat (cm_offset col)) (nat (cm_len col)) (rec_data rec)) rid)) (\<lambda>_.
           bind (on_sm (on_fh tab_name (RmScan_next rid))) (\<lambda>rid1. index_records n tab_name col rid1))))"

definition set_col_index :: "string \<Rightarrow> nat \<Rightarrow> bool \<Rightarrow> DbMeta \<Rightarrow> DbMeta" where
  "set_col_index tab_name i b db =
     db\<lparr>db_tabs := map (\<lambda>(k, tab). (k, if k = tab_name then tab\<lparr>tm_cols := (tm_cols tab)[i := (tm_cols tab ! i)\<lparr>cm_index := b\<rparr>]\<rparr> else tab)) (db_tabs db)\<rparr>"

definition build_index :: "nat \<Rightarrow> string \<Rightarrow> ColMeta \<Rightarrow> IxIndexHandle \<Rightarrow> (sm_state, IxIndexHandle) prog" where
  "build_index fuel tab_name col ih s =
     (let (r, (s', ih')) = bind (on_sm (on_fh tab_name RmScan_init)) (\<lambda>rid. index_records fuel tab_name col rid) (s, ih)
      in case r of Inl e \<Rightarrow> (Inl e, s') | Inr _ \<Rightarrow> (Inr ih', s'))"

definition Sm_create_index :: "nat \<Rightarrow> bytes \<Rightarrow> string \<Rightarrow> string \<Rightarrow> (sm_state, unit) prog" where
  "Sm_create_index fuel page_buf tab_name col_name =
     bind (sm_get_table tab_name) (\<lambda>tab.
     case get_col tab col_name of
       None \<Rightarrow> throw UndefinedBehaviour
     | Some col_idx \<Rightarrow>
         let col = tm_cols tab ! col_idx; index_name = get_index_name tab_name (int col_idx) in
         if cm_index col then throw (Exc (IndexExistsError tab_name col_name))
         else bind (on_sm_bpm (create_index page_buf tab_name (int col_idx) (cm_type col) (cm_len col))) (\<lambda>_.
              bind (on_sm_bpm (open_index tab_name (int col_idx))) (\<lambda>ih.
              bind (build_index fuel tab_name col ih) (\<lambda>ih.
              bind (query (\<lambda>s. sm_ihs s index_name = None)) (\<lambda>ok.
              bind (guard ok AssertFail) (\<lambda>_.
              bind (update (\<lambda>s. s\<lparr>sm_ihs := emplace index_name ih (sm_ihs s)\<rparr>)) (\<lambda>_.
                update (\<lambda>s. s\<lparr>sm_db := set_col_index tab_name col_idx True (sm_db s)\<rparr>))))))))"

text \<open>\<open>db_.tabs_[tab_name]\<close> adds an empty table when there is none of that name.\<close>

definition tabs_at :: "string \<Rightarrow> (sm_state, TabMeta) prog" where
  "tabs_at tab_name s =
     (case map_of (db_tabs (sm_db s)) tab_name of
        Some tab \<Rightarrow> (Inr tab, s)
      | None \<Rightarrow> let tab = \<lparr>tm_name = [], tm_cols = []\<rparr>
                in (Inr tab, s\<lparr>sm_db := (sm_db s)\<lparr>db_tabs := map_put tab_name tab (db_tabs (sm_db s))\<rparr>\<rparr>))"

definition drop_index :: "string \<Rightarrow> string \<Rightarrow> (sm_state, unit) prog" where
  "drop_index tab_name col_name =
     bind (tabs_at tab_name) (\<lambda>tab.
     case get_col tab col_name of
       None \<Rightarrow> throw UndefinedBehaviour
     | Some col_idx \<Rightarrow>
         let col = tm_cols tab ! col_idx; index_name = get_index_name tab_name (int col_idx) in
         if \<not> cm_index col then throw (Exc (IndexNotFoundError tab_name col_name))
         else bind (query (\<lambda>s. sm_ihs s index_name)) (\<lambda>ih.
              case ih of
                None \<Rightarrow> throw (StdExc ''std::out_of_range'')
              | Some ih \<Rightarrow>
                  bind (on_sm_bpm (close_index ih)) (\<lambda>_.
                  bind (on_sm_bpm (destroy_index tab_name (int col_idx))) (\<lambda>_.
                  bind (update (\<lambda>s. s\<lparr>sm_ihs := (sm_ihs s)(index_name := None)\<rparr>)) (\<lambda>_.
                    update (\<lambda>s. s\<lparr>sm_db := set_col_index tab_name col_idx False (sm_db s)\<rparr>))))))"


section \<open>Laws\<close>

lemma map_of_map_put: "map_of (map_put k v m) = (map_of m)(k \<mapsto> v)"
  by (induction m) (auto simp: fun_eq_iff)

lemma map_put_sorted: "tabs_sorted m \<Longrightarrow> tabs_sorted (map_put k v m)"
proof (induction m)
  case (Cons e m)
  have keys: "x \<in> fst ` set (map_put k v m) \<longleftrightarrow> x = k \<or> x \<in> fst ` set m" for x
    using dom_map_of_conv_image_fst [of "map_put k v m"] dom_map_of_conv_image_fst [of m] by (auto simp: map_of_map_put)
  from Cons.prems have m: "tabs_sorted m" "\<forall>x \<in> fst ` set m. fst e < x" by (auto simp: tabs_sorted_def)
  consider "k < fst e" | "k = fst e" | "fst e < k" by fastforce
  then show ?case
  proof cases
    case 3
    have lt: "\<forall>a \<in> set (map_put k v m). fst e < fst a"
    proof
      fix a assume "a \<in> set (map_put k v m)"
      then have "fst a = k \<or> fst a \<in> fst ` set m" using keys [of "fst a"] by blast
      then show "fst e < fst a" using 3 m(2) by (elim disjE) auto
    qed
    have "map_put k v (e # m) = e # map_put k v m" using 3 by (cases e) auto
    then show ?thesis using lt Cons.IH [OF m(1)] by (simp add: tabs_sorted_def)
  qed (use m Cons.prems in \<open>cases e; auto simp: tabs_sorted_def\<close>)+
qed (simp add: tabs_sorted_def)

lemma table_cols_spec:
  assumes "table_cols t cds off = (cols, rsize)" "\<And>cd. cd \<in> set cds \<Longrightarrow> 0 \<le> cd_len cd" "0 \<le> off" "off + (\<Sum>cd\<leftarrow>cds. cd_len cd) < 2 ^ 31"
  shows "rsize = off + (\<Sum>cd\<leftarrow>cds. cd_len cd)" "length cols = length cds"
    "i < length cds \<Longrightarrow> cols ! i = \<lparr>cm_tab_name = t, cm_name = cd_name (cds ! i), cm_type = cd_type (cds ! i), cm_len = cd_len (cds ! i),
       cm_offset = off + (\<Sum>cd\<leftarrow>take i cds. cd_len cd), cm_index = False\<rparr>"
proof -
  have "rsize = off + (\<Sum>cd\<leftarrow>cds. cd_len cd) \<and> length cols = length cds \<and>
    (\<forall>i < length cds. cols ! i = \<lparr>cm_tab_name = t, cm_name = cd_name (cds ! i), cm_type = cd_type (cds ! i), cm_len = cd_len (cds ! i),
       cm_offset = off + (\<Sum>cd\<leftarrow>take i cds. cd_len cd), cm_index = False\<rparr>)"
    using assms
  proof (induction cds arbitrary: off cols rsize)
    case (Cons cd cds)
    obtain cs sz where t: "table_cols t cds (off + cd_len cd) = (cs, sz)" by (metis surj_pair)
    have "0 \<le> (\<Sum>cd\<leftarrow>cds. cd_len cd)" using Cons.prems(2) by (intro sum_list_nonneg) auto
    moreover have "0 \<le> cd_len cd" using Cons.prems(2) by simp
    ultimately have w: "wrap32 (off + cd_len cd) = off + cd_len cd" "0 \<le> off + cd_len cd"
      using Cons.prems(3,4) by (simp_all add: in32_def)
    from Cons.IH [OF t _ w(2)] Cons.prems t show ?case by (auto simp: w(1) nth_Cons' Let_def take_Cons')
  qed simp
  then show "rsize = off + (\<Sum>cd\<leftarrow>cds. cd_len cd)" "length cols = length cds"
    "i < length cds \<Longrightarrow> cols ! i = \<lparr>cm_tab_name = t, cm_name = cd_name (cds ! i), cm_type = cd_type (cds ! i), cm_len = cd_len (cds ! i),
       cm_offset = off + (\<Sum>cd\<leftarrow>take i cds. cd_len cd), cm_index = False\<rparr>" by auto
qed

lemma create_table_ok:
  assumes "quiet (sm_bpm s)" "\<not> is_table (sm_db s) t" "sm_fhs s t = None"
    and "table_cols t cds 0 = (cols, sz)" "1 \<le> sz" "sz \<le> 512"
    and "os_files (dm_os (disk_manager (sm_bpm s))) t = None" "t \<notin> os_dirs (dm_os (disk_manager (sm_bpm s)))"
    and "os_new_fd (dm_os (disk_manager (sm_bpm s))) = Some fd" "fd < MAX_FD"
    and "\<And>pid. pid \<in> dom (page_table (sm_bpm s)) \<Longrightarrow> pid_fd pid \<noteq> fd"
  shows "\<exists>b'. let fh = \<lparr>rfh_fd = fd, file_hdr = new_file_hdr sz\<rparr> in
    create_table t cds s = (Inr (), s\<lparr>sm_bpm := b', sm_fhs := (sm_fhs s)(t \<mapsto> fh),
      sm_db := (sm_db s)\<lparr>db_tabs := map_put t \<lparr>tm_name = t, tm_cols = cols\<rparr> (db_tabs (sm_db s))\<rparr>\<rparr>) \<and>
    rm_inv \<lparr>rm_bpm = b', rm_fh = fh\<rparr> \<and> records \<lparr>rm_bpm = b', rm_fh = fh\<rparr> = Map.empty"
proof -
  let ?fh = "\<lparr>rfh_fd = fd, file_hdr = new_file_hdr sz\<rparr>"
  from create_open_ok [OF assms(1,5-11)] obtain b' where
    b': "bind (Rm_create_file t sz) (\<lambda>_. Rm_open_file t) (sm_bpm s) = (Inr ?fh, b')"
    and inv: "rm_inv \<lparr>rm_bpm = b', rm_fh = ?fh\<rparr>" "records \<lparr>rm_bpm = b', rm_fh = ?fh\<rparr> = Map.empty" by blast
  then obtain b1 where c: "Rm_create_file t sz (sm_bpm s) = (Inr (), b1)" and o: "Rm_open_file t b1 = (Inr ?fh, b')"
    by (auto simp: bind_eq_Inr)
  have "create_table t cds s = (Inr (), s\<lparr>sm_bpm := b', sm_fhs := (sm_fhs s)(t \<mapsto> ?fh),
      sm_db := (sm_db s)\<lparr>db_tabs := map_put t \<lparr>tm_name = t, tm_cols = cols\<rparr> (db_tabs (sm_db s))\<rparr>\<rparr>)"
    using assms(2-4) c o by (simp add: create_table_def on_sm_bpm_def update_def emplace_def bind_def)
  with inv show ?thesis by (auto simp: Let_def)
qed

section \<open>Properties\<close>

text \<open>
  C29. A table whose name the catalogue has is refused, and nothing is changed, in every state. Creating a new table
  lays its columns out one after the other, in the order of their definitions,
  from offset 0 to the record size without gaps or overlaps, enters the table into the catalogue, which
  stays ordered, and opens an empty record file of exactly that record size for it. This takes column lengths that are not negative and
  add up to a legal record size (1 to 512), an ordered catalogue, no record file open under that name, and what creating
  and opening a record file takes: no pinned page, no file or directory of that name on disk, a free descriptor, and
  no page of an earlier file with this descriptor in the pool (C36).
\<close>

theorem create_table_spec:
  "if is_table (sm_db s) t then create_table t cds s = (Inl (Exc (TableExistsError t)), s)
   else sm_fhs s t = None \<longrightarrow> tabs_sorted (db_tabs (sm_db s)) \<longrightarrow> can_create (sm_bpm s) t fd \<longrightarrow>
     (\<forall>cd \<in> set cds. 0 \<le> cd_len cd) \<longrightarrow> (\<Sum>cd\<leftarrow>cds. cd_len cd) \<in> {1..RM_MAX_RECORD_SIZE} \<longrightarrow>
     (\<exists>s' tab fh. create_table t cds s = (Inr (), s') \<and>
      map_of (db_tabs (sm_db s')) = (map_of (db_tabs (sm_db s)))(t \<mapsto> tab) \<and> tabs_sorted (db_tabs (sm_db s')) \<and>
      tm_name tab = t \<and> length (tm_cols tab) = length cds \<and>
      (\<forall>i < length cds. cm_name (tm_cols tab ! i) = cd_name (cds ! i) \<and> cm_type (tm_cols tab ! i) = cd_type (cds ! i) \<and>
         cm_len (tm_cols tab ! i) = cd_len (cds ! i) \<and>
         cm_offset (tm_cols tab ! i) = (if i = 0 then 0 else cm_offset (tm_cols tab ! (i - 1)) + cm_len (tm_cols tab ! (i - 1)))) \<and>
      sm_fhs s' = (sm_fhs s)(t \<mapsto> fh) \<and> record_size (file_hdr fh) = (\<Sum>cd\<leftarrow>cds. cd_len cd) \<and>
      rm_inv \<lparr>rm_bpm = sm_bpm s', rm_fh = fh\<rparr> \<and> records \<lparr>rm_bpm = sm_bpm s', rm_fh = fh\<rparr> = Map.empty)"
proof (cases "is_table (sm_db s) t")
  case True
  then show ?thesis by (simp add: create_table_def)
next
  case False
  show ?thesis
    unfolding if_not_P [OF False]
  proof (intro impI)
    assume a: "sm_fhs s t = None" "tabs_sorted (db_tabs (sm_db s))" "can_create (sm_bpm s) t fd"
      "\<forall>cd \<in> set cds. 0 \<le> cd_len cd" "(\<Sum>cd\<leftarrow>cds. cd_len cd) \<in> {1..RM_MAX_RECORD_SIZE}"
    obtain cols sz where tc: "table_cols t cds 0 = (cols, sz)" by (metis surj_pair)
    have lt: "0 + (\<Sum>cd\<leftarrow>cds. cd_len cd) < 2 ^ 31" using a(5) by (simp add: RM_MAX_RECORD_SIZE_def)
    note c = table_cols_spec [OF tc bspec [OF a(4)] order_refl lt]
    have sz: "1 \<le> sz" "sz \<le> 512" using c(1) a(5) by (simp_all add: RM_MAX_RECORD_SIZE_def)
    from create_table_ok [OF _ False a(1) tc sz] a(3) obtain b' where
      b: "create_table t cds s = (Inr (), s\<lparr>sm_bpm := b', sm_fhs := (sm_fhs s)(t \<mapsto> \<lparr>rfh_fd = fd, file_hdr = new_file_hdr sz\<rparr>),
        sm_db := (sm_db s)\<lparr>db_tabs := map_put t \<lparr>tm_name = t, tm_cols = cols\<rparr> (db_tabs (sm_db s))\<rparr>\<rparr>)"
      "rm_inv \<lparr>rm_bpm = b', rm_fh = \<lparr>rfh_fd = fd, file_hdr = new_file_hdr sz\<rparr>\<rparr>"
      "records \<lparr>rm_bpm = b', rm_fh = \<lparr>rfh_fd = fd, file_hdr = new_file_hdr sz\<rparr>\<rparr> = Map.empty" by (auto simp: Let_def can_create_def)
    have off: "cm_offset (cols ! i) = (if i = 0 then 0 else cm_offset (cols ! (i - 1)) + cm_len (cols ! (i - 1)))" if "i < length cds" for i
      using that c(3) by (cases i) (simp_all add: take_Suc_conv_app_nth)
    show "\<exists>s' tab fh. create_table t cds s = (Inr (), s') \<and>
      map_of (db_tabs (sm_db s')) = (map_of (db_tabs (sm_db s)))(t \<mapsto> tab) \<and> tabs_sorted (db_tabs (sm_db s')) \<and>
      tm_name tab = t \<and> length (tm_cols tab) = length cds \<and>
      (\<forall>i < length cds. cm_name (tm_cols tab ! i) = cd_name (cds ! i) \<and> cm_type (tm_cols tab ! i) = cd_type (cds ! i) \<and>
         cm_len (tm_cols tab ! i) = cd_len (cds ! i) \<and>
         cm_offset (tm_cols tab ! i) = (if i = 0 then 0 else cm_offset (tm_cols tab ! (i - 1)) + cm_len (tm_cols tab ! (i - 1)))) \<and>
      sm_fhs s' = (sm_fhs s)(t \<mapsto> fh) \<and> record_size (file_hdr fh) = (\<Sum>cd\<leftarrow>cds. cd_len cd) \<and>
      rm_inv \<lparr>rm_bpm = sm_bpm s', rm_fh = fh\<rparr> \<and> records \<lparr>rm_bpm = sm_bpm s', rm_fh = fh\<rparr> = Map.empty"
      by (intro exI [of _ "\<lparr>tm_name = t, tm_cols = cols\<rparr>"] exI [of _ "\<lparr>rfh_fd = fd, file_hdr = new_file_hdr sz\<rparr>"] exI, intro conjI, rule b(1))
        (use b c off sz map_put_sorted [OF a(2)] in \<open>simp_all add: map_of_map_put new_file_hdr_eqs(1)\<close>)
  qed
qed

theorem create_table_spec_witness:
  "\<exists>s s' fh. \<not> is_table (sm_db s) ''grade'' \<and>
     create_table ''grade'' [\<lparr>cd_name = ''id'', cd_type = TYPE_INT, cd_len = 4\<rparr>, \<lparr>cd_name = ''name'', cd_type = TYPE_STRING, cd_len = 8\<rparr>] s = (Inr (), s') \<and>
     sm_fhs s' ''grade'' = Some fh \<and> record_size (file_hdr fh) = 12"
proof -
  let ?s = "\<lparr>sm_bpm = demo_pool, sm_db = \<lparr>db_name = ''db'', db_tabs = []\<rparr>, sm_fhs = Map.empty, sm_ihs = Map.empty,
    sm_ctx = \<lparr>data_send = [], out_offset = 0\<rparr>\<rparr>"
  let ?cds = "[\<lparr>cd_name = ''id'', cd_type = TYPE_INT, cd_len = 4\<rparr>, \<lparr>cd_name = ''name'', cd_type = TYPE_STRING, cd_len = 8\<rparr>]"
  have e: "can_create demo_pool ''grade'' 4" by (rule demo_can_create) (simp add: LOG_FILE_NAME_def)
  have nt: "\<not> is_table (sm_db ?s) ''grade''" by (simp add: is_table_def)
  from create_table_spec [of ?s "''grade''" ?cds 4] e nt obtain s' fh where
    "create_table ''grade'' ?cds ?s = (Inr (), s')" "sm_fhs s' = (sm_fhs ?s)(''grade'' \<mapsto> fh)" "record_size (file_hdr fh) = 12"
    by (fastforce simp: tabs_sorted_def RM_MAX_RECORD_SIZE_def)
  with nt show ?thesis by (intro exI [of _ ?s] exI [of _ s'] exI [of _ fh]) simp
qed

text \<open>
  Indexes cannot be created or dropped: \<open>TabMeta::get_col\<close> returns an iterator that designates no
  column, and both operations dereference it for every table that exists, whatever the column; only a
  table that does not exist is reported, by \<open>create_index\<close> alone, while \<open>drop_index\<close> adds an empty table
  of that name to the catalogue.
\<close>

lemma index_ddl_undefined:
  shows "Sm_create_index fuel buf t c s =
      (if is_table (sm_db s) t then (Inl UndefinedBehaviour, s) else (Inl (Exc (TableNotFoundError t)), s)) \<and>
    fst (drop_index t c s) = Inl UndefinedBehaviour \<and> is_table (sm_db (snd (drop_index t c s))) t"
  by (auto simp: Sm_create_index_def sm_get_table_def get_table_def is_table_def get_col_def throw_def bind_def
      drop_index_def tabs_at_def map_of_map_put Let_def split: option.splits)

end
