(* ===== verification/Conditions.thy ===== *)
theory Conditions
  imports Sm_Manager
begin

text \<open>
  The data of \<open>execution/execution_manager.h\<close> and the parts that the scan executors share: values and
  their raw form, conditions, and the evaluation of a condition on a record.

  The union of \<open>int_val\<close> and \<open>float_val\<close> is the bit pattern in it. The type of a value is \<open>None\<close> until it
  is set. Accesses outside the bytes of a record are undefined behaviour.
\<close>

section \<open>Values\<close>

record TabCol =
  tc_tab_name :: string
  tc_col_name :: string

record Value =
  val_type :: "ColType option"
  val_num :: int
  val_str :: string
  val_raw :: "RmRecord option"

definition Value_init :: Value where
  "Value_init = \<lparr>val_type = None, val_num = 0, val_str = [], val_raw = None\<rparr>"

definition set_int :: "int \<Rightarrow> Value \<Rightarrow> Value" where
  "set_int i v = v\<lparr>val_type := Some TYPE_INT, val_num := i\<rparr>"

definition set_float :: "int \<Rightarrow> Value \<Rightarrow> Value" where
  "set_float f v = v\<lparr>val_type := Some TYPE_FLOAT, val_num := f\<rparr>"

definition set_str :: "string \<Rightarrow> Value \<Rightarrow> Value" where
  "set_str str v = v\<lparr>val_type := Some TYPE_STRING, val_str := str\<rparr>"

definition bytes_of_string :: "string \<Rightarrow> bytes" where
  "bytes_of_string str = map (\<lambda>c. word_of_nat (of_char c)) str"

definition string_of_bytes :: "bytes \<Rightarrow> string" where
  "string_of_bytes bs = map (\<lambda>b. char_of (unat b)) bs"

text \<open>\<open>str.resize(strlen(str.c_str()))\<close>\<close>

definition cut_at_nul :: "string \<Rightarrow> string" where
  "cut_at_nul str = takeWhile (\<lambda>c. c \<noteq> CHR 0x00) str"

definition init_raw :: "int \<Rightarrow> Value \<Rightarrow> ('s, Value) prog" where
  "init_raw len v =
     bind (guard (val_raw v = None) AssertFail) (\<lambda>_.
     bind (guard (0 \<le> len) (StdExc ''std::bad_array_new_length'')) (\<lambda>_.
     case val_type v of
       None \<Rightarrow> throw UndefinedBehaviour
     | Some TYPE_INT \<Rightarrow> bind (guard (len = 4) AssertFail) (\<lambda>_. ret (v\<lparr>val_raw := Some \<lparr>rec_data = le32 (val_num v), rec_size = len\<rparr>\<rparr>))
     | Some TYPE_FLOAT \<Rightarrow> bind (guard (len = 4) AssertFail) (\<lambda>_. ret (v\<lparr>val_raw := Some \<lparr>rec_data = le32 (val_num v), rec_size = len\<rparr>\<rparr>))
     | Some TYPE_STRING \<Rightarrow>
         bind (guard (int (length (val_str v)) \<le> len) (Exc StringOverflowError)) (\<lambda>_.
           ret (v\<lparr>val_raw := Some \<lparr>rec_data = wr 0 (bytes_of_string (val_str v)) (replicate (nat len) 0), rec_size = len\<rparr>\<rparr>))))"

section \<open>Conditions\<close>

datatype CompOp = OP_EQ | OP_NE | OP_LT | OP_GT | OP_LE | OP_GE

record Condition =
  lhs_col :: TabCol
  cond_op :: CompOp
  is_rhs_val :: bool
  rhs_col :: TabCol
  rhs_val :: Value

text \<open>The set clauses of an update.\<close>

record SetClause =
  set_lhs :: TabCol
  set_rhs :: Value

section \<open>Columns of a record\<close>

definition col_is :: "TabCol \<Rightarrow> ColMeta \<Rightarrow> bool" where
  "col_is target col \<longleftrightarrow> cm_tab_name col = tc_tab_name target \<and> cm_name col = tc_col_name target"

text \<open>\<open>AbstractExecutor::get_col\<close>: the iterator that \<open>std::find_if\<close> returns, as an index.\<close>

fun find_col :: "ColMeta list \<Rightarrow> TabCol \<Rightarrow> nat option" where
  "find_col [] target = None"
| "find_col (col # cols) target = (if col_is target col then Some 0 else map_option Suc (find_col cols target))"

definition exec_get_col :: "ColMeta list \<Rightarrow> TabCol \<Rightarrow> ('s, nat) prog" where
  "exec_get_col rec_cols target =
     (case find_col rec_cols target of
        None \<Rightarrow> throw (Exc (ColumnNotFoundError (tc_tab_name target @ ''.'' @ tc_col_name target)))
      | Some i \<Rightarrow> ret i)"

text \<open>The bytes at \<open>data + off\<close> that a comparison of type \<open>t\<close> and length \<open>len\<close> reads.\<close>

definition cell_len :: "ColType \<Rightarrow> int \<Rightarrow> int" where
  "cell_len t len = (if t = TYPE_STRING then len else 4)"

definition cell :: "bytes \<Rightarrow> int \<Rightarrow> ColType \<Rightarrow> int \<Rightarrow> ('s, bytes) prog" where
  "cell data off t len =
     (let n = cell_len t len in
      if 0 \<le> off \<and> 0 \<le> n \<and> off + n \<le> int (length data) then ret (rd (nat off) (nat n) data) else throw UndefinedBehaviour)"

fun cmp_holds :: "CompOp \<Rightarrow> int \<Rightarrow> bool" where
  "cmp_holds OP_EQ cmp \<longleftrightarrow> cmp = 0"
| "cmp_holds OP_NE cmp \<longleftrightarrow> cmp \<noteq> 0"
| "cmp_holds OP_LT cmp \<longleftrightarrow> cmp < 0"
| "cmp_holds OP_GT cmp \<longleftrightarrow> cmp > 0"
| "cmp_holds OP_LE cmp \<longleftrightarrow> cmp \<le> 0"
| "cmp_holds OP_GE cmp \<longleftrightarrow> cmp \<ge> 0"

text \<open>The right-hand side of a condition: its type, the bytes it points into and the offset there.\<close>

definition cond_rhs :: "ColMeta list \<Rightarrow> Condition \<Rightarrow> RmRecord \<Rightarrow> ('s, ColType \<times> bytes \<times> int) prog" where
  "cond_rhs rec_cols cond r =
     (if is_rhs_val cond
      then (case (val_type (rhs_val cond), val_raw (rhs_val cond)) of
              (Some t, Some raw) \<Rightarrow> ret (t, rec_data raw, 0)
            | _ \<Rightarrow> throw UndefinedBehaviour)
      else bind (exec_get_col rec_cols (rhs_col cond)) (\<lambda>j. let c = rec_cols ! j in ret (cm_type c, rec_data r, cm_offset c)))"

definition eval_cond :: "ColMeta list \<Rightarrow> Condition \<Rightarrow> RmRecord \<Rightarrow> ('s, bool) prog" where
  "eval_cond rec_cols cond r =
     bind (exec_get_col rec_cols (lhs_col cond)) (\<lambda>i. let lhs = rec_cols ! i in
     bind (cond_rhs rec_cols cond r) (\<lambda>(rhs_type, rhs_data, rhs_off).
     bind (guard (rhs_type = cm_type lhs) AssertFail) (\<lambda>_.
     bind (cell (rec_data r) (cm_offset lhs) rhs_type (cm_len lhs)) (\<lambda>a.
     bind (cell rhs_data rhs_off rhs_type (cm_len lhs)) (\<lambda>b.
       ret (cmp_holds (cond_op cond) (ix_compare a b rhs_type (cm_len lhs))))))))"

text \<open>\<open>std::all_of\<close> stops at the first condition that does not hold.\<close>

primrec eval_conds :: "ColMeta list \<Rightarrow> Condition list \<Rightarrow> RmRecord \<Rightarrow> ('s, bool) prog" where
  "eval_conds rec_cols [] r = ret True"
| "eval_conds rec_cols (cond # conds) r =
     bind (eval_cond rec_cols cond r) (\<lambda>b. if b then eval_conds rec_cols conds r else ret False)"

section \<open>Records as dictionaries\<close>

type_synonym feed_dict = "TabCol \<Rightarrow> Value option"

text \<open>The constructor of \<open>std::string\<close> from a pointer and a length converts the length to \<open>size_t\<close>.\<close>

definition col_bytes :: "ColMeta \<Rightarrow> RmRecord \<Rightarrow> ('s, bytes) prog" where
  "col_bytes col r =
     bind (guard (cm_type col = TYPE_STRING \<longrightarrow> 0 \<le> cm_len col) (StdExc ''std::length_error'')) (\<lambda>_.
       cell (rec_data r) (cm_offset col) (cm_type col) (cm_len col))"

definition read_value :: "ColMeta \<Rightarrow> RmRecord \<Rightarrow> ('s, Value) prog" where
  "read_value col r =
     bind (col_bytes col r) (\<lambda>bs.
       ret (case cm_type col of
              TYPE_INT \<Rightarrow> set_int (of_le32 bs) Value_init
            | TYPE_FLOAT \<Rightarrow> set_float (of_le32 bs) Value_init
            | TYPE_STRING \<Rightarrow> set_str (cut_at_nul (string_of_bytes bs)) Value_init))"

definition col_key :: "ColMeta \<Rightarrow> TabCol" where
  "col_key col = \<lparr>tc_tab_name = cm_tab_name col, tc_col_name = cm_name col\<rparr>"

primrec rec2dict_from :: "feed_dict \<Rightarrow> ColMeta list \<Rightarrow> RmRecord \<Rightarrow> ('s, feed_dict) prog" where
  "rec2dict_from d [] r = ret d"
| "rec2dict_from d (col # cols) r =
     bind (read_value col r) (\<lambda>v.
     bind (guard (d (col_key col) = None) AssertFail) (\<lambda>_.
     bind (init_raw (cm_len col) v) (\<lambda>v. rec2dict_from (d(col_key col \<mapsto> v)) cols r)))"

definition rec2dict :: "ColMeta list \<Rightarrow> RmRecord \<Rightarrow> ('s, feed_dict) prog" where
  "rec2dict cols r = rec2dict_from Map.empty cols r"

section \<open>Conditions of a scan\<close>

fun swap_op :: "CompOp \<Rightarrow> CompOp" where
  "swap_op OP_EQ = OP_EQ"
| "swap_op OP_NE = OP_NE"
| "swap_op OP_LT = OP_GT"
| "swap_op OP_GT = OP_LT"
| "swap_op OP_LE = OP_GE"
| "swap_op OP_GE = OP_LE"

text \<open>The loop in the constructor of \<open>SeqScanExecutor\<close> on one condition.\<close>

definition orient_cond :: "string \<Rightarrow> Condition \<Rightarrow> ('s, Condition) prog" where
  "orient_cond tab_name cond =
     (if tc_tab_name (lhs_col cond) \<noteq> tab_name
      then bind (guard (\<not> is_rhs_val cond \<and> tc_tab_name (rhs_col cond) = tab_name) AssertFail) (\<lambda>_.
           ret (cond\<lparr>lhs_col := rhs_col cond, rhs_col := lhs_col cond, cond_op := swap_op (cond_op cond)\<rparr>))
      else ret cond)"

primrec orient_conds :: "string \<Rightarrow> Condition list \<Rightarrow> ('s, Condition list) prog" where
  "orient_conds tab_name [] = ret []"
| "orient_conds tab_name (cond # conds) =
     bind (orient_cond tab_name cond) (\<lambda>c. bind (orient_conds tab_name conds) (\<lambda>cs. ret (c # cs)))"

definition check_runtime_conds :: "string \<Rightarrow> Condition list \<Rightarrow> ('s, unit) prog" where
  "check_runtime_conds tab_name conds =
     guard (\<forall>cond \<in> set conds. tc_tab_name (lhs_col cond) = tab_name \<and> (\<not> is_rhs_val cond \<longrightarrow> tc_tab_name (rhs_col cond) = tab_name)) AssertFail"

text \<open>The loop of \<open>SeqScanExecutor::feed\<close>: columns of other tables become values.\<close>

primrec feed_conds :: "string \<Rightarrow> feed_dict \<Rightarrow> Condition list \<Rightarrow> ('s, Condition list) prog" where
  "feed_conds tab_name d [] = ret []"
| "feed_conds tab_name d (cond # conds) =
     bind (if \<not> is_rhs_val cond \<and> tc_tab_name (rhs_col cond) \<noteq> tab_name
           then (case d (rhs_col cond) of
                   None \<Rightarrow> throw (StdExc ''std::out_of_range'')
                 | Some v \<Rightarrow> ret (cond\<lparr>is_rhs_val := True, rhs_val := v\<rparr>))
           else ret cond) (\<lambda>c.
     bind (feed_conds tab_name d conds) (\<lambda>cs. ret (c # cs)))"

end
