(* ===== verification/Conditions_Spec.thy ===== *)
theory Conditions_Spec
  imports Conditions
begin

text \<open>
  What a condition means, and that a condition between two tables keeps its meaning when it is
  turned towards the inner table and the values of the outer record are fed into it.
\<close>

section \<open>Comparison and the swapped operator\<close>

lemma memcmp_swap: "memcmp b a = - memcmp a b"
  by (induction a b rule: memcmp.induct) auto

lemma float_less_asym: "float_less a b \<Longrightarrow> \<not> float_less b a"
  by (simp add: float_less_def)

lemma ix_compare_swap: "ix_compare b a t len = - ix_compare a b t len"
proof (cases t)
  case TYPE_STRING
  then show ?thesis using memcmp_swap [of "take (nat len) b" "take (nat len) a"] by simp
qed (simp_all add: Let_def float_less_asym)

lemma cmp_holds_swap: "cmp_holds (swap_op op) (- cmp) \<longleftrightarrow> cmp_holds op cmp"
  by (cases op) auto

section \<open>Strings in records\<close>

lemma word_of_char_of: "word_of_nat (of_char (char_of (unat b) :: char)) = (b :: byte)"
proof -
  have "unat b < 256" using unsigned_less [of b, where ?'a = nat] by simp
  then have "(of_char (char_of (unat b) :: char) :: nat) = unat b" by (simp add: of_char_of)
  then show ?thesis by simp
qed

lemma bytes_of_string_of_bytes: "bytes_of_string (string_of_bytes bs) = bs"
  unfolding bytes_of_string_def string_of_bytes_def map_map comp_def word_of_char_of by simp

lemma char_of_byte_eq_0: "char_of (unat (b :: byte)) = (CHR 0x00) \<longleftrightarrow> b = 0"
proof
  assume "char_of (unat b) = (CHR 0x00)"
  then have "word_of_nat (of_char (char_of (unat b) :: char)) = (word_of_nat (of_char (CHR 0x00)) :: byte)" by simp
  then show "b = 0" unfolding word_of_char_of by simp
next
  assume "b = 0"
  moreover have "(char_of (0 :: nat) :: char) = CHR 0x00" by code_simp
  ultimately show "char_of (unat b) = (CHR 0x00)" by simp
qed

lemma cut_string_of_bytes: "cut_at_nul (string_of_bytes bs) = string_of_bytes (takeWhile (\<lambda>b. b \<noteq> 0) bs)"
  by (induction bs) (auto simp: cut_at_nul_def string_of_bytes_def char_of_byte_eq_0)

text \<open>A string column holds a string padded with zero bytes.\<close>

definition padded :: "bytes \<Rightarrow> bool" where
  "padded bs \<longleftrightarrow> (\<forall>b \<in> set (dropWhile (\<lambda>b. b \<noteq> 0) bs). b = 0)"

lemma padded_eq:
  assumes "padded bs"
  shows "takeWhile (\<lambda>b. b \<noteq> 0) bs @ replicate (length bs - length (takeWhile (\<lambda>b. b \<noteq> 0) bs)) 0 = bs"
proof -
  let ?t = "takeWhile (\<lambda>b. b \<noteq> 0) bs" and ?d = "dropWhile (\<lambda>b. b \<noteq> 0) bs"
  have bs: "?t @ ?d = bs" by (rule takeWhile_dropWhile_id)
  have "length ?t + length ?d = length bs" by (metis bs length_append)
  then have len: "length bs - length ?t = length ?d" by arith
  have pad: "replicate (length ?d) 0 = ?d" by (rule replicate_eqI [OF refl, symmetric]) (use assms in \<open>unfold padded_def, blast\<close>)
  show ?thesis unfolding len pad by (rule bs)
qed

section \<open>Records that fit their columns\<close>

definition col_cell :: "ColMeta \<Rightarrow> RmRecord \<Rightarrow> bytes" where
  "col_cell col r = rd (nat (cm_offset col)) (nat (cell_len (cm_type col) (cm_len col))) (rec_data r)"

definition col_fits :: "ColMeta \<Rightarrow> RmRecord \<Rightarrow> bool" where
  "col_fits col r \<longleftrightarrow> 0 \<le> cm_offset col \<and> 0 \<le> cm_len col \<and> (cm_type col \<noteq> TYPE_STRING \<longrightarrow> cm_len col = 4) \<and>
     cm_offset col + cm_len col \<le> int (length (rec_data r)) \<and> (cm_type col = TYPE_STRING \<longrightarrow> padded (col_cell col r))"

lemma cell_len_col: "col_fits col r \<Longrightarrow> cell_len (cm_type col) (cm_len col) = cm_len col"
  by (auto simp: col_fits_def cell_len_def)

lemma length_col_cell: "col_fits col r \<Longrightarrow> length (col_cell col r) = nat (cm_len col)"
  unfolding col_cell_def cell_len_col by (rule length_rd) (auto simp: col_fits_def)

lemma cell_col: "col_fits col r \<Longrightarrow> cell (rec_data r) (cm_offset col) (cm_type col) (cm_len col) = ret (col_cell col r)"
  unfolding cell_def col_cell_def cell_len_col Let_def by (simp add: col_fits_def)

text \<open>The value that a column of a record is read as, with its raw form, which is the column again.\<close>

definition is_value_of :: "Value \<Rightarrow> ColMeta \<Rightarrow> RmRecord \<Rightarrow> bool" where
  "is_value_of v col r \<longleftrightarrow> val_type v = Some (cm_type col) \<and> val_raw v = Some \<lparr>rec_data = col_cell col r, rec_size = cm_len col\<rparr>"

lemma word_digit: "word_of_int (uint x + 256 * k) = (x :: byte)"
proof -
  have "take_bit 8 (uint x + 256 * k) = uint x"
    using unsigned_less [of x, where ?'a = int] by (simp add: take_bit_eq_mod)
  then have "uint (word_of_int (uint x + 256 * k) :: byte) = uint x" by (simp only: uint_word_of_int take_bit_eq_mod) simp
  then show ?thesis by (simp only: word_uint_eq_iff)
qed

lemma le32_of_le32:
  assumes "length bs = 4"
  shows "le32 (of_le32 bs) = bs"
proof -
  obtain b0 b1 b2 b3 where bs: "bs = [b0, b1, b2, b3]" using assms by (auto simp: numeral_eq_Suc length_Suc_conv)
  let ?v = "uint b0 + 256 * uint b1 + 65536 * uint b2 + 16777216 * uint b3"
  have u: "0 \<le> uint x \<and> uint x < 256" for x :: byte using unsigned_less [of x, where ?'a = int] by simp
  obtain k where k: "of_le32 bs = ?v + 4294967296 * k"
  proof
    show "of_le32 bs = ?v + 4294967296 * (if 2 ^ 31 \<le> ?v then -1 else 0)"
      using u [of b0] u [of b1] u [of b2] u [of b3] by (simp add: of_le32_def bs wrap32_def Let_def)
  qed
  have "of_le32 bs = uint b0 + 256 * (uint b1 + 256 * (uint b2 + 256 * (uint b3 + 256 * k)))" using k by simp
  moreover have "(uint x + 256 * m) div 256 = m" for x :: byte and m using u [of x] by simp
  moreover have "i div 65536 = i div 256 div 256" "i div 16777216 = i div 256 div 256 div 256" for i :: int
    by (simp_all add: zdiv_zmult2_eq [symmetric])
  ultimately show ?thesis by (simp only: le32_def bs word_digit)
qed


lemma col_bytes_col: "col_fits col r \<Longrightarrow> col_bytes col r s = (Inr (col_cell col r), s)"
  by (simp add: col_bytes_def cell_col guard_def col_fits_def ret_def)

lemma init_raw_read:
  assumes "col_fits col r" "read_value col r s = (Inr v, s1)"
  shows "s1 = s" "\<exists>v'. init_raw (cm_len col) v s = (Inr v', s) \<and> is_value_of v' col r"
proof -
  let ?bs = "col_cell col r"
  have v: "v = (case cm_type col of TYPE_INT \<Rightarrow> set_int (of_le32 ?bs) Value_init | TYPE_FLOAT \<Rightarrow> set_float (of_le32 ?bs) Value_init
      | TYPE_STRING \<Rightarrow> set_str (cut_at_nul (string_of_bytes ?bs)) Value_init)" and s1: "s1 = s"
    using assms(2) by (simp_all add: read_value_def bind_def col_bytes_col [OF assms(1)] ret_def)
  show "s1 = s" by (rule s1)
  have len: "length ?bs = nat (cm_len col)" "0 \<le> cm_len col" using length_col_cell [OF assms(1)] assms(1) by (simp_all add: col_fits_def)
  show "\<exists>v'. init_raw (cm_len col) v s = (Inr v', s) \<and> is_value_of v' col r"
  proof (cases "cm_type col = TYPE_STRING")
    case False
    then have l4: "cm_len col = 4" using assms(1) by (simp add: col_fits_def)
    then have raw: "le32 (of_le32 ?bs) = ?bs" using len(1) by (intro le32_of_le32) simp
    show ?thesis
      using False by (cases "cm_type col")
        (auto simp: v l4 raw init_raw_def is_value_of_def set_int_def set_float_def Value_init_def guard_def ret_def bind_def)
  next
    case True
    let ?t = "takeWhile (\<lambda>b. b \<noteq> 0) ?bs"
    have pad: "padded ?bs" using True assms(1) by (simp add: col_fits_def)
    have t: "length ?t \<le> nat (cm_len col)" using length_takeWhile_le [of _ ?bs] len(1) by simp
    have "wr 0 ?t (replicate (nat (cm_len col)) 0) = ?bs" using padded_eq [OF pad] len(1) by (simp add: wr_def)
    moreover have "length (string_of_bytes ?t) = length ?t" by (simp add: string_of_bytes_def)
    ultimately show ?thesis
      using True len(2) t by (simp add: v cut_string_of_bytes init_raw_def is_value_of_def set_str_def Value_init_def
          bytes_of_string_of_bytes guard_def ret_def bind_def nat_le_iff le_nat_iff)
  qed
qed

lemma read_value_ok: "col_fits col r \<Longrightarrow> \<exists>v. read_value col r s = (Inr v, s)"
  by (simp add: read_value_def bind_def col_bytes_col ret_def)

section \<open>The dictionary of a record\<close>

lemma rec2dict_from_ok:
  assumes "\<forall>col \<in> set cols. col_fits col r \<and> d (col_key col) = None" "distinct (map col_key cols)"
  shows "\<exists>d'. rec2dict_from d cols r s = (Inr d', s) \<and>
    (\<forall>col \<in> set cols. \<exists>v. d' (col_key col) = Some v \<and> is_value_of v col r) \<and>
    (\<forall>k. k \<notin> col_key ` set cols \<longrightarrow> d' k = d k)"
  using assms
proof (induction cols arbitrary: d)
  case (Cons col cols)
  have fits: "col_fits col r" "d (col_key col) = None" using Cons.prems(1) by simp_all
  obtain v where v: "read_value col r s = (Inr v, s)" using read_value_ok [OF fits(1), of s] by (elim exE)
  obtain v' where v': "init_raw (cm_len col) v s = (Inr v', s)" "is_value_of v' col r"
    using init_raw_read(2) [OF fits(1) v] by blast
  have new: "col_key col \<notin> col_key ` set cols" using Cons.prems(2) by auto
  have rest: "\<forall>c \<in> set cols. col_fits c r \<and> (d(col_key col \<mapsto> v')) (col_key c) = None"
    using Cons.prems(1) new by (auto simp: image_iff)
  have "distinct (map col_key cols)" using Cons.prems(2) by simp
  from Cons.IH [OF rest this] obtain d' where d': "rec2dict_from (d(col_key col \<mapsto> v')) cols r s = (Inr d', s)"
    "\<forall>c \<in> set cols. \<exists>v. d' (col_key c) = Some v \<and> is_value_of v c r"
    "\<forall>k. k \<notin> col_key ` set cols \<longrightarrow> d' k = (d(col_key col \<mapsto> v')) k" by (elim exE conjE)
  have "rec2dict_from d (col # cols) r s = (Inr d', s)"
    using v v'(1) d'(1) fits(2) by (simp add: guard_def bind_def)
  moreover have "d' (col_key col) = Some v'" using d'(3) new by simp
  ultimately show ?case using d'(2,3) v'(2) by (intro exI [of _ d']) auto
qed (simp add: ret_def)

lemma rec2dict_ok:
  assumes "\<forall>col \<in> set cols. col_fits col r" "distinct (map col_key cols)"
  obtains d where "rec2dict cols r s = (Inr d, s)" "\<And>col. col \<in> set cols \<Longrightarrow> \<exists>v. d (col_key col) = Some v \<and> is_value_of v col r"
proof -
  have "\<forall>col \<in> set cols. col_fits col r \<and> Map.empty (col_key col) = None" using assms(1) by simp
  from rec2dict_from_ok [OF this assms(2), of s] that show ?thesis unfolding rec2dict_def by blast
qed

lemma find_colD: "find_col cols t = Some i \<Longrightarrow> i < length cols \<and> col_key (cols ! i) = t"
  by (induction cols t arbitrary: i rule: find_col.induct) (auto simp: col_is_def col_key_def split: if_splits)


section \<open>Evaluation\<close>

lemma exec_get_col_ok: "find_col cols t = Some i \<Longrightarrow> exec_get_col cols t s = (Inr i, s)"
  by (simp add: exec_get_col_def ret_def)

text \<open>A condition with a value on the right-hand side that comes from column \<open>c\<close> of record \<open>ro\<close>.\<close>

lemma eval_cond_value:
  assumes "find_col cols (lhs_col cond) = Some j" "col_fits (cols ! j) r"
    and "is_rhs_val cond" "is_value_of (rhs_val cond) c ro" "col_fits c ro" "cm_type c = cm_type (cols ! j)" "cm_len c = cm_len (cols ! j)"
  shows "eval_cond cols cond r s =
    (Inr (cmp_holds (cond_op cond) (ix_compare (col_cell (cols ! j) r) (col_cell c ro) (cm_type c) (cm_len c))), s)"
proof -
  let ?lhs = "cols ! j"
  have "cond_rhs cols cond r s = (Inr (cm_type c, col_cell c ro, 0), s)"
    using assms(3,4) by (simp add: cond_rhs_def is_value_of_def ret_def)
  moreover have "cell (rec_data r) (cm_offset ?lhs) (cm_type c) (cm_len ?lhs) s = (Inr (col_cell ?lhs r), s)"
    using assms(6) by (simp add: cell_col [OF assms(2)] ret_def)
  moreover have "cell (col_cell c ro) 0 (cm_type c) (cm_len ?lhs) s = (Inr (col_cell c ro), s)"
    using length_col_cell [OF assms(5)] cell_len_col [OF assms(5)] assms(5,7)
    by (simp add: cell_def Let_def ret_def col_fits_def)
  ultimately show ?thesis
    using assms(6,7) by (simp add: eval_cond_def exec_get_col_ok [OF assms(1)] guard_def Let_def ret_def bind_def)
qed

section \<open>Conditions between two tables\<close>

text \<open>
  A condition between a column of the inner table \<open>tab\<close>, whose records have the columns \<open>cols2\<close>, and a column of
  the outer records, \<open>cols1\<close>. The column that it names, and the bytes of that column in the pair of records.
\<close>

definition pair_col :: "string \<Rightarrow> ColMeta list \<Rightarrow> ColMeta list \<Rightarrow> TabCol \<Rightarrow> ColMeta" where
  "pair_col tab cols1 cols2 t =
     (if tc_tab_name t = tab then cols2 ! the (find_col cols2 t) else cols1 ! the (find_col cols1 t))"

definition pair_cell :: "string \<Rightarrow> ColMeta list \<Rightarrow> ColMeta list \<Rightarrow> RmRecord \<Rightarrow> RmRecord \<Rightarrow> TabCol \<Rightarrow> bytes" where
  "pair_cell tab cols1 cols2 r1 r2 t = col_cell (pair_col tab cols1 cols2 t) (if tc_tab_name t = tab then r2 else r1)"

text \<open>What the condition says of the two records.\<close>

definition join_holds :: "string \<Rightarrow> ColMeta list \<Rightarrow> ColMeta list \<Rightarrow> RmRecord \<Rightarrow> RmRecord \<Rightarrow> Condition \<Rightarrow> bool" where
  "join_holds tab cols1 cols2 r1 r2 cond =
     (let col = pair_col tab cols1 cols2 (lhs_col cond) in
      cmp_holds (cond_op cond) (ix_compare (pair_cell tab cols1 cols2 r1 r2 (lhs_col cond))
        (pair_cell tab cols1 cols2 r1 r2 (rhs_col cond)) (cm_type col) (cm_len col)))"

text \<open>One side is a column of the inner table, the other one of the outer records, of the same type and length.\<close>

definition join_cond :: "string \<Rightarrow> ColMeta list \<Rightarrow> ColMeta list \<Rightarrow> RmRecord \<Rightarrow> Condition \<Rightarrow> bool" where
  "join_cond tab cols1 cols2 r2 cond \<longleftrightarrow> \<not> is_rhs_val cond \<and>
     (\<exists>inner outer. {lhs_col cond, rhs_col cond} = {inner, outer} \<and> tc_tab_name inner = tab \<and> tc_tab_name outer \<noteq> tab \<and>
        find_col cols2 inner \<noteq> None \<and> find_col cols1 outer \<noteq> None \<and> col_fits (pair_col tab cols1 cols2 inner) r2 \<and>
        cm_type (pair_col tab cols1 cols2 inner) = cm_type (pair_col tab cols1 cols2 outer) \<and>
        cm_len (pair_col tab cols1 cols2 inner) = cm_len (pair_col tab cols1 cols2 outer))"

lemma join_cond_value: "join_cond tab cols1 cols2 r2 cond \<Longrightarrow> \<not> is_rhs_val cond"
  by (simp add: join_cond_def)

definition turned :: "string \<Rightarrow> Condition \<Rightarrow> Condition" where
  "turned tab cond = (if tc_tab_name (lhs_col cond) = tab then cond
     else cond\<lparr>lhs_col := rhs_col cond, rhs_col := lhs_col cond, cond_op := swap_op (cond_op cond)\<rparr>)"

lemma turned_join:
  assumes "join_cond tab cols1 cols2 r2 cond"
  shows "join_cond tab cols1 cols2 r2 (turned tab cond)" "tc_tab_name (lhs_col (turned tab cond)) = tab"
    "tc_tab_name (rhs_col (turned tab cond)) \<noteq> tab" "orient_cond tab cond s = (Inr (turned tab cond), s)"
    "join_holds tab cols1 cols2 r1 r2 (turned tab cond) = join_holds tab cols1 cols2 r1 r2 cond"
proof -
  from assms show "join_cond tab cols1 cols2 r2 (turned tab cond)"
    by (auto simp: join_cond_def turned_def insert_commute)
  from assms have sides: "tc_tab_name (lhs_col cond) = tab \<longleftrightarrow> tc_tab_name (rhs_col cond) \<noteq> tab" "\<not> is_rhs_val cond"
    and same: "cm_type (pair_col tab cols1 cols2 (lhs_col cond)) = cm_type (pair_col tab cols1 cols2 (rhs_col cond))"
      "cm_len (pair_col tab cols1 cols2 (lhs_col cond)) = cm_len (pair_col tab cols1 cols2 (rhs_col cond))"
    by (auto simp: join_cond_def doubleton_eq_iff)
  show "tc_tab_name (lhs_col (turned tab cond)) = tab" "tc_tab_name (rhs_col (turned tab cond)) \<noteq> tab"
    "orient_cond tab cond s = (Inr (turned tab cond), s)"
    using sides by (auto simp: turned_def orient_cond_def guard_def ret_def bind_def)
  show "join_holds tab cols1 cols2 r1 r2 (turned tab cond) = join_holds tab cols1 cols2 r1 r2 cond"
    using same by (simp add: turned_def join_holds_def Let_def ix_compare_swap [of "pair_cell tab cols1 cols2 r1 r2 (rhs_col cond)"] cmp_holds_swap)
qed

lemma orient_joins:
  "\<forall>cond \<in> set conds. join_cond tab cols1 cols2 r2 cond \<Longrightarrow> orient_conds tab conds s = (Inr (map (turned tab) conds), s)"
  by (induction conds) (auto simp: turned_join(4) ret_def bind_def)

definition fed_with :: "feed_dict \<Rightarrow> Condition \<Rightarrow> Condition" where
  "fed_with d cond = cond\<lparr>is_rhs_val := True, rhs_val := the (d (rhs_col cond))\<rparr>"

lemma feed_joins:
  assumes "\<forall>cond \<in> set conds. \<not> is_rhs_val cond \<and> tc_tab_name (rhs_col cond) \<noteq> tab \<and> d (rhs_col cond) \<noteq> None"
  shows "feed_conds tab d conds s = (Inr (map (fed_with d) conds), s)"
  using assms by (induction conds) (auto simp: fed_with_def ret_def bind_def)

lemma eval_fed:
  assumes "join_cond tab cols1 cols2 r2 cond" "tc_tab_name (lhs_col cond) = tab"
    and "\<forall>col \<in> set cols1. col_fits col r1" "\<forall>col \<in> set cols1. \<exists>v. d (col_key col) = Some v \<and> is_value_of v col r1"
  shows "eval_cond cols2 (fed_with d cond) r2 s = (Inr (join_holds tab cols1 cols2 r1 r2 cond), s)"
proof -
  from assms(1,2) obtain i j where f: "tc_tab_name (rhs_col cond) \<noteq> tab" "find_col cols2 (lhs_col cond) = Some j" "find_col cols1 (rhs_col cond) = Some i"
    "col_fits (cols2 ! j) r2" "cm_type (cols2 ! j) = cm_type (cols1 ! i)" "cm_len (cols2 ! j) = cm_len (cols1 ! i)"
    by (auto simp: join_cond_def doubleton_eq_iff pair_col_def)
  have i: "i < length cols1" "col_key (cols1 ! i) = rhs_col cond" using find_colD [OF f(3)] by simp_all
  then obtain v where v: "d (rhs_col cond) = Some v" "is_value_of v (cols1 ! i) r1" using assms(4) nth_mem by metis
  have "eval_cond cols2 (fed_with d cond) r2 s =
    (Inr (cmp_holds (cond_op cond) (ix_compare (col_cell (cols2 ! j) r2) (col_cell (cols1 ! i) r1) (cm_type (cols1 ! i)) (cm_len (cols1 ! i)))), s)"
    using eval_cond_value [of cols2 "fed_with d cond" j r2 "cols1 ! i" r1 s] f v assms(3) i(1) by (simp add: fed_with_def)
  then show ?thesis using f assms(2) by (simp add: join_holds_def pair_cell_def pair_col_def Let_def)
qed

lemma eval_all_fed:
  assumes "\<forall>cond \<in> set conds. join_cond tab cols1 cols2 r2 cond \<and> tc_tab_name (lhs_col cond) = tab"
    and "\<forall>col \<in> set cols1. col_fits col r1" "\<forall>col \<in> set cols1. \<exists>v. d (col_key col) = Some v \<and> is_value_of v col r1"
  shows "eval_conds cols2 (map (fed_with d) conds) r2 s = (Inr (\<forall>cond \<in> set conds. join_holds tab cols1 cols2 r1 r2 cond), s)"
  using assms(1)
proof (induction conds)
  case (Cons cond conds)
  then show ?case using eval_fed [OF _ _ assms(2,3), of tab cols2 r2 cond s] by (simp add: ret_def bind_def)
qed (simp add: ret_def)

end
