(* ===== verification/Executors.thy ===== *)
theory Executors
  imports Conditions_Spec
begin

text \<open>
  \<open>execution/executor_*.h\<close>: the executors of query plans.

  The classes derived from \<open>AbstractExecutor\<close> are the constructors of \<open>executor\<close>, and the virtual
  functions are functions on it. What \<open>beginTuple\<close>, \<open>nextTuple\<close> and \<open>feed\<close> change of the executor is
  returned. The file handle \<open>fh_\<close> of a scan is the one that the catalogue holds for its table. A null
  \<open>scan_\<close> is \<open>None\<close>. The first argument of \<open>beginTuple\<close> and \<open>nextTuple\<close> bounds the depth of the calls
  and the turns of the loops. Offsets and lengths of columns are sums of the column lengths of the tables of a
  plan and are not wrapped around.

  Many bodies are unfinished in the code: the sequential scan evaluates no condition and never stops at
  a record, its \<open>Next\<close> returns nothing, the index scan is not initialised by its constructor, the
  projection and the join copy no bytes, and the inserting, deleting and updating executors change
  nothing.
\<close>

section \<open>The classes\<close>

record SeqScanExecutor =
  ss_tab_name :: string
  ss_conds :: "Condition list"
  ss_cols :: "ColMeta list"
  ss_len :: int
  ss_fed_conds :: "Condition list"
  ss_rid :: "Rid option"
  ss_scan :: "Rid option"

text \<open>\<open>xs_sm\<close> says whether the pointer to the catalogue is set, \<open>xs_fh\<close> names the table of the file handle.\<close>

record IndexScanExecutor =
  xs_tab_name :: string
  xs_conds :: "Condition list"
  xs_fh :: "string option"
  xs_cols :: "ColMeta list"
  xs_len :: int
  xs_fed_conds :: "Condition list"
  xs_index_no :: int
  xs_rid :: "Rid option"
  xs_scan :: "IxScan option"
  xs_sm :: bool

record InsertExecutor =
  ie_tab :: TabMeta
  ie_values :: "Value list"
  ie_tab_name :: string

record DeleteExecutor =
  de_tab :: TabMeta
  de_conds :: "Condition list"
  de_rids :: "Rid list"
  de_tab_name :: string

record UpdateExecutor =
  ue_tab :: TabMeta
  ue_conds :: "Condition list"
  ue_rids :: "Rid list"
  ue_tab_name :: string
  ue_set_clauses :: "SetClause list"

datatype executor =
    SeqScan SeqScanExecutor
  | IndexScan IndexScanExecutor
  | NestedLoopJoin executor executor int "ColMeta list" feed_dict
  | Projection executor "ColMeta list" int "nat list"
  | Insert InsertExecutor
  | Delete DeleteExecutor
  | Update UpdateExecutor

section \<open>Functions without effect\<close>

fun getType :: "executor \<Rightarrow> string" where
  "getType (SeqScan e) = ''SeqScan''"
| "getType (IndexScan e) = ''indexScan''"
| "getType (NestedLoopJoin l r len cols d) = ''Join''"
| "getType (Projection p cols len idxs) = ''Projection''"
| "getType _ = ''AbstractExecutor''"

fun tupleLen :: "executor \<Rightarrow> int" where
  "tupleLen (SeqScan e) = ss_len e"
| "tupleLen (IndexScan e) = xs_len e"
| "tupleLen (NestedLoopJoin l r len cols d) = len"
| "tupleLen (Projection p cols len idxs) = len"
| "tupleLen _ = 0"

text \<open>\<open>AbstractExecutor::cols\<close> dereferences a null pointer.\<close>

fun exec_cols :: "executor \<Rightarrow> ('s, ColMeta list) prog" where
  "exec_cols (SeqScan e) = ret (ss_cols e)"
| "exec_cols (IndexScan e) = ret (xs_cols e)"
| "exec_cols (NestedLoopJoin l r len cols d) = ret cols"
| "exec_cols (Projection p cols len idxs) = ret cols"
| "exec_cols _ = throw UndefinedBehaviour"

text \<open>\<open>is_end\<close>: the scans ask their scan object, a join its left executor, a projection the one below it; the others are at their end.\<close>

definition seq_is_end :: "SeqScanExecutor \<Rightarrow> ('s, bool) prog" where
  "seq_is_end e = (case ss_scan e of None \<Rightarrow> throw UndefinedBehaviour | Some rid \<Rightarrow> ret (RmScan_is_end rid))"

definition index_is_end :: "IndexScanExecutor \<Rightarrow> ('s, bool) prog" where
  "index_is_end e = (case xs_scan e of None \<Rightarrow> throw UndefinedBehaviour | Some sc \<Rightarrow> ret (IxScan_is_end sc))"

fun is_end :: "executor \<Rightarrow> ('s, bool) prog" where
  "is_end (SeqScan e) = seq_is_end e"
| "is_end (IndexScan e) = index_is_end e"
| "is_end (NestedLoopJoin l r len cols d) = is_end l"
| "is_end (Projection p cols len idxs) = is_end p"
| "is_end _ = ret True"

section \<open>Constructors\<close>

definition SeqScanExecutor_init :: "string \<Rightarrow> Condition list \<Rightarrow> (sm_state, executor) prog" where
  "SeqScanExecutor_init tab_name conds =
     bind (sm_get_table tab_name) (\<lambda>tab.
     bind (query (\<lambda>s. sm_fhs s tab_name)) (\<lambda>fh. bind (guard (fh \<noteq> None) (StdExc ''std::out_of_range'')) (\<lambda>_.
     bind (guard (tm_cols tab \<noteq> []) UndefinedBehaviour) (\<lambda>_.
     bind (orient_conds tab_name conds) (\<lambda>conds.
       let c = last (tm_cols tab) in
       ret (SeqScan \<lparr>ss_tab_name = tab_name, ss_conds = conds, ss_cols = tm_cols tab, ss_len = cm_offset c + cm_len c,
              ss_fed_conds = conds, ss_rid = None, ss_scan = None\<rparr>))))))"

text \<open>The constructor has an empty body: the members of class type are empty, the others have no value.\<close>

definition IndexScanExecutor_init :: "string \<Rightarrow> Condition list \<Rightarrow> int \<Rightarrow> ('s, executor) prog" where
  "IndexScanExecutor_init tab_name conds index_no =
     ret (IndexScan \<lparr>xs_tab_name = [], xs_conds = [], xs_fh = None, xs_cols = [], xs_len = 0, xs_fed_conds = [],
            xs_index_no = 0, xs_rid = None, xs_scan = None, xs_sm = False\<rparr>)"

definition NestedLoopJoinExecutor_init :: "executor \<Rightarrow> executor \<Rightarrow> ('s, executor) prog" where
  "NestedLoopJoinExecutor_init left right =
     bind (exec_cols left) (\<lambda>lcols. bind (exec_cols right) (\<lambda>rcols.
       ret (NestedLoopJoin left right (tupleLen left + tupleLen right)
              (lcols @ map (\<lambda>col. col\<lparr>cm_offset := cm_offset col + tupleLen left\<rparr>) rcols) Map.empty)))"

text \<open>The loop of the constructor of the projection: the columns, their positions and the next offset.\<close>

primrec project_cols :: "ColMeta list \<Rightarrow> TabCol list \<Rightarrow> int \<Rightarrow> ('s, ColMeta list \<times> nat list \<times> int) prog" where
  "project_cols prev_cols [] curr_offset = ret ([], [], curr_offset)"
| "project_cols prev_cols (sel_col # sel_cols) curr_offset =
     bind (exec_get_col prev_cols sel_col) (\<lambda>pos.
     let col = (prev_cols ! pos)\<lparr>cm_offset := curr_offset\<rparr> in
     bind (project_cols prev_cols sel_cols (curr_offset + cm_len col)) (\<lambda>(cols, idxs, len).
       ret (col # cols, pos # idxs, len)))"

definition ProjectionExecutor_init :: "executor \<Rightarrow> TabCol list \<Rightarrow> ('s, executor) prog" where
  "ProjectionExecutor_init prev sel_cols =
     bind (exec_cols prev) (\<lambda>prev_cols. bind (project_cols prev_cols sel_cols 0) (\<lambda>(cols, idxs, len).
       ret (Projection prev cols len idxs)))"

definition InsertExecutor_init :: "string \<Rightarrow> Value list \<Rightarrow> (sm_state, executor) prog" where
  "InsertExecutor_init tab_name vals =
     bind (sm_get_table tab_name) (\<lambda>tab.
     bind (guard (length vals = length (tm_cols tab)) (Exc InvalidValueCountError)) (\<lambda>_.
     bind (query (\<lambda>s. sm_fhs s tab_name)) (\<lambda>fh. bind (guard (fh \<noteq> None) (StdExc ''std::out_of_range'')) (\<lambda>_.
       ret (Insert \<lparr>ie_tab = tab, ie_values = vals, ie_tab_name = tab_name\<rparr>)))))"

definition DeleteExecutor_init :: "string \<Rightarrow> Condition list \<Rightarrow> Rid list \<Rightarrow> (sm_state, executor) prog" where
  "DeleteExecutor_init tab_name conds rids =
     bind (sm_get_table tab_name) (\<lambda>tab.
     bind (query (\<lambda>s. sm_fhs s tab_name)) (\<lambda>fh. bind (guard (fh \<noteq> None) (StdExc ''std::out_of_range'')) (\<lambda>_.
       ret (Delete \<lparr>de_tab = tab, de_conds = conds, de_rids = rids, de_tab_name = tab_name\<rparr>))))"

definition UpdateExecutor_init :: "string \<Rightarrow> SetClause list \<Rightarrow> Condition list \<Rightarrow> Rid list \<Rightarrow> (sm_state, executor) prog" where
  "UpdateExecutor_init tab_name set_clauses conds rids =
     bind (sm_get_table tab_name) (\<lambda>tab.
     bind (query (\<lambda>s. sm_fhs s tab_name)) (\<lambda>fh. bind (guard (fh \<noteq> None) (StdExc ''std::out_of_range'')) (\<lambda>_.
       ret (Update \<lparr>ue_tab = tab, ue_conds = conds, ue_rids = rids, ue_tab_name = tab_name, ue_set_clauses = set_clauses\<rparr>))))"

section \<open>Records\<close>

text \<open>The loops of \<open>DeleteExecutor::Next\<close> and \<open>UpdateExecutor::Next\<close> over the records: each is read and copied.\<close>

primrec read_rids :: "string \<Rightarrow> Rid list \<Rightarrow> (sm_state, unit) prog" where
  "read_rids tab_name [] = ret ()"
| "read_rids tab_name (rid # rids) = bind (on_fh tab_name (get_record rid)) (\<lambda>_. read_rids tab_name rids)"

text \<open>The loop of \<open>UpdateExecutor::Next\<close> over the set clauses.\<close>

primrec find_set_cols :: "TabMeta \<Rightarrow> SetClause list \<Rightarrow> ('s, unit) prog" where
  "find_set_cols tab [] = ret ()"
| "find_set_cols tab (c # cs) =
     (case get_col tab (tc_col_name (set_lhs c)) of
        None \<Rightarrow> throw UndefinedBehaviour
      | Some i \<Rightarrow> find_set_cols tab cs)"

text \<open>
  \<open>Next\<close>: a record, or null. The new record of a projection or a join keeps the bytes that its allocation
  finds, \<open>junk\<close>. \<open>SeqScanExecutor::Next\<close> runs off its end without returning a value.
\<close>

definition index_Next :: "IndexScanExecutor \<Rightarrow> (sm_state, RmRecord option) prog" where
  "index_Next e =
     bind (index_is_end e) (\<lambda>b. bind (guard (\<not> b) AssertFail) (\<lambda>_.
     case (xs_fh e, xs_rid e) of
       (Some name, Some rid) \<Rightarrow> bind (on_fh name (get_record rid)) (\<lambda>r. ret (Some r))
     | _ \<Rightarrow> throw UndefinedBehaviour))"

definition delete_Next :: "DeleteExecutor \<Rightarrow> (sm_state, RmRecord option) prog" where
  "delete_Next e = bind (read_rids (de_tab_name e) (de_rids e)) (\<lambda>_. ret None)"

definition update_Next :: "UpdateExecutor \<Rightarrow> (sm_state, RmRecord option) prog" where
  "update_Next e =
     bind (find_set_cols (ue_tab e) (ue_set_clauses e)) (\<lambda>_. bind (read_rids (ue_tab_name e) (ue_rids e)) (\<lambda>_. ret None))"

fun exec_Next :: "bytes \<Rightarrow> executor \<Rightarrow> (sm_state, RmRecord option) prog" where
  "exec_Next junk (SeqScan e) = throw UndefinedBehaviour"
| "exec_Next junk (IndexScan e) = index_Next e"
| "exec_Next junk (NestedLoopJoin l r len cols d) =
     bind (is_end l) (\<lambda>b. bind (guard (\<not> b) AssertFail) (\<lambda>_.
     case RmRecord_alloc junk len of Inl e \<Rightarrow> throw e | Inr rec \<Rightarrow> ret (Some rec)))"
| "exec_Next junk (Projection p cols len idxs) =
     bind (is_end p) (\<lambda>b. bind (guard (\<not> b) AssertFail) (\<lambda>_.
     bind (exec_cols p) (\<lambda>prev_cols. bind (exec_Next junk p) (\<lambda>prev_rec.
     case RmRecord_alloc junk len of Inl e \<Rightarrow> throw e | Inr rec \<Rightarrow> ret (Some rec)))))"
| "exec_Next junk (Insert e) = ret None"
| "exec_Next junk (Delete e) = delete_Next e"
| "exec_Next junk (Update e) = update_Next e"

section \<open>Feeding\<close>

definition seq_feed :: "feed_dict \<Rightarrow> SeqScanExecutor \<Rightarrow> ('s, SeqScanExecutor) prog" where
  "seq_feed d e =
     bind (feed_conds (ss_tab_name e) d (ss_conds e)) (\<lambda>fed.
     bind (check_runtime_conds (ss_tab_name e) fed) (\<lambda>_. ret (e\<lparr>ss_fed_conds := fed\<rparr>)))"

definition index_feed :: "IndexScanExecutor \<Rightarrow> ('s, IndexScanExecutor) prog" where
  "index_feed e =
     bind (check_runtime_conds (xs_tab_name e) (xs_conds e)) (\<lambda>_. ret (e\<lparr>xs_fed_conds := xs_conds e\<rparr>))"

fun exec_feed :: "feed_dict \<Rightarrow> executor \<Rightarrow> ('s, executor) prog" where
  "exec_feed d (SeqScan e) = bind (seq_feed d e) (\<lambda>e. ret (SeqScan e))"
| "exec_feed d (IndexScan e) = bind (index_feed e) (\<lambda>e. ret (IndexScan e))"
| "exec_feed d (NestedLoopJoin l r len cols d0) = bind (exec_feed d l) (\<lambda>l. ret (NestedLoopJoin l r len cols d))"
| "exec_feed d (Projection p cols len idxs) = throw (Exc (InternalError ''Cannot feed a projection node''))"
| "exec_feed d ex = ret ex"

text \<open>\<open>feed_dict.insert(left_dict.begin(), left_dict.end())\<close> keeps the entries that are there.\<close>

definition dict_insert :: "feed_dict \<Rightarrow> feed_dict \<Rightarrow> feed_dict" where
  "dict_insert d left_dict = left_dict ++ d"

definition feed_right :: "bytes \<Rightarrow> feed_dict \<Rightarrow> executor \<Rightarrow> executor \<Rightarrow> (sm_state, executor) prog" where
  "feed_right junk prev_feed_dict left right =
     bind (exec_cols left) (\<lambda>cols. bind (exec_Next junk left) (\<lambda>r.
     case r of
       None \<Rightarrow> if cols = [] then exec_feed prev_feed_dict right else throw UndefinedBehaviour
     | Some rec \<Rightarrow> bind (rec2dict cols rec) (\<lambda>left_dict. exec_feed (dict_insert prev_feed_dict left_dict) right)))"

section \<open>Moving through the records\<close>

text \<open>\<open>try { get_record } catch (RecordNotFoundError)\<close>: the exception is reported and forgotten.\<close>

definition read_and_forget :: "string \<Rightarrow> Rid \<Rightarrow> (sm_state, unit) prog" where
  "read_and_forget tab_name rid s =
     (case on_fh tab_name (get_record rid) s of
        (Inr r, s1) \<Rightarrow> (Inr (), s1)
      | (Inl (Exc (RecordNotFoundError p sl)), s1) \<Rightarrow> (Inr (), s1)
      | (Inl e, s1) \<Rightarrow> (Inl e, s1))"

primrec seq_begin_loop :: "nat \<Rightarrow> SeqScanExecutor \<Rightarrow> Rid \<Rightarrow> (sm_state, SeqScanExecutor) prog" where
  "seq_begin_loop 0 e rid = throw OutOfFuel"
| "seq_begin_loop (Suc n) e rid =
     (if RmScan_is_end rid then ret (e\<lparr>ss_scan := Some rid\<rparr>)
      else bind (read_and_forget (ss_tab_name e) rid) (\<lambda>_.
           bind (on_fh (ss_tab_name e) (RmScan_next rid)) (\<lambda>rid'. seq_begin_loop n (e\<lparr>ss_rid := Some rid\<rparr>) rid')))"

definition seq_beginTuple :: "nat \<Rightarrow> SeqScanExecutor \<Rightarrow> (sm_state, SeqScanExecutor) prog" where
  "seq_beginTuple n e =
     bind (check_runtime_conds (ss_tab_name e) (ss_fed_conds e)) (\<lambda>_.
     bind (on_fh (ss_tab_name e) RmScan_init) (\<lambda>rid. seq_begin_loop n e rid))"

text \<open>\<open>for (scan_->next(); !scan_->is_end(); scan_->next())\<close> with an empty body.\<close>

primrec seq_next_loop :: "nat \<Rightarrow> SeqScanExecutor \<Rightarrow> Rid \<Rightarrow> (sm_state, SeqScanExecutor) prog" where
  "seq_next_loop 0 e rid = throw OutOfFuel"
| "seq_next_loop (Suc n) e rid =
     bind (on_fh (ss_tab_name e) (RmScan_next rid)) (\<lambda>rid'.
       if RmScan_is_end rid' then ret (e\<lparr>ss_scan := Some rid'\<rparr>) else seq_next_loop n e rid')"

definition seq_nextTuple :: "nat \<Rightarrow> SeqScanExecutor \<Rightarrow> (sm_state, SeqScanExecutor) prog" where
  "seq_nextTuple n e =
     bind (check_runtime_conds (ss_tab_name e) (ss_fed_conds e)) (\<lambda>_.
     case ss_scan e of
       None \<Rightarrow> throw UndefinedBehaviour
     | Some rid \<Rightarrow> bind (guard (\<not> RmScan_is_end rid) AssertFail) (\<lambda>_. seq_next_loop n e rid))"

text \<open>The range of an index scan: the first usable condition decides; only equality is handled.\<close>

primrec index_range :: "nat \<Rightarrow> string \<Rightarrow> string \<Rightarrow> Condition list \<Rightarrow> Iid \<times> Iid \<Rightarrow> (sm_state, Iid \<times> Iid) prog" where
  "index_range n ix_name index_col [] rng = ret rng"
| "index_range n ix_name index_col (cond # conds) rng =
     (if is_rhs_val cond \<and> cond_op cond \<noteq> OP_NE \<and> tc_col_name (lhs_col cond) = index_col
      then (case val_raw (rhs_val cond) of
              None \<Rightarrow> throw UndefinedBehaviour
            | Some raw \<Rightarrow>
                if cond_op cond = OP_EQ
                then bind (on_ih ix_name (ix_lower_bound n (rec_data raw))) (\<lambda>lower.
                     bind (on_ih ix_name (ix_upper_bound n (rec_data raw))) (\<lambda>upper. ret (lower, upper)))
                else ret rng)
      else index_range n ix_name index_col conds rng)"

primrec index_begin_loop :: "nat \<Rightarrow> string \<Rightarrow> IndexScanExecutor \<Rightarrow> IxScan \<Rightarrow> (sm_state, IndexScanExecutor) prog" where
  "index_begin_loop 0 ix_name e sc = throw OutOfFuel"
| "index_begin_loop (Suc n) ix_name e sc =
     (if IxScan_is_end sc then ret (e\<lparr>xs_scan := Some sc\<rparr>)
      else bind (on_ih ix_name (IxScan_rid sc)) (\<lambda>rid.
           bind (case xs_fh e of None \<Rightarrow> throw UndefinedBehaviour | Some fh \<Rightarrow> on_fh fh (get_record rid)) (\<lambda>r.
           bind (eval_conds (xs_cols e) (xs_fed_conds e) r) (\<lambda>b.
             if b then ret (e\<lparr>xs_scan := Some sc, xs_rid := Some rid\<rparr>)
             else bind (on_ih ix_name (IxScan_next sc)) (\<lambda>sc'. index_begin_loop n ix_name (e\<lparr>xs_rid := Some rid\<rparr>) sc')))))"

definition index_beginTuple :: "nat \<Rightarrow> IndexScanExecutor \<Rightarrow> (sm_state, IndexScanExecutor) prog" where
  "index_beginTuple n e =
     bind (check_runtime_conds (xs_tab_name e) (xs_fed_conds e)) (\<lambda>_.
     bind (guard (xs_sm e) UndefinedBehaviour) (\<lambda>_.
     let ix_name = get_index_name (xs_tab_name e) (xs_index_no e) in
     bind (on_ih ix_name leaf_begin) (\<lambda>lower. bind (on_ih ix_name leaf_end) (\<lambda>upper.
     bind (guard (0 \<le> xs_index_no e \<and> xs_index_no e < int (length (xs_cols e))) UndefinedBehaviour) (\<lambda>_.
     bind (index_range n ix_name (cm_name (xs_cols e ! nat (xs_index_no e))) (xs_fed_conds e) (lower, upper)) (\<lambda>(lower, upper).
       index_begin_loop n ix_name e \<lparr>is_iid = lower, is_end_iid = upper\<rparr>))))))"

definition index_nextTuple :: "IndexScanExecutor \<Rightarrow> (sm_state, IndexScanExecutor) prog" where
  "index_nextTuple e =
     bind (check_runtime_conds (xs_tab_name e) (xs_fed_conds e)) (\<lambda>_.
     bind (index_is_end e) (\<lambda>b. bind (guard (\<not> b) AssertFail) (\<lambda>_. ret e)))"

text \<open>
  The join. The loop of its \<open>nextTuple\<close> has an empty body: when the right executor is at its end the
  function does not return.
\<close>

fun beginTuple :: "nat \<Rightarrow> bytes \<Rightarrow> executor \<Rightarrow> (sm_state, executor) prog"
  and nextTuple :: "nat \<Rightarrow> bytes \<Rightarrow> executor \<Rightarrow> (sm_state, executor) prog"
  and join_loop :: "nat \<Rightarrow> bytes \<Rightarrow> feed_dict \<Rightarrow> executor \<Rightarrow> executor \<Rightarrow> (sm_state, executor \<times> executor) prog" where
  "beginTuple 0 junk ex = throw OutOfFuel"
| "beginTuple (Suc n) junk (SeqScan e) = bind (seq_beginTuple n e) (\<lambda>e. ret (SeqScan e))"
| "beginTuple (Suc n) junk (IndexScan e) = bind (index_beginTuple n e) (\<lambda>e. ret (IndexScan e))"
| "beginTuple (Suc n) junk (NestedLoopJoin l r len cols d) =
     bind (beginTuple n junk l) (\<lambda>l. bind (is_end l) (\<lambda>b.
     if b then ret (NestedLoopJoin l r len cols d)
     else bind (feed_right junk d l r) (\<lambda>r. bind (beginTuple n junk r) (\<lambda>r.
          bind (join_loop n junk d l r) (\<lambda>(l, r). ret (NestedLoopJoin l r len cols d))))))"
| "beginTuple (Suc n) junk (Projection p cols len idxs) = bind (beginTuple n junk p) (\<lambda>p. ret (Projection p cols len idxs))"
| "beginTuple (Suc n) junk ex = ret ex"
| "nextTuple 0 junk ex = throw OutOfFuel"
| "nextTuple (Suc n) junk (SeqScan e) = bind (seq_nextTuple n e) (\<lambda>e. ret (SeqScan e))"
| "nextTuple (Suc n) junk (IndexScan e) = bind (index_nextTuple e) (\<lambda>e. ret (IndexScan e))"
| "nextTuple (Suc n) junk (NestedLoopJoin l r len cols d) =
     bind (is_end l) (\<lambda>b. bind (guard (\<not> b) AssertFail) (\<lambda>_.
     bind (nextTuple n junk r) (\<lambda>r. bind (is_end r) (\<lambda>b.
       if b then throw OutOfFuel else ret (NestedLoopJoin l r len cols d)))))"
| "nextTuple (Suc n) junk (Projection p cols len idxs) =
     bind (is_end p) (\<lambda>b. bind (guard (\<not> b) AssertFail) (\<lambda>_.
     bind (nextTuple n junk p) (\<lambda>p. ret (Projection p cols len idxs))))"
| "nextTuple (Suc n) junk ex = ret ex"
| "join_loop 0 junk d l r = throw OutOfFuel"
| "join_loop (Suc n) junk d l r =
     bind (is_end r) (\<lambda>b.
     if \<not> b then ret (l, r)
     else bind (nextTuple n junk l) (\<lambda>l. bind (is_end l) (\<lambda>b.
          if b then ret (l, r)
          else bind (feed_right junk d l r) (\<lambda>r. bind (beginTuple n junk r) (\<lambda>r. join_loop n junk d l r)))))"

text \<open>\<open>rid()\<close>: the scans return their record; the other executors a member that is never set.\<close>

definition exec_rid :: "executor \<Rightarrow> ('s, Rid) prog" where
  "exec_rid ex = (case (case ex of SeqScan e \<Rightarrow> ss_rid e | IndexScan e \<Rightarrow> xs_rid e | _ \<Rightarrow> None) of
     None \<Rightarrow> throw UndefinedBehaviour | Some rid \<Rightarrow> ret rid)"

end
