(* ===== verification/Executors_Spec.thy ===== *)
theory Executors_Spec
  imports Executors
begin

text \<open>
  What the executors do: a sequential scan reads every record of its table and stops nowhere, the
  columns of projections and joins are laid out without gaps or overlaps, and a join feeds its right scan with conditions that mean what the query says.
\<close>

section \<open>Scans through the catalogue\<close>









section \<open>The sequential scan\<close>





section \<open>Layout of projections and joins\<close>

text \<open>Columns that lie one after the other from \<open>off\<close> to \<open>end\<close>.\<close>

fun contiguous :: "int \<Rightarrow> ColMeta list \<Rightarrow> int \<Rightarrow> bool" where
  "contiguous off [] end' \<longleftrightarrow> off = end'"
| "contiguous off (col # cols) end' \<longleftrightarrow> cm_offset col = off \<and> contiguous (off + cm_len col) cols end'"

lemma project_cols_ok:
  assumes "project_cols prev_cols sel off s = (Inr (cols, idxs, len), s')"
  shows "s' = s" "contiguous off cols len" "map col_key cols = sel" "length idxs = length cols"
    "\<forall>k < length cols. idxs ! k < length prev_cols \<and> cols ! k = (prev_cols ! (idxs ! k))\<lparr>cm_offset := cm_offset (cols ! k)\<rparr>"
proof -
  have "s' = s \<and> contiguous off cols len \<and> map col_key cols = sel \<and> length idxs = length cols \<and>
    (\<forall>k < length cols. idxs ! k < length prev_cols \<and> cols ! k = (prev_cols ! (idxs ! k))\<lparr>cm_offset := cm_offset (cols ! k)\<rparr>)"
    using assms
  proof (induction sel arbitrary: off cols idxs len s')
    case (Cons t sel)
    from Cons.prems obtain i where i: "find_col prev_cols t = Some i"
      by (cases "find_col prev_cols t") (auto simp: exec_get_col_def throw_def bind_def)
    let ?col = "(prev_cols ! i)\<lparr>cm_offset := off\<rparr>"
    from Cons.prems obtain cols' idxs' s1 where p: "project_cols prev_cols sel (off + cm_len (prev_cols ! i)) s = (Inr (cols', idxs', len), s1)"
      and eq: "cols = ?col # cols'" "idxs = i # idxs'" "s' = s1"
      by (auto simp: exec_get_col_ok [OF i] Let_def bind_eq_Inr ret_def)
    from Cons.IH [OF p] eq find_colD [OF i] show ?case by (auto simp: nth_Cons' col_key_def)
  qed (simp add: ret_def)
  then show "s' = s" "contiguous off cols len" "map col_key cols = sel" "length idxs = length cols"
    "\<forall>k < length cols. idxs ! k < length prev_cols \<and> cols ! k = (prev_cols ! (idxs ! k))\<lparr>cm_offset := cm_offset (cols ! k)\<rparr>" by blast+
qed


lemma contiguous_append: "contiguous off (cs @ ds) z \<longleftrightarrow> (\<exists>m. contiguous off cs m \<and> contiguous m ds z)"
  by (induction cs arbitrary: off) auto

lemma contiguous_shift: "contiguous (off + d) (map (\<lambda>c. c\<lparr>cm_offset := cm_offset c + d\<rparr>) cs) (z + d) \<longleftrightarrow> contiguous off cs z"
proof (induction cs arbitrary: off)
  case (Cons c cs)
  have "off + d + cm_len c = (off + cm_len c) + d" by simp
  then have "contiguous (off + d + cm_len c) (map (\<lambda>c. c\<lparr>cm_offset := cm_offset c + d\<rparr>) cs) (z + d) \<longleftrightarrow> contiguous (off + cm_len c) cs z"
    using Cons [of "off + cm_len c"] by (simp only:)
  then show ?case by simp
qed simp

lemma contiguous_last: "contiguous off cs z \<Longrightarrow> cs \<noteq> [] \<Longrightarrow> z = cm_offset (last cs) + cm_len (last cs)"
  by (induction cs arbitrary: off) auto

text \<open>The part of an executor that its operations leave alone.\<close>

fun plan_shape :: "executor \<Rightarrow> executor" where
  "plan_shape (SeqScan e) = SeqScan (e\<lparr>ss_fed_conds := [], ss_rid := None, ss_scan := None\<rparr>)"
| "plan_shape (IndexScan e) = IndexScan (e\<lparr>xs_fed_conds := [], xs_rid := None, xs_scan := None\<rparr>)"
| "plan_shape (NestedLoopJoin l r len cols d) = NestedLoopJoin (plan_shape l) (plan_shape r) len cols Map.empty"
| "plan_shape (Projection p cols len idxs) = Projection (plan_shape p) cols len idxs"
| "plan_shape ex = ex"

definition plan_cols :: "executor \<Rightarrow> ColMeta list" where
  "plan_cols ex = (case ex of SeqScan e \<Rightarrow> ss_cols e | IndexScan e \<Rightarrow> xs_cols e
     | NestedLoopJoin l r len cols d \<Rightarrow> cols | Projection p cols len idxs \<Rightarrow> cols | _ \<Rightarrow> [])"

text \<open>A well-formed plan: every node's columns lie one after the other in its record, from 0 to its length.\<close>

fun plan_ok :: "executor \<Rightarrow> bool" where
  "plan_ok (NestedLoopJoin l r len cols d) \<longleftrightarrow>
     plan_ok l \<and> plan_ok r \<and> contiguous 0 cols len \<and> map col_key cols = map col_key (plan_cols l) @ map col_key (plan_cols r)"
| "plan_ok (Projection p cols len idxs) \<longleftrightarrow>
     plan_ok p \<and> contiguous 0 cols len \<and> length idxs = length cols \<and>
     (\<forall>k < length cols. idxs ! k < length (plan_cols p) \<and> cols ! k = (plan_cols p ! (idxs ! k))\<lparr>cm_offset := cm_offset (cols ! k)\<rparr>)"
| "plan_ok ex \<longleftrightarrow> contiguous 0 (plan_cols ex) (tupleLen ex)"

lemma plan_cols_shape [simp]: "plan_cols (plan_shape ex) = plan_cols ex" "tupleLen (plan_shape ex) = tupleLen ex"
  by (cases ex; simp add: plan_cols_def)+

lemma plan_ok_shape [simp]: "plan_ok (plan_shape ex) \<longleftrightarrow> plan_ok ex"
  by (induction ex) (simp_all add: plan_cols_def split: executor.splits)

lemma exec_cols_plan: "exec_cols ex s = (Inr cols, s') \<Longrightarrow> cols = plan_cols ex \<and> s' = s"
  by (cases ex) (simp_all add: plan_cols_def ret_def throw_def)

lemma plan_ok_contiguous: "plan_ok ex \<Longrightarrow> contiguous 0 (plan_cols ex) (tupleLen ex)"
  by (cases ex) (simp_all add: plan_cols_def)

lemma exec_feed_shape: "exec_feed d ex s = (Inr ex', s') \<Longrightarrow> plan_shape ex' = plan_shape ex"
  by (induction d ex arbitrary: ex' s' rule: exec_feed.induct)
    (auto simp: seq_feed_def index_feed_def bind_eq_Inr ret_def throw_def)

lemma feed_right_shape: "feed_right junk d l r s = (Inr r', s') \<Longrightarrow> plan_shape r' = plan_shape r"
  by (auto simp: feed_right_def bind_eq_Inr throw_def dest!: exec_feed_shape split: option.splits if_splits)

lemma seq_begin_loop_shape: "seq_begin_loop n e rid s = (Inr e', s') \<Longrightarrow> plan_shape (SeqScan e') = plan_shape (SeqScan e)"
  by (induction n arbitrary: e rid s) (auto simp: bind_eq_Inr ret_def throw_def split: if_splits)

lemma seq_next_loop_shape: "seq_next_loop n e rid s = (Inr e', s') \<Longrightarrow> plan_shape (SeqScan e') = plan_shape (SeqScan e)"
  by (induction n arbitrary: e rid s) (auto simp: bind_eq_Inr ret_def throw_def split: if_splits)

lemma index_begin_loop_shape: "index_begin_loop n nm e sc s = (Inr e', s') \<Longrightarrow> plan_shape (IndexScan e') = plan_shape (IndexScan e)"
proof (induction n arbitrary: e sc s)
  case (Suc n)
  show ?case
  proof (cases "IxScan_is_end sc")
    case True
    then show ?thesis using Suc.prems by (auto simp: ret_def)
  next
    case False
    then obtain rid b s3 where "(if b then ret (e\<lparr>xs_scan := Some sc, xs_rid := Some rid\<rparr>)
        else bind (on_ih nm (IxScan_next sc)) (\<lambda>sc'. index_begin_loop n nm (e\<lparr>xs_rid := Some rid\<rparr>) sc')) s3 = (Inr e', s')"
      using Suc.prems unfolding index_begin_loop.simps if_not_P [OF False] bind_eq_Inr by (elim exE conjE) metis
    then show ?thesis by (cases b) (auto simp: ret_def bind_eq_Inr dest!: Suc.IH)
  qed
qed (simp add: throw_def)

lemma scan_shape:
  "seq_beginTuple n e s = (Inr e', s') \<Longrightarrow> plan_shape (SeqScan e') = plan_shape (SeqScan e)"
  "seq_nextTuple n e s = (Inr e', s') \<Longrightarrow> plan_shape (SeqScan e') = plan_shape (SeqScan e)"
  "index_beginTuple n i s = (Inr i', s') \<Longrightarrow> plan_shape (IndexScan i') = plan_shape (IndexScan i)"
  "index_nextTuple i s = (Inr i', s') \<Longrightarrow> plan_shape (IndexScan i') = plan_shape (IndexScan i)"
proof -
  show "seq_beginTuple n e s = (Inr e', s') \<Longrightarrow> plan_shape (SeqScan e') = plan_shape (SeqScan e)"
    unfolding seq_beginTuple_def bind_eq_Inr by (elim exE conjE) (rule seq_begin_loop_shape)
  show "seq_nextTuple n e s = (Inr e', s') \<Longrightarrow> plan_shape (SeqScan e') = plan_shape (SeqScan e)"
    unfolding seq_nextTuple_def bind_eq_Inr
    by (elim exE conjE, cases "ss_scan e") (auto simp: throw_def bind_eq_Inr dest!: seq_next_loop_shape)
  show "index_beginTuple n i s = (Inr i', s') \<Longrightarrow> plan_shape (IndexScan i') = plan_shape (IndexScan i)"
    unfolding index_beginTuple_def Let_def bind_eq_Inr
    by (elim exE conjE) (simp only: split_beta, rule index_begin_loop_shape)
  show "index_nextTuple i s = (Inr i', s') \<Longrightarrow> plan_shape (IndexScan i') = plan_shape (IndexScan i)"
    by (auto simp: index_nextTuple_def bind_eq_Inr ret_def)
qed


lemma begin_step_shape:
  assumes IH: "\<And>ex s ex' s'. beginTuple n junk ex s = (Inr ex', s') \<Longrightarrow> plan_shape ex' = plan_shape ex"
    "\<And>d l r s l' r' s'. join_loop n junk d l r s = (Inr (l', r'), s') \<Longrightarrow> plan_shape l' = plan_shape l \<and> plan_shape r' = plan_shape r"
    and step: "beginTuple (Suc n) junk ex s = (Inr ex', s')"
  shows "plan_shape ex' = plan_shape ex"
proof (cases ex)
  case (NestedLoopJoin l r len cols d)
  from step obtain l1 s1 b s2 where l1: "beginTuple n junk l s = (Inr l1, s1)" "is_end l1 s1 = (Inr b, s2)"
    and rest: "(if b then ret (NestedLoopJoin l1 r len cols d)
      else bind (feed_right junk d l1 r) (\<lambda>r. bind (beginTuple n junk r) (\<lambda>r.
           bind (join_loop n junk d l1 r) (\<lambda>(l, r). ret (NestedLoopJoin l r len cols d))))) s2 = (Inr ex', s')"
    unfolding NestedLoopJoin beginTuple.simps bind_eq_Inr by blast
  have L: "plan_shape l1 = plan_shape l" by (rule IH(1) [OF l1(1)])
  show ?thesis
  proof (cases b)
    case True
    then show ?thesis using rest L by (auto simp: ret_def NestedLoopJoin)
  next
    case False
    from rest obtain r1 s3 r2 s4 l3 r3 where r1: "feed_right junk d l1 r s2 = (Inr r1, s3)" "beginTuple n junk r1 s3 = (Inr r2, s4)"
      "join_loop n junk d l1 r2 s4 = (Inr (l3, r3), s')" and ex': "ex' = NestedLoopJoin l3 r3 len cols d"
      using False by (auto simp: bind_eq_Inr ret_def)
    from IH(1) [OF r1(2)] IH(2) [OF r1(3)] feed_right_shape [OF r1(1)] L show ?thesis by (simp add: NestedLoopJoin ex')
  qed
next
  case (Projection p cols len idxs)
  from step obtain p1 s1 where "beginTuple n junk p s = (Inr p1, s1)" "ex' = Projection p1 cols len idxs"
    unfolding Projection beginTuple.simps bind_eq_Inr ret_def by blast
  with IH(1) show ?thesis by (simp add: Projection)
next
  case (SeqScan e)
  from step obtain e' s1 where "seq_beginTuple n e s = (Inr e', s1)" "ex' = SeqScan e'"
    unfolding SeqScan beginTuple.simps bind_eq_Inr ret_def by blast
  with scan_shape(1) show ?thesis unfolding SeqScan by blast
next
  case (IndexScan e)
  from step obtain e' s1 where "index_beginTuple n e s = (Inr e', s1)" "ex' = IndexScan e'"
    unfolding IndexScan beginTuple.simps bind_eq_Inr ret_def by blast
  with scan_shape(3) show ?thesis unfolding IndexScan by blast
qed (use step in \<open>simp_all add: ret_def\<close>)

lemma next_step_shape:
  assumes IH: "\<And>ex s ex' s'. nextTuple n junk ex s = (Inr ex', s') \<Longrightarrow> plan_shape ex' = plan_shape ex"
    and step: "nextTuple (Suc n) junk ex s = (Inr ex', s')"
  shows "plan_shape ex' = plan_shape ex"
proof (cases ex)
  case (NestedLoopJoin l r len cols d)
  from step obtain r1 s1 s2 b s3 where "nextTuple n junk r s1 = (Inr r1, s2)"
    "(if b then throw OutOfFuel else ret (NestedLoopJoin l r1 len cols d)) s3 = (Inr ex', s')"
    unfolding NestedLoopJoin nextTuple.simps bind_eq_Inr by blast
  with IH show ?thesis by (auto simp: NestedLoopJoin ret_def throw_def split: if_splits)
next
  case (Projection p cols len idxs)
  from step obtain p1 s1 s2 where "nextTuple n junk p s1 = (Inr p1, s2)" "ex' = Projection p1 cols len idxs"
    unfolding Projection nextTuple.simps bind_eq_Inr ret_def by blast
  with IH show ?thesis by (simp add: Projection)
next
  case (SeqScan e)
  from step obtain e' s1 where "seq_nextTuple n e s = (Inr e', s1)" "ex' = SeqScan e'"
    unfolding SeqScan nextTuple.simps bind_eq_Inr ret_def by blast
  with scan_shape(2) show ?thesis unfolding SeqScan by blast
next
  case (IndexScan e)
  from step obtain e' s1 where "index_nextTuple e s = (Inr e', s1)" "ex' = IndexScan e'"
    unfolding IndexScan nextTuple.simps bind_eq_Inr ret_def by blast
  with scan_shape(4) show ?thesis unfolding IndexScan by blast
qed (use step in \<open>simp_all add: ret_def\<close>)

lemma join_step_shape:
  assumes IH: "\<And>ex s ex' s'. beginTuple n junk ex s = (Inr ex', s') \<Longrightarrow> plan_shape ex' = plan_shape ex"
    "\<And>ex s ex' s'. nextTuple n junk ex s = (Inr ex', s') \<Longrightarrow> plan_shape ex' = plan_shape ex"
    "\<And>d l r s l' r' s'. join_loop n junk d l r s = (Inr (l', r'), s') \<Longrightarrow> plan_shape l' = plan_shape l \<and> plan_shape r' = plan_shape r"
    and step: "join_loop (Suc n) junk d l r s = (Inr (l', r'), s')"
  shows "plan_shape l' = plan_shape l \<and> plan_shape r' = plan_shape r"
proof -
  from step obtain b s1 where rest: "(if \<not> b then ret (l, r)
     else bind (nextTuple n junk l) (\<lambda>l. bind (is_end l) (\<lambda>b.
          if b then ret (l, r)
          else bind (feed_right junk d l r) (\<lambda>r. bind (beginTuple n junk r) (\<lambda>r. join_loop n junk d l r))))) s1 = (Inr (l', r'), s')"
    unfolding join_loop.simps bind_eq_Inr by blast
  show ?thesis
  proof (cases b)
    case False
    then show ?thesis using rest by (auto simp: ret_def)
  next
    case True
    then have nb: "\<not> \<not> b" by simp
    from rest obtain l1 s2 b2 s3 where l1: "nextTuple n junk l s1 = (Inr l1, s2)"
      and rest2: "(if b2 then ret (l1, r)
          else bind (feed_right junk d l1 r) (\<lambda>r. bind (beginTuple n junk r) (\<lambda>r. join_loop n junk d l1 r))) s3 = (Inr (l', r'), s')"
      unfolding if_not_P [OF nb] bind_eq_Inr by blast
    have L: "plan_shape l1 = plan_shape l" by (rule IH(2) [OF l1])
    show ?thesis
    proof (cases b2)
      case True
      then show ?thesis using rest2 L by (auto simp: ret_def)
    next
      case False
      with rest2 obtain r1 s4 r2 s5 where "feed_right junk d l1 r s3 = (Inr r1, s4)" "beginTuple n junk r1 s4 = (Inr r2, s5)"
        "join_loop n junk d l1 r2 s5 = (Inr (l', r'), s')"
        unfolding if_not_P [OF False] bind_eq_Inr by blast
      with IH(1,3) feed_right_shape L show ?thesis by metis
    qed
  qed
qed

lemma tuple_shape:
  "(\<forall>ex s ex' s'. beginTuple n junk ex s = (Inr ex', s') \<longrightarrow> plan_shape ex' = plan_shape ex) \<and>
   (\<forall>ex s ex' s'. nextTuple n junk ex s = (Inr ex', s') \<longrightarrow> plan_shape ex' = plan_shape ex) \<and>
   (\<forall>d l r s l' r' s'. join_loop n junk d l r s = (Inr (l', r'), s') \<longrightarrow> plan_shape l' = plan_shape l \<and> plan_shape r' = plan_shape r)"
proof (induction n)
  case (Suc n)
  then have IH: "\<And>ex s ex' s'. beginTuple n junk ex s = (Inr ex', s') \<Longrightarrow> plan_shape ex' = plan_shape ex"
    "\<And>ex s ex' s'. nextTuple n junk ex s = (Inr ex', s') \<Longrightarrow> plan_shape ex' = plan_shape ex"
    "\<And>d l r s l' r' s'. join_loop n junk d l r s = (Inr (l', r'), s') \<Longrightarrow> plan_shape l' = plan_shape l \<and> plan_shape r' = plan_shape r"
    by blast+
  have "plan_shape ex' = plan_shape ex" if "beginTuple (Suc n) junk ex s = (Inr ex', s')" for ex s ex' s'
    by (rule begin_step_shape [OF _ _ that]) (fact IH)+
  moreover have "plan_shape ex' = plan_shape ex" if "nextTuple (Suc n) junk ex s = (Inr ex', s')" for ex s ex' s'
    by (rule next_step_shape [OF _ that]) (fact IH)
  moreover have "plan_shape l' = plan_shape l \<and> plan_shape r' = plan_shape r"
    if "join_loop (Suc n) junk d l r s = (Inr (l', r'), s')" for d l r s l' r' s'
    by (rule join_step_shape [OF _ _ _ that]) (fact IH)+
  ultimately show ?case by blast
qed (simp add: throw_def)


section \<open>Properties\<close>

text \<open>
  C17. Plans are well typed. The constructors of the executors build plans in which, at every node, the
  columns lie one after the other in the record from 0 to its length: a scan of a table laid out so, a
  join of two plans, with the columns of the right one behind those of the left one, and a projection
  to selected columns, in their order. Feeding a plan and moving through its records keep that.
\<close>

theorem plans_well_typed:
  shows "(SeqScanExecutor_init t conds s = (Inr ex, s') \<and> get_table (sm_db s) t = Inr tab \<and> contiguous 0 (tm_cols tab) z \<longrightarrow> plan_ok ex) \<and>
    (NestedLoopJoinExecutor_init l r s = (Inr ex, s') \<and> plan_ok l \<and> plan_ok r \<longrightarrow> plan_ok ex) \<and>
    (ProjectionExecutor_init l sel s = (Inr ex, s') \<and> plan_ok l \<longrightarrow> plan_ok ex \<and> map col_key (plan_cols ex) = sel) \<and>
    (exec_feed d ex s = (Inr ex', s') \<or> beginTuple n junk ex s = (Inr ex', s') \<or> nextTuple n junk ex s = (Inr ex', s') \<longrightarrow>
      plan_ok ex \<longrightarrow> plan_ok ex' \<and> plan_cols ex' = plan_cols ex)"
proof (intro conjI impI)
  assume a: "SeqScanExecutor_init t conds s = (Inr ex, s') \<and> get_table (sm_db s) t = Inr tab \<and> contiguous 0 (tm_cols tab) z"
  then obtain conds' where ex: "ex = SeqScan \<lparr>ss_tab_name = t, ss_conds = conds', ss_cols = tm_cols tab,
      ss_len = cm_offset (last (tm_cols tab)) + cm_len (last (tm_cols tab)), ss_fed_conds = conds', ss_rid = None, ss_scan = None\<rparr>"
    and ne: "tm_cols tab \<noteq> []"
    by (auto simp: SeqScanExecutor_init_def bind_eq_Inr sm_get_table_def guard_def Let_def ret_def split: if_splits)
  show "plan_ok ex" using contiguous_last [of 0 "tm_cols tab" z] a ne by (simp add: ex plan_cols_def)
next
  assume a: "NestedLoopJoinExecutor_init l r s = (Inr ex, s') \<and> plan_ok l \<and> plan_ok r"
  then have ex: "ex = NestedLoopJoin l r (tupleLen l + tupleLen r)
      (plan_cols l @ map (\<lambda>col. col\<lparr>cm_offset := cm_offset col + tupleLen l\<rparr>) (plan_cols r)) Map.empty"
    by (auto simp: NestedLoopJoinExecutor_init_def bind_eq_Inr ret_def dest!: exec_cols_plan)
  have "contiguous (0 + tupleLen l) (map (\<lambda>col. col\<lparr>cm_offset := cm_offset col + tupleLen l\<rparr>) (plan_cols r)) (tupleLen r + tupleLen l)"
    unfolding contiguous_shift using a plan_ok_contiguous by blast
  then show "plan_ok ex"
    using a plan_ok_contiguous [of l] by (auto simp: ex contiguous_append col_key_def add.commute)
next
  assume a: "ProjectionExecutor_init l sel s = (Inr ex, s') \<and> plan_ok l"
  then obtain cols idxs len s1 where p: "project_cols (plan_cols l) sel 0 s = (Inr (cols, idxs, len), s1)" and ex: "ex = Projection l cols len idxs"
    by (auto simp: ProjectionExecutor_init_def bind_eq_Inr ret_def dest!: exec_cols_plan)
  note c = project_cols_ok [OF p]
  show "plan_ok ex" using a c by (simp add: ex)
  show "map col_key (plan_cols ex) = sel" using c(3) by (simp add: ex plan_cols_def)
next
  assume "exec_feed d ex s = (Inr ex', s') \<or> beginTuple n junk ex s = (Inr ex', s') \<or> nextTuple n junk ex s = (Inr ex', s')"
  then have eq: "plan_shape ex' = plan_shape ex" 
  proof (elim disjE)
    assume "exec_feed d ex s = (Inr ex', s')"
    then show ?thesis by (rule exec_feed_shape)
  qed (use tuple_shape [of n junk] in metis)+
  assume "plan_ok ex"
  with eq show "plan_ok ex'" "plan_cols ex' = plan_cols ex" by (metis plan_ok_shape, metis plan_cols_shape(1))
qed

text \<open>A scan of a table with two columns, projected to the second one.\<close>

theorem plans_well_typed_witness:
  "\<exists>s ex ex2. SeqScanExecutor_init ''t'' [] s = (Inr ex, s) \<and>
     ProjectionExecutor_init ex [\<lparr>tc_tab_name = ''t'', tc_col_name = ''b''\<rparr>] s = (Inr ex2, s) \<and> plan_ok ex2 \<and>
     map col_key (plan_cols ex2) = [\<lparr>tc_tab_name = ''t'', tc_col_name = ''b''\<rparr>]"
proof -
  let ?col = "\<lambda>n off. \<lparr>cm_tab_name = ''t'', cm_name = n, cm_type = TYPE_INT, cm_len = 4, cm_offset = off, cm_index = False\<rparr>"
  let ?tab = "\<lparr>tm_name = ''t'', tm_cols = [?col ''a'' 0, ?col ''b'' 4]\<rparr>"
  let ?s = "\<lparr>sm_bpm = demo_pool, sm_db = \<lparr>db_name = ''db'', db_tabs = [(''t'', ?tab)]\<rparr>,
    sm_fhs = [''t'' \<mapsto> \<lparr>rfh_fd = 4, file_hdr = new_file_hdr 8\<rparr>], sm_ihs = Map.empty, sm_ctx = \<lparr>data_send = [], out_offset = 0\<rparr>\<rparr>"
  let ?ex = "SeqScan \<lparr>ss_tab_name = ''t'', ss_conds = [], ss_cols = tm_cols ?tab, ss_len = 8, ss_fed_conds = [], ss_rid = None, ss_scan = None\<rparr>"
  let ?ex2 = "Projection ?ex [(?col ''b'' 0)] 4 [1]"
  have 1: "SeqScanExecutor_init ''t'' [] ?s = (Inr ?ex, ?s)"
    by (simp add: SeqScanExecutor_init_def sm_get_table_def get_table_def query_def guard_def ret_def bind_def Let_def)
  have 2: "ProjectionExecutor_init ?ex [\<lparr>tc_tab_name = ''t'', tc_col_name = ''b''\<rparr>] ?s = (Inr ?ex2, ?s)"
    by (simp add: ProjectionExecutor_init_def exec_get_col_def col_is_def ret_def bind_def Let_def)
  have "get_table (sm_db ?s) ''t'' = Inr ?tab" "contiguous 0 (tm_cols ?tab) 8" by (simp_all add: get_table_def)
  then have ok: "plan_ok ?ex" using plans_well_typed [THEN conjunct1, rule_format, OF conjI [OF 1 conjI]] by (simp only:)
  then have "plan_ok ?ex2 \<and> map col_key (plan_cols ?ex2) = [\<lparr>tc_tab_name = ''t'', tc_col_name = ''b''\<rparr>]"
    by (intro plans_well_typed [THEN conjunct2, THEN conjunct2, THEN conjunct1, rule_format, OF conjI [OF 2]])
  then show ?thesis by (intro exI [of _ ?s] exI [of _ ?ex] exI [of _ ?ex2] conjI [OF 1] conjI [OF 2])
qed

text \<open>
  C14. The join conditions of a nested loop arrive at the scan of its right table in the right form. Take a scan that is
  constructed with conditions between a column of its table and a column of another table, on either side, of the same
  type and length. Feed it with a record of the left executor. Then evaluating the conditions it holds on a record of its table says whether
  all conditions, as the query states them, hold of the bytes of the columns in the two records: turning a condition around swaps its operator, and the value that is fed
  is the column's. This takes that the left columns are distinct and lie in the left record, that string columns are padded with zero bytes, that the
  inner columns lie in the inner record, and that no
  enclosing join feeds these columns. What the scan does with the conditions is not claimed: \<open>beginTuple\<close> and \<open>nextTuple\<close> of the
  sequential scan leave the call of \<open>eval_conds\<close> open (C39).
\<close>

theorem fed_conditions_are_join_conditions:
  assumes "SeqScanExecutor_init tab conds s0 = (Inr (SeqScan e), s0')"
    and left: "exec_cols left s = (Inr cols1, s)" "exec_Next junk left s = (Inr (Some r1), s1)"
      "\<forall>col \<in> set cols1. col_fits col r1" "distinct (map col_key cols1)"
    and conds: "\<forall>cond \<in> set conds. join_cond tab cols1 (ss_cols e) r2 cond \<and> prev (lhs_col cond) = None \<and> prev (rhs_col cond) = None"
  shows "\<exists>e'. feed_right junk prev left (SeqScan e) s = (Inr (SeqScan e'), s1) \<and> ss_cols e' = ss_cols e \<and>
    eval_conds (ss_cols e') (ss_fed_conds e') r2 s2 = (Inr (\<forall>cond \<in> set conds. join_holds tab cols1 (ss_cols e) r1 r2 cond), s2)"
proof -
  let ?cs = "map (turned tab) conds"
  have joins: "\<forall>cond \<in> set conds. join_cond tab cols1 (ss_cols e) r2 cond" using conds by blast
  from assms(1) have e: "ss_tab_name e = tab" "ss_conds e = ?cs"
    by (auto simp: SeqScanExecutor_init_def bind_eq_Inr Let_def ret_def orient_joins [OF joins])
  obtain d where d: "rec2dict cols1 r1 s1 = (Inr d, s1)"
    and vals: "\<And>col. col \<in> set cols1 \<Longrightarrow> \<exists>v. d (col_key col) = Some v \<and> is_value_of v col r1"
    by (rule rec2dict_ok [OF left(3,4), of s1]) blast
  let ?d = "dict_insert prev d"
  have known: "?d (rhs_col c) = d (rhs_col c) \<and> d (rhs_col c) \<noteq> None" if "c \<in> set ?cs" for c
  proof -
    from that obtain cond where c: "c = turned tab cond" "cond \<in> set conds" by auto
    with conds have j: "join_cond tab cols1 (ss_cols e) r2 cond" "prev (rhs_col c) = None" by (auto simp: turned_def)
    from turned_join(1-3) [OF j(1)] c(1) obtain i where "find_col cols1 (rhs_col c) = Some i"
      by (auto simp: join_cond_def doubleton_eq_iff)
    with find_colD vals nth_mem have "d (rhs_col c) \<noteq> None" by (metis option.distinct(1))
    with j(2) show ?thesis by (simp add: dict_insert_def map_add_def)
  qed
  have fed: "map (fed_with ?d) ?cs = map (fed_with d) ?cs" using known by (auto simp: fed_with_def)
  have t: "\<forall>c \<in> set ?cs. join_cond tab cols1 (ss_cols e) r2 c \<and> tc_tab_name (lhs_col c) = tab"
    "\<forall>c \<in> set ?cs. \<not> is_rhs_val c \<and> tc_tab_name (rhs_col c) \<noteq> tab \<and> ?d (rhs_col c) \<noteq> None"
    using joins turned_join(1-3) join_cond_value [OF turned_join(1)] known by fastforce+
  have f: "feed_conds tab ?d ?cs s1 = (Inr (map (fed_with d) ?cs), s1)" using feed_joins [OF t(2)] unfolding fed .
  have ch: "check_runtime_conds tab (map (fed_with d) ?cs) s1 = (Inr (), s1)"
    using t(1) by (auto simp: check_runtime_conds_def guard_def fed_with_def)
  let ?e' = "e\<lparr>ss_fed_conds := map (fed_with d) ?cs\<rparr>"
  have "feed_right junk prev left (SeqScan e) s = (Inr (SeqScan ?e'), s1)"
    using f ch by (simp add: feed_right_def left(1,2) bind_def d seq_feed_def e ret_def del: List.map_map)
  moreover have "(\<forall>c \<in> set ?cs. join_holds tab cols1 (ss_cols e) r1 r2 c) \<longleftrightarrow> (\<forall>cond \<in> set conds. join_holds tab cols1 (ss_cols e) r1 r2 cond)"
    using joins turned_join(5) by auto
  ultimately show ?thesis
    using eval_all_fed [OF t(1) left(3), of d s2] vals by (intro exI [of _ ?e']) simp
qed

text \<open>The record of the left executor, a join, is the four bytes that its allocation finds. The condition is \<open>a.id < b.id\<close>.\<close>

theorem fed_conditions_are_join_conditions_witness:
  "\<exists>cond left e e' s. cond_op cond = OP_LT \<and> tc_tab_name (lhs_col cond) = ''a'' \<and> SeqScanExecutor_init ''b'' [cond] s = (Inr (SeqScan e), s) \<and>
     feed_right (le32 1) Map.empty left (SeqScan e) s = (Inr (SeqScan e'), s) \<and>
     eval_conds (ss_cols e') (ss_fed_conds e') \<lparr>rec_data = le32 2, rec_size = 4\<rparr> s = (Inr True, s)"
proof -
  let ?col = "\<lambda>t. \<lparr>cm_tab_name = t, cm_name = ''id'', cm_type = TYPE_INT, cm_len = 4, cm_offset = 0, cm_index = False\<rparr>"
  let ?cond = "\<lparr>lhs_col = \<lparr>tc_tab_name = ''a'', tc_col_name = ''id''\<rparr>, cond_op = OP_LT, is_rhs_val = False,
    rhs_col = \<lparr>tc_tab_name = ''b'', tc_col_name = ''id''\<rparr>, rhs_val = Value_init\<rparr>"
  let ?tab = "\<lparr>tm_name = ''b'', tm_cols = [?col ''b'']\<rparr>"
  let ?s = "\<lparr>sm_bpm = demo_pool, sm_db = \<lparr>db_name = ''db'', db_tabs = [(''b'', ?tab)]\<rparr>,
    sm_fhs = [''b'' \<mapsto> \<lparr>rfh_fd = 4, file_hdr = new_file_hdr 4\<rparr>], sm_ihs = Map.empty, sm_ctx = \<lparr>data_send = [], out_offset = 0\<rparr>\<rparr>"
  let ?a = "SeqScan \<lparr>ss_tab_name = ''a'', ss_conds = [], ss_cols = [?col ''a''], ss_len = 4, ss_fed_conds = [], ss_rid = None,
    ss_scan = Some \<lparr>rid_page_no = 1, rid_slot_no = 0\<rparr>\<rparr>"
  let ?left = "NestedLoopJoin ?a ?a 4 [?col ''a''] Map.empty"
  let ?r = "\<lambda>n. \<lparr>rec_data = le32 n, rec_size = 4\<rparr>"
  define e where "e = \<lparr>ss_tab_name = ''b'', ss_conds = [turned ''b'' ?cond], ss_cols = [?col ''b''], ss_len = 4, ss_fed_conds = [turned ''b'' ?cond],
    ss_rid = None, ss_scan = None\<rparr>"
  have 1: "SeqScanExecutor_init ''b'' [?cond] ?s = (Inr (SeqScan e), ?s)"
    by (simp add: SeqScanExecutor_init_def sm_get_table_def get_table_def query_def orient_cond_def guard_def ret_def bind_def Let_def turned_def e_def)
  have next1: "exec_Next (le32 1) ?left ?s = (Inr (Some (?r 1)), ?s)"
    by (simp add: seq_is_end_def RmScan_is_end_def RM_NO_PAGE_def guard_def RmRecord_alloc_def ret_def bind_def)
  have fits: "col_fits (?col t) (?r n)" for t n by (simp add: col_fits_def)
  have j: "join_cond ''b'' [?col ''a''] (ss_cols e) (?r 2) ?cond"
    unfolding join_cond_def by (intro conjI exI [of _ "\<lparr>tc_tab_name = ''b'', tc_col_name = ''id''\<rparr>"] exI [of _ "\<lparr>tc_tab_name = ''a'', tc_col_name = ''id''\<rparr>"])
      (simp_all add: e_def pair_col_def col_is_def fits insert_commute)
  have cells: "col_cell (?col t) (?r n) = le32 n" for t n by (simp add: col_cell_def cell_len_def rd_def)
  have h: "join_holds ''b'' [?col ''a''] (ss_cols e) (?r 1) (?r 2) ?cond"
    by (simp add: join_holds_def pair_cell_def pair_col_def e_def col_is_def cells in32_def Let_def)
  have "\<exists>e'. feed_right (le32 1) Map.empty ?left (SeqScan e) ?s = (Inr (SeqScan e'), ?s) \<and> ss_cols e' = ss_cols e \<and>
    eval_conds (ss_cols e') (ss_fed_conds e') (?r 2) ?s =
      (Inr (\<forall>cond \<in> set [?cond]. join_holds ''b'' [?col ''a''] (ss_cols e) (?r 1) (?r 2) cond), ?s)"
    by (rule fed_conditions_are_join_conditions [OF 1 _ next1]) (use fits j in \<open>simp_all add: ret_def\<close>)
  with h obtain e' where 2: "feed_right (le32 1) Map.empty ?left (SeqScan e) ?s = (Inr (SeqScan e'), ?s)"
    "eval_conds (ss_cols e') (ss_fed_conds e') (?r 2) ?s = (Inr True, ?s)" by auto
  show ?thesis
    by (intro exI [of _ ?cond] exI [of _ ?left] exI [of _ e] exI [of _ e'] exI [of _ ?s] conjI 1 2) simp_all
qed



end
