(* ===== verification/Float_Text.thy ===== *)
theory Float_Text
  imports Defs
begin

text \<open>
  The decimal text of a \<open>float\<close>: \<open>std::to_string\<close> (the format \<open>%f\<close>) and insertion into a stream (\<open>%g\<close>
  with six significant digits). A \<open>float\<close> is its bit pattern, a 32-bit integer. The decimal value is
  computed exactly and rounded to the nearest numeral, to the even one between two.
\<close>

definition float_sign :: "int \<Rightarrow> bool" where
  "float_sign b \<longleftrightarrow> b < 0"

definition float_exp :: "int \<Rightarrow> nat" where
  "float_exp b = nat (b mod 2 ^ 31 div 2 ^ 23)"

definition float_frac :: "int \<Rightarrow> nat" where
  "float_frac b = nat (b mod 2 ^ 23)"

text \<open>The magnitude is \<open>float_mant b * 2 ^ float_pow b / 2 ^ 149\<close>.\<close>

definition float_mant :: "int \<Rightarrow> nat" where
  "float_mant b = (if float_exp b = 0 then float_frac b else float_frac b + 2 ^ 23)"

definition float_pow :: "int \<Rightarrow> nat" where
  "float_pow b = (if float_exp b = 0 then 0 else float_exp b - 1)"

definition round_even :: "nat \<Rightarrow> nat \<Rightarrow> nat" where
  "round_even a d =
     (let q = a div d; r = a mod d in if 2 * r > d \<or> 2 * r = d \<and> odd q then q + 1 else q)"

text \<open>\<open>n\<close> units of \<open>10 ^ - k\<close>.\<close>

definition pad_left :: "nat \<Rightarrow> string \<Rightarrow> string" where
  "pad_left k ds = replicate (k - length ds) CHR ''0'' @ ds"

definition fixed_text :: "nat \<Rightarrow> nat \<Rightarrow> string" where
  "fixed_text k n =
     nat_to_string (n div 10 ^ k) @ (if k = 0 then [] else CHR ''.'' # pad_left k (nat_to_string (n mod 10 ^ k)))"

definition float_text :: "(int \<Rightarrow> string) \<Rightarrow> int \<Rightarrow> string" where
  "float_text fmt b = (if float_sign b then ''-'' else []) @
     (if float_exp b = 255 then (if float_frac b = 0 then ''inf'' else ''nan'') else fmt b)"

definition float_to_string :: "int \<Rightarrow> string" where
  "float_to_string = float_text (\<lambda>b. fixed_text 6 (round_even (float_mant b * 2 ^ float_pow b * 10 ^ 6) (2 ^ 149)))"

text \<open>
  For \<open>%g\<close>: the decimal exponent \<open>x - 50\<close> of the number, by search from above, and its six significant
  digits; trailing zeros are dropped.
\<close>

primrec dec_exp :: "nat \<Rightarrow> nat \<Rightarrow> nat" where
  "dec_exp m 0 = 0"
| "dec_exp m (Suc x) = (if 10 ^ Suc x * 2 ^ 149 \<le> m * 10 ^ 50 then Suc x else dec_exp m x)"

definition sig_digits :: "nat \<Rightarrow> nat \<Rightarrow> nat" where
  "sig_digits m x = round_even (m * 10 ^ 55) (2 ^ 149 * 10 ^ x)"

definition strip_zeros :: "string \<Rightarrow> string" where
  "strip_zeros t = (if CHR ''.'' \<in> set t
     then let u = rev (dropWhile (\<lambda>c. c = CHR ''0'') (rev t)) in if last u = CHR ''.'' then butlast u else u else t)"

definition exp_text :: "int \<Rightarrow> string" where
  "exp_text x = ''e'' @ (if x < 0 then ''-'' else ''+'') @ pad_left 2 (nat_to_string (nat \<bar>x\<bar>))"

definition general_text :: "int \<Rightarrow> string" where
  "general_text b =
     (let m = float_mant b * 2 ^ float_pow b in
      if m = 0 then ''0''
      else let x0 = dec_exp m 90; d0 = sig_digits m x0;
               (x, d) = (if d0 = 10 ^ 6 then (x0 + 1, 10 ^ 5) else (x0, d0));
               e = int x - 50
           in if - 4 \<le> e \<and> e < 6 then strip_zeros (fixed_text (nat (5 - e)) d)
              else strip_zeros (fixed_text 5 d) @ exp_text e)"

definition float_stream :: "int \<Rightarrow> string" where
  "float_stream = float_text general_text"

end
