(* ===== verification/Ql.thy ===== *)
theory Ql
  imports Executors Float_Text
begin

text \<open>
  \<open>execution/execution_manager.cpp\<close>: the checks and the planning of statements on records.

  A null pointer to an executor is \<open>None\<close>, and a call through it is undefined behaviour. \<open>delete_from\<close> and
  \<open>select_from\<close> never create the executors they run, \<open>insert_into\<close> is empty and \<open>update_set\<close> stops after
  its checks. The fuel bounds the loops over the records of a plan.
\<close>

section \<open>Columns\<close>

text \<open>The loop of \<open>check_column\<close> that infers the table of a column.\<close>

primrec infer_table :: "string \<Rightarrow> ColMeta list \<Rightarrow> string \<Rightarrow> ('s, string) prog" where
  "infer_table col_name [] tab_name = ret tab_name"
| "infer_table col_name (col # cols) tab_name =
     (if cm_name col = col_name
      then (if tab_name \<noteq> [] then throw (Exc (AmbiguousColumnError col_name)) else infer_table col_name cols (cm_tab_name col))
      else infer_table col_name cols tab_name)"

text \<open>The test that the second branch of \<open>check_column\<close> makes; \<open>&&\<close> stops at a missing table.\<close>

definition col_exists :: "DbMeta \<Rightarrow> TabCol \<Rightarrow> bool" where
  "col_exists db target \<longleftrightarrow>
     (case get_table db (tc_tab_name target) of Inl e \<Rightarrow> False | Inr tab \<Rightarrow> is_table db (tc_tab_name target) \<and> is_col tab (tc_col_name target))"

definition check_column :: "ColMeta list \<Rightarrow> TabCol \<Rightarrow> (sm_state, TabCol) prog" where
  "check_column all_cols target =
     (if tc_tab_name target = []
      then bind (infer_table (tc_col_name target) all_cols []) (\<lambda>tab_name.
           bind (guard (tab_name \<noteq> []) (Exc (ColumnNotFoundError (tc_col_name target)))) (\<lambda>_.
             ret (target\<lparr>tc_tab_name := tab_name\<rparr>)))
      else bind (query sm_db) (\<lambda>db.
           bind (guard (col_exists db target) (Exc (ColumnNotFoundError (tc_tab_name target @ ''.'' @ tc_col_name target)))) (\<lambda>_.
             ret target)))"

primrec get_all_cols :: "string list \<Rightarrow> (sm_state, ColMeta list) prog" where
  "get_all_cols [] = ret []"
| "get_all_cols (sel_tab_name # tab_names) =
     bind (sm_get_table sel_tab_name) (\<lambda>tab. bind (get_all_cols tab_names) (\<lambda>cols. ret (tm_cols tab @ cols)))"

primrec check_columns :: "ColMeta list \<Rightarrow> TabCol list \<Rightarrow> (sm_state, TabCol list) prog" where
  "check_columns all_cols [] = ret []"
| "check_columns all_cols (c # cs) =
     bind (check_column all_cols c) (\<lambda>c. bind (check_columns all_cols cs) (\<lambda>cs. ret (c # cs)))"

section \<open>Where clauses\<close>

text \<open>\<open>tab.get_col(name)\<close> with the iterator dereferenced.\<close>

definition col_at :: "TabMeta \<Rightarrow> string \<Rightarrow> ('s, ColMeta) prog" where
  "col_at tab col_name = (case get_col tab col_name of None \<Rightarrow> throw UndefinedBehaviour | Some i \<Rightarrow> ret (tm_cols tab ! i))"

text \<open>One turn of the loop of \<open>check_where_clause\<close>.\<close>

definition check_cond_columns :: "ColMeta list \<Rightarrow> Condition \<Rightarrow> (sm_state, Condition) prog" where
  "check_cond_columns all_cols cond =
     bind (check_column all_cols (lhs_col cond)) (\<lambda>l.
       if is_rhs_val cond then ret (cond\<lparr>lhs_col := l\<rparr>)
       else bind (check_column all_cols (rhs_col cond)) (\<lambda>r. ret (cond\<lparr>lhs_col := l, rhs_col := r\<rparr>)))"

definition check_cond_types :: "Condition \<Rightarrow> (sm_state, Condition) prog" where
  "check_cond_types cond =
     bind (sm_get_table (tc_tab_name (lhs_col cond))) (\<lambda>lhs_tab.
     bind (col_at lhs_tab (tc_col_name (lhs_col cond))) (\<lambda>lhs.
     bind (if is_rhs_val cond
           then bind (init_raw (cm_len lhs) (rhs_val cond)) (\<lambda>v. ret (cond\<lparr>rhs_val := v\<rparr>, the (val_type v)))
           else bind (sm_get_table (tc_tab_name (rhs_col cond))) (\<lambda>rhs_tab.
                bind (col_at rhs_tab (tc_col_name (rhs_col cond))) (\<lambda>rhs. ret (cond, cm_type rhs)))) (\<lambda>(cond, rhs_type).
     bind (guard (cm_type lhs = rhs_type) (Exc (IncompatibleTypeError (coltype2str (cm_type lhs)) (coltype2str rhs_type)))) (\<lambda>_.
       ret cond))))"

primrec check_conds :: "ColMeta list \<Rightarrow> Condition list \<Rightarrow> (sm_state, Condition list) prog" where
  "check_conds all_cols [] = ret []"
| "check_conds all_cols (c # cs) =
     bind (check_cond_columns all_cols c) (\<lambda>c. bind (check_cond_types c) (\<lambda>c.
     bind (check_conds all_cols cs) (\<lambda>cs. ret (c # cs))))"

definition check_where_clause :: "string list \<Rightarrow> Condition list \<Rightarrow> (sm_state, Condition list) prog" where
  "check_where_clause tab_names conds = bind (get_all_cols tab_names) (\<lambda>all_cols. check_conds all_cols conds)"

section \<open>The index of a table\<close>

primrec find_index :: "TabMeta \<Rightarrow> Condition list \<Rightarrow> ('s, int) prog" where
  "find_index tab [] = ret (-1)"
| "find_index tab (cond # conds) =
     (if is_rhs_val cond \<and> cond_op cond \<noteq> OP_NE
      then (case get_col tab (tc_col_name (lhs_col cond)) of
              None \<Rightarrow> throw UndefinedBehaviour
            | Some i \<Rightarrow> if cm_index (tm_cols tab ! i) then ret (int i) else find_index tab conds)
      else find_index tab conds)"

definition get_indexNo :: "string \<Rightarrow> Condition list \<Rightarrow> (sm_state, int) prog" where
  "get_indexNo tab_name curr_conds = bind (sm_get_table tab_name) (\<lambda>tab. find_index tab curr_conds)"

section \<open>Insert, delete and update\<close>

definition insert_into :: "string \<Rightarrow> Value list \<Rightarrow> (sm_state, unit) prog" where
  "insert_into tab_name vals = ret ()"

text \<open>\<open>for (exec->beginTuple(); !exec->is_end(); exec->nextTuple()) rids.push_back(exec->rid());\<close>\<close>

primrec rids_loop :: "nat \<Rightarrow> bytes \<Rightarrow> executor \<Rightarrow> Rid list \<Rightarrow> (sm_state, Rid list) prog" where
  "rids_loop 0 junk ex rids = throw OutOfFuel"
| "rids_loop (Suc n) junk ex rids =
     bind (is_end ex) (\<lambda>b.
       if b then ret rids
       else bind (exec_rid ex) (\<lambda>rid. bind (nextTuple n junk ex) (\<lambda>ex. rids_loop n junk ex (rids @ [rid]))))"

definition scan_rids :: "nat \<Rightarrow> bytes \<Rightarrow> executor option \<Rightarrow> (sm_state, Rid list) prog" where
  "scan_rids n junk ex =
     (case ex of None \<Rightarrow> throw UndefinedBehaviour | Some ex \<Rightarrow> bind (beginTuple n junk ex) (\<lambda>ex. rids_loop n junk ex []))"

definition delete_from :: "nat \<Rightarrow> bytes \<Rightarrow> string \<Rightarrow> Condition list \<Rightarrow> (sm_state, unit) prog" where
  "delete_from n junk tab_name conds =
     bind (check_where_clause [tab_name] conds) (\<lambda>conds.
     let scanExecutor = None in
     bind (scan_rids n junk scanExecutor) (\<lambda>rids. ret ()))"

primrec check_set_clauses :: "TabMeta \<Rightarrow> SetClause list \<Rightarrow> ('s, SetClause list) prog" where
  "check_set_clauses tab [] = ret []"
| "check_set_clauses tab (c # cs) =
     bind (col_at tab (tc_col_name (set_lhs c))) (\<lambda>lhs.
     case val_type (set_rhs c) of
       None \<Rightarrow> throw UndefinedBehaviour
     | Some t \<Rightarrow>
         bind (guard (cm_type lhs = t) (Exc (IncompatibleTypeError (coltype2str (cm_type lhs)) (coltype2str t)))) (\<lambda>_.
         bind (init_raw (cm_len lhs) (set_rhs c)) (\<lambda>v.
         bind (check_set_clauses tab cs) (\<lambda>cs. ret (c\<lparr>set_rhs := v\<rparr> # cs)))))"

definition update_set :: "string \<Rightarrow> SetClause list \<Rightarrow> Condition list \<Rightarrow> (sm_state, unit) prog" where
  "update_set tab_name set_clauses conds =
     bind (sm_get_table tab_name) (\<lambda>tab.
     bind (check_where_clause [tab_name] conds) (\<lambda>conds.
     bind (check_set_clauses tab set_clauses) (\<lambda>set_clauses. ret ())))"

section \<open>Conditions of the tables of a plan\<close>

definition has_tabs :: "string list \<Rightarrow> Condition \<Rightarrow> bool" where
  "has_tabs tab_names cond \<longleftrightarrow>
     tc_tab_name (lhs_col cond) \<in> set tab_names \<and> (is_rhs_val cond \<or> tc_tab_name (rhs_col cond) \<in> set tab_names)"

text \<open>\<open>pop_conds\<close> returns the conditions it takes and the ones that stay in \<open>conds\<close>.\<close>

fun pop_conds :: "Condition list \<Rightarrow> string list \<Rightarrow> Condition list \<times> Condition list" where
  "pop_conds [] tab_names = ([], [])"
| "pop_conds (cond # conds) tab_names =
     (let (solved_conds, rest) = pop_conds conds tab_names
      in if has_tabs tab_names cond then (cond # solved_conds, rest) else (solved_conds, cond # rest))"

text \<open>
  The loop of \<open>select_from\<close> over the tables; \<open>todo\<close> are the tables from \<open>i\<close> on. Each turn takes the conditions of its table
  out of \<open>conds\<close> and asks for the index; it uses neither. The result is \<open>conds\<close> after the loop.
\<close>

fun plan_tables :: "string list \<Rightarrow> string list \<Rightarrow> Condition list \<Rightarrow> (sm_state, Condition list) prog" where
  "plan_tables done_tabs [] conds = ret conds"
| "plan_tables done_tabs (tab_name # todo) conds =
     (let (curr_conds, conds) = pop_conds conds (done_tabs @ [tab_name]) in
      bind (get_indexNo tab_name curr_conds) (\<lambda>index_no. plan_tables (done_tabs @ [tab_name]) todo conds))"

section \<open>Select\<close>

definition col_str :: "RmRecord option \<Rightarrow> ColMeta \<Rightarrow> ('s, string) prog" where
  "col_str tuple col =
     (case tuple of
        None \<Rightarrow> throw UndefinedBehaviour
      | Some r \<Rightarrow> bind (col_bytes col r) (\<lambda>bs.
          ret (case cm_type col of
                 TYPE_INT \<Rightarrow> to_string (of_le32 bs)
               | TYPE_FLOAT \<Rightarrow> float_to_string (of_le32 bs)
               | TYPE_STRING \<Rightarrow> cut_at_nul (string_of_bytes bs))))"

primrec col_strs :: "RmRecord option \<Rightarrow> ColMeta list \<Rightarrow> ('s, string list) prog" where
  "col_strs tuple [] = ret []"
| "col_strs tuple (col # cols) = bind (col_str tuple col) (\<lambda>c. bind (col_strs tuple cols) (\<lambda>cs. ret (c # cs)))"

text \<open>The loop over the records of the plan; it returns \<open>num_rec\<close>.\<close>

primrec select_loop :: "nat \<Rightarrow> bytes \<Rightarrow> nat \<Rightarrow> executor \<Rightarrow> nat \<Rightarrow> (sm_state, nat) prog" where
  "select_loop 0 junk num_cols ex num_rec = throw OutOfFuel"
| "select_loop (Suc n) junk num_cols ex num_rec =
     bind (is_end ex) (\<lambda>b.
       if b then ret num_rec
       else bind (exec_Next junk ex) (\<lambda>tuple. bind (exec_cols ex) (\<lambda>cols. bind (col_strs tuple cols) (\<lambda>columns.
            bind (on_ctx (print_rec num_cols columns)) (\<lambda>_.
            bind (nextTuple n junk ex) (\<lambda>ex. select_loop n junk num_cols ex (num_rec + 1)))))))"

definition run_plan :: "nat \<Rightarrow> bytes \<Rightarrow> nat \<Rightarrow> executor option \<Rightarrow> (sm_state, nat) prog" where
  "run_plan n junk num_cols root =
     (case root of None \<Rightarrow> throw UndefinedBehaviour | Some ex \<Rightarrow> bind (beginTuple n junk ex) (\<lambda>ex. select_loop n junk num_cols ex 0))"

definition select_columns :: "TabCol list \<Rightarrow> ColMeta list \<Rightarrow> (sm_state, TabCol list) prog" where
  "select_columns sel_cols all_cols = (if sel_cols = [] then ret (map col_key all_cols) else check_columns all_cols sel_cols)"

definition print_result :: "nat \<Rightarrow> bytes \<Rightarrow> TabCol list \<Rightarrow> executor option \<Rightarrow> (sm_state, unit) prog" where
  "print_result n junk sel_cols root =
     bind (on_ctx (RecordPrinter_init (length sel_cols))) (\<lambda>num_cols.
     bind (on_ctx (print_separator num_cols)) (\<lambda>_.
     bind (on_ctx (print_rec num_cols (map tc_col_name sel_cols))) (\<lambda>_.
     bind (on_ctx (print_separator num_cols)) (\<lambda>_.
     bind (run_plan n junk num_cols root) (\<lambda>num_rec.
     bind (on_ctx (print_separator num_cols)) (\<lambda>_.
       on_ctx (print_record_count num_rec)))))))"

definition select_from :: "nat \<Rightarrow> bytes \<Rightarrow> TabCol list \<Rightarrow> string list \<Rightarrow> Condition list \<Rightarrow> (sm_state, unit) prog" where
  "select_from n junk sel_cols tab_names conds =
     bind (get_all_cols tab_names) (\<lambda>all_cols.
     bind (select_columns sel_cols all_cols) (\<lambda>sel_cols.
     bind (check_where_clause tab_names conds) (\<lambda>conds.
     let table_scan_executors = replicate (length tab_names) None in
     bind (plan_tables [] tab_names conds) (\<lambda>conds.
     bind (guard (conds = []) AssertFail) (\<lambda>_.
     bind (guard (table_scan_executors \<noteq> []) UndefinedBehaviour) (\<lambda>_.
       print_result n junk sel_cols (last table_scan_executors)))))))"

end
