(* ===== verification/Ql_Spec.thy ===== *)
theory Ql_Spec
  imports Ql "HOL-Library.Multiset"
begin

text \<open>
  How \<open>select_from\<close> divides the conditions of a where clause among the tables of its plan: every condition is taken
  at the first table at which all its columns are available, the scan of that table would accept it, and the loop stops in undefined
  behaviour at the first comparison with a value that an index could serve.
\<close>

section \<open>Taking conditions\<close>

lemma pop_conds_filter: "pop_conds conds tabs = (filter (has_tabs tabs) conds, filter (\<lambda>c. \<not> has_tabs tabs c) conds)"
  by (induction conds) (simp_all add: Let_def)

lemma has_tabs_mono: "has_tabs tabs c \<Longrightarrow> set tabs \<subseteq> set tabs' \<Longrightarrow> has_tabs tabs' c"
  by (auto simp: has_tabs_def)

lemma has_tabs_new:
  assumes "has_tabs (tabs @ [t]) c" "\<not> has_tabs tabs c"
  shows "tc_tab_name (lhs_col c) = t \<or> (\<not> is_rhs_val c \<and> tc_tab_name (rhs_col c) = t)"
  using assms by (auto simp: has_tabs_def)

section \<open>Orienting conditions\<close>

text \<open>A condition that the scan of \<open>t\<close> can use once the tables \<open>tabs\<close> before it are fixed.\<close>

definition scan_cond :: "string \<Rightarrow> string list \<Rightarrow> Condition \<Rightarrow> bool" where
  "scan_cond t tabs c \<longleftrightarrow> tc_tab_name (lhs_col c) = t \<and> (is_rhs_val c \<or> tc_tab_name (rhs_col c) = t \<or> tc_tab_name (rhs_col c) \<in> set tabs)"

lemma orient_cond_ok:
  assumes "has_tabs (tabs @ [t]) c" "\<not> has_tabs tabs c"
  shows "\<exists>c'. orient_cond t c s = (Inr c', s) \<and> scan_cond t tabs c'"
proof (cases "tc_tab_name (lhs_col c) = t")
  case True
  then show ?thesis using assms by (auto simp: orient_cond_def scan_cond_def has_tabs_def ret_def)
next
  case False
  then have "\<not> is_rhs_val c \<and> tc_tab_name (rhs_col c) = t" using has_tabs_new [OF assms] by blast
  with False assms(1) show ?thesis by (auto simp: orient_cond_def scan_cond_def has_tabs_def ret_def guard_def bind_def)
qed

lemma orient_conds_ok:
  assumes "\<forall>c \<in> set cs. has_tabs (tabs @ [t]) c \<and> \<not> has_tabs tabs c"
  shows "\<exists>cs'. orient_conds t cs s = (Inr cs', s) \<and> (\<forall>c \<in> set cs'. scan_cond t tabs c) \<and> length cs' = length cs"
  using assms
proof (induction cs)
  case (Cons c cs)
  from orient_cond_ok [of tabs t c s] Cons.prems obtain c' where c: "orient_cond t c s = (Inr c', s)" "scan_cond t tabs c'" by auto
  from Cons obtain cs' where "orient_conds t cs s = (Inr cs', s)" "\<forall>c \<in> set cs'. scan_cond t tabs c" "length cs' = length cs" by auto
  with c show ?case by (intro exI [of _ "c' # cs'"]) (simp add: bind_def ret_def)
qed (simp add: ret_def)

section \<open>The loop over the tables\<close>

text \<open>\<open>conds\<close> before turn \<open>i\<close> of the loop, and the conditions that the turn takes out of it.\<close>

primrec conds_before :: "string list \<Rightarrow> Condition list \<Rightarrow> nat \<Rightarrow> Condition list" where
  "conds_before tab_names conds 0 = conds"
| "conds_before tab_names conds (Suc i) = snd (pop_conds (conds_before tab_names conds i) (take (Suc i) tab_names))"

definition taken_conds :: "string list \<Rightarrow> Condition list \<Rightarrow> nat \<Rightarrow> Condition list" where
  "taken_conds tab_names conds i = fst (pop_conds (conds_before tab_names conds i) (take (Suc i) tab_names))"

lemma conds_before_filter: "conds_before tab_names conds i = filter (\<lambda>c. \<not> has_tabs (take i tab_names) c) conds"
proof (induction i)
  case (Suc i)
  have "has_tabs (take i tab_names) c \<Longrightarrow> has_tabs (take (Suc i) tab_names) c" for c
    by (rule has_tabs_mono [OF _ set_take_subset_set_take]) auto
  then show ?case by (auto simp: Suc pop_conds_filter intro: filter_cong)
qed (simp add: has_tabs_def)

lemma taken_conds_filter:
  "taken_conds tab_names conds i = filter (\<lambda>c. has_tabs (take (Suc i) tab_names) c \<and> \<not> has_tabs (take i tab_names) c) conds"
  by (simp add: taken_conds_def conds_before_filter pop_conds_filter conj_commute)

lemma taken_mset:
  "mset (concat (map (taken_conds tab_names conds) [0..<n])) + mset (conds_before tab_names conds n) = mset conds"
proof (induction n)
  case (Suc n)
  have "mset (taken_conds tab_names conds n) + mset (conds_before tab_names conds (Suc n)) = mset (conds_before tab_names conds n)"
    by (simp add: taken_conds_def pop_conds_filter mset_filter multiset_partition [symmetric])
  with Suc show ?case by (simp add: add.assoc)
qed simp

text \<open>A comparison with a value for which \<open>get_indexNo\<close> asks the table for the column.\<close>

definition index_asked :: "Condition \<Rightarrow> bool" where
  "index_asked c \<longleftrightarrow> is_rhs_val c \<and> cond_op c \<noteq> OP_NE"

lemma find_index_eq: "find_index tab cs s = (if \<exists>c \<in> set cs. index_asked c then Inl UndefinedBehaviour else Inr (-1), s)"
  by (induction cs) (auto simp: index_asked_def get_col_def ret_def throw_def)

lemma get_indexNo_eq:
  "is_table (sm_db s) t \<Longrightarrow> get_indexNo t cs s = (if \<exists>c \<in> set cs. index_asked c then Inl UndefinedBehaviour else Inr (-1), s)"
  by (auto simp: get_indexNo_def sm_get_table_def get_table_def is_table_def bind_def find_index_eq ret_def query_def split: option.splits)

lemma plan_tables_from:
  assumes "\<forall>t \<in> set tab_names. is_table (sm_db s) t"
  shows "i \<le> length tab_names \<Longrightarrow> plan_tables (take i tab_names) (drop i tab_names) (conds_before tab_names conds i) s =
    (if \<exists>j. i \<le> j \<and> j < length tab_names \<and> (\<exists>c \<in> set (taken_conds tab_names conds j). index_asked c) then Inl UndefinedBehaviour
     else Inr (conds_before tab_names conds (length tab_names)), s)"
proof (induction "length tab_names - i" arbitrary: i)
  case (Suc k)
  then have i: "i < length tab_names" by simp
  let ?bad = "\<lambda>j. \<exists>c \<in> set (taken_conds tab_names conds j). index_asked c"
  have IH: "plan_tables (take (Suc i) tab_names) (drop (Suc i) tab_names) (conds_before tab_names conds (Suc i)) s =
    (if \<exists>j. Suc i \<le> j \<and> j < length tab_names \<and> ?bad j then Inl UndefinedBehaviour else Inr (conds_before tab_names conds (length tab_names)), s)"
    using Suc.hyps(2) i by (intro Suc.hyps(1)) auto
  have "plan_tables (take i tab_names) (drop i tab_names) (conds_before tab_names conds i) s =
    bind (get_indexNo (tab_names ! i) (taken_conds tab_names conds i)) (\<lambda>index_no. plan_tables (take (Suc i) tab_names) (drop (Suc i) tab_names) (conds_before tab_names conds (Suc i))) s"
    unfolding Cons_nth_drop_Suc [OF i, symmetric] by (simp add: taken_conds_def take_Suc_conv_app_nth [OF i] split_beta)
  moreover have "is_table (sm_db s) (tab_names ! i)" using assms i by simp
  moreover have "(\<exists>j. i \<le> j \<and> j < length tab_names \<and> ?bad j) \<longleftrightarrow> ?bad i \<or> (\<exists>j. Suc i \<le> j \<and> j < length tab_names \<and> ?bad j)"
    using i by (metis Suc_leD Suc_leI le_neq_implies_less order_refl)
  ultimately show ?case unfolding bind_def by (auto simp: get_indexNo_eq IH simp del: conds_before.simps)
qed (auto simp: ret_def)

section \<open>Properties\<close>

text \<open>
  C15. Where clauses are divided among the tables. Every condition of the where clause is taken at exactly one turn of the loop of
  \<open>select_from\<close> over its tables, or left over (the taken and the left-over conditions are the clause as a multiset), and
  none is left over exactly when every condition mentions only tables of the statement. The conditions
  taken at a table are ones that the constructor of \<open>SeqScanExecutor\<close> accepts for it: it turns
  them so that the column of that table is on the left, and what is on the right is then a value, a column of the same
  table or one of a table before it. The loop itself makes no scan of them. When the tables of the statement exist, it returns the
  left-over conditions if no taken condition compares a column by =, <, >, <= or >= with a value; if one does, \<open>get_indexNo\<close> dereferences an
  iterator that was never assigned.
\<close>

theorem conditions_split_over_tables:
  "mset (concat (map (taken_conds tab_names conds) [0..<length tab_names])) + mset (conds_before tab_names conds (length tab_names)) = mset conds \<and>
   (conds_before tab_names conds (length tab_names) = [] \<longleftrightarrow> (\<forall>c \<in> set conds. has_tabs tab_names c)) \<and>
   (\<forall>i < length tab_names. \<exists>cs'. orient_conds (tab_names ! i) (taken_conds tab_names conds i) t = (Inr cs', t) \<and>
      length cs' = length (taken_conds tab_names conds i) \<and> (\<forall>c \<in> set cs'. scan_cond (tab_names ! i) (take i tab_names) c)) \<and>
   ((\<forall>t \<in> set tab_names. is_table (sm_db s) t) \<longrightarrow> plan_tables [] tab_names conds s =
      (if \<exists>i < length tab_names. \<exists>c \<in> set (taken_conds tab_names conds i). index_asked c then Inl UndefinedBehaviour
       else Inr (conds_before tab_names conds (length tab_names)), s))"
proof (intro conjI impI allI)
  show "conds_before tab_names conds (length tab_names) = [] \<longleftrightarrow> (\<forall>c \<in> set conds. has_tabs tab_names c)"
    by (simp add: conds_before_filter filter_empty_conv)
next
  fix i assume i: "i < length tab_names"
  show "\<exists>cs'. orient_conds (tab_names ! i) (taken_conds tab_names conds i) t = (Inr cs', t) \<and>
     length cs' = length (taken_conds tab_names conds i) \<and> (\<forall>c \<in> set cs'. scan_cond (tab_names ! i) (take i tab_names) c)"
    using orient_conds_ok [of "taken_conds tab_names conds i" "take i tab_names" "tab_names ! i" t]
    by (auto simp: taken_conds_filter take_Suc_conv_app_nth [OF i])
next
  assume "\<forall>t \<in> set tab_names. is_table (sm_db s) t"
  from plan_tables_from [OF this, of 0 conds] show "plan_tables [] tab_names conds s =
     (if \<exists>i < length tab_names. \<exists>c \<in> set (taken_conds tab_names conds i). index_asked c then Inl UndefinedBehaviour
      else Inr (conds_before tab_names conds (length tab_names)), s)" by simp
qed (rule taken_mset)

text \<open>A join condition of two tables is taken at the second one, where it is turned around.\<close>

theorem conditions_split_over_tables_witness:
  "\<exists>s c. taken_conds [''a'', ''b''] [c] 1 = [c] \<and> plan_tables [] [''a'', ''b''] [c] s = (Inr [], s) \<and>
     (\<exists>c'. orient_conds ''b'' [c] s = (Inr [c'], s) \<and> scan_cond ''b'' [''a''] c')"
proof -
  let ?tab = "\<lambda>n. \<lparr>tm_name = n, tm_cols = []\<rparr>"
  let ?s = "\<lparr>sm_bpm = demo_pool, sm_db = \<lparr>db_name = ''db'', db_tabs = [(''a'', ?tab ''a''), (''b'', ?tab ''b'')]\<rparr>,
    sm_fhs = Map.empty, sm_ihs = Map.empty, sm_ctx = \<lparr>data_send = [], out_offset = 0\<rparr>\<rparr>"
  let ?c = "\<lparr>lhs_col = \<lparr>tc_tab_name = ''a'', tc_col_name = ''x''\<rparr>, cond_op = OP_LT, is_rhs_val = False,
    rhs_col = \<lparr>tc_tab_name = ''b'', tc_col_name = ''y''\<rparr>, rhs_val = Value_init\<rparr>"
  have t: "taken_conds [''a'', ''b''] [?c] 1 = [?c]" by (simp add: taken_conds_filter has_tabs_def)
  have "\<forall>t \<in> set [''a'', ''b'']. is_table (sm_db ?s) t" by (simp add: is_table_def)
  moreover have "\<not> (\<exists>i < 2. \<exists>c \<in> set (taken_conds [''a'', ''b''] [?c] i). index_asked c)"
    by (simp add: taken_conds_filter index_asked_def)
  ultimately have p: "plan_tables [] [''a'', ''b''] [?c] ?s = (Inr [], ?s)"
    using conditions_split_over_tables [of "[''a'', ''b'']" "[?c]" ?s ?s, THEN conjunct2, THEN conjunct2, THEN conjunct2] by (simp add: conds_before_filter has_tabs_def numeral_2_eq_2)
  have "\<exists>cs'. orient_conds ''b'' [?c] ?s = (Inr cs', ?s) \<and> length cs' = 1 \<and> (\<forall>c \<in> set cs'. scan_cond ''b'' [''a''] c)"
    using conditions_split_over_tables [of "[''a'', ''b'']" "[?c]" ?s ?s, THEN conjunct2, THEN conjunct2, THEN conjunct1, rule_format, of 1] by (simp add: t [simplified])
  then obtain c' where "orient_conds ''b'' [?c] ?s = (Inr [c'], ?s)" "scan_cond ''b'' [''a''] c'"
    by (auto simp: length_Suc_conv simp del: orient_conds.simps)
  with t p show ?thesis by blast
qed

end
