(* ===== verification/Ast.thy ===== *)
theory Ast
  imports Float_Text
begin

text \<open>
  \<open>parser/ast.h\<close> and \<open>parser/ast_printer.h\<close>: the syntax trees of SQL statements and their printer.

  The classes derived from \<open>TreeNode\<close> are the constructors of \<open>TreeNode\<close> and of the types of its parts;
  an object of one of the base classes \<open>Field\<close>, \<open>Expr\<close> and \<open>Value\<close> themselves is \<open>Field_base\<close>,
  \<open>Expr_base\<close> and \<open>Value_base\<close>. Floats are bit patterns.
\<close>

section \<open>Trees\<close>

datatype SvType = SV_TYPE_INT | SV_TYPE_FLOAT | SV_TYPE_STRING
datatype SvCompOp = SV_OP_EQ | SV_OP_NE | SV_OP_LT | SV_OP_GT | SV_OP_LE | SV_OP_GE

datatype TypeLen = TypeLen SvType int
datatype Field = Field_base | ColDefField string TypeLen
datatype sv_Value = Value_base | IntLit int | FloatLit int | StringLit string
datatype Col = Col (col_tab: string) (col_col: string)
datatype Expr = Expr_base | ValueExpr sv_Value | ColExpr Col
datatype sv_SetClause = SetClause string sv_Value
datatype BinaryExpr = BinaryExpr Col SvCompOp Expr

datatype TreeNode =
    Help
  | ShowTables
  | TxnBegin
  | TxnCommit
  | TxnAbort
  | TxnRollback
  | CreateTable string "Field list"
  | DropTable string
  | DescTable string
  | CreateIndex string string
  | DropIndex string string
  | InsertStmt string "sv_Value list"
  | DeleteStmt string "BinaryExpr list"
  | UpdateStmt string "sv_SetClause list" "BinaryExpr list"
  | SelectStmt "Col list" "string list" "BinaryExpr list"
  | TypeLenNode TypeLen
  | FieldNode Field
  | ExprNode Expr
  | SetClauseNode sv_SetClause
  | BinaryExprNode BinaryExpr

section \<open>The printer\<close>

text \<open>The state is the text written to \<open>std::cout\<close>.\<close>

definition cout :: "string \<Rightarrow> (string, unit) prog" where
  "cout txt = update (\<lambda>o'. o' @ txt)"

definition seq :: "(string, unit) prog \<Rightarrow> (string, unit) prog \<Rightarrow> (string, unit) prog" where
  "seq m k = bind m (\<lambda>_. k)"

definition offset2string :: "nat \<Rightarrow> string" where
  "offset2string offset = replicate offset CHR '' ''"

definition print_val :: "string \<Rightarrow> nat \<Rightarrow> (string, unit) prog" where
  "print_val v offset = cout (offset2string offset @ v @ [CHR 0x0A])"

primrec print_vals :: "string list \<Rightarrow> nat \<Rightarrow> (string, unit) prog" where
  "print_vals [] offset = ret ()"
| "print_vals (v # vs) offset = seq (print_val v offset) (print_vals vs offset)"

definition print_val_list :: "string list \<Rightarrow> nat \<Rightarrow> (string, unit) prog" where
  "print_val_list vs offset = seq (cout (offset2string offset @ ''LIST'' @ [CHR 0x0A])) (print_vals vs (offset + 2))"

fun type2str :: "SvType \<Rightarrow> string" where
  "type2str SV_TYPE_INT = ''INT''"
| "type2str SV_TYPE_FLOAT = ''FLOAT''"
| "type2str SV_TYPE_STRING = ''STRING''"

fun op2str :: "SvCompOp \<Rightarrow> string" where
  "op2str SV_OP_EQ = ''==''"
| "op2str SV_OP_NE = ''!=''"
| "op2str SV_OP_LT = ''<''"
| "op2str SV_OP_GT = ''>''"
| "op2str SV_OP_LE = ''<=''"
| "op2str SV_OP_GE = ''>=''"

text \<open>\<open>print_node_list\<close>, with \<open>print_node\<close> on the elements as an argument.\<close>

primrec print_nodes :: "('a \<Rightarrow> nat \<Rightarrow> (string, unit) prog) \<Rightarrow> 'a list \<Rightarrow> nat \<Rightarrow> (string, unit) prog" where
  "print_nodes pn [] offset = ret ()"
| "print_nodes pn (x # xs) offset = seq (pn x offset) (print_nodes pn xs offset)"

definition print_node_list :: "('a \<Rightarrow> nat \<Rightarrow> (string, unit) prog) \<Rightarrow> 'a list \<Rightarrow> nat \<Rightarrow> (string, unit) prog" where
  "print_node_list pn xs offset = seq (cout (offset2string offset)) (seq (cout (''LIST'' @ [CHR 0x0A])) (print_nodes pn xs (offset + 2)))"

text \<open>The first line of a node.\<close>

definition head_line :: "nat \<Rightarrow> string \<Rightarrow> (string, unit) prog" where
  "head_line offset name = seq (cout (offset2string offset)) (cout (name @ [CHR 0x0A]))"

text \<open>The branches of \<open>print_node\<close>, from the parts of trees to statements.\<close>

fun print_TypeLen :: "TypeLen \<Rightarrow> nat \<Rightarrow> (string, unit) prog" where
  "print_TypeLen (TypeLen type len) offset =
     seq (head_line offset ''TYPE_LEN'') (seq (print_val (type2str type) (offset + 2)) (print_val (to_string len) (offset + 2)))"

text \<open>The other nodes end in \<open>assert(0)\<close>, after the indentation is printed.\<close>

definition unknown_node :: "nat \<Rightarrow> (string, unit) prog" where
  "unknown_node offset = seq (cout (offset2string offset)) (throw AssertFail)"

fun print_Field :: "Field \<Rightarrow> nat \<Rightarrow> (string, unit) prog" where
  "print_Field (ColDefField col_name type_len) offset =
     seq (head_line offset ''COL_DEF'') (seq (print_val col_name (offset + 2)) (print_TypeLen type_len (offset + 2)))"
| "print_Field Field_base offset = unknown_node offset"

fun print_Col :: "Col \<Rightarrow> nat \<Rightarrow> (string, unit) prog" where
  "print_Col (Col tab_name col_name) offset =
     seq (head_line offset ''COL'') (seq (print_val tab_name (offset + 2)) (print_val col_name (offset + 2)))"

fun print_Value :: "sv_Value \<Rightarrow> nat \<Rightarrow> (string, unit) prog" where
  "print_Value (IntLit v) offset = seq (head_line offset ''INT_LIT'') (print_val (to_string v) (offset + 2))"
| "print_Value (FloatLit v) offset = seq (head_line offset ''FLOAT_LIT'') (print_val (float_stream v) (offset + 2))"
| "print_Value (StringLit v) offset = seq (head_line offset ''STRING_LIT'') (print_val v (offset + 2))"
| "print_Value Value_base offset = unknown_node offset"

fun print_Expr :: "Expr \<Rightarrow> nat \<Rightarrow> (string, unit) prog" where
  "print_Expr (ValueExpr v) offset = print_Value v offset"
| "print_Expr (ColExpr c) offset = print_Col c offset"
| "print_Expr Expr_base offset = unknown_node offset"

fun print_SetClause :: "sv_SetClause \<Rightarrow> nat \<Rightarrow> (string, unit) prog" where
  "print_SetClause (SetClause col_name v) offset =
     seq (head_line offset ''SET_CLAUSE'') (seq (print_val col_name (offset + 2)) (print_Value v (offset + 2)))"

fun print_BinaryExpr :: "BinaryExpr \<Rightarrow> nat \<Rightarrow> (string, unit) prog" where
  "print_BinaryExpr (BinaryExpr lhs op rhs) offset =
     seq (head_line offset ''BINARY_EXPR'') (seq (print_Col lhs (offset + 2))
       (seq (print_val (op2str op) (offset + 2)) (print_Expr rhs (offset + 2))))"

fun print_node :: "TreeNode \<Rightarrow> nat \<Rightarrow> (string, unit) prog" where
  "print_node Help offset = head_line offset ''HELP''"
| "print_node ShowTables offset = head_line offset ''SHOW_TABLES''"
| "print_node (CreateTable tab_name flds) offset =
     seq (head_line offset ''CREATE_TABLE'') (seq (print_val tab_name (offset + 2)) (print_node_list print_Field flds (offset + 2)))"
| "print_node (DropTable tab_name) offset = seq (head_line offset ''DROP_TABLE'') (print_val tab_name (offset + 2))"
| "print_node (DescTable tab_name) offset = seq (head_line offset ''DESC_TABLE'') (print_val tab_name (offset + 2))"
| "print_node (CreateIndex tab_name col_name) offset =
     seq (head_line offset ''CREATE_INDEX'') (seq (print_val tab_name (offset + 2)) (print_val col_name (offset + 2)))"
| "print_node (DropIndex tab_name col_name) offset =
     seq (head_line offset ''DROP_INDEX'') (seq (print_val tab_name (offset + 2)) (print_val col_name (offset + 2)))"
| "print_node (FieldNode f) offset = print_Field f offset"
| "print_node (ExprNode e) offset = print_Expr e offset"
| "print_node (TypeLenNode t) offset = print_TypeLen t offset"
| "print_node (SetClauseNode c) offset = print_SetClause c offset"
| "print_node (BinaryExprNode b) offset = print_BinaryExpr b offset"
| "print_node (InsertStmt tab_name vals) offset =
     seq (head_line offset ''INSERT'') (seq (print_val tab_name (offset + 2)) (print_node_list print_Value vals (offset + 2)))"
| "print_node (DeleteStmt tab_name conds) offset =
     seq (head_line offset ''DELETE'') (seq (print_val tab_name (offset + 2)) (print_node_list print_BinaryExpr conds (offset + 2)))"
| "print_node (UpdateStmt tab_name set_clauses conds) offset =
     seq (head_line offset ''UPDATE'') (seq (print_val tab_name (offset + 2))
       (seq (print_node_list print_SetClause set_clauses (offset + 2)) (print_node_list print_BinaryExpr conds (offset + 2))))"
| "print_node (SelectStmt cols tabs conds) offset =
     seq (head_line offset ''SELECT'') (seq (print_node_list print_Col cols (offset + 2))
       (seq (print_val_list tabs (offset + 2)) (print_node_list print_BinaryExpr conds (offset + 2))))"
| "print_node TxnBegin offset = head_line offset ''BEGIN''"
| "print_node TxnCommit offset = head_line offset ''COMMIT''"
| "print_node TxnAbort offset = head_line offset ''ABORT''"
| "print_node TxnRollback offset = head_line offset ''ROLLBACK''"

definition TreePrinter_print :: "TreeNode \<Rightarrow> (string, unit) prog" where
  "TreePrinter_print node = print_node node 0"

end
