(* ===== verification/Interp.thy ===== *)
theory Interp
  imports Ql Ast Txn
begin

text \<open>
  \<open>interp.h\<close>: statements are interpreted in the transaction of the session.

  The state has the catalogue with the context's send buffer, the transaction manager, the number of the
  session's latest transaction (\<open>*txn_id\<close>) and the pointer \<open>context->txn_\<close>. The remaining arguments are
  those of the called operations: the calling thread, the fuel, and bytes of fresh memory.
\<close>

section \<open>Data\<close>

record interp_state =
  it_sm :: sm_state
  it_tm :: TransactionManager
  it_txn_id :: txn_id_t
  it_txn :: txn_ptr

definition on_it_sm :: "(sm_state, 'a) prog \<Rightarrow> (interp_state, 'a) prog" where
  "on_it_sm m s = (let (r, x) = m (it_sm s) in (r, s\<lparr>it_sm := x\<rparr>))"

definition on_tm :: "(TransactionManager, 'a) prog \<Rightarrow> (interp_state, 'a) prog" where
  "on_tm m s = (let (r, x) = m (it_tm s) in (r, s\<lparr>it_tm := x\<rparr>))"

definition help_lines :: "string list" where
  "help_lines =
    [''Supported SQL syntax:'',
     ''  command ;'',
     ''command:'',
     ''  CREATE TABLE table_name (column_name type [, column_name type ...])'',
     ''  DROP TABLE table_name'',
     ''  CREATE INDEX table_name (column_name)'',
     ''  DROP INDEX table_name (column_name)'',
     ''  INSERT INTO table_name VALUES (value [, value ...])'',
     ''  DELETE FROM table_name [WHERE where_clause]'',
     ''  UPDATE table_name SET column_name = value [, column_name = value ...] [WHERE where_clause]'',
     ''  SELECT selector FROM table_name [WHERE where_clause]'',
     ''type:'',
     ''  {INT | FLOAT | CHAR(n)}'',
     ''where_clause:'',
     ''  condition [AND condition ...]'',
     ''condition:'',
     ''  column op {column | value}'',
     ''column:'',
     ''  [table_name.]column_name'',
     ''op:'',
     ''  {= | <> | < | > | <= | >=}'',
     ''selector:'',
     ''  {* | column [, column ...]}'']"

definition help_info :: string where
  "help_info = concat (map (\<lambda>l. l @ [CHR 0x0A]) help_lines)"

section \<open>From syntax trees to the managers' arguments\<close>

fun interp_sv_type :: "SvType \<Rightarrow> ColType" where
  "interp_sv_type SV_TYPE_INT = TYPE_INT"
| "interp_sv_type SV_TYPE_FLOAT = TYPE_FLOAT"
| "interp_sv_type SV_TYPE_STRING = TYPE_STRING"

fun interp_sv_comp_op :: "SvCompOp \<Rightarrow> CompOp" where
  "interp_sv_comp_op SV_OP_EQ = OP_EQ"
| "interp_sv_comp_op SV_OP_NE = OP_NE"
| "interp_sv_comp_op SV_OP_LT = OP_LT"
| "interp_sv_comp_op SV_OP_GT = OP_GT"
| "interp_sv_comp_op SV_OP_LE = OP_LE"
| "interp_sv_comp_op SV_OP_GE = OP_GE"

fun interp_sv_value :: "sv_Value \<Rightarrow> fault + Value" where
  "interp_sv_value (IntLit v) = Inr (set_int v Value_init)"
| "interp_sv_value (FloatLit v) = Inr (set_float v Value_init)"
| "interp_sv_value (StringLit v) = Inr (set_str v Value_init)"
| "interp_sv_value Value_base = Inl (Exc (InternalError ''Unexpected sv value type''))"

definition interp_col :: "Col \<Rightarrow> TabCol" where
  "interp_col c = \<lparr>tc_tab_name = col_tab c, tc_col_name = col_col c\<rparr>"

text \<open>
  One turn of the loop of \<open>interp_where_clause\<close>. The members that are not assigned keep the value of a fresh
  \<open>Condition\<close>; when the right-hand side is neither a value nor a column, \<open>is_rhs_val\<close> has no value and is
  read when the condition is copied into the vector.
\<close>

fun interp_cond :: "BinaryExpr \<Rightarrow> fault + Condition" where
  "interp_cond (BinaryExpr lhs op rhs) =
     (let cond = \<lparr>lhs_col = interp_col lhs, cond_op = interp_sv_comp_op op, is_rhs_val = False,
                  rhs_col = \<lparr>tc_tab_name = [], tc_col_name = []\<rparr>, rhs_val = Value_init\<rparr>
      in case rhs of
           ValueExpr v \<Rightarrow> (case interp_sv_value v of Inl e \<Rightarrow> Inl e | Inr v \<Rightarrow> Inr (cond\<lparr>is_rhs_val := True, rhs_val := v\<rparr>))
         | ColExpr c \<Rightarrow> Inr (cond\<lparr>is_rhs_val := False, rhs_col := interp_col c\<rparr>)
         | Expr_base \<Rightarrow> Inl UndefinedBehaviour)"

text \<open>The loops that fill a vector and stop at the first exception.\<close>

primrec collect :: "('a \<Rightarrow> fault + 'b) \<Rightarrow> 'a list \<Rightarrow> fault + 'b list" where
  "collect f [] = Inr []"
| "collect f (x # xs) = (case f x of Inl e \<Rightarrow> Inl e | Inr y \<Rightarrow> (case collect f xs of Inl e \<Rightarrow> Inl e | Inr ys \<Rightarrow> Inr (y # ys)))"

definition interp_where_clause :: "BinaryExpr list \<Rightarrow> fault + Condition list" where
  "interp_where_clause sv_conds = collect interp_cond sv_conds"

fun interp_field :: "Field \<Rightarrow> fault + ColDef" where
  "interp_field (ColDefField col_name (TypeLen type len)) = Inr \<lparr>cd_name = col_name, cd_type = interp_sv_type type, cd_len = len\<rparr>"
| "interp_field Field_base = Inl (Exc (InternalError ''Unexpected field type''))"

fun interp_set_clause :: "sv_SetClause \<Rightarrow> fault + SetClause" where
  "interp_set_clause (SetClause col_name v) =
     (case interp_sv_value v of
        Inl e \<Rightarrow> Inl e
      | Inr v \<Rightarrow> Inr \<lparr>set_lhs = \<lparr>tc_tab_name = [], tc_col_name = col_name\<rparr>, set_rhs = v\<rparr>)"

section \<open>Transactions of a session\<close>

definition set_ctx_txn :: "txn_ptr \<Rightarrow> (interp_state, unit) prog" where
  "set_ctx_txn p = update (\<lambda>s. s\<lparr>it_txn := p\<rparr>)"

text \<open>\<open>Begin(nullptr)\<close>, the number of the new transaction and its mode.\<close>

definition begin_txn :: "bool \<Rightarrow> (interp_state, unit) prog" where
  "begin_txn mode =
     bind (on_tm (Begin None)) (\<lambda>p.
     bind (set_ctx_txn p) (\<lambda>_.
     bind (on_tm (on_txn p (\<lambda>t. (txn_id t, t)))) (\<lambda>tid.
     bind (update (\<lambda>s. s\<lparr>it_txn_id := tid\<rparr>)) (\<lambda>_.
       on_tm (on_txn p (\<lambda>t. ((), SetTxnMode mode t)))))))"

definition SetTransaction :: "nat \<Rightarrow> (interp_state, unit) prog" where
  "SetTransaction this_thread =
     bind (query it_txn_id) (\<lambda>tid.
     bind (on_tm (GetTransaction this_thread tid)) (\<lambda>p.
     bind (set_ctx_txn p) (\<lambda>_.
     bind (if p = None then ret True else on_tm (on_txn p (\<lambda>t. (txn_state t \<in> {COMMITTED, ABORTED}, t)))) (\<lambda>over.
       if over then begin_txn False else ret ()))))"

text \<open>\<open>if (context->txn_->GetTxnMode() == false) txn_mgr_->Commit(context->txn_, ...)\<close>\<close>

definition auto_commit :: "(interp_state, unit) prog" where
  "auto_commit =
     bind (query it_txn) (\<lambda>p.
     bind (on_tm (on_txn p (\<lambda>t. (txn_mode t, t)))) (\<lambda>mode.
     case mode of
       None \<Rightarrow> throw UndefinedBehaviour
     | Some b \<Rightarrow> if \<not> b then on_tm (Commit p) else ret ()))"

definition in_txn :: "nat \<Rightarrow> (sm_state, unit) prog \<Rightarrow> (interp_state, unit) prog" where
  "in_txn this_thread m =
     bind (SetTransaction this_thread) (\<lambda>_. bind (on_it_sm m) (\<lambda>_. auto_commit))"

definition end_txn :: "nat \<Rightarrow> (txn_ptr \<Rightarrow> (TransactionManager, unit) prog) \<Rightarrow> (interp_state, unit) prog" where
  "end_txn this_thread f =
     bind (query it_txn_id) (\<lambda>tid.
     bind (on_tm (GetTransaction this_thread tid)) (\<lambda>p.
     bind (set_ctx_txn p) (\<lambda>_. on_tm (f p))))"

text \<open>The text of the help is copied behind what was sent, but the offset is set to its length.\<close>

definition send_help :: "(out_ctx, unit) prog" where
  "send_help = bind (send_str help_info) (\<lambda>_. update (\<lambda>c. c\<lparr>out_offset := int (length help_info)\<rparr>))"

section \<open>Statements\<close>

definition with_args :: "fault + 'a \<Rightarrow> ('a \<Rightarrow> ('s, 'b) prog) \<Rightarrow> ('s, 'b) prog" where
  "with_args x k = (case x of Inl e \<Rightarrow> throw e | Inr y \<Rightarrow> k y)"

fun interp_sql :: "nat \<Rightarrow> nat \<Rightarrow> bytes \<Rightarrow> TreeNode \<Rightarrow> (interp_state, unit) prog" where
  "interp_sql th n mem Help = on_it_sm (on_ctx send_help)"
| "interp_sql th n mem ShowTables = in_txn th show_tables"
| "interp_sql th n mem (DescTable tab_name) = in_txn th (desc_table tab_name)"
| "interp_sql th n mem (CreateTable tab_name flds) =
     with_args (collect interp_field flds) (\<lambda>col_defs. in_txn th (create_table tab_name col_defs))"
| "interp_sql th n mem (DropTable tab_name) = in_txn th (drop_table tab_name)"
| "interp_sql th n mem (CreateIndex tab_name col_name) = in_txn th (Sm_create_index n mem tab_name col_name)"
| "interp_sql th n mem (DropIndex tab_name col_name) = in_txn th (drop_index tab_name col_name)"
| "interp_sql th n mem (InsertStmt tab_name vals) =
     with_args (collect interp_sv_value vals) (\<lambda>vs. in_txn th (insert_into tab_name vs))"
| "interp_sql th n mem (DeleteStmt tab_name sv_conds) =
     with_args (interp_where_clause sv_conds) (\<lambda>conds. in_txn th (delete_from n mem tab_name conds))"
| "interp_sql th n mem (UpdateStmt tab_name sv_set_clauses sv_conds) =
     with_args (interp_where_clause sv_conds) (\<lambda>conds.
     with_args (collect interp_set_clause sv_set_clauses) (\<lambda>set_clauses. in_txn th (update_set tab_name set_clauses conds)))"
| "interp_sql th n mem (SelectStmt cols tabs sv_conds) =
     with_args (interp_where_clause sv_conds) (\<lambda>conds. in_txn th (select_from n mem (map interp_col cols) tabs conds))"
| "interp_sql th n mem TxnBegin = begin_txn True"
| "interp_sql th n mem TxnAbort = end_txn th Abort"
| "interp_sql th n mem TxnCommit = end_txn th Commit"
| "interp_sql th n mem TxnRollback = end_txn th Abort"
| "interp_sql th n mem root = throw (Exc (InternalError ''Unexpected AST root''))"

section \<open>The interpreter without transactions\<close>

text \<open>\<open>execution/interp_test.h\<close>: \<open>InterpForTest::interp_sql\<close>, which \<open>execution/exec_sql.cpp\<close> runs.\<close>

fun InterpForTest_interp_sql :: "nat \<Rightarrow> bytes \<Rightarrow> TreeNode \<Rightarrow> (sm_state, unit) prog" where
  "InterpForTest_interp_sql n mem Help = on_ctx send_help"
| "InterpForTest_interp_sql n mem ShowTables = show_tables"
| "InterpForTest_interp_sql n mem (DescTable tab_name) = desc_table tab_name"
| "InterpForTest_interp_sql n mem (CreateTable tab_name flds) =
     with_args (collect interp_field flds) (\<lambda>col_defs. create_table tab_name col_defs)"
| "InterpForTest_interp_sql n mem (DropTable tab_name) = drop_table tab_name"
| "InterpForTest_interp_sql n mem (CreateIndex tab_name col_name) = Sm_create_index n mem tab_name col_name"
| "InterpForTest_interp_sql n mem (DropIndex tab_name col_name) = drop_index tab_name col_name"
| "InterpForTest_interp_sql n mem (InsertStmt tab_name vals) =
     with_args (collect interp_sv_value vals) (\<lambda>vs. insert_into tab_name vs)"
| "InterpForTest_interp_sql n mem (DeleteStmt tab_name sv_conds) =
     with_args (interp_where_clause sv_conds) (\<lambda>conds. delete_from n mem tab_name conds)"
| "InterpForTest_interp_sql n mem (UpdateStmt tab_name sv_set_clauses sv_conds) =
     with_args (interp_where_clause sv_conds) (\<lambda>conds.
     with_args (collect interp_set_clause sv_set_clauses) (\<lambda>set_clauses. update_set tab_name set_clauses conds))"
| "InterpForTest_interp_sql n mem (SelectStmt cols tabs sv_conds) =
     with_args (interp_where_clause sv_conds) (\<lambda>conds. select_from n mem (map interp_col cols) tabs conds)"
| "InterpForTest_interp_sql n mem root = throw (Exc (InternalError ''Unexpected AST root''))"

text \<open>
  \<open>exec_sql\<close>, with the tree that the parser made of the text as its argument: the result buffer is
  cleared, and what is returned is the buffer.
\<close>

definition BUFFER_LENGTH :: nat where "BUFFER_LENGTH = 8192"

definition fresh_ctx :: out_ctx where
  "fresh_ctx = \<lparr>data_send = replicate BUFFER_LENGTH CHR 0x00, out_offset = 0\<rparr>"

definition exec_sql :: "nat \<Rightarrow> bytes \<Rightarrow> TreeNode option \<Rightarrow> (sm_state, string) prog" where
  "exec_sql n mem parse_tree =
     (case parse_tree of
        None \<Rightarrow> throw AssertFail
      | Some root \<Rightarrow>
          bind (update (\<lambda>s. s\<lparr>sm_ctx := fresh_ctx\<rparr>)) (\<lambda>_.
          bind (InterpForTest_interp_sql n mem root) (\<lambda>_. query (\<lambda>s. data_send (sm_ctx s)))))"

end
