(* ===== verification/Interp_Spec.thy ===== *)
theory Interp_Spec
  imports Interp
begin

text \<open>
  What the interpreter does with transactions: no session ever has one, and what each statement comes to in a session that has none.
\<close>

section \<open>Sessions without a transaction\<close>

lemma on_tm_Inr: "m (it_tm s) = (Inr r, it_tm s) \<Longrightarrow> on_tm m s = (Inr r, s)"
  by (simp add: on_tm_def)

lemma begin_txn_fails: "begin_txn mode s = (Inl UndefinedBehaviour, s\<lparr>it_txn := None\<rparr>)"
  by (simp add: begin_txn_def Begin_def on_tm_def set_ctx_txn_def update_def on_txn_def bind_def ret_def)

lemma in_txn_fresh:
  assumes "it_txn_id s = INVALID_TXN_ID"
  shows "in_txn th m s = (Inl UndefinedBehaviour, s\<lparr>it_txn := None\<rparr>)"
proof -
  have "on_tm (GetTransaction th INVALID_TXN_ID) s = (Inr None, s)"
    by (rule on_tm_Inr) (simp add: GetTransaction_def ret_def)
  then show ?thesis
    using assms by (simp add: in_txn_def SetTransaction_def query_def bind_def set_ctx_txn_def update_def ret_def begin_txn_fails)
qed

text \<open>The exception that a tree causes before its statement starts, when it or one of its arguments is of no known class.\<close>

definition first_fault :: "fault + 'a \<Rightarrow> fault option" where
  "first_fault x = (case x of Inl e \<Rightarrow> Some e | Inr y \<Rightarrow> None)"

fun arg_fault :: "TreeNode \<Rightarrow> fault option" where
  "arg_fault (CreateTable t flds) = first_fault (collect interp_field flds)"
| "arg_fault (InsertStmt t vals) = first_fault (collect interp_sv_value vals)"
| "arg_fault (DeleteStmt t cs) = first_fault (interp_where_clause cs)"
| "arg_fault (UpdateStmt t sets cs) =
     (case first_fault (interp_where_clause cs) of Some e \<Rightarrow> Some e | None \<Rightarrow> first_fault (collect interp_set_clause sets))"
| "arg_fault (SelectStmt cols tabs cs) = first_fault (interp_where_clause cs)"
| "arg_fault (TypeLenNode x) = Some (Exc (InternalError ''Unexpected AST root''))"
| "arg_fault (FieldNode x) = Some (Exc (InternalError ''Unexpected AST root''))"
| "arg_fault (ExprNode x) = Some (Exc (InternalError ''Unexpected AST root''))"
| "arg_fault (SetClauseNode x) = Some (Exc (InternalError ''Unexpected AST root''))"
| "arg_fault (BinaryExprNode x) = Some (Exc (InternalError ''Unexpected AST root''))"
| "arg_fault t = None"

lemma end_txn_fresh:
  assumes "it_txn_id s = INVALID_TXN_ID" "\<And>x. f None x = (Inr (), x)"
  shows "end_txn th f s = (Inr (), s\<lparr>it_txn := None\<rparr>)"
proof -
  have "on_tm (GetTransaction th INVALID_TXN_ID) s = (Inr None, s)"
    by (rule on_tm_Inr) (simp add: GetTransaction_def ret_def)
  then show ?thesis
    using assms by (simp add: end_txn_def query_def bind_def set_ctx_txn_def update_def ret_def on_tm_def)
qed

lemma interp_sql_fresh:
  assumes "it_txn_id s = INVALID_TXN_ID"
  shows "interp_sql th n mem root s =
    (if root = Help then (let (r, x) = on_ctx send_help (it_sm s) in (r, s\<lparr>it_sm := x\<rparr>))
     else if root \<in> {TxnAbort, TxnCommit, TxnRollback} then (Inr (), s\<lparr>it_txn := None\<rparr>)
     else case arg_fault root of
            Some e \<Rightarrow> (Inl e, s)
          | None \<Rightarrow> (Inl UndefinedBehaviour, s\<lparr>it_txn := None\<rparr>))"
proof -
  have "end_txn th Abort s = (Inr (), s\<lparr>it_txn := None\<rparr>)" "end_txn th Commit s = (Inr (), s\<lparr>it_txn := None\<rparr>)"
    by (rule end_txn_fresh [OF assms]; simp add: Abort_def Commit_def ret_def)+
  then show ?thesis
    by (cases root) (simp_all add: on_it_sm_def in_txn_fresh [OF assms] begin_txn_fails with_args_def throw_def first_fault_def split: sum.splits)
qed

text \<open>
  What a session can come to: it starts without a transaction, interprets trees, and goes on when the call returns or throws an exception that its
  caller catches. Between the calls other sessions may do anything to the database and the transaction manager, and the context may be
  replaced.
\<close>

inductive session_reach :: "nat \<Rightarrow> interp_state \<Rightarrow> bool" for th where
  start: "it_txn_id s = INVALID_TXN_ID \<Longrightarrow> session_reach th s"
| returned: "session_reach th s \<Longrightarrow> interp_sql th n mem root s = (Inr u, s') \<Longrightarrow> session_reach th s'"
| thrown: "session_reach th s \<Longrightarrow> interp_sql th n mem root s = (Inl (Exc e), s') \<Longrightarrow> session_reach th s'"
| others: "session_reach th s \<Longrightarrow> session_reach th (s\<lparr>it_sm := sm, it_tm := tm, it_txn := p\<rparr>)"

lemma interp_sql_txn_id: "it_txn_id s = INVALID_TXN_ID \<Longrightarrow> interp_sql th n mem root s = (r, s') \<Longrightarrow> it_txn_id s' = INVALID_TXN_ID"
  by (auto simp: interp_sql_fresh split: if_splits option.splits prod.splits)

lemma session_reach_id: "session_reach th s \<Longrightarrow> it_txn_id s = INVALID_TXN_ID"
  by (induction rule: session_reach.induct) (auto dest: interp_sql_txn_id)

section \<open>Properties\<close>

text \<open>
  C18. No session ever has a transaction. A session starts with none, and in every state that it reaches, whatever other sessions do
  to the database and the transaction manager, its transaction number is still the invalid one. So \<open>help\<close> writes the
  help text, and \<open>abort\<close>, \<open>commit\<close> and \<open>rollback\<close> do nothing but set \<open>context->txn_\<close> to null. A tree with a part of no known class is refused with the exception for
  it. Every other statement, \<open>begin\<close> included, ends in undefined behaviour before the database or the transaction manager is touched:
  \<open>Begin(nullptr)\<close> returns the null pointer, and the interpreter dereferences it.
\<close>

theorem sessions_have_no_transaction:
  assumes "session_reach th s"
  shows "it_txn_id s = INVALID_TXN_ID \<and> interp_sql th n mem root s =
    (if root = Help then (let (r, x) = on_ctx send_help (it_sm s) in (r, s\<lparr>it_sm := x\<rparr>))
     else if root \<in> {TxnAbort, TxnCommit, TxnRollback} then (Inr (), s\<lparr>it_txn := None\<rparr>)
     else case arg_fault root of
            Some e \<Rightarrow> (Inl e, s)
          | None \<Rightarrow> (Inl UndefinedBehaviour, s\<lparr>it_txn := None\<rparr>))"
  using session_reach_id [OF assms] interp_sql_fresh by blast

text \<open>A session that has committed nothing, and then inserts.\<close>

theorem sessions_have_no_transaction_witness:
  "\<exists>s s1 s2. session_reach 1 s \<and> interp_sql 1 0 [] TxnCommit s = (Inr (), s1) \<and> session_reach 1 s1 \<and>
     interp_sql 1 0 [] (InsertStmt ''t'' [IntLit 7]) s1 = (Inl UndefinedBehaviour, s2) \<and> it_sm s2 = it_sm s \<and> it_tm s2 = it_tm s"
proof -
  let ?sm = "\<lparr>sm_bpm = demo_pool, sm_db = \<lparr>db_name = ''db'', db_tabs = []\<rparr>, sm_fhs = Map.empty, sm_ihs = Map.empty, sm_ctx = fresh_ctx\<rparr>"
  let ?s = "\<lparr>it_sm = ?sm, it_tm = TransactionManager_init TWO_PHASE_LOCKING, it_txn_id = INVALID_TXN_ID, it_txn = None\<rparr>"
  have s: "session_reach 1 ?s" by (rule session_reach.start) simp
  have 1: "interp_sql 1 0 [] TxnCommit ?s = (Inr (), ?s\<lparr>it_txn := None\<rparr>)"
    using sessions_have_no_transaction [OF s, of 0 "[]" TxnCommit] by (simp del: interp_sql.simps)
  have s1: "session_reach 1 (?s\<lparr>it_txn := None\<rparr>)" by (rule session_reach.returned [OF s 1])
  have "interp_sql 1 0 [] (InsertStmt ''t'' [IntLit 7]) (?s\<lparr>it_txn := None\<rparr>) = (Inl UndefinedBehaviour, ?s\<lparr>it_txn := None\<rparr>)"
    using sessions_have_no_transaction [OF s1, of 0 "[]" "InsertStmt ''t'' [IntLit 7]"] by (simp add: first_fault_def del: interp_sql.simps)
  with s 1 s1 show ?thesis by (intro exI [of _ ?s] exI [of _ "?s\<lparr>it_txn := None\<rparr>"]) (simp del: interp_sql.simps)
qed

end
