(* ===== verification/Lexer.thy ===== *)
theory Lexer
  imports Float_Text
begin

text \<open>
  \<open>parser/lex.l\<close>: the tokens of a statement.

  A scanner made by flex takes the longest match of the rules of its start condition, and the first of
  several rules that match as much; a character that no rule matches is echoed. \<open>match_\<dots>\<close> gives the
  length of the longest match of a pattern at the beginning of the input, 0 if there is none. The start
  condition is a variable of the scanner: neither \<open>yy_scan_string\<close> nor the end of the input resets it. Locations,
  which only the error messages show, are left out.
\<close>

section \<open>Tokens\<close>

datatype token =
    T_SHOW | T_TABLES | T_CREATE | T_TABLE | T_DROP | T_DESC | T_INSERT | T_INTO | T_VALUES | T_DELETE | T_FROM
  | T_WHERE | T_UPDATE | T_SET | T_SELECT | T_INT | T_CHAR | T_FLOAT | T_INDEX | T_AND | T_JOIN | T_EXIT | T_HELP
  | TXN_BEGIN | TXN_COMMIT | TXN_ABORT | TXN_ROLLBACK
  | T_LEQ | T_NEQ | T_GEQ | T_EOF
  | IDENTIFIER string | VALUE_STRING string | VALUE_INT int | VALUE_FLOAT int
  | T_Op char

section \<open>Patterns\<close>

definition chr_code :: "char \<Rightarrow> nat" where "chr_code c = of_char c"

definition alpha :: "char \<Rightarrow> bool" where
  "alpha c \<longleftrightarrow> 65 \<le> chr_code c \<and> chr_code c \<le> 90 \<or> 97 \<le> chr_code c \<and> chr_code c \<le> 122"

text \<open>\<open>%option caseless\<close>\<close>

definition upcase :: "char \<Rightarrow> char" where
  "upcase c = (if 97 \<le> chr_code c \<and> chr_code c \<le> 122 then char_of (chr_code c - 32) else c)"

definition match_word :: "string \<Rightarrow> string \<Rightarrow> nat" where
  "match_word w inp = (if map upcase (take (length w) inp) = w then length w else 0)"

definition span_len :: "(char \<Rightarrow> bool) \<Rightarrow> string \<Rightarrow> nat" where
  "span_len p inp = length (takeWhile p inp)"

definition match_white_space :: "string \<Rightarrow> nat" where
  "match_white_space inp = span_len (\<lambda>c. c \<in> {CHR '' '', CHR 0x09}) inp"

fun match_new_line :: "string \<Rightarrow> nat" where
  "match_new_line [] = 0"
| "match_new_line (c # inp) =
     (if c = CHR 0x0D then (if take 1 inp = [CHR 0x0A] then 2 else 1) else if c = CHR 0x0A then 1 else 0)"

definition match_line_comment :: "string \<Rightarrow> nat" where
  "match_line_comment inp = (if take 2 inp = ''--'' then 2 + span_len (\<lambda>c. c \<noteq> CHR 0x0A) (drop 2 inp) else 0)"

fun match_identifier :: "string \<Rightarrow> nat" where
  "match_identifier [] = 0"
| "match_identifier (c # inp) = (if alpha c then 1 + span_len (\<lambda>c. c = CHR ''_'' \<or> alpha c \<or> is_digit c) inp else 0)"

definition match_sign :: "string \<Rightarrow> nat" where
  "match_sign inp = (if take 1 inp \<in> {''+'', ''-''} then 1 else 0)"

definition match_value_int :: "string \<Rightarrow> nat" where
  "match_value_int inp =
     (let s = match_sign inp; d = span_len is_digit (drop s inp) in if d = 0 then 0 else s + d)"

definition match_value_float :: "string \<Rightarrow> nat" where
  "match_value_float inp =
     (let i = match_value_int inp in
      if i = 0 \<or> take 1 (drop i inp) \<noteq> ''.'' then 0 else i + 1 + span_len is_digit (drop (i + 1) inp))"

definition match_value_string :: "string \<Rightarrow> nat" where
  "match_value_string inp =
     (let n = span_len (\<lambda>c. c \<noteq> CHR 0x27) (drop 1 inp) in
      if take 1 inp = [CHR 0x27] \<and> take 1 (drop (1 + n) inp) = [CHR 0x27] then n + 2 else 0)"

definition match_single_op :: "string \<Rightarrow> nat" where
  "match_single_op inp = (if inp \<noteq> [] \<and> hd inp \<in> set '';(),*=><.'' then 1 else 0)"

definition match_dot :: "string \<Rightarrow> nat" where
  "match_dot inp = (if inp \<noteq> [] \<and> hd inp \<noteq> CHR 0x0A then 1 else 0)"

section \<open>Literals\<close>

text \<open>
  \<open>atoi\<close> as the C library has it, \<open>(int) strtol(text, NULL, 10)\<close>: a value outside the range of \<open>long\<close> is replaced by the
  nearest bound, and the conversion to \<open>int\<close> keeps the lower 32 bits.
\<close>

definition strtol :: "string \<Rightarrow> int" where
  "strtol t = (let v = int (digits_value (takeWhile is_digit (drop (match_sign t) t)));
                   i = (if take 1 t = ''-'' then - v else v)
               in max (- (2 ^ 63)) (min (2 ^ 63 - 1) i))"

definition atoi :: "string \<Rightarrow> int" where
  "atoi t = wrap32 (strtol t)"

text \<open>
  \<open>atof\<close> and the assignment of its result to a \<open>float\<close>. A number of a binary format with \<open>p\<close> bits of precision
  whose smallest positive number is \<open>2 ^ - k\<close> is given in these units: \<open>nearest p k a d\<close> is the one nearest to \<open>a / d\<close>, the even
  one between two.
\<close>

definition bit_length :: "nat \<Rightarrow> nat" where
  "bit_length n = length (takeWhile (\<lambda>i. 2 ^ i \<le> n) [0..<3000])"

definition nearest :: "nat \<Rightarrow> nat \<Rightarrow> nat \<Rightarrow> nat \<Rightarrow> nat" where
  "nearest p k a d =
     (let s = bit_length (a * 2 ^ k div d) - p in round_even (a * 2 ^ k) (d * 2 ^ s) * 2 ^ s)"

text \<open>The bit pattern of the \<open>float\<close> of \<open>m\<close> units of \<open>2 ^ - 149\<close>, infinity from \<open>2 ^ 128\<close> on.\<close>

definition float_bits :: "nat \<Rightarrow> nat" where
  "float_bits m =
     (if m < 2 ^ 23 then m
      else if 2 ^ (128 + 149) \<le> m then 255 * 2 ^ 23
      else let l = bit_length m in (l - 23) * 2 ^ 23 + (m div 2 ^ (l - 24) - 2 ^ 23))"

definition atof_float :: "string \<Rightarrow> int" where
  "atof_float t =
     (let u = drop (match_sign t) t; ds = takeWhile is_digit u; fs = takeWhile is_digit (drop (length ds + 1) u);
          m = nearest 53 1074 (digits_value (ds @ fs)) (10 ^ length fs);
          b = (if 2 ^ (1024 + 1074) \<le> m then 255 * 2 ^ 23 else float_bits (nearest 24 149 m (2 ^ 1074)))
      in if take 1 t = ''-'' then int b - 2 ^ 31 else int b)"

section \<open>Rules\<close>

datatype start_condition = INITIAL | STATE_COMMENT
datatype lex_action = LexBegin start_condition | LexSkip | LexReturn "string \<Rightarrow> token"

definition keyword_tokens :: "(string \<times> token) list" where
  "keyword_tokens =
    [(''SHOW'', T_SHOW), (''BEGIN'', TXN_BEGIN), (''COMMIT'', TXN_COMMIT), (''ABORT'', TXN_ABORT), (''ROLLBACK'', TXN_ROLLBACK),
     (''TABLES'', T_TABLES), (''CREATE'', T_CREATE), (''TABLE'', T_TABLE), (''DROP'', T_DROP), (''DESC'', T_DESC),
     (''INSERT'', T_INSERT), (''INTO'', T_INTO), (''VALUES'', T_VALUES), (''DELETE'', T_DELETE), (''FROM'', T_FROM),
     (''WHERE'', T_WHERE), (''UPDATE'', T_UPDATE), (''SET'', T_SET), (''SELECT'', T_SELECT), (''INT'', T_INT), (''CHAR'', T_CHAR),
     (''FLOAT'', T_FLOAT), (''INDEX'', T_INDEX), (''AND'', T_AND), (''JOIN'', T_JOIN), (''EXIT'', T_EXIT), (''HELP'', T_HELP)]"

definition initial_rules :: "((string \<Rightarrow> nat) \<times> lex_action) list" where
  "initial_rules =
    [(match_word ''/*'', LexBegin STATE_COMMENT), (match_line_comment, LexSkip), (match_white_space, LexSkip), (match_new_line, LexSkip)] @
    map (\<lambda>(w, t). (match_word w, LexReturn (\<lambda>_. t))) keyword_tokens @
    [(match_word ''>='', LexReturn (\<lambda>_. T_GEQ)), (match_word ''<='', LexReturn (\<lambda>_. T_LEQ)), (match_word ''<>'', LexReturn (\<lambda>_. T_NEQ)),
     (match_single_op, LexReturn (\<lambda>t. T_Op (hd t))),
     (match_identifier, LexReturn IDENTIFIER),
     (match_value_int, LexReturn (\<lambda>t. VALUE_INT (atoi t))),
     (match_value_float, LexReturn (\<lambda>t. VALUE_FLOAT (atof_float t))),
     (match_value_string, LexReturn (\<lambda>t. VALUE_STRING (take (length t - 2) (drop 1 t)))),
     (match_dot, LexSkip)]"

definition comment_rules :: "((string \<Rightarrow> nat) \<times> lex_action) list" where
  "comment_rules =
    [(match_word ''*/'', LexBegin INITIAL),
     (\<lambda>inp. if inp \<noteq> [] \<and> hd inp \<noteq> CHR ''*'' then 1 else 0, LexSkip),
     (match_word ''*'', LexSkip)]"

fun rules_of :: "start_condition \<Rightarrow> ((string \<Rightarrow> nat) \<times> lex_action) list" where
  "rules_of INITIAL = initial_rules"
| "rules_of STATE_COMMENT = comment_rules"

text \<open>The longest match, and the first among equals; the default rule echoes one character.\<close>

definition best_match :: "((string \<Rightarrow> nat) \<times> lex_action) list \<Rightarrow> string \<Rightarrow> nat \<times> lex_action" where
  "best_match rules inp = foldl (\<lambda>(n, a) (m, b). if n < m inp then (m inp, b) else (n, a)) (0, LexSkip) rules"

section \<open>The scanner\<close>

text \<open>One call of \<open>yylex\<close>: the token, the start condition and the input that is left.\<close>

function yylex :: "start_condition \<Rightarrow> string \<Rightarrow> token \<times> start_condition \<times> string" where
  "yylex sc inp =
     (if inp = [] then (T_EOF, sc, [])
      else let (n, act) = best_match (rules_of sc) inp; rest = drop (max 1 n) inp in
        case act of
          LexBegin sc' \<Rightarrow> yylex sc' rest
        | LexSkip \<Rightarrow> yylex sc rest
        | LexReturn f \<Rightarrow> (f (take n inp), sc, rest))"
  by auto
termination by (relation "measure (\<lambda>(sc, inp). length inp)") auto

declare yylex.simps [simp del]

end
