(* ===== verification/Grammar.thy ===== *)
theory Grammar
  imports Lexer Ast
begin

text \<open>
  \<open>parser/yacc.y\<close>: from tokens to syntax trees.

  The grammar is a family of inductive predicates, one per nonterminal (\<open>nt_\<dots>\<close>), on the tokens it derives and the
  value its action computes. \<open>parse_\<dots>\<close> is a parser by descent with one token of lookahead for it: it is proved to accept
  what the grammar derives, with the same value, so that the grammar is unambiguous; and it stops where the
  generated parser stops, which reads no token behind the one that completes a statement
  (\<open>YYACCEPT\<close> in a state with a default reduction), and never a token behind one that fits into no statement.
\<close>

section \<open>The grammar\<close>

text \<open>The left-recursive lists.\<close>

inductive left_list :: "(token \<Rightarrow> bool) \<Rightarrow> (token list \<Rightarrow> 'a \<Rightarrow> bool) \<Rightarrow> token list \<Rightarrow> 'a list \<Rightarrow> bool" for sep item where
  single: "item ts x \<Longrightarrow> left_list sep item ts [x]"
| more: "left_list sep item ts xs \<Longrightarrow> sep t \<Longrightarrow> item us x \<Longrightarrow> left_list sep item (ts @ t # us) (xs @ [x])"

definition comma :: "token \<Rightarrow> bool" where
  "comma t \<longleftrightarrow> t = T_Op CHR '',''"

inductive nt_name :: "token list \<Rightarrow> string \<Rightarrow> bool" where
  "nt_name [IDENTIFIER s] s"

inductive nt_value :: "token list \<Rightarrow> sv_Value \<Rightarrow> bool" where
  "nt_value [VALUE_INT i] (IntLit i)"
| "nt_value [VALUE_FLOAT x] (FloatLit x)"
| "nt_value [VALUE_STRING s] (StringLit s)"

definition nt_valueList :: "token list \<Rightarrow> sv_Value list \<Rightarrow> bool" where
  "nt_valueList = left_list comma nt_value"

inductive nt_type :: "token list \<Rightarrow> TypeLen \<Rightarrow> bool" where
  "nt_type [T_INT] (TypeLen SV_TYPE_INT 4)"
| "nt_type [T_CHAR, T_Op CHR ''('', VALUE_INT n, T_Op CHR '')''] (TypeLen SV_TYPE_STRING n)"
| "nt_type [T_FLOAT] (TypeLen SV_TYPE_FLOAT 4)"

inductive nt_field :: "token list \<Rightarrow> Field \<Rightarrow> bool" where
  "nt_name ts n \<Longrightarrow> nt_type us t \<Longrightarrow> nt_field (ts @ us) (ColDefField n t)"

definition nt_fieldList :: "token list \<Rightarrow> Field list \<Rightarrow> bool" where
  "nt_fieldList = left_list comma nt_field"

inductive nt_col :: "token list \<Rightarrow> Col \<Rightarrow> bool" where
  "nt_name ts t \<Longrightarrow> nt_name us c \<Longrightarrow> nt_col (ts @ T_Op CHR ''.'' # us) (Col t c)"
| "nt_name ts c \<Longrightarrow> nt_col ts (Col [] c)"

definition nt_colList :: "token list \<Rightarrow> Col list \<Rightarrow> bool" where
  "nt_colList = left_list comma nt_col"

inductive nt_op :: "token list \<Rightarrow> SvCompOp \<Rightarrow> bool" where
  "nt_op [T_Op CHR ''=''] SV_OP_EQ"
| "nt_op [T_Op CHR ''<''] SV_OP_LT"
| "nt_op [T_Op CHR ''>''] SV_OP_GT"
| "nt_op [T_NEQ] SV_OP_NE"
| "nt_op [T_LEQ] SV_OP_LE"
| "nt_op [T_GEQ] SV_OP_GE"

inductive nt_expr :: "token list \<Rightarrow> Expr \<Rightarrow> bool" where
  "nt_value ts v \<Longrightarrow> nt_expr ts (ValueExpr v)"
| "nt_col ts c \<Longrightarrow> nt_expr ts (ColExpr c)"

inductive nt_condition :: "token list \<Rightarrow> BinaryExpr \<Rightarrow> bool" where
  "nt_col ts c \<Longrightarrow> nt_op us r \<Longrightarrow> nt_expr vs e \<Longrightarrow> nt_condition (ts @ us @ vs) (BinaryExpr c r e)"

definition nt_whereClause :: "token list \<Rightarrow> BinaryExpr list \<Rightarrow> bool" where
  "nt_whereClause = left_list (\<lambda>t. t = T_AND) nt_condition"

inductive nt_optWhereClause :: "token list \<Rightarrow> BinaryExpr list \<Rightarrow> bool" where
  "nt_optWhereClause [] []"
| "nt_whereClause ts cs \<Longrightarrow> nt_optWhereClause (T_WHERE # ts) cs"

inductive nt_setClause :: "token list \<Rightarrow> sv_SetClause \<Rightarrow> bool" where
  "nt_name ts c \<Longrightarrow> nt_value us v \<Longrightarrow> nt_setClause (ts @ T_Op CHR ''='' # us) (SetClause c v)"

definition nt_setClauses :: "token list \<Rightarrow> sv_SetClause list \<Rightarrow> bool" where
  "nt_setClauses = left_list comma nt_setClause"

inductive nt_selector :: "token list \<Rightarrow> Col list \<Rightarrow> bool" where
  "nt_selector [T_Op CHR ''*''] []"
| "nt_colList ts cs \<Longrightarrow> nt_selector ts cs"

definition nt_tableList :: "token list \<Rightarrow> string list \<Rightarrow> bool" where
  "nt_tableList = left_list (\<lambda>t. comma t \<or> t = T_JOIN) nt_name"

inductive nt_txnStmt :: "token list \<Rightarrow> TreeNode \<Rightarrow> bool" where
  "nt_txnStmt [TXN_BEGIN] TxnBegin"
| "nt_txnStmt [TXN_COMMIT] TxnCommit"
| "nt_txnStmt [TXN_ABORT] TxnAbort"
| "nt_txnStmt [TXN_ROLLBACK] TxnRollback"

inductive nt_dbStmt :: "token list \<Rightarrow> TreeNode \<Rightarrow> bool" where
  "nt_dbStmt [T_SHOW, T_TABLES] ShowTables"

inductive nt_ddl :: "token list \<Rightarrow> TreeNode \<Rightarrow> bool" where
  "nt_name ts n \<Longrightarrow> nt_fieldList us fs \<Longrightarrow>
     nt_ddl (T_CREATE # T_TABLE # ts @ T_Op CHR ''('' # us @ [T_Op CHR '')'']) (CreateTable n fs)"
| "nt_name ts n \<Longrightarrow> nt_ddl (T_DROP # T_TABLE # ts) (DropTable n)"
| "nt_name ts n \<Longrightarrow> nt_ddl (T_DESC # ts) (DescTable n)"
| "nt_name ts n \<Longrightarrow> nt_name us c \<Longrightarrow> nt_ddl (T_CREATE # T_INDEX # ts @ T_Op CHR ''('' # us @ [T_Op CHR '')'']) (CreateIndex n c)"
| "nt_name ts n \<Longrightarrow> nt_name us c \<Longrightarrow> nt_ddl (T_DROP # T_INDEX # ts @ T_Op CHR ''('' # us @ [T_Op CHR '')'']) (DropIndex n c)"

inductive nt_dml :: "token list \<Rightarrow> TreeNode \<Rightarrow> bool" where
  "nt_name ts n \<Longrightarrow> nt_valueList us vs \<Longrightarrow>
     nt_dml (T_INSERT # T_INTO # ts @ T_VALUES # T_Op CHR ''('' # us @ [T_Op CHR '')'']) (InsertStmt n vs)"
| "nt_name ts n \<Longrightarrow> nt_optWhereClause us cs \<Longrightarrow> nt_dml (T_DELETE # T_FROM # ts @ us) (DeleteStmt n cs)"
| "nt_name ts n \<Longrightarrow> nt_setClauses us ss \<Longrightarrow> nt_optWhereClause vs cs \<Longrightarrow>
     nt_dml (T_UPDATE # ts @ T_SET # us @ vs) (UpdateStmt n ss cs)"
| "nt_selector ts sel \<Longrightarrow> nt_tableList us tabs \<Longrightarrow> nt_optWhereClause vs cs \<Longrightarrow>
     nt_dml (T_SELECT # ts @ T_FROM # us @ vs) (SelectStmt sel tabs cs)"

inductive nt_stmt :: "token list \<Rightarrow> TreeNode \<Rightarrow> bool" where
  "nt_dbStmt ts t \<Longrightarrow> nt_stmt ts t"
| "nt_ddl ts t \<Longrightarrow> nt_stmt ts t"
| "nt_dml ts t \<Longrightarrow> nt_stmt ts t"
| "nt_txnStmt ts t \<Longrightarrow> nt_stmt ts t"

text \<open>The value is \<open>parse_tree\<close>, \<open>None\<close> for the null pointer.\<close>

inductive nt_start :: "token list \<Rightarrow> TreeNode option \<Rightarrow> bool" where
  "nt_stmt ts t \<Longrightarrow> nt_start (ts @ [T_Op CHR '';'']) (Some t)"
| "nt_start [T_HELP] (Some Help)"
| "nt_start [T_EXIT] None"
| "nt_start [T_EOF] None"

section \<open>The parser\<close>

text \<open>The result is a value and the tokens left, or what is left behind the token that does not fit.\<close>

type_synonym 'a parser = "token list \<Rightarrow> token list + 'a \<times> token list"

definition p_ret :: "'a \<Rightarrow> 'a parser" where
  "p_ret x ts = Inr (x, ts)"

definition p_bind :: "'a parser \<Rightarrow> ('a \<Rightarrow> 'b parser) \<Rightarrow> 'b parser" where
  "p_bind p f ts = (case p ts of Inl r \<Rightarrow> Inl r | Inr (x, r) \<Rightarrow> f x r)"

text \<open>One token, from which a value is taken.\<close>

definition p_tok :: "(token \<Rightarrow> 'a option) \<Rightarrow> 'a parser" where
  "p_tok f ts = (case ts of [] \<Rightarrow> Inl [] | t # r \<Rightarrow> (case f t of None \<Rightarrow> Inl r | Some x \<Rightarrow> Inr (x, r)))"

definition p_is :: "token \<Rightarrow> unit parser" where
  "p_is t = p_tok (\<lambda>u. if u = t then Some () else None)"

definition peek :: "(token \<Rightarrow> bool) \<Rightarrow> 'a parser \<Rightarrow> 'a parser \<Rightarrow> 'a parser" where
  "peek c p q ts = (if ts \<noteq> [] \<and> c (hd ts) then p ts else q ts)"

fun name_of :: "token \<Rightarrow> string option" where
  "name_of (IDENTIFIER s) = Some s"
| "name_of t = None"

fun int_of :: "token \<Rightarrow> int option" where
  "int_of (VALUE_INT i) = Some i"
| "int_of t = None"

fun value_of :: "token \<Rightarrow> sv_Value option" where
  "value_of (VALUE_INT i) = Some (IntLit i)"
| "value_of (VALUE_FLOAT x) = Some (FloatLit x)"
| "value_of (VALUE_STRING s) = Some (StringLit s)"
| "value_of t = None"

definition parse_name :: "string parser" where
  "parse_name = p_tok name_of"

definition parse_value :: "sv_Value parser" where
  "parse_value = p_tok value_of"

definition parse_op :: "SvCompOp parser" where
  "parse_op = p_tok (\<lambda>t.
     if t = T_Op CHR ''='' then Some SV_OP_EQ else if t = T_Op CHR ''<'' then Some SV_OP_LT else if t = T_Op CHR ''>'' then Some SV_OP_GT
     else if t = T_NEQ then Some SV_OP_NE else if t = T_LEQ then Some SV_OP_LE else if t = T_GEQ then Some SV_OP_GE else None)"

text \<open>A list, with a bound on the number of its elements that the number of tokens gives.\<close>

primrec parse_more :: "nat \<Rightarrow> (token \<Rightarrow> bool) \<Rightarrow> 'a parser \<Rightarrow> 'a list \<Rightarrow> 'a list parser" where
  "parse_more 0 sep item xs = (\<lambda>ts. Inl [])"
| "parse_more (Suc n) sep item xs =
     peek sep (p_bind (p_tok (\<lambda>t. Some ())) (\<lambda>_. p_bind item (\<lambda>x. parse_more n sep item (xs @ [x])))) (p_ret xs)"

definition parse_list :: "(token \<Rightarrow> bool) \<Rightarrow> 'a parser \<Rightarrow> 'a list parser" where
  "parse_list sep item ts = p_bind item (\<lambda>x. parse_more (length ts) sep item [x]) ts"

definition parse_type :: "TypeLen parser" where
  "parse_type =
     p_bind (p_tok (\<lambda>t. if t \<in> {T_INT, T_CHAR, T_FLOAT} then Some t else None)) (\<lambda>t.
       if t = T_INT then p_ret (TypeLen SV_TYPE_INT 4)
       else if t = T_FLOAT then p_ret (TypeLen SV_TYPE_FLOAT 4)
       else p_bind (p_is (T_Op CHR ''('')) (\<lambda>_.
            p_bind (p_tok int_of) (\<lambda>n.
            p_bind (p_is (T_Op CHR '')'')) (\<lambda>_. p_ret (TypeLen SV_TYPE_STRING n)))))"

definition parse_field :: "Field parser" where
  "parse_field = p_bind parse_name (\<lambda>n. p_bind parse_type (\<lambda>t. p_ret (ColDefField n t)))"

definition parse_col :: "Col parser" where
  "parse_col = p_bind parse_name (\<lambda>t.
     peek (\<lambda>u. u = T_Op CHR ''.'') (p_bind (p_is (T_Op CHR ''.'')) (\<lambda>_. p_bind parse_name (\<lambda>c. p_ret (Col t c)))) (p_ret (Col [] t)))"

fun is_name :: "token \<Rightarrow> bool" where
  "is_name (IDENTIFIER s) = True"
| "is_name t = False"

definition parse_expr :: "Expr parser" where
  "parse_expr = peek is_name (p_bind parse_col (\<lambda>c. p_ret (ColExpr c))) (p_bind parse_value (\<lambda>v. p_ret (ValueExpr v)))"

definition parse_condition :: "BinaryExpr parser" where
  "parse_condition = p_bind parse_col (\<lambda>c. p_bind parse_op (\<lambda>r. p_bind parse_expr (\<lambda>e. p_ret (BinaryExpr c r e))))"

definition parse_optWhere :: "BinaryExpr list parser" where
  "parse_optWhere = peek (\<lambda>t. t = T_WHERE) (p_bind (p_is T_WHERE) (\<lambda>_. parse_list (\<lambda>t. t = T_AND) parse_condition)) (p_ret [])"

definition parse_setClause :: "sv_SetClause parser" where
  "parse_setClause = p_bind parse_name (\<lambda>c. p_bind (p_is (T_Op CHR ''='')) (\<lambda>_. p_bind parse_value (\<lambda>v. p_ret (SetClause c v))))"

definition parse_selector :: "Col list parser" where
  "parse_selector = peek (\<lambda>t. t = T_Op CHR ''*'') (p_bind (p_is (T_Op CHR ''*'')) (\<lambda>_. p_ret [])) (parse_list comma parse_col)"

definition in_parens :: "'a parser \<Rightarrow> 'a parser" where
  "in_parens p = p_bind (p_is (T_Op CHR ''('')) (\<lambda>_. p_bind p (\<lambda>x. p_bind (p_is (T_Op CHR '')'')) (\<lambda>_. p_ret x)))"

text \<open>The statements, by their first token.\<close>

fun parse_stmt :: "token \<Rightarrow> TreeNode parser" where
  "parse_stmt T_SHOW = p_bind (p_is T_TABLES) (\<lambda>_. p_ret ShowTables)"
| "parse_stmt TXN_BEGIN = p_ret TxnBegin"
| "parse_stmt TXN_COMMIT = p_ret TxnCommit"
| "parse_stmt TXN_ABORT = p_ret TxnAbort"
| "parse_stmt TXN_ROLLBACK = p_ret TxnRollback"
| "parse_stmt T_CREATE =
     p_bind (p_tok (\<lambda>t. if t \<in> {T_TABLE, T_INDEX} then Some t else None)) (\<lambda>t. p_bind parse_name (\<lambda>n.
       if t = T_TABLE then p_bind (in_parens (parse_list comma parse_field)) (\<lambda>fs. p_ret (CreateTable n fs))
       else p_bind (in_parens parse_name) (\<lambda>c. p_ret (CreateIndex n c))))"
| "parse_stmt T_DROP =
     p_bind (p_tok (\<lambda>t. if t \<in> {T_TABLE, T_INDEX} then Some t else None)) (\<lambda>t. p_bind parse_name (\<lambda>n.
       if t = T_TABLE then p_ret (DropTable n) else p_bind (in_parens parse_name) (\<lambda>c. p_ret (DropIndex n c))))"
| "parse_stmt T_DESC = p_bind parse_name (\<lambda>n. p_ret (DescTable n))"
| "parse_stmt T_INSERT =
     p_bind (p_is T_INTO) (\<lambda>_. p_bind parse_name (\<lambda>n. p_bind (p_is T_VALUES) (\<lambda>_.
     p_bind (in_parens (parse_list comma parse_value)) (\<lambda>vs. p_ret (InsertStmt n vs)))))"
| "parse_stmt T_DELETE = p_bind (p_is T_FROM) (\<lambda>_. p_bind parse_name (\<lambda>n. p_bind parse_optWhere (\<lambda>cs. p_ret (DeleteStmt n cs))))"
| "parse_stmt T_UPDATE =
     p_bind parse_name (\<lambda>n. p_bind (p_is T_SET) (\<lambda>_. p_bind (parse_list comma parse_setClause) (\<lambda>ss.
     p_bind parse_optWhere (\<lambda>cs. p_ret (UpdateStmt n ss cs)))))"
| "parse_stmt T_SELECT =
     p_bind parse_selector (\<lambda>sel. p_bind (p_is T_FROM) (\<lambda>_. p_bind (parse_list (\<lambda>t. comma t \<or> t = T_JOIN) parse_name) (\<lambda>tabs.
     p_bind parse_optWhere (\<lambda>cs. p_ret (SelectStmt sel tabs cs)))))"
| "parse_stmt t = (\<lambda>ts. Inl ts)"

fun parse_start :: "TreeNode option parser" where
  "parse_start [] = Inl []"
| "parse_start (t # ts) =
     (if t = T_HELP then Inr (Some Help, ts)
      else if t = T_EXIT \<or> t = T_EOF then Inr (None, ts)
      else p_bind (parse_stmt t) (\<lambda>s. p_bind (p_is (T_Op CHR '';'')) (\<lambda>_. p_ret (Some s))) ts)"

end
