(* ===== verification/Grammar_Spec.thy ===== *)
theory Grammar_Spec
  imports Grammar
begin

text \<open>
  The parser by descent accepts exactly what the grammar of \<open>yacc.y\<close> derives. The locale \<open>recogniser\<close> is what a parser of a nonterminal
  promises, \<open>separated\<close> extends it to the left-recursive lists.
\<close>

section \<open>Combinators\<close>

lemma p_bind_Inr: "p_bind p f ts = Inr y \<longleftrightarrow> (\<exists>x r. p ts = Inr (x, r) \<and> f x r = Inr y)"
  by (auto simp: p_bind_def split: sum.splits)

lemma p_tok_Inr: "p_tok f ts = Inr (x, r) \<longleftrightarrow> (\<exists>t. ts = t # r \<and> f t = Some x)"
  by (auto simp: p_tok_def split: list.splits option.splits)

lemma p_is_Inr: "p_is t ts = Inr (x, r) \<longleftrightarrow> ts = t # r"
  by (auto simp: p_is_def p_tok_Inr split: if_splits)

lemma p_ret_Inr: "p_ret x ts = Inr (y, r) \<longleftrightarrow> y = x \<and> r = ts"
  by (auto simp: p_ret_def)

lemma peek_Inr: "peek c p q ts = Inr y \<longleftrightarrow> (if ts \<noteq> [] \<and> c (hd ts) then p ts = Inr y else q ts = Inr y)"
  by (simp add: peek_def)

lemmas parser_inversion = p_bind_Inr p_tok_Inr p_is_Inr p_ret_Inr peek_Inr

text \<open>And forwards, on a given token.\<close>

lemma p_bind_ok: "p ts = Inr (x, r) \<Longrightarrow> p_bind p f ts = f x r"
  by (simp add: p_bind_def)

lemma p_tok_Cons: "p_tok f (t # r) = (case f t of None \<Rightarrow> Inl r | Some x \<Rightarrow> Inr (x, r))"
  by (simp add: p_tok_def)

lemma p_is_Cons: "p_is t (t # r) = Inr ((), r)"
  by (simp add: p_is_def p_tok_Cons)

lemma peek_Cons: "peek c p q (t # r) = (if c t then p (t # r) else q (t # r))"
  by (simp add: peek_def)

lemmas parser_run = p_bind_ok p_tok_Cons p_is_Cons peek_Cons p_ret_def

section \<open>Lists\<close>

text \<open>The elements behind the first, from left to right.\<close>

inductive tail_list :: "(token \<Rightarrow> bool) \<Rightarrow> (token list \<Rightarrow> 'a \<Rightarrow> bool) \<Rightarrow> token list \<Rightarrow> 'a list \<Rightarrow> bool" for sep item where
  none: "tail_list sep item [] []"
| step: "sep t \<Longrightarrow> item us x \<Longrightarrow> tail_list sep item ts xs \<Longrightarrow> tail_list sep item (t # us @ ts) (x # xs)"

inductive_cases tail_listE: "tail_list sep item ts xs"

lemma tail_snoc: "tail_list sep item ts xs \<Longrightarrow> sep t \<Longrightarrow> item us x \<Longrightarrow> tail_list sep item (ts @ t # us) (xs @ [x])"
proof (induction rule: tail_list.induct)
  case none
  then show ?case using tail_list.step [of sep t item us x "[]" "[]"] by (simp add: tail_list.none)
next
  case (step t' us' x' ts xs)
  then show ?case using tail_list.step [of sep t' item us' x' "ts @ t # us" "xs @ [x]"] by simp
qed

lemma left_append: "tail_list sep item ts xs \<Longrightarrow> left_list sep item us ys \<Longrightarrow> left_list sep item (us @ ts) (ys @ xs)"
proof (induction arbitrary: us ys rule: tail_list.induct)
  case (step t us' x ts xs)
  from step.IH [OF left_list.more [OF step.prems step.hyps(1,2)]] show ?case by simp
qed simp

lemma left_list_iff: "left_list sep item ts xs \<longleftrightarrow> (\<exists>us x vs ys. ts = us @ vs \<and> xs = x # ys \<and> item us x \<and> tail_list sep item vs ys)"
proof
  show "left_list sep item ts xs \<Longrightarrow> \<exists>us x vs ys. ts = us @ vs \<and> xs = x # ys \<and> item us x \<and> tail_list sep item vs ys"
  proof (induction rule: left_list.induct)
    case (single ts x)
    then show ?case by (intro exI [of _ ts] exI [of _ x] exI [of _ "[]"]) (simp add: tail_list.none)
  next
    case (more ts xs t us x)
    then obtain us' x' vs ys where "ts = us' @ vs" "xs = x' # ys" "item us' x'" "tail_list sep item vs ys" by blast
    with tail_snoc [OF this(4) more.hyps(2,3)] show ?case by auto
  qed
qed (auto intro: left_append [OF _ left_list.single, simplified])

text \<open>
  A parser \<open>p\<close> of the nonterminal \<open>nt\<close>: what it accepts is derived, and what is derived is accepted when the tokens that
  follow are ones that can follow.
\<close>

locale recogniser =
  fixes p :: "'a parser" and nt :: "token list \<Rightarrow> 'a \<Rightarrow> bool" and follow :: "token list \<Rightarrow> bool"
  assumes sound: "p ts = Inr (x, r) \<Longrightarrow> \<exists>pre. ts = pre @ r \<and> nt pre x"
    and complete: "nt pre x \<Longrightarrow> follow r \<Longrightarrow> p (pre @ r) = Inr (x, r)"
    and nonempty: "nt pre x \<Longrightarrow> pre \<noteq> []"
begin

lemma complete_end: "nt pre x \<Longrightarrow> follow [] \<Longrightarrow> p pre = Inr (x, [])"
  using complete [of pre x "[]"] by simp

end

locale separated = recogniser +
  fixes sep :: "token \<Rightarrow> bool"
  assumes sep_follow: "sep t \<Longrightarrow> follow (t # r)"
begin

definition list_follow :: "token list \<Rightarrow> bool" where
  "list_follow r \<longleftrightarrow> follow r \<and> \<not> (r \<noteq> [] \<and> sep (hd r))"

lemma more_sound: "parse_more n sep p acc ts = Inr (xs, r) \<Longrightarrow> \<exists>pre ys. ts = pre @ r \<and> xs = acc @ ys \<and> tail_list sep nt pre ys"
proof (induction n arbitrary: acc ts)
  case (Suc n)
  show ?case
  proof (cases "ts \<noteq> [] \<and> sep (hd ts)")
    case True
    with Suc.prems obtain t us x vs where t: "ts = t # us" "sep t" "p us = Inr (x, vs)" "parse_more n sep p (acc @ [x]) vs = Inr (xs, r)"
      by (auto simp: parser_inversion)
    from sound [OF t(3)] Suc.IH [OF t(4)] obtain a b ys where "us = a @ vs" "nt a x" "vs = b @ r" "xs = acc @ [x] @ ys" "tail_list sep nt b ys" by auto
    then show ?thesis using t(1,2) tail_list.step [of sep t nt a x b ys] by auto
  next
    case False
    with Suc.prems show ?thesis by (auto simp: parser_inversion intro: tail_list.none)
  qed
qed simp

lemma more_complete: "tail_list sep nt vs ys \<Longrightarrow> list_follow r \<Longrightarrow> length vs < n \<Longrightarrow> parse_more n sep p acc (vs @ r) = Inr (acc @ ys, r)"
proof (induction arbitrary: n acc rule: tail_list.induct)
  case none
  then obtain m where "n = Suc m" by (cases n) auto
  with none show ?case by (auto simp: list_follow_def peek_def p_ret_def)
next
  case (step t us x ts xs)
  then obtain m where n: "n = Suc m" "length ts < m" by (cases n) auto
  have "follow (ts @ r)" using step.hyps(3) step.prems(1) sep_follow by (auto simp: list_follow_def elim: tail_listE)
  from complete [OF step.hyps(2) this] step.IH [OF step.prems(1) n(2), of "acc @ [x]"]
  show ?case using step.hyps(1) n(1) by (simp add: parser_run)
qed

lemma list_sound: "parse_list sep p ts = Inr (xs, r) \<Longrightarrow> \<exists>pre. ts = pre @ r \<and> left_list sep nt pre xs"
  using sound more_sound by (fastforce simp: parse_list_def p_bind_Inr left_list_iff)

lemma list_complete:
  assumes "left_list sep nt pre xs" "list_follow r"
  shows "parse_list sep p (pre @ r) = Inr (xs, r)"
proof -
  from assms(1) obtain us x vs ys where l: "pre = us @ vs" "xs = x # ys" "nt us x" "tail_list sep nt vs ys" by (auto simp: left_list_iff)
  have "follow (vs @ r)" using l(4) assms(2) sep_follow by (auto simp: list_follow_def elim: tail_listE)
  from complete [OF l(3) this] have "p (pre @ r) = Inr (x, vs @ r)" by (simp add: l(1))
  moreover have "length vs < length (pre @ r)" using nonempty [OF l(3)] l(1) by (cases us) auto
  ultimately show ?thesis using more_complete [OF l(4) assms(2), of "length (pre @ r)" "[x]"] l(2)
    by (simp add: parse_list_def p_bind_ok)
qed

lemma list_nonempty: "left_list sep nt pre xs \<Longrightarrow> pre \<noteq> []"
  using nonempty by (auto simp: left_list_iff)

end

section \<open>The nonterminals\<close>

text \<open>What may not follow a column: the dot that would go on with it.\<close>

definition no_dot :: "token list \<Rightarrow> bool" where
  "no_dot r \<longleftrightarrow> \<not> (r \<noteq> [] \<and> hd r = T_Op CHR ''.'')"

lemma token_values:
  "name_of t = Some s \<longleftrightarrow> t = IDENTIFIER s" "int_of t = Some i \<longleftrightarrow> t = VALUE_INT i"
  "value_of t = Some v \<longleftrightarrow> (\<exists>i. t = VALUE_INT i \<and> v = IntLit i) \<or> (\<exists>x. t = VALUE_FLOAT x \<and> v = FloatLit x) \<or> (\<exists>s. t = VALUE_STRING s \<and> v = StringLit s)"
  by (cases t; auto)+

interpretation name: separated parse_name nt_name "\<lambda>_. True" sep for sep
  by unfold_locales (auto simp: parse_name_def parser_inversion parser_run nt_name.simps token_values)

interpretation val: separated parse_value nt_value "\<lambda>_. True" comma
  by unfold_locales (auto simp: parse_value_def parser_inversion parser_run nt_value.simps token_values)

interpretation cmp: recogniser parse_op nt_op "\<lambda>_. True"
  by unfold_locales (auto simp: parse_op_def parser_inversion parser_run nt_op.simps split: if_splits)

interpretation tlen: recogniser parse_type nt_type "\<lambda>_. True"
proof unfold_locales
  fix ts x r assume "parse_type ts = Inr (x, r)"
  then consider "ts = [T_INT] @ r" "x = TypeLen SV_TYPE_INT 4" | "ts = [T_FLOAT] @ r" "x = TypeLen SV_TYPE_FLOAT 4"
    | n where "ts = [T_CHAR, T_Op CHR ''('', VALUE_INT n, T_Op CHR '')''] @ r" "x = TypeLen SV_TYPE_STRING n"
    by (auto simp: parse_type_def parser_inversion token_values split: if_splits)
  then show "\<exists>pre. ts = pre @ r \<and> nt_type pre x" by cases (blast intro: nt_type.intros)+
next
  show "nt_type pre x \<Longrightarrow> parse_type (pre @ r) = Inr (x, r)" for pre x r by (erule nt_type.cases) (simp_all add: parse_type_def parser_run)
  show "nt_type pre x \<Longrightarrow> pre \<noteq> []" for pre x by (erule nt_type.cases) simp_all
qed

interpretation field: separated parse_field nt_field "\<lambda>_. True" comma
proof unfold_locales
  show "parse_field ts = Inr (x, r) \<Longrightarrow> \<exists>pre. ts = pre @ r \<and> nt_field pre x" for ts x r
    by (fastforce simp: parse_field_def parser_inversion dest!: name.sound tlen.sound intro: nt_field.intros)
  show "nt_field pre x \<Longrightarrow> parse_field (pre @ r) = Inr (x, r)" for pre x r
    by (auto simp: parse_field_def p_bind_ok name.complete tlen.complete p_ret_def elim!: nt_field.cases)
  show "nt_field pre x \<Longrightarrow> pre \<noteq> []" for pre x by (auto elim!: nt_field.cases dest: name.nonempty)
qed simp

interpretation col: separated parse_col nt_col no_dot comma
proof unfold_locales
  show "parse_col ts = Inr (x, r) \<Longrightarrow> \<exists>pre. ts = pre @ r \<and> nt_col pre x" for ts x r
    by (fastforce simp: parse_col_def parser_inversion dest!: name.sound intro: nt_col.intros split: if_splits)
  show "nt_col pre x \<Longrightarrow> no_dot r \<Longrightarrow> parse_col (pre @ r) = Inr (x, r)" for pre x r
    by (auto simp: parse_col_def p_bind_ok name.complete name.complete_end p_ret_def p_is_Cons peek_Cons peek_def no_dot_def elim!: nt_col.cases)
  show "nt_col pre x \<Longrightarrow> pre \<noteq> []" for pre x by (auto elim!: nt_col.cases dest: name.nonempty)
  show "comma t \<Longrightarrow> no_dot (t # r)" for t r by (simp add: comma_def no_dot_def)
qed

lemma nt_value_first: "nt_value ts v \<Longrightarrow> \<exists>t r. ts = t # r \<and> \<not> is_name t"
  by (auto simp: nt_value.simps)

lemma nt_col_first: "nt_col ts v \<Longrightarrow> \<exists>t r. ts = t # r \<and> is_name t"
  by (auto simp: nt_col.simps nt_name.simps)

interpretation expr: recogniser parse_expr nt_expr no_dot
proof unfold_locales
  show "parse_expr ts = Inr (x, r) \<Longrightarrow> \<exists>pre. ts = pre @ r \<and> nt_expr pre x" for ts x r
    by (fastforce simp: parse_expr_def parser_inversion dest!: col.sound val.sound intro: nt_expr.intros split: if_splits)
  show "nt_expr pre x \<Longrightarrow> no_dot r \<Longrightarrow> parse_expr (pre @ r) = Inr (x, r)" for pre x r
    by (auto simp: parse_expr_def peek_def p_bind_ok val.complete col.complete p_ret_def elim!: nt_expr.cases dest: nt_value_first nt_col_first)
  show "nt_expr pre x \<Longrightarrow> pre \<noteq> []" for pre x by (auto elim!: nt_expr.cases dest: val.nonempty col.nonempty)
qed

lemma nt_op_no_dot: "nt_op us c \<Longrightarrow> no_dot (us @ r)"
  by (auto simp: nt_op.simps no_dot_def)

interpretation cnd: separated parse_condition nt_condition no_dot "\<lambda>t. t = T_AND"
proof unfold_locales
  show "parse_condition ts = Inr (x, r) \<Longrightarrow> \<exists>pre. ts = pre @ r \<and> nt_condition pre x" for ts x r
    by (fastforce simp: parse_condition_def parser_inversion dest!: col.sound cmp.sound expr.sound intro: nt_condition.intros)
  show "nt_condition pre x \<Longrightarrow> no_dot r \<Longrightarrow> parse_condition (pre @ r) = Inr (x, r)" for pre x r
    by (auto simp: parse_condition_def p_bind_ok col.complete cmp.complete expr.complete nt_op_no_dot p_ret_def elim!: nt_condition.cases)
  show "nt_condition pre x \<Longrightarrow> pre \<noteq> []" for pre x by (auto elim!: nt_condition.cases dest: col.nonempty)
qed (simp add: no_dot_def)

interpretation setc: separated parse_setClause nt_setClause "\<lambda>_. True" comma
proof unfold_locales
  show "parse_setClause ts = Inr (x, r) \<Longrightarrow> \<exists>pre. ts = pre @ r \<and> nt_setClause pre x" for ts x r
    by (fastforce simp: parse_setClause_def parser_inversion dest!: name.sound val.sound intro: nt_setClause.intros)
  show "nt_setClause pre x \<Longrightarrow> parse_setClause (pre @ r) = Inr (x, r)" for pre x r
    by (auto simp: parse_setClause_def p_bind_ok name.complete val.complete p_is_Cons p_ret_def elim!: nt_setClause.cases)
  show "nt_setClause pre x \<Longrightarrow> pre \<noteq> []" for pre x by (auto elim!: nt_setClause.cases dest: name.nonempty)
qed simp

text \<open>The lists, and what may follow them.\<close>

lemmas list_nts = nt_valueList_def nt_fieldList_def nt_colList_def nt_whereClause_def nt_setClauses_def nt_tableList_def

lemmas list_sounds = val.list_sound [folded nt_valueList_def] field.list_sound [folded nt_fieldList_def] col.list_sound [folded nt_colList_def]
  cnd.list_sound [folded nt_whereClause_def] setc.list_sound [folded nt_setClauses_def] name.list_sound [where sep = "\<lambda>t. comma t \<or> t = T_JOIN", folded nt_tableList_def]

lemmas list_completes = val.list_complete [folded nt_valueList_def] field.list_complete [folded nt_fieldList_def] col.list_complete [folded nt_colList_def]
  cnd.list_complete [folded nt_whereClause_def] setc.list_complete [folded nt_setClauses_def] name.list_complete [where sep = "\<lambda>t. comma t \<or> t = T_JOIN", folded nt_tableList_def]

lemmas list_follows = val.list_follow_def field.list_follow_def col.list_follow_def cnd.list_follow_def setc.list_follow_def name.list_follow_def comma_def no_dot_def

lemma in_parens_Inr: "in_parens p ts = Inr (x, r) \<longleftrightarrow> (\<exists>s. ts = T_Op CHR ''('' # s \<and> p s = Inr (x, T_Op CHR '')'' # r))"
  by (auto simp: in_parens_def parser_inversion)

lemma optWhere_sound: "parse_optWhere ts = Inr (cs, r) \<Longrightarrow> \<exists>pre. ts = pre @ r \<and> nt_optWhereClause pre cs"
  by (fastforce simp: parse_optWhere_def parser_inversion dest!: list_sounds intro: nt_optWhereClause.intros split: if_splits)

lemma optWhere_complete: "nt_optWhereClause pre cs \<Longrightarrow> parse_optWhere (pre @ T_Op CHR '';'' # r) = Inr (cs, T_Op CHR '';'' # r)"
  by (auto simp: parse_optWhere_def parser_run list_completes list_follows elim!: nt_optWhereClause.cases)

text \<open>What follows the list in front of an optional where clause.\<close>

lemma optWhere_first: "nt_optWhereClause pre cs \<Longrightarrow> \<exists>t u. pre @ T_Op CHR '';'' # r = t # u \<and> t \<in> {T_WHERE, T_Op CHR '';''}"
  by (auto elim!: nt_optWhereClause.cases)

lemma selector_sound: "parse_selector ts = Inr (cs, r) \<Longrightarrow> \<exists>pre. ts = pre @ r \<and> nt_selector pre cs"
  by (fastforce simp: parse_selector_def parser_inversion dest!: list_sounds intro: nt_selector.intros split: if_splits)

lemma colList_first: "nt_colList ts cs \<Longrightarrow> \<exists>t r. ts = t # r \<and> is_name t"
  by (auto simp: nt_colList_def left_list_iff dest!: nt_col_first)

lemma selector_complete:
  assumes "nt_selector pre cs"
  shows "parse_selector (pre @ T_FROM # r) = Inr (cs, T_FROM # r)"
  using assms
proof cases
  case 2
  then show ?thesis using colList_first [of pre cs] list_completes(3) [of pre cs "T_FROM # r"]
    by (auto simp: parse_selector_def peek_Cons list_follows)
qed (simp add: parse_selector_def parser_run)

section \<open>Statements\<close>

lemma parse_name_Inr: "parse_name us = Inr (n, r) \<longleftrightarrow> us = IDENTIFIER n # r"
  by (auto simp: parse_name_def parser_inversion token_values)

lemmas stmt_nts = nt_dbStmt.intros [THEN nt_stmt.intros(1)] nt_txnStmt.intros [THEN nt_stmt.intros(4)]
lemmas ddl_nts = nt_ddl.intros [OF nt_name.intros, THEN nt_stmt.intros(2)]
lemmas dml_nts = nt_dml.intros(1-3) [OF nt_name.intros, THEN nt_stmt.intros(3)] nt_dml.intros(4) [THEN nt_stmt.intros(3)]

lemma stmt_sound:
  assumes "parse_stmt t ts = Inr (s, r)"
  shows "\<exists>pre. t # ts = pre @ r \<and> nt_stmt pre s"
proof (cases t)
  case T_CREATE
  with assms consider n us fs where "ts = T_TABLE # IDENTIFIER n # T_Op CHR ''('' # us" "parse_list comma parse_field us = Inr (fs, T_Op CHR '')'' # r)" "s = CreateTable n fs"
    | n c where "ts = T_INDEX # IDENTIFIER n # T_Op CHR ''('' # IDENTIFIER c # T_Op CHR '')'' # r" "s = CreateIndex n c"
    by (auto simp: parser_inversion in_parens_Inr parse_name_Inr split: if_splits)
  then show ?thesis
  proof cases
    case 1
    with list_sounds(2) [OF 1(2)] T_CREATE show ?thesis using ddl_nts(1) [of _ fs n] by fastforce
  next
    case 2
    then show ?thesis using T_CREATE ddl_nts(4) [OF nt_name.intros, of n c] by (intro exI conjI) auto
  qed
next
  case T_DROP
  with assms consider n where "ts = T_TABLE # IDENTIFIER n # r" "s = DropTable n"
    | n c where "ts = T_INDEX # IDENTIFIER n # T_Op CHR ''('' # IDENTIFIER c # T_Op CHR '')'' # r" "s = DropIndex n c"
    by (auto simp: parser_inversion in_parens_Inr parse_name_Inr split: if_splits)
  then show ?thesis
  proof cases
    case 1
    then show ?thesis using T_DROP ddl_nts(2) [of n] by (intro exI conjI) auto
  next
    case 2
    then show ?thesis using T_DROP ddl_nts(5) [OF nt_name.intros, of n c] by (intro exI conjI) auto
  qed
next
  case T_DESC
  with assms obtain n where "ts = IDENTIFIER n # r" "s = DescTable n" by (auto simp: parser_inversion parse_name_Inr)
  then show ?thesis using T_DESC ddl_nts(3) [of n] by (intro exI conjI) auto
next
  case T_INSERT
  with assms obtain n us vs where i: "ts = T_INTO # IDENTIFIER n # T_VALUES # T_Op CHR ''('' # us" "parse_list comma parse_value us = Inr (vs, T_Op CHR '')'' # r)" "s = InsertStmt n vs"
    by (auto simp: parser_inversion in_parens_Inr parse_name_Inr)
  with list_sounds(1) [OF i(2)] T_INSERT show ?thesis using dml_nts(1) [of _ vs n] by fastforce
next
  case T_DELETE
  with assms obtain n us cs where i: "ts = T_FROM # IDENTIFIER n # us" "parse_optWhere us = Inr (cs, r)" "s = DeleteStmt n cs"
    by (auto simp: parser_inversion parse_name_Inr)
  with optWhere_sound [OF i(2)] T_DELETE show ?thesis using dml_nts(2) [of _ cs n] by fastforce
next
  case T_UPDATE
  with assms obtain n us ss vs cs where i: "ts = IDENTIFIER n # T_SET # us" "parse_list comma parse_setClause us = Inr (ss, vs)" "parse_optWhere vs = Inr (cs, r)" "s = UpdateStmt n ss cs"
    by (auto simp: parser_inversion parse_name_Inr)
  with list_sounds(5) [OF i(2)] optWhere_sound [OF i(3)] T_UPDATE show ?thesis using dml_nts(3) [of _ ss _ cs n] by fastforce
next
  case T_SELECT
  with assms obtain sel us tabs vs cs where i: "parse_selector ts = Inr (sel, T_FROM # us)" "parse_list (\<lambda>t. comma t \<or> t = T_JOIN) parse_name us = Inr (tabs, vs)"
    "parse_optWhere vs = Inr (cs, r)" "s = SelectStmt sel tabs cs" by (auto simp: parser_inversion)
  with selector_sound [OF i(1)] list_sounds(6) [OF i(2)] optWhere_sound [OF i(3)] T_SELECT show ?thesis using dml_nts(4) [of _ sel _ tabs _ cs] by fastforce
qed (use assms in \<open>auto simp: parser_inversion intro: stmt_nts\<close>)

lemma parse_name_Cons: "parse_name (IDENTIFIER n # r) = Inr (n, r)"
  by (simp add: parse_name_Inr)

lemma optWhere_follows:
  assumes "nt_optWhereClause vs cs"
  shows "setc.list_follow (vs @ T_Op CHR '';'' # r)" "name.list_follow (\<lambda>t. comma t \<or> t = T_JOIN) (vs @ T_Op CHR '';'' # r)"
  using optWhere_first [OF assms, of r] by (auto simp: list_follows)

lemma parens_complete:
  "nt_fieldList us fs \<Longrightarrow> in_parens (parse_list comma parse_field) (T_Op CHR ''('' # us @ T_Op CHR '')'' # r) = Inr (fs, r)"
  "nt_valueList us vs \<Longrightarrow> in_parens (parse_list comma parse_value) (T_Op CHR ''('' # us @ T_Op CHR '')'' # r) = Inr (vs, r)"
  "in_parens parse_name (T_Op CHR ''('' # IDENTIFIER c # T_Op CHR '')'' # r) = Inr (c, r)"
  using list_completes(2) [of us fs "T_Op CHR '')'' # r"] list_completes(1) [of us vs "T_Op CHR '')'' # r"]
  by (simp_all add: in_parens_Inr list_follows parse_name_Inr)

lemmas stmt_run = p_bind_ok p_is_Cons p_tok_Cons p_ret_def parse_name_Cons parens_complete optWhere_complete selector_complete

lemma stmt_complete:
  assumes "nt_stmt pre s"
  shows "\<exists>t ts. pre = t # ts \<and> t \<notin> {T_HELP, T_EXIT, T_EOF} \<and> (\<forall>r. parse_stmt t (ts @ T_Op CHR '';'' # r) = Inr (s, T_Op CHR '';'' # r))"
  using assms
proof cases
  case 1
  then show ?thesis by (auto simp: stmt_run elim!: nt_dbStmt.cases)
next
  case 4
  then show ?thesis by (auto simp: stmt_run elim!: nt_txnStmt.cases)
next
  case 2
  then show ?thesis by cases (auto simp: stmt_run nt_name.simps)
next
  case 3
  then show ?thesis
  proof cases
    case (3 ts n us ss vs cs)
    then show ?thesis using list_completes(5) [OF 3(4) optWhere_follows(1) [OF 3(5)]] by (auto simp: p_bind_ok p_is_Cons p_ret_def parse_name_Cons optWhere_complete nt_name.simps)
  next
    case (4 ts sel us tabs vs cs)
    then show ?thesis using list_completes(6) [OF 4(4) optWhere_follows(2) [OF 4(5)]] by (auto simp: p_bind_ok p_is_Cons p_ret_def optWhere_complete selector_complete)
  qed (auto simp: stmt_run nt_name.simps)
qed

lemma parse_start_iff:
  "parse_start ts = Inr (v, r) \<longleftrightarrow> (\<exists>pre. ts = pre @ r \<and> nt_start pre v)"
proof
  assume a: "parse_start ts = Inr (v, r)"
  then obtain t us where ts: "ts = t # us" by (cases ts) auto
  show "\<exists>pre. ts = pre @ r \<and> nt_start pre v"
  proof (cases "t \<in> {T_HELP, T_EXIT, T_EOF}")
    case True
    with a ts show ?thesis by (auto intro: exI [of _ "[t]"] nt_start.intros split: if_splits)
  next
    case False
    with a ts obtain s u where "parse_stmt t us = Inr (s, T_Op CHR '';'' # r)" "v = Some s" by (auto simp: parser_inversion)
    with stmt_sound [OF this(1)] ts nt_start.intros(1) show ?thesis by (metis append.assoc append_Cons append_Nil)
  qed
next
  assume "\<exists>pre. ts = pre @ r \<and> nt_start pre v"
  then obtain pre where p: "ts = pre @ r" "nt_start pre v" by blast
  from p(2) show "parse_start ts = Inr (v, r)"
  proof cases
    case (1 us s)
    from stmt_complete [OF 1(3)] 1 p(1) show ?thesis by (auto simp: p_bind_def p_is_Cons p_ret_def)
  qed (use p(1) in auto)
qed

section \<open>Properties\<close>

text \<open>
  C19. The grammar is unambiguous, and no statement is the beginning of another: a sequence of tokens has at most one
  beginning that the start symbol of \<open>yacc.y\<close> derives, with at most one value for \<open>parse_tree\<close>; and the parser with one token of lookahead
  finds exactly these, and leaves the tokens behind.
\<close>

theorem grammar_unambiguous:
  "(parse_start ts = Inr (v, r) \<longleftrightarrow> (\<exists>pre. ts = pre @ r \<and> nt_start pre v)) \<and>
   (\<exists>\<^sub>\<le>\<^sub>1 (v, pre). \<exists>r. ts = pre @ r \<and> nt_start pre v)"
proof
  show "parse_start ts = Inr (v, r) \<longleftrightarrow> (\<exists>pre. ts = pre @ r \<and> nt_start pre v)" by (rule parse_start_iff)
  have "(v1, p1) = (v2, p2)" if "ts = p1 @ r1" "nt_start p1 v1" "ts = p2 @ r2" "nt_start p2 v2" for v1 v2 p1 p2 r1 r2
  proof -
    have "parse_start ts = Inr (v1, r1)" "parse_start ts = Inr (v2, r2)" using that parse_start_iff by blast+
    then have "v1 = v2" "r1 = r2" by simp_all
    with that(1,3) show ?thesis by simp
  qed
  then show "\<exists>\<^sub>\<le>\<^sub>1 (v, pre). \<exists>r. ts = pre @ r \<and> nt_start pre v" unfolding Uniq_def by fast
qed

end
