(* ===== verification/Parser.thy ===== *)
theory Parser
  imports Grammar
begin

text \<open>
  \<open>yyparse\<close> on the text given to \<open>yy_scan_string\<close>: the scanner of \<open>Lexer\<close> and the grammar of \<open>Grammar\<close> together. The start condition of
  the scanner outlives the call.
\<close>

text \<open>The tokens that calls of \<open>yylex\<close> return, each with the start condition it leaves, up to the end of the input.\<close>

lemma yylex_shorter: "yylex sc inp = (t, sc', r) \<Longrightarrow> t \<noteq> T_EOF \<Longrightarrow> length r < length inp"
proof (induction sc inp rule: yylex.induct)
  case (1 sc inp)
  show ?case
  proof (cases "inp = []")
    case False
    obtain n act where b: "best_match (rules_of sc) inp = (n, act)" by (metis surj_pair)
    have len: "length (drop (max 1 n) inp) < length inp" using False by simp
    show ?thesis
    proof (cases act)
      case (LexBegin sc1)
      then have "yylex sc1 (drop (max 1 n) inp) = (t, sc', r)" using 1(3) False b by (simp add: yylex.simps [of sc inp])
      from 1(1) [OF False b [symmetric] refl refl LexBegin this 1(4)] len show ?thesis by simp
    next
      case LexSkip
      then have "yylex sc (drop (max 1 n) inp) = (t, sc', r)" using 1(3) False b by (simp add: yylex.simps [of sc inp])
      from 1(2) [OF False b [symmetric] refl refl LexSkip this 1(4)] len show ?thesis by simp
    next
      case (LexReturn f)
      then have "r = drop (max 1 n) inp" using 1(3) False b by (simp add: yylex.simps [of sc inp])
      with len show ?thesis by simp
    qed
  qed (use 1 in \<open>simp add: yylex.simps\<close>)
qed

function token_stream :: "start_condition \<Rightarrow> string \<Rightarrow> (token \<times> start_condition) list" where
  "token_stream sc inp = (case yylex sc inp of (t, sc', r) \<Rightarrow> (t, sc') # (if t = T_EOF then [] else token_stream sc' r))"
  by auto
termination by (relation "measure (\<lambda>(sc, inp). length inp)") (auto dest: yylex_shorter [OF sym])

declare token_stream.simps [simp del]

text \<open>The argument of \<open>yy_scan_string\<close> is a C string: the scanner sees what comes before the first NUL.\<close>

definition yy_scan_string :: "string \<Rightarrow> string" where
  "yy_scan_string str = takeWhile (\<lambda>c. c \<noteq> CHR 0x00) str"

text \<open>
  The result is \<open>None\<close> for a syntax error (\<open>yyparse\<close> returns 1 and leaves \<open>parse_tree\<close>), else the new \<open>parse_tree\<close>; and the start condition after
  the last token that was read.
\<close>

definition yyparse :: "start_condition \<Rightarrow> string \<Rightarrow> TreeNode option option \<times> start_condition" where
  "yyparse sc inp =
     (let st = token_stream sc (yy_scan_string inp);
          after = (\<lambda>r. snd (st ! (length st - length r - 1)))
      in case parse_start (map fst st) of
           Inl r \<Rightarrow> (None, after r)
         | Inr (tree, r) \<Rightarrow> (Some tree, after r))"

end
