(* ===== verification/Parser_Spec.thy ===== *)
theory Parser_Spec
  imports Parser Grammar_Spec
begin

text \<open>
  Statements written out as SQL are read back: the scanner finds the tokens again, and the grammar the tree. And what an open comment does.
\<close>

section \<open>Longest match\<close>

lemma best_match_step: "best_match (rules @ [(m, b)]) inp = (if fst (best_match rules inp) < m inp then (m inp, b) else best_match rules inp)"
  by (simp add: best_match_def case_prod_unfold)

lemma best_match_le: "\<forall>r \<in> set rules. fst r inp \<le> n \<Longrightarrow> fst (best_match rules inp) \<le> n"
proof (induction rules rule: rev_induct)
  case (snoc r rules)
  then show ?case by (cases r) (simp add: best_match_step)
qed (simp add: best_match_def)

text \<open>A rule wins that matches more than those before it and as much as those behind it.\<close>

lemma best_match_wins:
  assumes "m inp = n" "0 < n" "\<forall>r \<in> set pre. fst r inp < n" "\<forall>r \<in> set post. fst r inp \<le> n"
  shows "best_match (pre @ (m, a) # post) inp = (n, a)"
  using assms(4)
proof (induction post rule: rev_induct)
  case Nil
  have "fst (best_match pre inp) < n" using best_match_le [of pre inp "n - 1"] assms(2,3) by fastforce
  then show ?case using best_match_step [of pre m a inp] assms(1) by simp
next
  case (snoc r post)
  then show ?case using best_match_step [of "pre @ (m, a) # post" "fst r" "snd r" inp] by simp
qed

section \<open>Patterns on texts\<close>

definition id_char :: "char \<Rightarrow> bool" where
  "id_char c \<longleftrightarrow> c = CHR ''_'' \<or> alpha c \<or> is_digit c"

definition is_identifier :: "string \<Rightarrow> bool" where
  "is_identifier s \<longleftrightarrow> s \<noteq> [] \<and> alpha (hd s) \<and> list_all id_char s"

lemma keyword_shape: "(w, t) \<in> set keyword_tokens \<Longrightarrow> is_identifier w \<and> map upcase w = w \<and> 2 < length w"
  by (auto simp: keyword_tokens_def is_identifier_def id_char_def alpha_def chr_code_def upcase_def)

lemma upcase_alpha: "alpha (upcase c) \<longleftrightarrow> alpha c"
  by (auto simp: alpha_def upcase_def chr_code_def)

lemma span_len_stop: "list_all p s \<Longrightarrow> \<not> p c \<Longrightarrow> span_len p (s @ c # r) = length s"
  by (simp add: span_len_def takeWhile_append2 list_all_iff)

lemma space_plain: "\<not> id_char CHR '' ''" "\<not> alpha CHR '' ''" "\<not> is_digit CHR '' ''" "upcase CHR '' '' = CHR '' ''"
  by (simp_all add: id_char_def alpha_def is_digit_def chr_code_def upcase_def)

text \<open>Only a word matches where the input begins with a letter, apart from the rule for a single character.\<close>

lemma letter_first:
  assumes "alpha c"
  shows "match_line_comment (c # r) = 0" "match_white_space (c # r) = 0" "match_new_line (c # r) = 0" "match_single_op (c # r) = 0"
    "match_value_int (c # r) = 0" "match_value_float (c # r) = 0" "match_value_string (c # r) = 0"
    "match_word ''/*'' (c # r) = 0" "match_word ''>='' (c # r) = 0" "match_word ''<='' (c # r) = 0" "match_word ''<>'' (c # r) = 0"
proof -
  have c: "c \<noteq> CHR ''-''" "c \<noteq> CHR ''+''" "c \<noteq> CHR '' ''" "c \<noteq> CHR 0x09" "c \<noteq> CHR 0x0D" "c \<noteq> CHR 0x0A" "c \<noteq> CHR 0x27" "\<not> is_digit c" "c \<notin> set '';(),*=><.''"
    "upcase c \<noteq> CHR ''/''" "upcase c \<noteq> CHR ''>''" "upcase c \<noteq> CHR ''<''"
    using assms upcase_alpha [of c] by (auto simp: alpha_def chr_code_def is_digit_def)
  show "match_value_int (c # r) = 0" using c(1,2,8) by (simp add: match_value_int_def match_sign_def span_len_def)
  then show "match_value_float (c # r) = 0" by (simp add: match_value_float_def)
  show "match_line_comment (c # r) = 0" "match_white_space (c # r) = 0" "match_new_line (c # r) = 0" "match_single_op (c # r) = 0" "match_value_string (c # r) = 0"
    "match_word ''/*'' (c # r) = 0" "match_word ''>='' (c # r) = 0" "match_word ''<='' (c # r) = 0" "match_word ''<>'' (c # r) = 0"
    using c by (simp_all add: match_line_comment_def match_white_space_def span_len_def match_single_op_def match_value_string_def match_word_def)
qed

section \<open>Tokens and their texts\<close>

abbreviation "kw_rule \<equiv> \<lambda>(w, t). (match_word w, LexReturn (\<lambda>_. t))"

lemma keyword_match:
  assumes "is_identifier x" "(w, t) \<in> set keyword_tokens"
  shows "match_word w (x @ CHR '' '' # r) \<le> length x" "match_word w (x @ CHR '' '' # r) = length x \<longleftrightarrow> map upcase x = w"
proof -
  let ?inp = "x @ CHR '' '' # r"
  have w: "list_all id_char w" "w \<noteq> []" using keyword_shape [OF assms(2)] by (auto simp: is_identifier_def)
  have le: "length w \<le> length x" if m: "map upcase (take (length w) ?inp) = w"
  proof (rule ccontr)
    assume "\<not> length w \<le> length x"
    then have l: "length x < length w" by simp
    then have "map upcase (take (length w) ?inp) ! length x = CHR '' ''" by (simp add: nth_append space_plain)
    then have "w ! length x = CHR '' ''" by (simp only: m)
    with w(1) l space_plain(1) show False by (metis list_all_length)
  qed
  then show "match_word w ?inp \<le> length x" unfolding match_word_def by presburger
  show "match_word w ?inp = length x \<longleftrightarrow> map upcase x = w"
  proof
    assume "match_word w ?inp = length x"
    moreover have "x \<noteq> []" using assms(1) by (simp add: is_identifier_def)
    ultimately have "map upcase (take (length w) ?inp) = w" "length w = length x" by (auto simp: match_word_def split: if_splits)
    then show "map upcase x = w" by simp
  next
    assume w: "map upcase x = w"
    have "length w = length x" using arg_cong [OF w, of length] by simp
    then show "match_word w ?inp = length x" using w by (simp add: match_word_def)
  qed
qed

lemma distinct_keywords: "distinct (map fst keyword_tokens)"
  by (simp add: keyword_tokens_def)

lemma lex_word:
  assumes "is_identifier x"
  shows "best_match initial_rules (x @ CHR '' '' # r) =
    (length x, case map_of keyword_tokens (map upcase x) of Some t \<Rightarrow> LexReturn (\<lambda>_. t) | None \<Rightarrow> LexReturn IDENTIFIER)"
proof -
  let ?inp = "x @ CHR '' '' # r" and ?n = "length x"
  obtain c y where x: "x = c # y" "alpha c" "list_all id_char y" using assms by (cases x) (auto simp: is_identifier_def)
  have n: "0 < ?n" by (simp add: x(1))
  note lf = letter_first [OF x(2), of "y @ CHR '' '' # r"]
  have idn: "match_identifier ?inp = ?n" using x span_len_stop [OF x(3) space_plain(1), of r] by (simp add: id_char_def [abs_def])
  have dot: "match_dot ?inp \<le> ?n" using n by (simp add: match_dot_def Suc_le_eq)
  let ?pre = "[(match_word ''/*'', LexBegin STATE_COMMENT), (match_line_comment, LexSkip), (match_white_space, LexSkip), (match_new_line, LexSkip)]"
  let ?mid = "[(match_word ''>='', LexReturn (\<lambda>_. T_GEQ)), (match_word ''<='', LexReturn (\<lambda>_. T_LEQ)), (match_word ''<>'', LexReturn (\<lambda>_. T_NEQ)), (match_single_op, LexReturn (\<lambda>t. T_Op (hd t)))]"
  let ?post = "[(match_value_int, LexReturn (\<lambda>t. VALUE_INT (atoi t))), (match_value_float, LexReturn (\<lambda>t. VALUE_FLOAT (atof_float t))),
     (match_value_string, LexReturn (\<lambda>t. VALUE_STRING (take (length t - 2) (drop 1 t)))), (match_dot, LexSkip)]"
  have rules: "initial_rules = ?pre @ map kw_rule keyword_tokens @ ?mid @ (match_identifier, LexReturn IDENTIFIER) # ?post"
    by (simp add: initial_rules_def)
  have zero: "\<forall>p \<in> set ?pre. fst p ?inp < ?n" "\<forall>p \<in> set ?mid. fst p ?inp < ?n" "\<forall>p \<in> set ?post. fst p ?inp \<le> ?n"
    using lf n dot by (simp_all add: x(1))
  have kw: "fst p ?inp \<le> ?n \<and> (fst p ?inp = ?n \<longrightarrow> map upcase x \<in> fst ` set ks)" if "p \<in> set (map kw_rule ks)" "set ks \<subseteq> set keyword_tokens" for p ks
  proof -
    from that(1) obtain w t where p: "(w, t) \<in> set ks" "fst p = match_word w" by auto
    with that(2) have "(w, t) \<in> set keyword_tokens" by blast
    from keyword_match [OF assms this, of r] p show ?thesis by (auto intro: rev_image_eqI)
  qed
  show ?thesis
  proof (cases "map_of keyword_tokens (map upcase x)")
    case None
    then have "map upcase x \<notin> fst ` set keyword_tokens" by (simp add: map_of_eq_None_iff)
    then have "\<forall>p \<in> set (map kw_rule keyword_tokens). fst p ?inp < ?n" using kw [of _ keyword_tokens] by (metis order_less_le subset_refl)
    then have "\<forall>p \<in> set (?pre @ map kw_rule keyword_tokens @ ?mid). fst p ?inp < ?n" using zero(1,2) by (simp only: set_append ball_Un)
    from best_match_wins [where m = match_identifier and inp = ?inp and n = ?n, OF idn n this zero(3), of "LexReturn IDENTIFIER"]
    show ?thesis using None unfolding rules by (simp only: append.assoc option.case)
  next
    case (Some t)
    then have mem: "(map upcase x, t) \<in> set keyword_tokens" by (rule map_of_SomeD)
    then obtain k1 k2 where k: "keyword_tokens = k1 @ (map upcase x, t) # k2" by (metis split_list)
    have m: "match_word (map upcase x) ?inp = ?n" using keyword_match(2) [OF assms mem, of r] by simp
    have sub: "set k1 \<subseteq> set keyword_tokens" "set k2 \<subseteq> set keyword_tokens" unfolding k by auto
    have "map upcase x \<notin> fst ` set k1" using distinct_keywords unfolding k by (auto simp: rev_image_eqI)
    then have "\<forall>p \<in> set (map kw_rule k1). fst p ?inp < ?n" using kw [of _ k1, OF _ sub(1)] by (metis order_less_le)
    then have b: "\<forall>p \<in> set (?pre @ map kw_rule k1). fst p ?inp < ?n" using zero(1) by (simp only: set_append ball_Un)
    have "\<forall>p \<in> set (map kw_rule k2). fst p ?inp \<le> ?n" using kw [of _ k2, OF _ sub(2)] by blast
    moreover have "\<forall>p \<in> set ?mid. fst p ?inp \<le> ?n" using zero(2) by (meson less_imp_le)
    moreover have "\<forall>p \<in> set ((match_identifier, LexReturn IDENTIFIER) # ?post). fst p ?inp \<le> ?n" using zero(3) idn by simp
    ultimately have a: "\<forall>p \<in> set (map kw_rule k2 @ ?mid @ (match_identifier, LexReturn IDENTIFIER) # ?post). fst p ?inp \<le> ?n"
      by (simp only: set_append ball_Un)
    from best_match_wins [where m = "match_word (map upcase x)" and inp = ?inp and n = ?n, OF m n b a, of "LexReturn (\<lambda>_. t)"]
    show ?thesis using Some unfolding rules k by (simp only: append.assoc map_append list.map append_Cons prod.case option.case)
  qed
qed

text \<open>Where the input does not begin with a letter, only the other rules count.\<close>

lemma best_match_skip:
  assumes "\<forall>p \<in> set b. fst p inp = 0"
  shows "best_match (a @ b @ c) inp = best_match (a @ c) inp"
proof -
  have "foldl (\<lambda>(n, a) (m, b). if n < m inp then (m inp, b) else (n, a)) x b = x" for x :: "nat \<times> lex_action"
    using assms by (induction b) (auto simp: case_prod_unfold)
  then show ?thesis by (simp add: best_match_def)
qed

definition other_rules :: "((string \<Rightarrow> nat) \<times> lex_action) list" where
  "other_rules =
    [(match_word ''/*'', LexBegin STATE_COMMENT), (match_line_comment, LexSkip), (match_white_space, LexSkip), (match_new_line, LexSkip),
     (match_word ''>='', LexReturn (\<lambda>_. T_GEQ)), (match_word ''<='', LexReturn (\<lambda>_. T_LEQ)), (match_word ''<>'', LexReturn (\<lambda>_. T_NEQ)),
     (match_single_op, LexReturn (\<lambda>t. T_Op (hd t))), (match_value_int, LexReturn (\<lambda>t. VALUE_INT (atoi t))),
     (match_value_float, LexReturn (\<lambda>t. VALUE_FLOAT (atof_float t))),
     (match_value_string, LexReturn (\<lambda>t. VALUE_STRING (take (length t - 2) (drop 1 t)))), (match_dot, LexSkip)]"

lemma nonletter_rules:
  assumes "\<not> alpha c"
  shows "best_match initial_rules (c # r) = best_match other_rules (c # r)"
proof -
  have "match_word w (c # r) = 0" if kw: "(w, t) \<in> set keyword_tokens" for w t
  proof -
    obtain d v where "w = d # v" "alpha d" using keyword_shape [OF kw] by (cases w) (auto simp: is_identifier_def)
    then show ?thesis using assms upcase_alpha [of c] by (auto simp: match_word_def)
  qed
  then have z: "\<forall>p \<in> set (map kw_rule keyword_tokens). fst p (c # r) = 0" "\<forall>p \<in> set [(match_identifier, LexReturn IDENTIFIER)]. fst p (c # r) = 0"
    using assms by auto
  let ?a = "take 4 other_rules" and ?b = "take 4 (drop 4 other_rules)" and ?c = "drop 8 other_rules"
  have e: "initial_rules = ?a @ map kw_rule keyword_tokens @ (?b @ [(match_identifier, LexReturn IDENTIFIER)] @ ?c)"
    by (simp add: initial_rules_def other_rules_def)
  have "best_match initial_rules (c # r) = best_match (?a @ ?b @ [(match_identifier, LexReturn IDENTIFIER)] @ ?c) (c # r)"
    unfolding e by (rule best_match_skip [OF z(1)])
  also have "\<dots> = best_match (?a @ ?b @ ?c) (c # r)" using best_match_skip [OF z(2), of "?a @ ?b" ?c] by (simp only: append.assoc)
  also have "?a @ ?b @ ?c = other_rules" by (simp add: other_rules_def)
  finally show ?thesis .
qed

lemmas match_defs = match_word_def match_line_comment_def match_white_space_def match_single_op_def match_value_int_def match_value_float_def
  match_value_string_def match_dot_def match_sign_def span_len_def upcase_def chr_code_def

lemma lex_int:
  "best_match initial_rules (to_string i @ CHR '' '' # r) = (length (to_string i), LexReturn (\<lambda>t. VALUE_INT (atoi t)))"
proof -
  let ?n = "nat_to_string (nat \<bar>i\<bar>)"
  have ds: "list_all is_digit ?n" using digits_nat_to_string by blast
  obtain d e where n: "?n = d # e" "is_digit d" using ds by (cases ?n) auto
  have tw: "takeWhile is_digit (?n @ CHR '' '' # r) = ?n" using ds space_plain(3) by (simp add: takeWhile_append2 list_all_iff)
  have d: "\<not> alpha d" "d \<noteq> CHR ''-''" "d \<noteq> CHR ''+''" "d \<noteq> CHR '' ''" "d \<noteq> CHR 0x09" "d \<noteq> CHR 0x0D" "d \<noteq> CHR 0x0A" "d \<noteq> CHR 0x27" "d \<noteq> CHR ''/''"
    "d \<notin> set '';(),*=><.''" "upcase d = d"
    using n(2) by (auto simp: is_digit_def alpha_def upcase_def chr_code_def)
  show ?thesis
  proof (cases "i < 0")
    case True
    then have ts: "to_string i = CHR ''-'' # ?n" by (simp add: to_string_def)
    have na: "\<not> alpha CHR ''-''" by (simp add: alpha_def chr_code_def)
    show ?thesis unfolding ts append_Cons nonletter_rules [OF na]
      using tw n d by (simp add: other_rules_def best_match_def match_defs)
  next
    case False
    then have ts: "to_string i = ?n" by (simp add: to_string_def)
    have "best_match initial_rules (?n @ CHR '' '' # r) = best_match other_rules (?n @ CHR '' '' # r)" using nonletter_rules [OF d(1)] by (simp add: n(1))
    then show ?thesis unfolding ts using tw n d by (simp add: other_rules_def best_match_def match_defs)
  qed
qed

text \<open>An integer literal outside 32 bits is not refused: its value is cut to 64 bits and wraps around.\<close>

lemma int_literal_wraps: "atoi (to_string i) = wrap32 (max (- (2 ^ 63)) (min (2 ^ 63 - 1) i))"
proof -
  let ?n = "nat_to_string (nat \<bar>i\<bar>)"
  have ds: "list_all is_digit ?n" "digits_value ?n = nat \<bar>i\<bar>" using digits_nat_to_string by blast+
  obtain d e where n: "?n = d # e" "is_digit d" using ds(1) by (cases ?n) auto
  have d: "d \<noteq> CHR ''-''" "d \<noteq> CHR ''+''" using n(2) by (auto simp: is_digit_def)
  have tw: "takeWhile is_digit (nat_to_string k) = nat_to_string k" for k using digits_nat_to_string [of k] by (simp add: takeWhile_eq_all_conv list_all_iff)
  show ?thesis
  proof (cases "i < 0")
    case True
    then have "to_string i = CHR ''-'' # ?n" by (simp add: to_string_def)
    with True ds(2) show ?thesis by (simp add: atoi_def strtol_def match_sign_def tw)
  next
    case False
    then have ts: "to_string i = ?n" by (simp add: to_string_def)
    have "match_sign ?n = 0" "take 1 ?n \<noteq> ''-''" using n(1) d by (simp_all add: match_sign_def)
    with False ds(2) ts show ?thesis by (simp add: atoi_def strtol_def tw)
  qed
qed

lemma atoi_to_string: "in32 i \<Longrightarrow> atoi (to_string i) = i"
  by (simp add: int_literal_wraps in32_def max_def min_def)

definition quoted :: "string \<Rightarrow> string" where
  "quoted s = CHR 0x27 # s @ [CHR 0x27]"

lemma lex_string:
  assumes "CHR 0x27 \<notin> set s"
  shows "best_match initial_rules (quoted s @ CHR '' '' # r) = (length (quoted s), LexReturn (\<lambda>t. VALUE_STRING (take (length t - 2) (drop 1 t))))"
proof -
  have na: "\<not> alpha CHR 0x27" by (simp add: alpha_def chr_code_def)
  have "takeWhile (\<lambda>c. c \<noteq> CHR 0x27) (s @ CHR 0x27 # CHR '' '' # r) = s" using assms by (subst takeWhile_append2) auto
  then show ?thesis unfolding quoted_def append_Cons nonletter_rules [OF na] by (simp add: other_rules_def best_match_def match_defs is_digit_def)
qed

lemma lex_op:
  assumes "c \<in> set '';(),*=><.''"
  shows "best_match initial_rules (c # CHR '' '' # r) = (1, LexReturn (\<lambda>t. T_Op (hd t)))"
proof -
  have na: "\<not> alpha c" using assms by (auto simp: alpha_def chr_code_def)
  show ?thesis unfolding nonletter_rules [OF na] using assms by (auto simp: other_rules_def best_match_def match_defs is_digit_def)
qed

lemma lex_op2:
  "best_match initial_rules (CHR ''>'' # CHR ''='' # CHR '' '' # r) = (2, LexReturn (\<lambda>_. T_GEQ))"
  "best_match initial_rules (CHR ''<'' # CHR ''='' # CHR '' '' # r) = (2, LexReturn (\<lambda>_. T_LEQ))"
  "best_match initial_rules (CHR ''<'' # CHR ''>'' # CHR '' '' # r) = (2, LexReturn (\<lambda>_. T_NEQ))"
proof -
  have na: "\<not> alpha CHR ''>''" "\<not> alpha CHR ''<''" by (simp_all add: alpha_def chr_code_def)
  show "best_match initial_rules (CHR ''>'' # CHR ''='' # CHR '' '' # r) = (2, LexReturn (\<lambda>_. T_GEQ))"
    "best_match initial_rules (CHR ''<'' # CHR ''='' # CHR '' '' # r) = (2, LexReturn (\<lambda>_. T_LEQ))"
    "best_match initial_rules (CHR ''<'' # CHR ''>'' # CHR '' '' # r) = (2, LexReturn (\<lambda>_. T_NEQ))"
    unfolding nonletter_rules [OF na(1)] nonletter_rules [OF na(2)] by (simp_all add: other_rules_def best_match_def match_defs is_digit_def)
qed

text \<open>Text of a token; literals of type \<open>float\<close> are left out, because many texts denote the same number.\<close>

fun tok_text :: "token \<Rightarrow> string" where
  "tok_text (IDENTIFIER s) = s"
| "tok_text (VALUE_INT i) = to_string i"
| "tok_text (VALUE_STRING s) = quoted s"
| "tok_text (T_Op c) = [c]"
| "tok_text T_GEQ = ''>=''"
| "tok_text T_LEQ = ''<=''"
| "tok_text T_NEQ = ''<>''"
| "tok_text t = (case map_of (map prod.swap keyword_tokens) t of Some w \<Rightarrow> w | None \<Rightarrow> [])"

fun printable :: "token \<Rightarrow> bool" where
  "printable (IDENTIFIER s) \<longleftrightarrow> is_identifier s \<and> map upcase s \<notin> fst ` set keyword_tokens"
| "printable (VALUE_INT i) \<longleftrightarrow> in32 i"
| "printable (VALUE_STRING s) \<longleftrightarrow> CHR 0x27 \<notin> set s \<and> CHR 0x00 \<notin> set s"
| "printable (T_Op c) \<longleftrightarrow> c \<in> set '';(),*=><.''"
| "printable (VALUE_FLOAT x) \<longleftrightarrow> False"
| "printable T_EOF \<longleftrightarrow> False"
| "printable t \<longleftrightarrow> True"

lemma yylex_return:
  "best_match (rules_of sc) inp = (n, LexReturn f) \<Longrightarrow> 0 < n \<Longrightarrow> inp \<noteq> [] \<Longrightarrow> yylex sc inp = (f (take n inp), sc, drop n inp)"
  by (simp add: yylex.simps [of sc inp] max_def)

lemma keyword_text:
  assumes "(w, t) \<in> set keyword_tokens"
  shows "tok_text t = w" "yylex INITIAL (w @ CHR '' '' # r) = (t, INITIAL, CHR '' '' # r)"
proof -
  have "map_of keyword_tokens (map upcase w) = Some t" using keyword_shape [OF assms] assms distinct_keywords by simp
  then have "best_match (rules_of INITIAL) (w @ CHR '' '' # r) = (length w, LexReturn (\<lambda>_. t))" using lex_word [of w r] keyword_shape [OF assms] by simp
  moreover have "w \<noteq> []" using keyword_shape [OF assms] by auto
  ultimately show "yylex INITIAL (w @ CHR '' '' # r) = (t, INITIAL, CHR '' '' # r)" using yylex_return [of INITIAL "w @ CHR '' '' # r" "length w" "\<lambda>_. t"] by simp
  show "tok_text t = w" using assms by (auto simp: keyword_tokens_def)
qed

lemma yylex_text:
  assumes "printable t"
  shows "yylex INITIAL (tok_text t @ CHR '' '' # r) = (t, INITIAL, CHR '' '' # r)"
proof (cases "t \<in> snd ` set keyword_tokens")
  case True
  then show ?thesis using keyword_text by auto
next
  case False
  show ?thesis
  proof (cases t)
    case (IDENTIFIER s)
    with assms have s: "is_identifier s" "map_of keyword_tokens (map upcase s) = None" by (simp_all add: map_of_eq_None_iff)
    then have "s \<noteq> []" by (simp add: is_identifier_def)
    with yylex_return [of INITIAL "s @ CHR '' '' # r" "length s" IDENTIFIER] lex_word [OF s(1), of r] s(2) show ?thesis by (simp add: IDENTIFIER)
  next
    case (VALUE_INT i)
    then show ?thesis using yylex_return [of INITIAL "to_string i @ CHR '' '' # r", OF lex_int [of i r, folded rules_of.simps]] atoi_to_string [of i] assms
      by (auto simp: to_string_def)
  next
    case (VALUE_STRING s)
    then show ?thesis using yylex_return [of INITIAL "quoted s @ CHR '' '' # r", OF lex_string [of s r, folded rules_of.simps]] assms by (simp add: quoted_def)
  next
    case (T_Op c)
    then show ?thesis using yylex_return [of INITIAL "c # CHR '' '' # r", OF lex_op [of c r, folded rules_of.simps]] assms by simp
  qed (use assms False yylex_return [of INITIAL, OF lex_op2(1) [of r, folded rules_of.simps]] yylex_return [of INITIAL, OF lex_op2(2) [of r, folded rules_of.simps]]
      yylex_return [of INITIAL, OF lex_op2(3) [of r, folded rules_of.simps]] in \<open>simp_all add: keyword_tokens_def\<close>)
qed

section \<open>Texts of token lists\<close>

definition tokens_text :: "token list \<Rightarrow> string" where
  "tokens_text ts = concat (map (\<lambda>t. tok_text t @ '' '') ts)"

lemma digit_not_blank: "is_digit c \<Longrightarrow> c \<noteq> CHR '' '' \<and> c \<noteq> CHR 0x09"
  by (auto simp: is_digit_def)

lemma printable_first: "printable t \<Longrightarrow> \<exists>c r. tok_text t = c # r \<and> c \<notin> {CHR '' '', CHR 0x09}"
proof (cases "t \<in> snd ` set keyword_tokens")
  case True
  then obtain w where "(w, t) \<in> set keyword_tokens" by auto
  then show ?thesis using keyword_text(1) [of w t] keyword_shape [of w t]
    by (cases w) (auto simp: is_identifier_def alpha_def chr_code_def)
next
  case False
  assume p: "printable t"
  show ?thesis
  proof (cases t)
    case (IDENTIFIER s)
    then show ?thesis using p by (cases s) (auto simp: is_identifier_def alpha_def chr_code_def)
  next
    case (VALUE_INT i)
    have "nat_to_string k = c # r \<Longrightarrow> c \<notin> {CHR '' '', CHR 0x09}" for c r k using digits_nat_to_string [of k] digit_not_blank [of c] by auto
    then show ?thesis by (cases "nat_to_string (nat i)") (auto simp: VALUE_INT to_string_def)
  next
    case (T_Op c)
    then show ?thesis using p by auto
  qed (use p False in \<open>simp_all add: keyword_tokens_def quoted_def\<close>)
qed

lemma yylex_blank: "yylex INITIAL '' '' = (T_EOF, INITIAL, [])" "c \<notin> {CHR '' '', CHR 0x09} \<Longrightarrow> yylex INITIAL (CHR '' '' # c # r) = yylex INITIAL (c # r)"
proof -
  note b = nonletter_rules [OF space_plain(2)]
  have "best_match initial_rules '' '' = (1, LexSkip)" unfolding b by (simp add: other_rules_def best_match_def match_defs is_digit_def)
  then show "yylex INITIAL '' '' = (T_EOF, INITIAL, [])" by (simp add: yylex.simps [of INITIAL])
  assume "c \<notin> {CHR '' '', CHR 0x09}"
  then have "best_match initial_rules (CHR '' '' # c # r) = (1, LexSkip)" unfolding b by (simp add: other_rules_def best_match_def match_defs is_digit_def)
  then show "yylex INITIAL (CHR '' '' # c # r) = yylex INITIAL (c # r)" by (simp add: yylex.simps [of INITIAL "CHR '' '' # c # r"])
qed

lemma token_stream_text:
  "list_all printable ts \<Longrightarrow> token_stream INITIAL (CHR '' '' # tokens_text ts) = map (\<lambda>t. (t, INITIAL)) ts @ [(T_EOF, INITIAL)]"
proof (induction ts)
  case Nil
  then show ?case by (simp add: tokens_text_def token_stream.simps yylex_blank(1))
next
  case (Cons t ts)
  then obtain c u where c: "tok_text t = c # u" "c \<notin> {CHR '' '', CHR 0x09}" using printable_first by fastforce
  have "tokens_text (t # ts) = tok_text t @ CHR '' '' # tokens_text ts" by (simp add: tokens_text_def)
  with yylex_blank(2) [OF c(2), of "u @ CHR '' '' # tokens_text ts"] yylex_text [of t "tokens_text ts"] Cons.prems
  have "yylex INITIAL (CHR '' '' # tokens_text (t # ts)) = (t, INITIAL, CHR '' '' # tokens_text ts)" by (simp add: c(1))
  moreover have "t \<noteq> T_EOF" using Cons.prems by auto
  ultimately show ?case using Cons by (simp add: token_stream.simps [of INITIAL "CHR '' '' # tokens_text (t # ts)"])
qed

lemma token_stream_first: "ts \<noteq> [] \<Longrightarrow> list_all printable ts \<Longrightarrow> token_stream INITIAL (tokens_text ts) = token_stream INITIAL (CHR '' '' # tokens_text ts)"
proof -
  assume "ts \<noteq> []" "list_all printable ts"
  then obtain t us where ts: "ts = t # us" "printable t" by (cases ts) auto
  from printable_first [OF ts(2)] obtain c u where c: "tok_text t = c # u" "c \<notin> {CHR '' '', CHR 0x09}" by blast
  have "tokens_text ts = c # u @ CHR '' '' # tokens_text us" by (simp add: tokens_text_def ts(1) c(1))
  with yylex_blank(2) [OF c(2)] show ?thesis by (simp add: token_stream.simps [of INITIAL])
qed

lemma NUL_id_char: "\<not> id_char CHR 0x00" "\<not> is_digit CHR 0x00"
  by (simp_all add: id_char_def alpha_def is_digit_def chr_code_def)

lemma NUL_not_in_tok: "printable t \<Longrightarrow> CHR 0x00 \<notin> set (tok_text t)"
proof (cases "t \<in> snd ` set keyword_tokens")
  case True
  then obtain w where "(w, t) \<in> set keyword_tokens" by auto
  then show ?thesis using keyword_text(1) [of w t] keyword_shape [of w t] NUL_id_char(1)
    by (auto simp: is_identifier_def list_all_iff)
next
  case False
  assume p: "printable t"
  show ?thesis
  proof (cases t)
    case (IDENTIFIER s)
    then show ?thesis using p NUL_id_char(1) by (auto simp: is_identifier_def list_all_iff)
  next
    case (VALUE_INT i)
    have "CHR 0x00 \<notin> set (nat_to_string k)" for k using digits_nat_to_string [of k] NUL_id_char(2) by (auto simp: list_all_iff)
    then show ?thesis by (simp add: VALUE_INT to_string_def)
  next
    case (T_Op c)
    then show ?thesis using p by auto
  qed (use p False in \<open>simp_all add: keyword_tokens_def quoted_def\<close>)
qed

lemma scan_tokens_text: "list_all printable ts \<Longrightarrow> yy_scan_string (tokens_text ts) = tokens_text ts"
  unfolding yy_scan_string_def takeWhile_eq_all_conv by (auto simp: tokens_text_def list_all_iff dest: NUL_not_in_tok)

text \<open>A statement with a derivation, written out, is read back, whatever follows its end.\<close>

lemma yyparse_text:
  assumes "nt_start ts v" "list_all printable ts" "list_all printable us" "ts \<noteq> []"
  shows "yyparse INITIAL (tokens_text (ts @ us)) = (Some v, INITIAL)"
proof -
  have st: "token_stream INITIAL (tokens_text (ts @ us)) = map (\<lambda>t. (t, INITIAL)) (ts @ us @ [T_EOF])"
    using token_stream_first [of "ts @ us"] token_stream_text [of "ts @ us"] assms(2-4) by simp
  have "map fst (map (\<lambda>t. (t, INITIAL)) (ts @ us @ [T_EOF])) = ts @ us @ [T_EOF]" by (simp add: comp_def)
  moreover have "parse_start (ts @ us @ [T_EOF]) = Inr (v, us @ [T_EOF])" using parse_start_iff assms(1) by blast
  moreover have "snd (map (\<lambda>t. (t, INITIAL)) (ts @ us @ [T_EOF]) ! (length ts - 1)) = INITIAL" by (subst nth_map) (use assms(4) in simp_all)
  moreover have "yy_scan_string (tokens_text (ts @ us)) = tokens_text (ts @ us)" using assms(2,3) by (intro scan_tokens_text) simp
  ultimately show ?thesis by (simp add: yyparse_def st del: map_append)
qed

section \<open>Texts of statements\<close>

fun sep_toks :: "token \<Rightarrow> token list list \<Rightarrow> token list" where
  "sep_toks s [] = []"
| "sep_toks s [x] = x"
| "sep_toks s (x # y # r) = x @ s # sep_toks s (y # r)"

definition commas :: "('a \<Rightarrow> token list) \<Rightarrow> 'a list \<Rightarrow> token list" where
  "commas f xs = sep_toks (T_Op CHR '','') (map f xs)"

fun value_toks :: "sv_Value \<Rightarrow> token list" where
  "value_toks (IntLit i) = [VALUE_INT i]"
| "value_toks (FloatLit x) = [VALUE_FLOAT x]"
| "value_toks (StringLit s) = [VALUE_STRING s]"
| "value_toks Value_base = []"

fun col_toks :: "Col \<Rightarrow> token list" where
  "col_toks (Col t c) = (if t = [] then [IDENTIFIER c] else [IDENTIFIER t, T_Op CHR ''.'', IDENTIFIER c])"

fun op_toks :: "SvCompOp \<Rightarrow> token list" where
  "op_toks SV_OP_EQ = [T_Op CHR ''='']"
| "op_toks SV_OP_NE = [T_NEQ]"
| "op_toks SV_OP_LT = [T_Op CHR ''<'']"
| "op_toks SV_OP_GT = [T_Op CHR ''>'']"
| "op_toks SV_OP_LE = [T_LEQ]"
| "op_toks SV_OP_GE = [T_GEQ]"

fun expr_toks :: "Expr \<Rightarrow> token list" where
  "expr_toks (ValueExpr v) = value_toks v"
| "expr_toks (ColExpr c) = col_toks c"
| "expr_toks Expr_base = []"

fun cond_toks :: "BinaryExpr \<Rightarrow> token list" where
  "cond_toks (BinaryExpr c r e) = col_toks c @ op_toks r @ expr_toks e"

fun field_toks :: "Field \<Rightarrow> token list" where
  "field_toks (ColDefField n (TypeLen SV_TYPE_INT l)) = [IDENTIFIER n, T_INT]"
| "field_toks (ColDefField n (TypeLen SV_TYPE_FLOAT l)) = [IDENTIFIER n, T_FLOAT]"
| "field_toks (ColDefField n (TypeLen SV_TYPE_STRING l)) = [IDENTIFIER n, T_CHAR, T_Op CHR ''('', VALUE_INT l, T_Op CHR '')'']"
| "field_toks Field_base = []"

fun set_toks :: "sv_SetClause \<Rightarrow> token list" where
  "set_toks (SetClause c v) = IDENTIFIER c # T_Op CHR ''='' # value_toks v"

definition where_toks :: "BinaryExpr list \<Rightarrow> token list" where
  "where_toks cs = (if cs = [] then [] else T_WHERE # sep_toks T_AND (map cond_toks cs))"

text \<open>Statements; the other nodes are parts of trees.\<close>

fun sql_toks :: "TreeNode \<Rightarrow> token list" where
  "sql_toks ShowTables = [T_SHOW, T_TABLES]"
| "sql_toks TxnBegin = [TXN_BEGIN]"
| "sql_toks TxnCommit = [TXN_COMMIT]"
| "sql_toks TxnAbort = [TXN_ABORT]"
| "sql_toks TxnRollback = [TXN_ROLLBACK]"
| "sql_toks (CreateTable n fs) = [T_CREATE, T_TABLE, IDENTIFIER n, T_Op CHR ''(''] @ commas field_toks fs @ [T_Op CHR '')'']"
| "sql_toks (DropTable n) = [T_DROP, T_TABLE, IDENTIFIER n]"
| "sql_toks (DescTable n) = [T_DESC, IDENTIFIER n]"
| "sql_toks (CreateIndex n c) = [T_CREATE, T_INDEX, IDENTIFIER n, T_Op CHR ''('', IDENTIFIER c, T_Op CHR '')'']"
| "sql_toks (DropIndex n c) = [T_DROP, T_INDEX, IDENTIFIER n, T_Op CHR ''('', IDENTIFIER c, T_Op CHR '')'']"
| "sql_toks (InsertStmt n vs) = [T_INSERT, T_INTO, IDENTIFIER n, T_VALUES, T_Op CHR ''(''] @ commas value_toks vs @ [T_Op CHR '')'']"
| "sql_toks (DeleteStmt n cs) = [T_DELETE, T_FROM, IDENTIFIER n] @ where_toks cs"
| "sql_toks (UpdateStmt n ss cs) = [T_UPDATE, IDENTIFIER n, T_SET] @ commas set_toks ss @ where_toks cs"
| "sql_toks (SelectStmt sel tabs cs) =
     [T_SELECT] @ (if sel = [] then [T_Op CHR ''*''] else commas col_toks sel) @ [T_FROM] @ commas (\<lambda>t. [IDENTIFIER t]) tabs @ where_toks cs"
| "sql_toks t = []"

text \<open>A tree that can be written: every list that needs an element has one, and the types have their lengths.\<close>

fun value_ok :: "sv_Value \<Rightarrow> bool" where
  "value_ok Value_base = False"
| "value_ok v = True"

fun field_ok :: "Field \<Rightarrow> bool" where
  "field_ok (ColDefField n (TypeLen t l)) \<longleftrightarrow> t = SV_TYPE_STRING \<or> l = 4"
| "field_ok Field_base = False"

fun cond_ok :: "BinaryExpr \<Rightarrow> bool" where
  "cond_ok (BinaryExpr c r (ValueExpr v)) = value_ok v"
| "cond_ok (BinaryExpr c r (ColExpr d)) = True"
| "cond_ok (BinaryExpr c r Expr_base) = False"

fun set_ok :: "sv_SetClause \<Rightarrow> bool" where
  "set_ok (SetClause c v) = value_ok v"

fun sql_shape :: "TreeNode \<Rightarrow> bool" where
  "sql_shape (CreateTable n fs) \<longleftrightarrow> fs \<noteq> [] \<and> list_all field_ok fs"
| "sql_shape (InsertStmt n vs) \<longleftrightarrow> vs \<noteq> [] \<and> list_all value_ok vs"
| "sql_shape (DeleteStmt n cs) \<longleftrightarrow> list_all cond_ok cs"
| "sql_shape (UpdateStmt n ss cs) \<longleftrightarrow> ss \<noteq> [] \<and> list_all set_ok ss \<and> list_all cond_ok cs"
| "sql_shape (SelectStmt sel tabs cs) \<longleftrightarrow> tabs \<noteq> [] \<and> list_all cond_ok cs"
| "sql_shape t \<longleftrightarrow> sql_toks t \<noteq> []"

lemma sep_list:
  assumes "\<And>x. ok x \<Longrightarrow> item (f x) x" "sep s" "list_all ok xs" "xs \<noteq> []"
  shows "left_list sep item (sep_toks s (map f xs)) xs"
proof -
  have tl: "tail_list sep item (if ys = [] then [] else s # sep_toks s (map f ys)) ys" if "list_all ok ys" for ys
    using that
  proof (induction ys)
    case (Cons y ys)
    then have "tail_list sep item (s # f y @ (if ys = [] then [] else s # sep_toks s (map f ys))) (y # ys)"
      using assms(1,2) by (intro tail_list.step) simp_all
    then show ?case by (cases ys) simp_all
  qed (simp add: tail_list.none)
  obtain y ys where y: "xs = y # ys" "ok y" "list_all ok ys" using assms(3,4) by (cases xs) auto
  have "left_list sep item (f y) [y]" by (rule left_list.single) (rule assms(1) [OF y(2)])
  from left_append [OF tl [OF y(3)] this] show ?thesis by (cases ys) (simp_all add: y(1))
qed

lemma value_derivation: "value_ok v \<Longrightarrow> nt_value (value_toks v) v"
  by (cases v) (auto intro: nt_value.intros)

lemma col_derivation: "nt_col (col_toks c) c"
  using nt_col.intros(1) [OF nt_name.intros nt_name.intros] nt_col.intros(2) [OF nt_name.intros] by (cases c) auto

lemma op_derivation: "nt_op (op_toks r) r"
  by (cases r) (auto intro: nt_op.intros)

lemma field_derivation: "field_ok f \<Longrightarrow> nt_field (field_toks f) f"
  using nt_field.intros [OF nt_name.intros nt_type.intros(1)] nt_field.intros [OF nt_name.intros nt_type.intros(2)] nt_field.intros [OF nt_name.intros nt_type.intros(3)]
  by (cases f rule: field_toks.cases) auto

lemma set_derivation: "set_ok a \<Longrightarrow> nt_setClause (set_toks a) a"
  using nt_setClause.intros [OF nt_name.intros value_derivation] by (cases a) auto

lemma cond_derivation: "cond_ok b \<Longrightarrow> nt_condition (cond_toks b) b"
  by (cases b rule: cond_ok.cases) (auto intro!: nt_condition.intros col_derivation op_derivation nt_expr.intros value_derivation)

lemma where_derivation: "list_all cond_ok cs \<Longrightarrow> nt_optWhereClause (where_toks cs) cs"
  using sep_list [of cond_ok nt_condition cond_toks, OF cond_derivation] by (auto simp: where_toks_def nt_whereClause_def intro!: nt_optWhereClause.intros)

lemma comma_derivation:
  assumes "\<And>x. ok x \<Longrightarrow> item (f x) x" "list_all ok xs" "xs \<noteq> []" "sep (T_Op CHR '','')"
  shows "left_list sep item (commas f xs) xs"
  unfolding commas_def by (rule sep_list [where ok = ok]) (use assms in auto)

lemma sql_derivation:
  assumes "sql_shape t"
  shows "nt_stmt (sql_toks t) t"
proof -
  have c: "comma (T_Op CHR '','')" by (simp add: comma_def)
  note cd = comma_derivation [where sep = comma, OF _ _ _ c]
  show ?thesis
  proof (cases t)
    case (CreateTable n fs)
    with assms ddl_nts(1) [of "commas field_toks fs" fs n] cd [of field_ok nt_field field_toks fs, OF field_derivation] show ?thesis by (simp add: nt_fieldList_def)
  next
    case (InsertStmt n vs)
    with assms dml_nts(1) [of "commas value_toks vs" vs n] cd [of value_ok nt_value value_toks vs, OF value_derivation] show ?thesis by (simp add: nt_valueList_def)
  next
    case (DeleteStmt n cs)
    with assms dml_nts(2) [of "where_toks cs" cs n] where_derivation show ?thesis by simp
  next
    case (UpdateStmt n ss cs)
    with assms dml_nts(3) [of "commas set_toks ss" ss "where_toks cs" cs n] cd [of set_ok nt_setClause set_toks ss, OF set_derivation] where_derivation
    show ?thesis by (simp add: nt_setClauses_def)
  next
    case (SelectStmt sel tabs cs)
    have s: "nt_selector (if sel = [] then [T_Op CHR ''*''] else commas col_toks sel) sel"
      using cd [of "\<lambda>_. True" nt_col col_toks sel, OF col_derivation] nt_selector.intros by (auto simp: nt_colList_def list_all_iff)
    have "nt_tableList (commas (\<lambda>t. [IDENTIFIER t]) tabs) tabs" unfolding nt_tableList_def
      using assms SelectStmt by (intro comma_derivation [of "\<lambda>_. True"]) (auto simp: comma_def list_all_iff intro: nt_name.intros)
    with assms SelectStmt dml_nts(4) [OF s this where_derivation [of cs]] show ?thesis by simp
  qed (use assms stmt_nts ddl_nts(2,3) ddl_nts(4,5) [OF nt_name.intros] in auto)
qed

section \<open>Comments\<close>

definition no_close :: "string \<Rightarrow> bool" where
  "no_close s \<longleftrightarrow> (\<forall>a b. s \<noteq> a @ ''*/'' @ b)"

lemma no_close_Cons: "no_close (c # s) \<Longrightarrow> no_close s \<and> \<not> (c = CHR ''*'' \<and> (\<exists>r. s = CHR ''/'' # r))"
  unfolding no_close_def by (metis append_Cons append_Nil)

lemma upcase_sign: "c \<in> {CHR ''*'', CHR ''/''} \<Longrightarrow> upcase d = c \<longleftrightarrow> d = c"
  using upcase_alpha [of d] by (auto simp: upcase_def alpha_def chr_code_def)

lemma comment_to_end: "no_close s \<Longrightarrow> yylex STATE_COMMENT s = (T_EOF, STATE_COMMENT, [])"
proof (induction s)
  case Nil
  then show ?case by (simp add: yylex.simps)
next
  case (Cons c s)
  note n = no_close_Cons [OF Cons.prems]
  have "best_match comment_rules (c # s) = (1, LexSkip)"
    using n by (cases s) (auto simp: best_match_def comment_rules_def match_word_def upcase_sign)
  then show ?case using Cons.IH n by (simp add: yylex.simps [of STATE_COMMENT "c # s"])
qed

lemma no_close_scan: "no_close s \<Longrightarrow> no_close (yy_scan_string s)"
  unfolding no_close_def yy_scan_string_def by (metis append_assoc takeWhile_dropWhile_id)

lemma comment_begins: "yylex INITIAL (''/*'' @ s) = yylex STATE_COMMENT s"
proof -
  have na: "\<not> alpha CHR ''/''" by (simp add: alpha_def chr_code_def)
  have "best_match initial_rules (CHR ''/'' # CHR ''*'' # s) = (2, LexBegin STATE_COMMENT)"
    unfolding nonletter_rules [OF na] by (simp add: other_rules_def best_match_def match_defs is_digit_def)
  then show ?thesis by (simp add: yylex.simps [of INITIAL "CHR ''/'' # CHR ''*'' # s"])
qed

section \<open>Properties\<close>

text \<open>
  C6. Statements written out as SQL are read back as they were: for every tree of a statement whose lists are not
  empty where the grammar wants an element, whose names are identifiers and no keywords, whose integers have 32 bits and whose strings contain no
  quote and no NUL (and without literals of type float), \<open>yyparse\<close> on its text gives the tree, and leaves the scanner in its
  initial condition. What follows the semicolon, other statements included, is not looked at.
\<close>

theorem sql_roundtrip:
  assumes "sql_shape t" "list_all printable (sql_toks t)" "list_all printable rest"
  shows "yyparse INITIAL (tokens_text (sql_toks t @ [T_Op CHR '';''] @ rest)) = (Some (Some t), INITIAL)"
  using yyparse_text [OF nt_start.intros(1) [OF sql_derivation [OF assms(1)]], of rest] assms(2,3) by simp

theorem sql_roundtrip_witness:
  "yyparse INITIAL ''SELECT a , t . b FROM t WHERE a >= 5 ; DROP TABLE t '' = (Some (Some (SelectStmt [Col [] ''a'', Col ''t'' ''b''] [''t''] [BinaryExpr (Col [] ''a'') SV_OP_GE (ValueExpr (IntLit 5))])), INITIAL)"
proof -
  let ?t = "SelectStmt [Col [] ''a'', Col ''t'' ''b''] [''t''] [BinaryExpr (Col [] ''a'') SV_OP_GE (ValueExpr (IntLit 5))]"
  have p: "printable (IDENTIFIER [c])" if "c \<in> {CHR ''a'', CHR ''b'', CHR ''t''}" for c
    using that by (auto simp: is_identifier_def id_char_def alpha_def chr_code_def keyword_tokens_def)
  have i: "in32 5" by (simp add: in32_def)
  have toks: "sql_toks ?t = [T_SELECT, IDENTIFIER ''a'', T_Op CHR '','', IDENTIFIER ''t'', T_Op CHR ''.'', IDENTIFIER ''b'', T_FROM, IDENTIFIER ''t'', T_WHERE, IDENTIFIER ''a'', T_GEQ, VALUE_INT 5]"
    by (simp add: commas_def where_toks_def)
  have "list_all printable (sql_toks ?t)" "list_all printable [T_DROP, T_TABLE, IDENTIFIER ''t'']"
    unfolding toks using p i by (auto simp del: printable.simps(1))
  moreover have five: "char_of (53 :: nat) = CHR ''5''" by code_simp
  ultimately show ?thesis using sql_roundtrip [of ?t "[T_DROP, T_TABLE, IDENTIFIER ''t'']"]
    by (simp add: commas_def where_toks_def tokens_text_def keyword_tokens_def to_string_def nat_to_string.simps [of 5] five)
qed

text \<open>
  C40. A comment that is not closed swallows the statements that come after it. Its end of input counts as an empty
  statement, but leaves the scanner inside the comment; from then on every request, of every session, is taken for the rest
  of the comment and for an empty statement, until one contains the end of a comment.
\<close>

theorem open_comment_persists:
  assumes "no_close s" "no_close inp"
  shows "yyparse INITIAL (''/*'' @ s) = (Some None, STATE_COMMENT) \<and> yyparse STATE_COMMENT inp = (Some None, STATE_COMMENT)"
proof -
  have "token_stream INITIAL (''/*'' @ yy_scan_string s) = [(T_EOF, STATE_COMMENT)]" "token_stream STATE_COMMENT (yy_scan_string inp) = [(T_EOF, STATE_COMMENT)]"
    using comment_begins [of "yy_scan_string s"] comment_to_end [OF no_close_scan [OF assms(1)]] comment_to_end [OF no_close_scan [OF assms(2)]]
    by (simp_all add: token_stream.simps [of INITIAL] token_stream.simps [of STATE_COMMENT])
  moreover have "yy_scan_string (''/*'' @ s) = ''/*'' @ yy_scan_string s" by (simp add: yy_scan_string_def)
  ultimately show ?thesis by (simp add: yyparse_def)
qed

theorem open_comment_persists_witness:
  "yyparse INITIAL ''/* note'' = (Some None, STATE_COMMENT) \<and> yyparse STATE_COMMENT ''show tables;'' = (Some None, STATE_COMMENT)"
proof -
  have "no_close s" if "CHR ''/'' \<notin> set s" for s using that by (auto simp: no_close_def)
  then show ?thesis using open_comment_persists [of "'' note''" "''show tables;''"] by simp
qed

end
