(* ===== verification/Server.thy ===== *)
theory Server
  imports Interp Parser Log_Manager
begin

text \<open>
  \<open>rucbase.cpp\<close> and \<open>rucbase_client/main.cpp\<close>: the server, the session of a client, and the client.

  The results of \<open>read\<close>, \<open>write\<close>, \<open>accept\<close> and of the terminal are arguments: lists of what the calls return, one after the other; what is
  written to the standard streams is left out. The database, the transaction manager and the scanner are shared by all sessions; a
  request is one step here, although nothing in the code keeps two threads from running the parser at the same time.
\<close>

section \<open>A session\<close>

record server =
  srv_sm :: sm_state
  srv_tm :: TransactionManager
  srv_yy :: start_condition

text \<open>What \<open>read(fd, data_recv, BUFFER_LENGTH)\<close> returns: -1, 0, or the number of bytes that it put into the buffer, at most its size.\<close>

datatype read_result = ReadError | ReadEOF | Received string

text \<open>
  The C string in \<open>data_recv\<close>, which was cleared before. Without a NUL in the whole buffer the scanner reads on behind it.
\<close>

definition c_string :: "string \<Rightarrow> fault + string" where
  "c_string buf = (if CHR 0x00 \<in> set buf then Inr (takeWhile (\<lambda>c. c \<noteq> CHR 0x00) buf) else Inl UndefinedBehaviour)"

definition recv_buffer :: "string \<Rightarrow> string" where
  "recv_buffer rs = wr 0 rs (replicate BUFFER_LENGTH CHR 0x00)"

text \<open>\<open>interp->interp_sql(ast::parse_tree, &txn_id, context)\<close> with a context that has no transaction yet and an empty send buffer.\<close>

definition run_tree :: "nat \<Rightarrow> nat \<Rightarrow> bytes \<Rightarrow> TreeNode \<Rightarrow> (server \<times> txn_id_t, unit) prog" where
  "run_tree th n mem tree x =
     (let (sv, tid) = x;
          (r, s) = interp_sql th n mem tree
            \<lparr>it_sm = (srv_sm sv)\<lparr>sm_ctx := fresh_ctx\<rparr>, it_tm = srv_tm sv, it_txn_id = tid, it_txn = None\<rparr>
      in (r, (sv\<lparr>srv_sm := it_sm s, srv_tm := it_tm s\<rparr>, it_txn_id s)))"

text \<open>
  The \<open>try\<close> block: a \<open>RedBaseError\<close> is reported on the server's own terminal only. No other exception of the model is caught.
\<close>

definition catch_errors :: "('s, unit) prog \<Rightarrow> ('s, unit) prog" where
  "catch_errors m s = (case m s of (Inl (Exc e), s') \<Rightarrow> (Inr (), s') | x \<Rightarrow> x)"

text \<open>
  The handler of \<open>TransactionAbortException\<close>: the message goes to the start of the send buffer, the offset stays as it is. No code throws
  the exception.
\<close>

definition abort_message :: "TransactionAbortException \<Rightarrow> (out_ctx, unit) prog" where
  "abort_message e c =
     (let str = GetInfo e @ [CHR 0x00] in
      if length str \<le> length (data_send c) then (Inr (), c\<lparr>data_send := wr 0 str (data_send c)\<rparr>) else (Inl UndefinedBehaviour, c))"

definition abort_handler :: "TransactionAbortException \<Rightarrow> txn_ptr \<Rightarrow> (server, unit) prog" where
  "abort_handler e txn sv =
     (let (r, sm) = on_ctx (abort_message e) (srv_sm sv); sv = sv\<lparr>srv_sm := sm\<rparr>
      in case r of
           Inl f \<Rightarrow> (Inl f, sv)
         | Inr _ \<Rightarrow> (let (r, tm) = Abort txn (srv_tm sv) in (r, sv\<lparr>srv_tm := tm\<rparr>)))"

text \<open>\<open>write(fd, data_send, offset + 1)\<close>\<close>

definition reply_bytes :: "out_ctx \<Rightarrow> fault + string" where
  "reply_bytes c = (if 0 \<le> out_offset c + 1 \<and> out_offset c + 1 \<le> int (length (data_send c))
     then Inr (take (nat (out_offset c + 1)) (data_send c)) else Inl UndefinedBehaviour)"

text \<open>One turn of the loop of \<open>client_handler\<close> on a request that is not \<open>exit\<close>: the bytes of the reply.\<close>

definition serve_request :: "nat \<Rightarrow> nat \<Rightarrow> bytes \<Rightarrow> string \<Rightarrow> (server \<times> txn_id_t, string) prog" where
  "serve_request th n mem sql =
     bind (update (\<lambda>(sv, tid). (sv\<lparr>srv_sm := (srv_sm sv)\<lparr>sm_ctx := fresh_ctx\<rparr>\<rparr>, tid))) (\<lambda>_.
     bind (query (\<lambda>(sv, tid). yyparse (srv_yy sv) sql)) (\<lambda>(res, sc).
     bind (update (\<lambda>(sv, tid). (sv\<lparr>srv_yy := sc\<rparr>, tid))) (\<lambda>_.
     bind (case res of Some (Some tree) \<Rightarrow> catch_errors (run_tree th n mem tree) | _ \<Rightarrow> ret ()) (\<lambda>_ x.
       (reply_bytes (sm_ctx (srv_sm (fst x))), x)))))"

text \<open>
  \<open>client_handler\<close>: the replies that were written, and how it went: the connection is closed, the loop waits for the next request, or a
  fault ends the process. The flag with a request says whether the \<open>write\<close> of its reply succeeds.
\<close>

datatype session_end = Waiting | Closed | Crashed fault

fun client_handler :: "nat \<Rightarrow> nat \<Rightarrow> bytes \<Rightarrow> (read_result \<times> bool) list \<Rightarrow> server \<times> txn_id_t \<Rightarrow> (string list \<times> session_end) \<times> server \<times> txn_id_t" where
  "client_handler th n mem [] x = (([], Waiting), x)"
| "client_handler th n mem ((ReadError, w) # es) x = (([], Closed), x)"
| "client_handler th n mem ((ReadEOF, w) # es) x = (([], Closed), x)"
| "client_handler th n mem ((Received rs, w) # es) x =
     (case c_string (recv_buffer rs) of
        Inl e \<Rightarrow> (([], Crashed e), x)
      | Inr sql \<Rightarrow>
          if sql = ''exit'' then (([], Closed), x)
          else case serve_request th n mem sql x of
                 (Inl e, x') \<Rightarrow> (([], Crashed e), x')
               | (Inr rep, x') \<Rightarrow>
                   if \<not> w then (([], Closed), x')
                   else let ((reps, fin), x'') = client_handler th n mem es x' in ((rep # reps, fin), x''))"

section \<open>The server\<close>

text \<open>
  \<open>main\<close> and \<open>start_server\<close> up to the accept loop, which is below. \<open>env\<close> stands for the working directory and commands, \<open>argv\<close> has the
  arguments, the flags say whether \<open>socket\<close>, \<open>bind\<close> and \<open>listen\<close> succeed. \<open>Exit\<close> is a call of \<open>exit\<close>.
\<close>

datatype startup = Exit int | Listening

record server_process =
  sp_sm :: sm_state
  sp_recovery :: LogRecovery
  sp_log :: LogManager

definition open_database :: "sm_env \<Rightarrow> string \<Rightarrow> (sm_state, unit) prog" where
  "open_database env name =
     bind (query (sm_is_dir name)) (\<lambda>d.
     bind (if d then ret () else create_db name) (\<lambda>_. open_db env name))"

definition start_server :: "bool \<Rightarrow> bool \<Rightarrow> bool \<Rightarrow> (server_process, startup) prog" where
  "start_server sock_ok bind_ok listen_ok s =
     (if \<not> sock_ok then (Inl AssertFail, s)
      else if \<not> bind_ok then (Inr (Exit 1), s)
      else if \<not> listen_ok then (Inr (Exit 1), s)
      else let (r, rec) = (if GetRecoveryMode (sp_recovery s) then bind Redo (\<lambda>_. Undo) (sp_recovery s) else (Inr (), sp_recovery s));
               s = s\<lparr>sp_recovery := rec\<rparr>
           in case r of
                Inl e \<Rightarrow> (Inl e, s)
              | Inr _ \<Rightarrow> (let (r, lm) = (if GetLogMode (sp_log s) then RunFlushThread (sp_log s) else (Inr (), sp_log s))
                          in (case r of Inl e \<Rightarrow> Inl e | Inr _ \<Rightarrow> Inr Listening, s\<lparr>sp_log := lm\<rparr>)))"

definition server_main :: "sm_env \<Rightarrow> string list \<Rightarrow> bool \<Rightarrow> bool \<Rightarrow> bool \<Rightarrow> (server_process, startup) prog" where
  "server_main env argv sock_ok bind_ok listen_ok s =
     (if length argv \<noteq> 2 then (Inr (Exit 1), s)
      else let (r, sm) = open_database env (argv ! 1) (sp_sm s); s = s\<lparr>sp_sm := sm\<rparr>;
               (r, s) = (case r of Inl e \<Rightarrow> (Inl e, s) | Inr _ \<Rightarrow> start_server sock_ok bind_ok listen_ok s)
           in (case r of Inl (Exc e) \<Rightarrow> Inr (Exit 1) | _ \<Rightarrow> r, s))"

text \<open>The signal handler leaves the accept loop with \<open>longjmp\<close>. Behind the loop the socket is shut down and the database closed.\<close>

definition sigint_handler :: "bool \<times> LogManager \<Rightarrow> bool \<times> LogManager" where
  "sigint_handler x = (True, if GetLogMode (snd x) then snd (StopFlushThread (snd x)) else snd x)"

definition shut_down :: "(sm_state, unit) prog" where
  "shut_down = close_db"

text \<open>
  The accept loop. The address of its variable \<open>sockfd\<close> is handed to every new thread, which reads it when it starts to run;
  \<open>starting\<close> is the number of threads that have not done so. \<open>active\<close> are the descriptors that the running threads have read, and \<open>open_fds\<close> the
  descriptors of connections that are open: \<open>accept\<close> gives one that is not, and a thread closes its descriptor when it ends, after which \<open>accept\<close> may give it again.
  \<open>accepting\<close> is false once the loop is left, by the signal handler or because no thread can be created. \<open>accepted\<close> and
  \<open>served\<close> record, in order, the connections that were given to a thread and the descriptors that threads have read.
\<close>

record accept_state =
  sockfd :: int
  starting :: nat
  active :: "int list"
  open_fds :: "int set"
  accepting :: bool
  accepted :: "int list"
  served :: "int list"

definition accept_init :: "int \<Rightarrow> accept_state" where
  "accept_init garbage = \<lparr>sockfd = garbage, starting = 0, active = [], open_fds = {}, accepting = True, accepted = [], served = []\<rparr>"

inductive accept_step :: "accept_state \<Rightarrow> accept_state \<Rightarrow> bool" where
  accept: "accepting s \<Longrightarrow> 0 \<le> fd \<Longrightarrow> fd \<notin> open_fds s \<Longrightarrow>
     accept_step s (s\<lparr>sockfd := fd, open_fds := insert fd (open_fds s), starting := starting s + 1, accepted := accepted s @ [fd]\<rparr>)"
| accept_error: "accepting s \<Longrightarrow> accept_step s (s\<lparr>sockfd := -1\<rparr>)"
| create_fails: "accepting s \<Longrightarrow> 0 \<le> fd \<Longrightarrow> fd \<notin> open_fds s \<Longrightarrow>
     accept_step s (s\<lparr>sockfd := fd, open_fds := insert fd (open_fds s), accepting := False\<rparr>)"
| interrupted: "accepting s \<Longrightarrow> accept_step s (s\<lparr>accepting := False\<rparr>)"
| handler_starts: "0 < starting s \<Longrightarrow>
     accept_step s (s\<lparr>starting := starting s - 1, active := active s @ [sockfd s], served := served s @ [sockfd s]\<rparr>)"
| handler_ends: "fd \<in> set (active s) \<Longrightarrow> accept_step s (s\<lparr>active := remove1 fd (active s), open_fds := open_fds s - {fd}\<rparr>)"

section \<open>The client\<close>

definition MAX_MEM_BUFFER_SIZE :: nat where "MAX_MEM_BUFFER_SIZE = 8192"

definition is_exit_command :: "string \<Rightarrow> bool" where
  "is_exit_command cmd \<longleftrightarrow> cmd \<in> {''exit'', ''exit;'', ''bye'', ''bye;''}"

text \<open>The bytes of \<open>write(sockfd, command.c_str(), command.length() + 1)\<close>.\<close>

definition client_send :: "string \<Rightarrow> string" where
  "client_send command = command @ [CHR 0x00]"

text \<open>
  The loop that prints a reply of \<open>len\<close> bytes from \<open>recv_buf\<close>. Its condition is \<open>i <= len\<close>: it looks at one byte more than was received.
\<close>

function show_reply :: "string \<Rightarrow> nat \<Rightarrow> nat \<Rightarrow> fault + string" where
  "show_reply buf len i =
     (if len < i then Inr []
      else if length buf \<le> i then Inl UndefinedBehaviour
      else if buf ! i = CHR 0x00 then Inr []
      else (case show_reply buf len (i + 1) of Inl e \<Rightarrow> Inl e | Inr r \<Rightarrow> Inr (buf ! i # r)))"
  by auto
termination by (relation "measure (\<lambda>(buf, len, i). len + 1 - i)") auto

declare show_reply.simps [simp del]

text \<open>
  The loop of \<open>main\<close>: a line of input, \<open>None\<close> at its end, with the success of \<open>write\<close> and what \<open>recv\<close> returns. The receive buffer is the
  first argument: it holds anything at the start, and is cleared behind each reply. The result has what was sent and printed.
\<close>

datatype client_end = Bye | Prompt | SendError | ClientFault fault

fun client_loop :: "string \<Rightarrow> (string option \<times> bool \<times> read_result) list \<Rightarrow> (string list \<times> string list) \<times> client_end" where
  "client_loop recv_buf [] = (([], []), Prompt)"
| "client_loop recv_buf ((None, w, r) # es) = (([], []), Bye)"
| "client_loop recv_buf ((Some command, w, r) # es) =
     (if command = [] then client_loop recv_buf es
      else if is_exit_command command then (([], []), Bye)
      else if \<not> w then (([], []), SendError)
      else case r of
             ReadError \<Rightarrow> (([client_send command], []), Bye)
           | ReadEOF \<Rightarrow> (([client_send command], []), Bye)
           | Received rs \<Rightarrow>
               (case show_reply (wr 0 rs recv_buf) (length rs) 0 of
                  Inl e \<Rightarrow> (([client_send command], []), ClientFault e)
                | Inr txt \<Rightarrow>
                    (let ((out, shown), fin) = client_loop (replicate MAX_MEM_BUFFER_SIZE CHR 0x00) es
                     in ((client_send command # out, txt # shown), fin))))"

text \<open>
  The start of the client. What \<open>getopt\<close> returns is a list of options with their arguments; \<open>unix_sock path\<close> and \<open>tcp_sock host port\<close> give the
  results of \<open>gethostbyname\<close> (whether the host is known), \<open>socket\<close> and \<open>connect\<close> (whether it succeeds).
\<close>

record client_options =
  unix_socket_path :: "string option"
  server_host :: string
  server_port :: int

definition PORT_DEFAULT :: int where "PORT_DEFAULT = 8765"

definition is_space :: "char \<Rightarrow> bool" where
  "is_space c \<longleftrightarrow> c = CHR '' '' \<or> 9 \<le> chr_code c \<and> chr_code c \<le> 13"

fun client_option :: "char \<times> string \<Rightarrow> client_options \<Rightarrow> client_options" where
  "client_option (opt, optarg) o' =
     (if opt = CHR ''s'' then o'\<lparr>unix_socket_path := Some optarg\<rparr>
      else if opt = CHR ''p'' then o'\<lparr>server_port := wrap32 (strtol (dropWhile is_space optarg))\<rparr>
      else if opt = CHR ''h'' then o'\<lparr>server_host := optarg\<rparr>
      else o')"

definition client_getopt :: "(char \<times> string) list \<Rightarrow> client_options" where
  "client_getopt args = fold client_option args \<lparr>unix_socket_path = None, server_host = ''127.0.0.1'', server_port = PORT_DEFAULT\<rparr>"

definition init_unix_sock :: "(string \<Rightarrow> int \<times> bool) \<Rightarrow> string \<Rightarrow> int" where
  "init_unix_sock unix_sock path = (let (fd, connected) = unix_sock path in if fd < 0 then -1 else if \<not> connected then -1 else fd)"

text \<open>\<open>htons\<close> takes the lower 16 bits of the port.\<close>

definition init_tcp_sock :: "(string \<Rightarrow> int \<Rightarrow> bool \<times> int \<times> bool) \<Rightarrow> string \<Rightarrow> int \<Rightarrow> int" where
  "init_tcp_sock tcp_sock host port =
     (let (known, fd, connected) = tcp_sock host (port mod 2 ^ 16)
      in if \<not> known then -1 else if fd = -1 then -1 else if \<not> connected then -1 else fd)"

text \<open>The exit code 1 when there is no connection, else the loop.\<close>

definition client_main ::
  "(string \<Rightarrow> int \<times> bool) \<Rightarrow> (string \<Rightarrow> int \<Rightarrow> bool \<times> int \<times> bool) \<Rightarrow> (char \<times> string) list \<Rightarrow> string \<Rightarrow>
   (string option \<times> bool \<times> read_result) list \<Rightarrow> int + (string list \<times> string list) \<times> client_end" where
  "client_main unix_sock tcp_sock args recv_buf es =
     (let opts = client_getopt args;
          fd = (case unix_socket_path opts of
                  Some path \<Rightarrow> init_unix_sock unix_sock path
                | None \<Rightarrow> init_tcp_sock tcp_sock (server_host opts) (server_port opts))
      in if fd < 0 then Inl 1 else Inr (client_loop recv_buf es))"

end
