(* ===== verification/Server_Spec.thy ===== *)
theory Server_Spec
  imports Server Parser_Spec Interp_Spec
begin

text \<open>
  What a client of the server gets: the replies of a session follow from its requests and the scanner alone, what the client prints of them, and
  which connections the threads of the accept loop serve.
\<close>

section \<open>Buffers\<close>

lemma show_reply_text:
  "i \<le> length xs \<Longrightarrow> length xs < length buf \<Longrightarrow> take (length xs) buf = xs \<Longrightarrow> length xs \<le> len \<Longrightarrow> CHR 0x00 \<notin> set xs \<Longrightarrow>
   show_reply buf len i = (case show_reply buf len (length xs) of Inl e \<Rightarrow> Inl e | Inr r \<Rightarrow> Inr (drop i xs @ r))"
proof (induction "length xs - i" arbitrary: i)
  case 0
  then show ?case by (auto split: sum.splits)
next
  case (Suc k)
  then have i: "i < length xs" by simp
  then have nth: "buf ! i = xs ! i" using Suc.prems by (metis nth_take)
  have "buf ! i \<noteq> CHR 0x00" using Suc.prems(5) i nth by (metis nth_mem)
  moreover have "show_reply buf len (i + 1) = (case show_reply buf len (length xs) of Inl e \<Rightarrow> Inl e | Inr r \<Rightarrow> Inr (drop (i + 1) xs @ r))"
    by (rule Suc.hyps(1)) (use Suc i in simp_all)
  ultimately show ?case
    using i Suc.prems nth by (subst show_reply.simps) (auto split: sum.splits simp: Cons_nth_drop_Suc)
qed

text \<open>What is printed for the \<open>len\<close> bytes \<open>rs\<close> that were received into a buffer with the byte \<open>b\<close> behind them, if there is one.\<close>

fun printed :: "string \<Rightarrow> char option \<Rightarrow> fault + string" where
  "printed rs b =
     (if CHR 0x00 \<in> set rs then Inr (takeWhile (\<lambda>c. c \<noteq> CHR 0x00) rs)
      else case b of None \<Rightarrow> Inl UndefinedBehaviour | Some c \<Rightarrow> Inr (if c = CHR 0x00 then rs else rs @ [c]))"

lemma show_reply_received:
  assumes "length rs \<le> length buf"
  shows "show_reply (wr 0 rs buf) (length rs) 0 = printed rs (if length rs < length buf then Some (buf ! length rs) else None)"
proof (cases "CHR 0x00 \<in> set rs")
  case True
  then obtain xs ys where rs: "rs = xs @ CHR 0x00 # ys" "CHR 0x00 \<notin> set xs" by (meson split_list_first)
  have "show_reply (wr 0 rs buf) (length rs) (length xs) = Inr []"
    using assms by (subst show_reply.simps) (simp add: wr_def rs(1) nth_append)
  then have "show_reply (wr 0 rs buf) (length rs) 0 = Inr xs"
    using assms rs(2) by (subst show_reply_text [of 0 xs]) (simp_all add: wr_def rs(1))
  moreover have "takeWhile (\<lambda>c. c \<noteq> CHR 0x00) rs = xs" using rs by (auto simp: takeWhile_tail)
  ultimately show ?thesis using True by simp
next
  case nz: False
  show ?thesis
  proof (cases "length rs < length buf")
    case True
    have "show_reply (wr 0 rs buf) (length rs) (length rs) = Inr (if buf ! length rs = CHR 0x00 then [] else [buf ! length rs])"
      using True by (subst show_reply.simps, subst show_reply.simps [of _ _ "length rs + 1"]) (simp add: wr_def nth_append)
    with True nz show ?thesis by (subst show_reply_text [of 0 rs]) (simp_all add: wr_def)
  next
    case False
    then have full: "wr 0 rs buf = rs" using assms by (simp add: wr_def)
    show ?thesis
    proof (cases rs rule: rev_exhaust)
      case Nil
      with False show ?thesis using full by (subst show_reply.simps) (simp add: full)
    next
      case (snoc xs c)
      have "show_reply rs (length rs) (length rs) = Inl UndefinedBehaviour" by (subst show_reply.simps) simp
      then have "show_reply rs (length rs) (length xs) = Inl UndefinedBehaviour"
        using snoc nz by (subst show_reply.simps) auto
      with snoc nz False show ?thesis unfolding full by (subst show_reply_text [of 0 xs]) simp_all
    qed
  qed
qed

section \<open>Requests\<close>

lemma c_string_recv:
  "c_string (recv_buffer rs) =
     (if CHR 0x00 \<notin> set rs \<and> BUFFER_LENGTH \<le> length rs then Inl UndefinedBehaviour else Inr (takeWhile (\<lambda>c. c \<noteq> CHR 0x00) rs))"
proof -
  have buf: "recv_buffer rs = rs @ replicate (BUFFER_LENGTH - length rs) CHR 0x00" by (simp add: recv_buffer_def wr_def)
  show ?thesis
  proof (cases "CHR 0x00 \<in> set rs")
    case True
    then show ?thesis by (simp add: c_string_def buf takeWhile_append1 [OF True])
  next
    case False
    then have nz: "c \<in> set rs \<Longrightarrow> c \<noteq> CHR 0x00" for c by blast
    then have 1: "takeWhile (\<lambda>c. c \<noteq> CHR 0x00) rs = rs" unfolding takeWhile_eq_all_conv by blast
    have "takeWhile (\<lambda>c. c \<noteq> CHR 0x00) (recv_buffer rs) = rs"
      unfolding buf by (subst takeWhile_append2) (use nz in \<open>simp_all add: takeWhile_replicate\<close>)
    moreover have "CHR 0x00 \<in> set (recv_buffer rs) \<longleftrightarrow> \<not> BUFFER_LENGTH \<le> length rs" using False by (simp add: buf)
    ultimately show ?thesis using False unfolding c_string_def 1 by simp
  qed
qed

lemma takeWhile_client_send: "CHR 0x00 \<notin> set cmd \<Longrightarrow> takeWhile (\<lambda>c. c \<noteq> CHR 0x00) (client_send cmd) = cmd"
  by (auto simp: client_send_def takeWhile_tail)

lemma length_help: "length help_info = 689"
  by (simp add: help_info_def help_lines_def)

lemma sends_help: "\<exists>c'. send_help fresh_ctx = (Inr (), c') \<and> reply_bytes c' = Inr (help_info @ [CHR 0x00])"
  by (simp add: send_help_def send_str_def fresh_ctx_def BUFFER_LENGTH_def length_help bind_def update_def reply_bytes_def wr_def)

lemma help_letters: "char_of (72 :: nat) = CHR ''H''" "char_of (69 :: nat) = CHR ''E''" "char_of (76 :: nat) = CHR ''L''" "char_of (80 :: nat) = CHR ''P''"
  by code_simp+

lemma lex_help: "best_match initial_rules ''help'' = (4, LexReturn (\<lambda>_. T_HELP))"
  by (simp add: best_match_def initial_rules_def keyword_tokens_def match_defs alpha_def is_digit_def help_letters)

lemma yyparse_help: "yyparse INITIAL ''help'' = (Some (Some Help), INITIAL)"
proof -
  have "token_stream INITIAL ''help'' = [(T_HELP, INITIAL), (T_EOF, INITIAL)]"
    by (simp add: token_stream.simps [of INITIAL "''help''"] token_stream.simps [of INITIAL "[]"] yylex.simps lex_help)
  moreover have "yy_scan_string ''help'' = ''help''" by (simp add: yy_scan_string_def)
  ultimately show ?thesis by (simp add: yyparse_def)
qed

lemma NUL_not_in_help: "CHR 0x00 \<notin> set help_info"
  by (simp add: help_info_def help_lines_def)

lemma help_buffer:
  "show_reply (wr 0 (help_info @ [CHR 0x00]) (replicate MAX_MEM_BUFFER_SIZE c)) (length (help_info @ [CHR 0x00])) 0 = Inr help_info"
proof -
  have "takeWhile (\<lambda>c. c \<noteq> CHR 0x00) (help_info @ [CHR 0x00]) = help_info" using NUL_not_in_help by (auto simp: takeWhile_tail)
  then show ?thesis by (subst show_reply_received) (simp_all add: length_help MAX_MEM_BUFFER_SIZE_def)
qed

lemma collect_total:
  assumes "list_all ok xs" "\<And>x. ok x \<Longrightarrow> \<exists>y. f x = Inr y"
  shows "\<exists>ys. collect f xs = Inr ys"
  using assms(1) by (induction xs) (auto dest!: assms(2))

lemma conversions_total:
  "value_ok v \<Longrightarrow> \<exists>y. interp_sv_value v = Inr y" "field_ok fd \<Longrightarrow> \<exists>y. interp_field fd = Inr y"
  "cond_ok cd \<Longrightarrow> \<exists>y. interp_cond cd = Inr y" "set_ok sc \<Longrightarrow> \<exists>y. interp_set_clause sc = Inr y"
proof -
  show val: "\<exists>y. interp_sv_value v = Inr y" if "value_ok v" for v using that by (cases v) simp_all
  show "field_ok fd \<Longrightarrow> \<exists>y. interp_field fd = Inr y" by (cases fd rule: interp_field.cases) simp_all
  show "cond_ok cd \<Longrightarrow> \<exists>y. interp_cond cd = Inr y" by (cases cd rule: cond_ok.cases) (auto dest!: val)
  show "set_ok sc \<Longrightarrow> \<exists>y. interp_set_clause sc = Inr y" by (cases sc) (auto dest!: val)
qed

lemma statement_args:
  "list_all value_ok vs \<Longrightarrow> \<exists>ys. collect interp_sv_value vs = Inr ys" "list_all field_ok fs \<Longrightarrow> \<exists>ys. collect interp_field fs = Inr ys"
  "list_all cond_ok cs \<Longrightarrow> \<exists>ys. collect interp_cond cs = Inr ys" "list_all set_ok ss \<Longrightarrow> \<exists>ys. collect interp_set_clause ss = Inr ys"
  using collect_total conversions_total by metis+

lemma no_arg_fault: "sql_shape t \<Longrightarrow> arg_fault t = None"
  by (cases t) (auto simp: first_fault_def interp_where_clause_def dest!: statement_args)

section \<open>The trees that the parser makes\<close>

lemma left_list_all: "left_list sep item ts xs \<Longrightarrow> (\<And>us x. item us x \<Longrightarrow> ok x) \<Longrightarrow> xs \<noteq> [] \<and> list_all ok xs"
  by (induction rule: left_list.induct) auto

lemma nt_parts:
  "nt_value ts v \<Longrightarrow> value_ok v" "nt_field ts fd \<Longrightarrow> field_ok fd" "nt_condition ts cd \<Longrightarrow> cond_ok cd" "nt_setClause ts sc \<Longrightarrow> set_ok sc"
proof -
  show val: "value_ok v" if "nt_value ts v" for ts v using that by cases simp_all
  show "nt_field ts fd \<Longrightarrow> field_ok fd" by (auto elim!: nt_field.cases nt_type.cases)
  show "nt_condition ts cd \<Longrightarrow> cond_ok cd" by (auto elim!: nt_condition.cases nt_expr.cases dest!: val)
  show "nt_setClause ts sc \<Longrightarrow> set_ok sc" by (auto elim!: nt_setClause.cases dest!: val)
qed

lemma nt_lists:
  "nt_valueList ts vs \<Longrightarrow> vs \<noteq> [] \<and> list_all value_ok vs" "nt_fieldList ts fs \<Longrightarrow> fs \<noteq> [] \<and> list_all field_ok fs"
  "nt_optWhereClause ts cs \<Longrightarrow> list_all cond_ok cs" "nt_setClauses ts ss \<Longrightarrow> ss \<noteq> [] \<and> list_all set_ok ss" "nt_tableList ts tabs \<Longrightarrow> tabs \<noteq> []"
proof -
  show "nt_valueList ts vs \<Longrightarrow> vs \<noteq> [] \<and> list_all value_ok vs"
    unfolding nt_valueList_def by (erule left_list_all) (rule nt_parts)
  show "nt_fieldList ts fs \<Longrightarrow> fs \<noteq> [] \<and> list_all field_ok fs"
    unfolding nt_fieldList_def by (erule left_list_all) (rule nt_parts)
  show "nt_setClauses ts ss \<Longrightarrow> ss \<noteq> [] \<and> list_all set_ok ss"
    unfolding nt_setClauses_def by (erule left_list_all) (rule nt_parts)
  show "nt_tableList ts tabs \<Longrightarrow> tabs \<noteq> []"
    unfolding nt_tableList_def using left_list_all [where ok = "\<lambda>_. True"] by blast
  show "nt_optWhereClause ts cs \<Longrightarrow> list_all cond_ok cs"
    using left_list_all [where ok = cond_ok and item = nt_condition] nt_parts(3) by (auto elim!: nt_optWhereClause.cases simp: nt_whereClause_def)
qed

lemma nt_stmt_shape: "nt_stmt ts t \<Longrightarrow> sql_shape t"
  by (auto elim!: nt_stmt.cases nt_dbStmt.cases nt_ddl.cases nt_dml.cases nt_txnStmt.cases dest!: nt_lists)

lemma yyparse_shape:
  assumes "yyparse sc inp = (Some (Some t), sc')"
  shows "t = Help \<or> sql_shape t"
proof -
  obtain ts r where "parse_start ts = Inr (Some t, r)" using assms by (auto simp: yyparse_def Let_def split: sum.splits)
  then obtain pre where "nt_start pre (Some t)" using parse_start_iff by blast
  then show ?thesis using nt_stmt_shape by cases auto
qed

section \<open>A session, from its requests alone\<close>

text \<open>The reply to a request that the parser gave the result \<open>res\<close> for; \<open>None\<close> if it ends the process of the server.\<close>

fun request_reply :: "TreeNode option option \<Rightarrow> string option" where
  "request_reply (Some (Some t)) =
     (if t = Help then Some (help_info @ [CHR 0x00]) else if t \<in> {TxnAbort, TxnCommit, TxnRollback} then Some [CHR 0x00] else None)"
| "request_reply res = Some [CHR 0x00]"

fun session_replies :: "start_condition \<Rightarrow> (read_result \<times> bool) list \<Rightarrow> string list \<times> session_end" where
  "session_replies sc [] = ([], Waiting)"
| "session_replies sc ((ReadError, w) # es) = ([], Closed)"
| "session_replies sc ((ReadEOF, w) # es) = ([], Closed)"
| "session_replies sc ((Received rs, w) # es) =
     (let sql = takeWhile (\<lambda>c. c \<noteq> CHR 0x00) rs; (res, sc') = yyparse sc sql in
      if CHR 0x00 \<notin> set rs \<and> BUFFER_LENGTH \<le> length rs then ([], Crashed UndefinedBehaviour)
      else if sql = ''exit'' then ([], Closed)
      else case request_reply res of
             None \<Rightarrow> ([], Crashed UndefinedBehaviour)
           | Some rep \<Rightarrow> if \<not> w then ([], Closed) else (let (reps, fin) = session_replies sc' es in (rep # reps, fin)))"

lemma reply_fresh: "reply_bytes fresh_ctx = Inr [CHR 0x00]"
  by (simp add: reply_bytes_def fresh_ctx_def BUFFER_LENGTH_def)

lemma run_tree_reply:
  assumes "t = Help \<or> sql_shape t"
  shows "\<exists>c. catch_errors (run_tree th n mem t) (sv, INVALID_TXN_ID) =
      (if request_reply (Some (Some t)) = None then Inl UndefinedBehaviour else Inr (), (sv\<lparr>srv_sm := (srv_sm sv)\<lparr>sm_ctx := c\<rparr>\<rparr>, INVALID_TXN_ID)) \<and>
    (\<forall>rep. request_reply (Some (Some t)) = Some rep \<longrightarrow> reply_bytes c = Inr rep)"
proof (cases "t = Help")
  case True
  obtain c' where "send_help fresh_ctx = (Inr (), c')" "reply_bytes c' = Inr (help_info @ [CHR 0x00])" using sends_help by blast
  then show ?thesis by (intro exI [of _ c']) (simp add: True catch_errors_def run_tree_def on_it_sm_def on_ctx_def)
next
  case False
  with assms no_arg_fault have "arg_fault t = None" by blast
  with False show ?thesis
    by (intro exI [of _ fresh_ctx]) (auto simp: catch_errors_def run_tree_def interp_sql_fresh reply_fresh)
qed

lemma serve_request_reply:
  assumes "yyparse (srv_yy sv) sql = (res, sc)"
  shows "\<exists>c. serve_request th n mem sql (sv, INVALID_TXN_ID) =
    ((case request_reply res of None \<Rightarrow> Inl UndefinedBehaviour | Some rep \<Rightarrow> Inr rep), (sv\<lparr>srv_sm := (srv_sm sv)\<lparr>sm_ctx := c\<rparr>, srv_yy := sc\<rparr>, INVALID_TXN_ID))"
proof (cases "\<exists>t. res = Some (Some t)")
  case True
  then obtain t where t: "res = Some (Some t)" by blast
  let ?sv = "sv\<lparr>srv_sm := (srv_sm sv)\<lparr>sm_ctx := fresh_ctx\<rparr>, srv_yy := sc\<rparr>"
  from run_tree_reply [OF yyparse_shape [OF assms [unfolded t]], of th n mem ?sv] obtain c where
    c: "catch_errors (run_tree th n mem t) (?sv, INVALID_TXN_ID) =
      (if request_reply res = None then Inl UndefinedBehaviour else Inr (), (?sv\<lparr>srv_sm := (srv_sm ?sv)\<lparr>sm_ctx := c\<rparr>\<rparr>, INVALID_TXN_ID))"
    "\<forall>rep. request_reply res = Some rep \<longrightarrow> reply_bytes c = Inr rep" unfolding t by blast
  then show ?thesis
    using assms by (intro exI [of _ c]) (auto simp: serve_request_def bind_def update_def query_def t simp del: request_reply.simps split: option.splits if_splits)
next
  case False
  then consider "res = None" | "res = Some None" by (cases res; cases "the res"; simp)
  then show ?thesis
    using assms by cases (auto intro!: exI [of _ fresh_ctx] simp: serve_request_def bind_def update_def query_def ret_def reply_fresh)
qed

lemma same_server: "\<exists>c y. sv = sv\<lparr>srv_sm := (srv_sm sv)\<lparr>sm_ctx := c\<rparr>, srv_yy := y\<rparr>"
  by (intro exI [of _ "sm_ctx (srv_sm sv)"] exI [of _ "srv_yy sv"]) simp

lemma session_refines:
  "\<exists>c y. client_handler th n mem es (sv, INVALID_TXN_ID) =
    (session_replies (srv_yy sv) es, (sv\<lparr>srv_sm := (srv_sm sv)\<lparr>sm_ctx := c\<rparr>, srv_yy := y\<rparr>, INVALID_TXN_ID))"
proof (induction es arbitrary: sv)
  case (Cons e es)
  show ?case
  proof (cases "\<exists>rs w. e = (Received rs, w)")
    case False
    then show ?thesis using same_server by (cases e rule: prod.exhaust; cases "fst e") auto
  next
    case True
    then obtain rs w where e: "e = (Received rs, w)" by blast
    let ?sql = "takeWhile (\<lambda>c. c \<noteq> CHR 0x00) rs"
    show ?thesis
    proof (cases "(CHR 0x00 \<notin> set rs \<and> BUFFER_LENGTH \<le> length rs) \<or> ?sql = ''exit''")
      case True
      then show ?thesis using same_server by (auto simp: e c_string_recv split_beta)
    next
      case run: False
      obtain res sc where y: "yyparse (srv_yy sv) ?sql = (res, sc)" by (metis surj_pair)
      from serve_request_reply [OF y, of th n mem] obtain c where c: "serve_request th n mem ?sql (sv, INVALID_TXN_ID) =
        ((case request_reply res of None \<Rightarrow> Inl UndefinedBehaviour | Some rep \<Rightarrow> Inr rep), (sv\<lparr>srv_sm := (srv_sm sv)\<lparr>sm_ctx := c\<rparr>, srv_yy := sc\<rparr>, INVALID_TXN_ID))" by blast
      let ?sv = "sv\<lparr>srv_sm := (srv_sm sv)\<lparr>sm_ctx := c\<rparr>, srv_yy := sc\<rparr>"
      from Cons.IH [of ?sv] obtain c' y' where ih: "client_handler th n mem es (?sv, INVALID_TXN_ID) =
        (session_replies sc es, (sv\<lparr>srv_sm := (srv_sm sv)\<lparr>sm_ctx := c'\<rparr>, srv_yy := y'\<rparr>, INVALID_TXN_ID))" by auto
      show ?thesis
      proof (cases "request_reply res")
        case None
        then show ?thesis using run y c by (auto simp: e c_string_recv)
      next
        case (Some rep)
        obtain reps fin where r: "session_replies sc es = (reps, fin)" by (metis surj_pair)
        show ?thesis
        proof (cases w)
          case True
          then show ?thesis using Some run y c ih r by (auto simp: e c_string_recv)
        next
          case False
          then show ?thesis using Some run y c by (auto simp: e c_string_recv)
        qed
      qed
    qed
  qed
qed (simp add: same_server)

section \<open>The accept loop\<close>

text \<open>
  A step of a run in which \<open>accept\<close> does not return, with a connection or with an error, while a thread that has been created has not read its
  descriptor yet.
\<close>

definition prompt_step :: "accept_state \<Rightarrow> accept_state \<Rightarrow> bool" where
  "prompt_step s s' \<longleftrightarrow> accept_step s s' \<and> (starting s = 0 \<or> sockfd s' = sockfd s \<and> accepted s' = accepted s)"

text \<open>The descriptors that threads have read or will read are distinct and open.\<close>

definition served_in_order :: "accept_state \<Rightarrow> bool" where
  "served_in_order s \<longleftrightarrow> starting s \<le> 1 \<and> served s @ replicate (starting s) (sockfd s) = accepted s \<and>
     distinct (active s @ replicate (starting s) (sockfd s)) \<and> set (active s @ replicate (starting s) (sockfd s)) \<subseteq> open_fds s"

lemma prompt_step_order:
  assumes "prompt_step s s'" "served_in_order s"
  shows "served_in_order s'"
proof -
  from assms(1) have "accept_step s s'" and p: "starting s = 0 \<or> sockfd s' = sockfd s \<and> accepted s' = accepted s" by (simp_all add: prompt_step_def)
  then show ?thesis
  proof cases
    case (handler_starts)
    then have "starting s = 1" using assms(2) by (simp add: served_in_order_def)
    then show ?thesis using assms(2) handler_starts by (auto simp: served_in_order_def)
  next
    case (handler_ends fd)
    then show ?thesis using assms(2) by (auto simp: served_in_order_def distinct_remove1 set_remove1_eq dest: notin_set_remove1)
  qed (use assms(2) p in \<open>auto simp: served_in_order_def\<close>)
qed

lemma prompt_runs: "prompt_step\<^sup>*\<^sup>* (accept_init g) s \<Longrightarrow> served_in_order s"
proof (induction rule: rtranclp_induct)
  case base
  show ?case by (simp add: accept_init_def served_in_order_def)
qed (rule prompt_step_order)

lemma accept_race_run:
  assumes "0 \<le> a" "0 \<le> b" "a \<noteq> b"
  shows "\<exists>s. accept_step\<^sup>*\<^sup>* (accept_init g) s \<and> accepted s = [a, b] \<and> starting s = 0 \<and> active s = [b, b]"
    and "\<exists>s. accept_step\<^sup>*\<^sup>* (accept_init g) s \<and> accepted s = [a] \<and> starting s = 0 \<and> active s = [-1]"
proof -
  let ?s1 = "(accept_init g)\<lparr>sockfd := a, open_fds := {a}, starting := 1, accepted := [a]\<rparr>"
  let ?s2 = "?s1\<lparr>sockfd := b, open_fds := {b, a}, starting := 2, accepted := [a, b]\<rparr>"
  let ?s3 = "?s2\<lparr>starting := 1, active := [b], served := [b]\<rparr>"
  let ?s4 = "?s3\<lparr>starting := 0, active := [b, b], served := [b, b]\<rparr>"
  let ?e2 = "?s1\<lparr>sockfd := -1\<rparr>"
  let ?e3 = "?e2\<lparr>starting := 0, active := [-1], served := [-1]\<rparr>"
  have 1: "accept_step (accept_init g) ?s1" using assms accept_step.accept [of "accept_init g" a] by (simp add: accept_init_def)
  have "accept_step ?s1 ?s2" "accept_step ?s2 ?s3" "accept_step ?s3 ?s4"
    using assms accept_step.accept [of ?s1 b] accept_step.handler_starts [of ?s2] accept_step.handler_starts [of ?s3]
    by (simp_all add: accept_init_def numeral_2_eq_2)
  with 1 have "accept_step\<^sup>*\<^sup>* (accept_init g) ?s4" by (meson converse_rtranclp_into_rtranclp rtranclp.rtrancl_refl)
  then show "\<exists>s. accept_step\<^sup>*\<^sup>* (accept_init g) s \<and> accepted s = [a, b] \<and> starting s = 0 \<and> active s = [b, b]" by (intro exI [of _ ?s4]) simp
  have "accept_step ?s1 ?e2" "accept_step ?e2 ?e3"
    using accept_step.accept_error [of ?s1] accept_step.handler_starts [of ?e2] by (simp_all add: accept_init_def)
  with 1 have "accept_step\<^sup>*\<^sup>* (accept_init g) ?e3" by (meson converse_rtranclp_into_rtranclp rtranclp.rtrancl_refl)
  then show "\<exists>s. accept_step\<^sup>*\<^sup>* (accept_init g) s \<and> accepted s = [a] \<and> starting s = 0 \<and> active s = [-1]" by (intro exI [of _ ?e3]) simp
qed

section \<open>Properties\<close>

text \<open>
  C7. What a session does is determined by its requests and the scanner alone. Whatever the database and the transactions are when
  it starts, and whatever its reads return (other sessions being silent meanwhile), its replies and its end are those of \<open>session_replies\<close>: a read error, the end of
  the connection, the request \<open>exit\<close> or a failed write closes it; a request that fills the buffer without a NUL runs the scanner over its
  end; \<open>help\<close> gets the help text, the ends of transactions, empty statements and syntax errors get a
  single NUL; every other statement ends the process of the server. The database is never touched, apart from the reply buffer, and the session never gets a transaction.
\<close>

theorem session_matches_reference:
  "\<exists>c y. client_handler th n mem es (sv, INVALID_TXN_ID) =
    (session_replies (srv_yy sv) es, (sv\<lparr>srv_sm := (srv_sm sv)\<lparr>sm_ctx := c\<rparr>, srv_yy := y\<rparr>, INVALID_TXN_ID))"
  by (rule session_refines)

text \<open>A request for help, one with a statement, and one that is never read.\<close>

definition demo_server :: server where
  "demo_server = \<lparr>srv_sm = \<lparr>sm_bpm = demo_pool, sm_db = \<lparr>db_name = ''db'', db_tabs = []\<rparr>, sm_fhs = Map.empty, sm_ihs = Map.empty, sm_ctx = fresh_ctx\<rparr>,
     srv_tm = TransactionManager_init TWO_PHASE_LOCKING, srv_yy = INITIAL\<rparr>"

lemma yyparse_show: "yyparse INITIAL ''SHOW TABLES ; '' = (Some (Some ShowTables), INITIAL)"
  using yyparse_text [OF nt_start.intros(1) [OF sql_derivation, of ShowTables], of "[]"] by (simp add: tokens_text_def keyword_tokens_def)

theorem session_matches_reference_witness:
  "\<exists>c y. client_handler 1 0 [] [(Received (client_send ''help''), True), (Received (client_send ''SHOW TABLES ; ''), True), (Received ''exit'', True)] (demo_server, INVALID_TXN_ID) =
    (([help_info @ [CHR 0x00]], Crashed UndefinedBehaviour), (demo_server\<lparr>srv_sm := (srv_sm demo_server)\<lparr>sm_ctx := c\<rparr>, srv_yy := y\<rparr>, INVALID_TXN_ID))"
proof -
  have "session_replies (srv_yy demo_server) [(Received (client_send ''help''), True), (Received (client_send ''SHOW TABLES ; ''), True), (Received ''exit'', True)] =
    ([help_info @ [CHR 0x00]], Crashed UndefinedBehaviour)"
    by (simp add: demo_server_def takeWhile_client_send yyparse_help yyparse_show client_send_def)
  then show ?thesis
    using session_matches_reference [of 1 0 "[]" "[(Received (client_send ''help''), True), (Received (client_send ''SHOW TABLES ; ''), True), (Received ''exit'', True)]" demo_server]
    by (simp del: client_handler.simps session_replies.simps)
qed

text \<open>What the client reads after its first request: the first reply, or the end of the connection.\<close>

definition first_reply :: "(string list \<times> session_end) \<times> server \<times> txn_id_t \<Rightarrow> read_result" where
  "first_reply x = (case fst (fst x) of [] \<Rightarrow> ReadEOF | rep # reps \<Rightarrow> Received rep)"

text \<open>
  C24. All that the user of the client sees is the help text or nothing. Take a line that the client sends (not empty, none of its commands to
  leave, no NUL in it, and shorter than the server's buffer) as the first one, the client's buffer filled with any one byte, and a session that starts with the scanner in any
  condition. If the parser makes \<open>help\<close> of the line, the client prints the help text; if it makes the end of a transaction or an empty
  statement of it, or finds a syntax error, the client prints nothing; every other statement ends the server, and with it the connection and the client.
\<close>

theorem user_sees_help_or_nothing:
  assumes "cmd \<noteq> []" "\<not> is_exit_command cmd" "CHR 0x00 \<notin> set cmd" "length cmd < BUFFER_LENGTH"
  shows "let res = fst (yyparse (srv_yy sv) cmd) in client_loop (replicate MAX_MEM_BUFFER_SIZE b)
      [(Some cmd, True, first_reply (client_handler th n mem [(Received (client_send cmd), True)] (sv, INVALID_TXN_ID)))] =
    (if res = Some (Some Help) then (([client_send cmd], [help_info]), Prompt)
     else if res \<in> {None, Some None} \<union> Some ` Some ` {TxnAbort, TxnCommit, TxnRollback} then (([client_send cmd], [[]]), Prompt)
     else (([client_send cmd], []), Bye))"
proof -
  obtain res sc where y: "yyparse (srv_yy sv) cmd = (res, sc)" by (metis surj_pair)
  have req: "takeWhile (\<lambda>c. c \<noteq> CHR 0x00) (client_send cmd) = cmd" "CHR 0x00 \<in> set (client_send cmd)" "cmd \<noteq> ''exit''"
    using assms(2,3) takeWhile_client_send by (auto simp: client_send_def is_exit_command_def)
  have "session_replies (srv_yy sv) [(Received (client_send cmd), True)] =
    (case request_reply res of None \<Rightarrow> ([], Crashed UndefinedBehaviour) | Some rep \<Rightarrow> ([rep], Waiting))"
    using req y by (simp split: option.split)
  with session_refines [of th n mem "[(Received (client_send cmd), True)]" sv]
  have first: "first_reply (client_handler th n mem [(Received (client_send cmd), True)] (sv, INVALID_TXN_ID)) =
    (case request_reply res of None \<Rightarrow> ReadEOF | Some rep \<Rightarrow> Received rep)"
    by (auto simp: first_reply_def split: option.split)
  have "show_reply (wr 0 [CHR 0x00] (replicate MAX_MEM_BUFFER_SIZE b)) (length [CHR 0x00]) 0 = Inr []"
    by (subst show_reply_received) (simp_all add: MAX_MEM_BUFFER_SIZE_def)
  then show ?thesis
    unfolding first y using assms(1,2) help_buffer [of b]
    by (cases res rule: request_reply.cases) (auto simp: Let_def)
qed

theorem user_sees_help_or_nothing_witness:
  "client_loop (replicate MAX_MEM_BUFFER_SIZE CHR ''x'')
     [(Some ''help'', True, first_reply (client_handler 1 0 [] [(Received (client_send ''help''), True)] (demo_server, INVALID_TXN_ID)))] =
       (([client_send ''help''], [help_info]), Prompt) \<and>
   client_loop (replicate MAX_MEM_BUFFER_SIZE CHR ''x'')
     [(Some ''SHOW TABLES ; '', True, first_reply (client_handler 1 0 [] [(Received (client_send ''SHOW TABLES ; ''), True)] (demo_server, INVALID_TXN_ID)))] =
       (([client_send ''SHOW TABLES ; ''], []), Bye)"
  using user_sees_help_or_nothing [of "''help''" demo_server "CHR ''x''" 1 0 "[]"] user_sees_help_or_nothing [of "''SHOW TABLES ; ''" demo_server "CHR ''x''" 1 0 "[]"]
  by (simp add: is_exit_command_def BUFFER_LENGTH_def yyparse_help yyparse_show demo_server_def del: client_loop.simps client_handler.simps)

text \<open>
  C23. What the client prints of a reply: the bytes before the first NUL. Without a NUL it also looks at the byte behind the
  reply, which is whatever the buffer held there, and runs over the end of the buffer if the reply fills it.
\<close>

theorem client_prints_reply:
  assumes "command \<noteq> []" "\<not> is_exit_command command" "length rs \<le> length buf"
  shows "client_loop buf ((Some command, True, Received rs) # es) =
    (case printed rs (if length rs < length buf then Some (buf ! length rs) else None) of
       Inl e \<Rightarrow> (([client_send command], []), ClientFault e)
     | Inr txt \<Rightarrow> (let ((out, shown), fin) = client_loop (replicate MAX_MEM_BUFFER_SIZE CHR 0x00) es
                  in ((client_send command # out, txt # shown), fin)))"
  using assms(1,2) show_reply_received [OF assms(3)] by (simp del: printed.simps split: sum.split)

theorem client_prints_reply_witness:
  "client_loop (replicate MAX_MEM_BUFFER_SIZE CHR ''x'') [(Some ''show tables;'', True, Received ''ok'')] =
     (([client_send ''show tables;''], [''okx'']), Prompt) \<and>
   client_loop (replicate MAX_MEM_BUFFER_SIZE CHR 0x00) [(Some ''desc t;'', True, Received (replicate MAX_MEM_BUFFER_SIZE CHR ''-''))] =
     (([client_send ''desc t;''], []), ClientFault UndefinedBehaviour)"
  using client_prints_reply [of "''show tables;''" "''ok''" "replicate MAX_MEM_BUFFER_SIZE CHR ''x''" "[]"]
    client_prints_reply [of "''desc t;''" "replicate MAX_MEM_BUFFER_SIZE CHR ''-''" "replicate MAX_MEM_BUFFER_SIZE CHR 0x00" "[]"]
  by (simp add: is_exit_command_def MAX_MEM_BUFFER_SIZE_def del: client_loop.simps(3)) 

text \<open>
  C22. As long as \<open>accept\<close> never returns, with a connection or with an error, while a thread that has been created has not read its descriptor yet,
  the connections are served in the order in which they were accepted, each once (the last one as soon as its thread has started), and no two
  threads have the same descriptor at a time, although descriptors of closed connections are given again. Nothing in the code makes the threads start in time: there
  are runs in which both threads serve the second of two connections, and none the first; and runs in which \<open>accept\<close> fails and the thread of an
  accepted connection is left with the descriptor -1.
\<close>

theorem accept_loop_threads:
  "(prompt_step\<^sup>*\<^sup>* (accept_init g) s \<longrightarrow>
     served s @ replicate (starting s) (sockfd s) = accepted s \<and> starting s \<le> 1 \<and> distinct (active s)) \<and>
   (0 \<le> a \<and> 0 \<le> b \<and> a \<noteq> b \<longrightarrow>
     (\<exists>s. accept_step\<^sup>*\<^sup>* (accept_init g) s \<and> accepted s = [a, b] \<and> starting s = 0 \<and> active s = [b, b]) \<and>
     (\<exists>s. accept_step\<^sup>*\<^sup>* (accept_init g) s \<and> accepted s = [a] \<and> starting s = 0 \<and> active s = [-1]))"
  using prompt_runs [of g s] accept_race_run [of a b g] by (auto simp: served_in_order_def)

text \<open>A run in which descriptor 4 is given twice, and the two races.\<close>

theorem accept_loop_threads_witness:
  "\<exists>s t u. prompt_step\<^sup>*\<^sup>* (accept_init 0) s \<and> accepted s = [4, 4] \<and> served s = [4] \<and> starting s = 1 \<and> sockfd s = 4 \<and>
     accept_step\<^sup>*\<^sup>* (accept_init 0) t \<and> accepted t = [4, 5] \<and> starting t = 0 \<and> active t = [5, 5] \<and>
     accept_step\<^sup>*\<^sup>* (accept_init 0) u \<and> accepted u = [4] \<and> starting u = 0 \<and> active u = [-1]"
proof -
  let ?s1 = "(accept_init 0)\<lparr>sockfd := 4, open_fds := {4}, starting := 1, accepted := [4]\<rparr>"
  let ?s2 = "?s1\<lparr>starting := 0, active := [4], served := [4]\<rparr>"
  let ?s3 = "?s2\<lparr>active := [], open_fds := {}\<rparr>"
  let ?s4 = "?s3\<lparr>sockfd := 4, open_fds := {4}, starting := 1, accepted := [4, 4]\<rparr>"
  have "prompt_step (accept_init 0) ?s1" "prompt_step ?s1 ?s2" "prompt_step ?s2 ?s3" "prompt_step ?s3 ?s4"
    using accept_step.accept [of "accept_init 0" 4] accept_step.handler_starts [of ?s1] accept_step.handler_ends [of 4 ?s2] accept_step.accept [of ?s3 4]
    by (simp_all add: prompt_step_def accept_init_def)
  then have r: "prompt_step\<^sup>*\<^sup>* (accept_init 0) ?s4" by (meson converse_rtranclp_into_rtranclp rtranclp.rtrancl_refl)
  then have "served ?s4 @ replicate (starting ?s4) (sockfd ?s4) = accepted ?s4" using accept_loop_threads [of 0 ?s4 4 5, THEN conjunct1] by blast
  then have "served ?s4 = [4]" by simp
  moreover obtain t u where "accept_step\<^sup>*\<^sup>* (accept_init 0) t" "accepted t = [4, 5]" "starting t = 0" "active t = [5, 5]"
    "accept_step\<^sup>*\<^sup>* (accept_init 0) u" "accepted u = [4]" "starting u = 0" "active u = [-1]"
    using accept_loop_threads [of 0 ?s4 4 5, THEN conjunct2] by auto
  ultimately show ?thesis using r by (intro exI [of _ ?s4] exI [of _ t] exI [of _ u]) simp
qed

end
