(* ===== verification/Spec2Isabelle.thy ===== *)
theory Spec2Isabelle
  imports Ix_Root_Split Rwlatch Log_Manager Executors_Spec Ql_Spec Interp_Spec Grammar_Spec Parser_Spec Server_Spec
begin

text \<open>
  RUCBase is a small relational database in C++. A client sends a statement to the server (\<open>src/rucbase_client\<close>,
  \<open>src/src/rucbase.cpp\<close>), where it is parsed into a tree (\<open>src/src/parser\<close>); the interpreter (\<open>src/src/interp.h\<close>) runs it in the transaction of the session, the catalogue
  (\<open>src/src/system\<close>) and the query manager (\<open>src/src/execution\<close>) carry it out on record files
  (\<open>src/src/record\<close>) and B+ tree indexes (\<open>src/src/index\<close>), which read and write pages through a buffer pool
  (\<open>src/src/storage\<close>, \<open>src/src/replacer\<close>) on top of a disk manager. Transactions, locks, the log and recovery
  (\<open>src/src/transaction\<close>, \<open>src/src/recovery\<close>) are in part stubs. This development models these parts as
  functions on explicit states and proves what makes them correct, or where they are not.

  \<^bold>\<open>Conventions.\<close> An operation is a program \<open>'s \<Rightarrow> (fault + 'a) \<times> 's\<close> (\<open>Prelude\<close>): it returns a value or a fault
  together with the state it has reached, also when it throws. A \<open>fault\<close> (\<open>Defs\<close>) is an exception of the
  code, one of the standard library, a failed assertion, undefined behaviour (a null pointer, an
  uninitialised value or an access outside a buffer), or the end of the fuel of a loop that the code
  does not bound. Pages and records are lists of bytes with the offsets of the code; C integers are \<open>int\<close>
  with the wrap-around written out where the code can reach it, and words where bits matter. Pointers to
  pages are frame numbers. Operations that the code runs under a latch are one step each. The
  operating system's files are the state of \<open>Posix\<close>; a full disk and hardware errors are not modelled.

  \<^bold>\<open>Theories, from the bottom.\<close>

  \<^item> \<open>Prelude\<close>, \<open>Defs\<close>, \<open>Posix\<close>: buffers, 32-bit integers, programs; constants, errors and their messages
    (\<open>defs.h\<close>, \<open>errors.h\<close>, \<open>common/config.h\<close>); the system calls.
  \<^item> \<open>Disk_Manager\<close> (\<open>storage/disk_manager.*\<close>): pages, page numbers, open files and the log file. The tables of
    open files stay consistent through every call; pages and log entries are read back as written;
    page numbers wrap at 32 bits. The locale \<open>page_device\<close> is what the buffer pool relies on.
  \<^item> \<open>Replacer\<close> (\<open>replacer/\<close>): the list and hash table of \<open>LRUReplacer\<close> refine a queue; a pinned frame is never a
    victim. The locale \<open>replacer\<close> is its contract. \<open>ClockReplacer\<close> is a stub.
  \<^item> \<open>Buffer_Pool\<close> (\<open>storage/buffer_pool_manager.*\<close>, \<open>storage/page.h\<close>): \<open>bp_inv\<close> holds in every reachable state; the
    pool is transparent and loses no update; the locale \<open>page_cache\<close> has these laws for the clients, and
    \<open>Page_Access\<close> reduces accesses to a page to them. One theorem shows where the code goes wrong: a failed
    fetch stays in the table.
  \<^item> \<open>Bitmap\<close>, \<open>Record_File\<close>, \<open>Record_Spec\<close>, \<open>Record_Scan\<close> (\<open>record/\<close>): the bitmap is a set, the layout fits, a record
    file refines a map from identifiers to records (locales \<open>record_store\<close> and, in \<open>Simulation\<close>, \<open>simulation\<close>),
    and a scan enumerates it; a new file is empty if the pool has no page left under its descriptor, which closing a file does not see to.
  \<^item> \<open>Ix_Node\<close>, \<open>Ix_Node_Spec\<close>, \<open>Ix_Index\<close>, \<open>Ix_Spec\<close>, \<open>Ix_Split\<close>, \<open>Ix_Root_Split\<close> (\<open>index/\<close>): node pages as sorted lists of entries, the binary
    searches, the tree operations. An index that is one leaf refines a map (locale \<open>ordered_index\<close>), and
    splitting a leaf keeps all entries and the list of leaves. An insertion that fills the root leaf leaves, if the page numbers
    that it gets are fresh, a tree of two levels with all entries, but the search goes to the wrong child of it, and the last deletion
    loses the root.
  \<^item> \<open>Record_Printer\<close> (\<open>record_printer.h\<close>, \<open>common/context.h\<close>), \<open>Sm_Meta\<close>, \<open>Sm_Manager\<close> (\<open>system/\<close>): the text of results, the
    metadata with its text format, which is read back as written, and the operations on tables.
  \<^item> \<open>Rwlatch\<close> (\<open>common/rwlatch.*\<close>): a step relation interleaves the calls of any number of threads, with
    notifications and spurious wake-ups; mutual exclusion, and the latch never gets stuck.
  \<^item> \<open>Txn\<close> (\<open>transaction/\<close>), \<open>Log_Manager\<close> (\<open>recovery/\<close>): transactions, locks and log records as far as the code goes.
  \<^item> \<open>Float_Text\<close>, \<open>Ast\<close> (\<open>parser/ast.h\<close>, \<open>parser/ast_printer.h\<close>): syntax trees and their printer; the decimal text
    of a \<open>float\<close>.
  \<^item> \<open>Conditions\<close>, \<open>Conditions_Spec\<close>, \<open>Executors\<close>, \<open>Executors_Spec\<close> (\<open>execution/executor_*.h\<close>): values, conditions and query
    plans. The conditions that a nested loop feeds with an outer record say of the inner record what the query says of
    both; plans are well typed; a sequential scan reads every record, evaluates no condition and ends.
  \<^item> \<open>Ql\<close>, \<open>Ql_Spec\<close> (\<open>execution/execution_manager.*\<close>): the checks of statements, the planning and the output of a
    selection. Every condition of a where clause is taken at the first table whose scan would accept it, and the loop stops in
    undefined behaviour at a comparison that an index could serve.
  \<^item> \<open>Interp\<close>, \<open>Interp_Spec\<close> (\<open>interp.h\<close>, \<open>execution/interp_test.h\<close>, \<open>execution/exec_sql.cpp\<close>): no session ever
    has a transaction, and what every statement comes to in it.
  \<^item> \<open>Lexer\<close>, \<open>Grammar\<close>, \<open>Parser\<close> (\<open>parser/lex.l\<close>, \<open>parser/yacc.y\<close>): the rules of the scanner with the longest match and the start
    condition, the grammar as one predicate per nonterminal, and a parser for it. \<open>Grammar_Spec\<close> proves that the parser finds
    exactly what the grammar derives (locales \<open>recogniser\<close> and \<open>separated\<close>, for items and for lists of them), and that the grammar is
    unambiguous; \<open>Parser_Spec\<close> that statements written as SQL are read back, and what a comment that is not closed does.
  \<^item> \<open>Server\<close>, \<open>Server_Spec\<close> (\<open>rucbase.cpp\<close>, \<open>rucbase_client/main.cpp\<close>): sessions, the start of the server, its accept loop as a
    step relation, and the client. The replies of a session are a function of its requests and the scanner; what the client
    prints; which connections the threads serve.

  \<^bold>\<open>Fuel.\<close> Loops over the tree of an index, over the records of a plan and over the records that go into a new
  index take a bound, because the code follows page numbers in the pages; the theorems about them give
  a bound that is enough (one level for an index of one leaf, two for a root that has grown, one turn more than there are records for
  a scan). All other loops are total functions with termination proofs.

  \<^bold>\<open>Not modelled.\<close> The tables and skeletons that flex and bison generate (\<open>parser/lex.yy.*\<close>, \<open>parser/yacc.tab.*\<close>): the model is of the two files
  they come from. Source locations and text on the terminal of the server, logging macros, the tests and GoogleTest. The sockets are
  sequences of results of system calls, and a request is one step, although nothing keeps two threads from being in the parser
  at the same time. \<open>chdir\<close> and \<open>system\<close> are parameters.
  Memory that is leaked, and the copies that assignments of records make, have no effect in the model.
\<close>

end
